(* ===== verification/MSF_Prelude.thy ===== *)
theory MSF_Prelude
  imports Complex_Main "HOL-Library.AList"
begin

text \<open>
  Shared vocabulary of the development: Python's dynamic values, exceptions as values of a
  sum type, insertion-ordered dictionaries, the string methods the services call, and the
  decimal formatting of numbers.

  Conventions used by every other theory:
  \<^item> a Python \<open>str\<close> is a \<open>string\<close>, one \<open>char\<close> for each code point below 256;
  \<^item> a Python \<open>float\<close> is a value of \<open>flt\<close>: a rational number, or one of the
    special values. Arithmetic on the finite values is exact: the rounding of IEEE doubles
    is not modelled;
  \<^item> a Python \<open>dict\<close> is an association list in insertion order (\<open>AList.update\<close>
    overwrites in place and appends a new key at the end, as \<open>d[k] = v\<close> does);
  \<^item> a call that may raise returns \<open>exn + 'a\<close>, with \<open>Inl\<close> for the exception.
\<close>

named_theorems res_simps "rewriting of the error-passing combinators"
named_theorems dict_simps "rewriting of insertion-ordered dictionaries"

section \<open>Exceptions as values\<close>

text \<open>\<open>HttpExc\<close> is FastAPI's \<open>HTTPException(status, detail)\<close>; \<open>PyExc\<close> is any other
  exception, by class name and message.\<close>

datatype exn = HttpExc int string | PyExc string string

fun exn_str :: "exn \<Rightarrow> string" where
  "exn_str (HttpExc _ d) = d"
| "exn_str (PyExc _ m) = m"

type_synonym 'a res = "exn + 'a"

definition bindE :: "'a res \<Rightarrow> ('a \<Rightarrow> 'b res) \<Rightarrow> 'b res" where
  "bindE m f = (case m of Inl e \<Rightarrow> Inl e | Inr v \<Rightarrow> f v)"

lemma bindE_simps [simp, res_simps]:
  "bindE (Inl e) f = Inl e" "bindE (Inr v) f = f v"
  by (simp_all add: bindE_def)

lemma bindE_Inr_iff [res_simps]:
  "bindE m f = Inr w \<longleftrightarrow> (\<exists>v. m = Inr v \<and> f v = Inr w)"
  by (cases m) simp_all

lemma bindE_Inl_iff [res_simps]:
  "bindE m f = Inl e \<longleftrightarrow> m = Inl e \<or> (\<exists>v. m = Inr v \<and> f v = Inl e)"
  by (cases m) simp_all

text \<open>Running an operation over a list stops at the first exception.\<close>

fun mapE :: "('a \<Rightarrow> 'b res) \<Rightarrow> 'a list \<Rightarrow> 'b list res" where
  "mapE f [] = Inr []"
| "mapE f (x # xs) = bindE (f x) (\<lambda>y. bindE (mapE f xs) (\<lambda>ys. Inr (y # ys)))"

lemma mapE_length: "mapE f xs = Inr ys \<Longrightarrow> length ys = length xs"
  by (induction xs arbitrary: ys) (auto simp: res_simps)

section \<open>Numbers\<close>

text \<open>\<open>Inf True\<close> is negative infinity.\<close>

datatype flt = Fin rat | Inf bool | NaN

definition round_half_even :: "rat \<Rightarrow> int" where
  "round_half_even r =
     (let f = \<lfloor>r\<rfloor>; d = r - of_int f
      in if d < 1 / 2 then f else if 1 / 2 < d then f + 1 else if even f then f else f + 1)"

lemma round_half_even_error: "\<bar>r - of_int (round_half_even r)\<bar> \<le> 1 / 2"
proof -
  have lo: "of_int \<lfloor>r\<rfloor> \<le> r" by (rule of_int_floor_le)
  have hi: "r < of_int \<lfloor>r\<rfloor> + 1" by linarith
  show ?thesis
    using lo hi unfolding round_half_even_def Let_def by (simp add: abs_if del: of_int_floor_le)
qed

lemma round_half_even_ge:
  assumes "of_int k \<le> r"
  shows "k \<le> round_half_even r"
proof -
  have "k \<le> \<lfloor>r\<rfloor>" using assms by (simp add: le_floor_iff)
  then show ?thesis unfolding round_half_even_def Let_def by auto
qed

lemma round_half_even_of_int [simp]: "round_half_even (of_int i) = i"
  by (simp add: round_half_even_def)

text \<open>Python's \<open>round(x, n)\<close>.\<close>

definition round_dec :: "nat \<Rightarrow> rat \<Rightarrow> rat" where
  "round_dec n r = of_int (round_half_even (r * 10 ^ n)) / 10 ^ n"

lemma round_dec_mono_ge:
  assumes "of_int k \<le> r"
  shows "of_int k \<le> round_dec n r"
proof -
  have le: "of_int (k * 10 ^ n) \<le> r * 10 ^ n"
    using assms by (simp add: mult_right_mono)
  have "k * 10 ^ n \<le> round_half_even (r * 10 ^ n)"
    using round_half_even_ge [OF le] .
  then have "(of_int (k * 10 ^ n) :: rat) \<le> of_int (round_half_even (r * 10 ^ n))"
    by (simp only: of_int_le_iff)
  then show ?thesis
    by (simp add: round_dec_def field_simps)
qed

section \<open>Decimal and hexadecimal text\<close>

definition digit_char :: "nat \<Rightarrow> char" where
  "digit_char d = char_of (48 + d)"

fun show_nat :: "nat \<Rightarrow> string" where
  "show_nat n = (if n < 10 then [digit_char n] else show_nat (n div 10) @ [digit_char (n mod 10)])"

declare show_nat.simps [simp del]

definition show_int :: "int \<Rightarrow> string" where
  "show_int i = (if i < 0 then ''-'' @ show_nat (nat (- i)) else show_nat (nat i))"

definition pad_left :: "nat \<Rightarrow> char \<Rightarrow> string \<Rightarrow> string" where
  "pad_left n c s = replicate (n - length s) c @ s"

text \<open>Fixed-point formatting, \<open>f"{x:.nf}"\<close> for \<open>n > 0\<close>: rounded half to even, with the
  sign of \<open>x\<close> even where the digits round to zero.\<close>

definition fmt_fixed :: "nat \<Rightarrow> rat \<Rightarrow> string" where
  "fmt_fixed n r =
     (let m = nat (round_half_even (\<bar>r\<bar> * 10 ^ n))
      in (if r < 0 then ''-'' else '''') @ show_nat (m div 10 ^ n) @ ''.''
         @ pad_left n (CHR ''0'') (show_nat (m mod 10 ^ n)))"

definition is_digit :: "char \<Rightarrow> bool" where
  "is_digit c \<longleftrightarrow> 48 \<le> (of_char c :: nat) \<and> (of_char c :: nat) \<le> 57"

definition digit_val :: "char \<Rightarrow> nat" where
  "digit_val c = of_char c - 48"

definition all_digits :: "string \<Rightarrow> bool" where
  "all_digits s \<longleftrightarrow> s \<noteq> [] \<and> list_all is_digit s"

definition read_nat :: "string \<Rightarrow> nat" where
  "read_nat s = fold (\<lambda>c n. 10 * n + digit_val c) s 0"

lemma digit_char_val [simp]:
  assumes "d < 10"
  shows "digit_val (digit_char d) = d" "is_digit (digit_char d)"
  using assms by (simp_all add: digit_char_def digit_val_def is_digit_def)

lemma fold_digits_append:
  "fold (\<lambda>c n. 10 * n + digit_val c) (s @ [c]) k
     = 10 * fold (\<lambda>c n. 10 * n + digit_val c) s k + digit_val c"
  by simp

lemma read_show_nat [simp]: "read_nat (show_nat n) = n"
proof (induction n rule: show_nat.induct)
  case (1 n)
  show ?case
  proof (cases "n < 10")
    case True
    then show ?thesis by (simp add: show_nat.simps [of n] read_nat_def)
  next
    case False
    with 1 have "read_nat (show_nat (n div 10)) = n div 10" by simp
    with False show ?thesis
      by (simp add: show_nat.simps [of n] read_nat_def fold_digits_append)
  qed
qed

lemma show_nat_digits [simp]: "list_all is_digit (show_nat n)"
  by (induction n rule: show_nat.induct) (subst show_nat.simps, simp)

lemma show_nat_nonempty [simp]: "show_nat n \<noteq> []"
  by (subst show_nat.simps) simp

lemma length_show_nat: "0 < k \<Longrightarrow> n < 10 ^ k \<Longrightarrow> length (show_nat n) \<le> k"
proof (induction n arbitrary: k rule: show_nat.induct)
  case (1 n)
  show ?case
  proof (cases "n < 10")
    case True
    with 1 show ?thesis by (simp add: show_nat.simps [of n])
  next
    case False
    with 1 obtain j where k: "k = Suc j" "0 < j" by (cases k; cases "k = 1") auto
    with 1(3) have "n div 10 < 10 ^ j" by simp
    with 1(1) [OF False k(2)] False k(1) show ?thesis by (simp add: show_nat.simps [of n])
  qed
qed

section \<open>String methods\<close>

text \<open>The Latin-1 part of Python's whitespace.\<close>

definition is_space :: "char \<Rightarrow> bool" where
  "is_space c \<longleftrightarrow> (of_char c :: nat) \<in> {9, 10, 11, 12, 13, 28, 29, 30, 31, 32, 133, 160}"

definition lstrip :: "string \<Rightarrow> string" where
  "lstrip s = dropWhile is_space s"

definition rstrip_chars :: "char list \<Rightarrow> string \<Rightarrow> string" where
  "rstrip_chars cs s = rev (dropWhile (\<lambda>c. c \<in> set cs) (rev s))"

definition strip :: "string \<Rightarrow> string" where
  "strip s = rev (dropWhile is_space (rev (lstrip s)))"

definition starts_with :: "string \<Rightarrow> string \<Rightarrow> bool" where
  "starts_with p s \<longleftrightarrow> take (length p) s = p"

text \<open>\<open>s.split(c)\<close> for a one-character separator.\<close>

fun split_on :: "char \<Rightarrow> string \<Rightarrow> string list" where
  "split_on c [] = [[]]"
| "split_on c (x # xs) =
     (if x = c then [] # split_on c xs
      else case split_on c xs of [] \<Rightarrow> [[x]] | w # ws \<Rightarrow> (x # w) # ws)"

fun join_with :: "string \<Rightarrow> string list \<Rightarrow> string" where
  "join_with sep [] = []"
| "join_with sep [w] = w"
| "join_with sep (w # ws) = w @ sep @ join_with sep ws"

lemma split_on_nonempty [simp]: "split_on c s \<noteq> []"
  by (induction s) (auto split: list.splits)

lemma split_on_clean: "w \<in> set (split_on c s) \<Longrightarrow> c \<notin> set w"
  by (induction s arbitrary: w) (auto split: list.splits if_splits)

lemma join_split [simp]: "join_with [c] (split_on c s) = s"
proof (induction s)
  case (Cons x xs)
  then show ?case
    by (cases "split_on c xs"; cases "tl (split_on c xs)") auto
qed simp

lemma split_append_clean:
  assumes "c \<notin> set w"
  shows "split_on c (w @ c # s) = w # split_on c s"
  using assms by (induction w) auto

lemma split_clean: "c \<notin> set w \<Longrightarrow> split_on c w = [w]"
  by (induction w) auto

lemma split_join:
  assumes "ws \<noteq> []" "\<forall>w \<in> set ws. c \<notin> set w"
  shows "split_on c (join_with [c] ws) = ws"
  using assms by (induction "[c]" ws rule: join_with.induct) (auto simp: split_append_clean split_clean)

text \<open>The text before and after the first occurrence of a character (\<open>str.partition\<close>); the
  second component is \<open>None\<close> where it does not occur.\<close>

fun cut_at :: "char \<Rightarrow> string \<Rightarrow> string \<times> string option" where
  "cut_at c [] = ([], None)"
| "cut_at c (x # xs) =
     (if x = c then ([], Some xs) else (let (a, b) = cut_at c xs in (x # a, b)))"

lemma cut_at_SomeD: "cut_at c s = (a, Some b) \<Longrightarrow> s = a @ c # b \<and> c \<notin> set a"
  by (induction s arbitrary: a) (auto split: prod.splits if_splits)

lemma cut_at_append [simp]: "c \<notin> set a \<Longrightarrow> cut_at c (a @ c # b) = (a, Some b)"
  by (induction a) auto

lemma cut_at_None: "cut_at c s = (a, None) \<Longrightarrow> a = s \<and> c \<notin> set s"
  by (induction s arbitrary: a) (auto split: prod.splits if_splits)

text \<open>Substring search.\<close>

fun find_sub :: "string \<Rightarrow> string \<Rightarrow> nat option" where
  "find_sub p [] = (if p = [] then Some 0 else None)"
| "find_sub p (x # xs) =
     (if starts_with p (x # xs) then Some 0 else map_option Suc (find_sub p xs))"

lemma find_sub_Some: "find_sub p s = Some i \<Longrightarrow> starts_with p (drop i s) \<and> i \<le> length s"
proof (induction s arbitrary: i)
  case (Cons x xs)
  then show ?case by (cases "starts_with p (x # xs)") auto
qed (auto simp: starts_with_def split: if_splits)

section \<open>Insertion-ordered dictionaries\<close>

type_synonym ('k, 'v) odict = "('k \<times> 'v) list"

definition dict_update :: "('k, 'v) odict \<Rightarrow> ('k, 'v) odict \<Rightarrow> ('k, 'v) odict" where
  "dict_update d e = fold (\<lambda>(k, v). AList.update k v) e d"

text \<open>The interface the services rely on: what a lookup returns after a store, a deletion or
  an update with a second dictionary, and that keys stay unique.\<close>

locale dictionary =
  fixes look :: "'d \<Rightarrow> 'k \<Rightarrow> 'v option"
    and store :: "'k \<Rightarrow> 'v \<Rightarrow> 'd \<Rightarrow> 'd"
    and remove_key :: "'k \<Rightarrow> 'd \<Rightarrow> 'd"
    and key_list :: "'d \<Rightarrow> 'k list"
  assumes look_store: "look (store k v d) k' = (if k' = k then Some v else look d k')"
    and look_remove: "look (remove_key k d) k' = (if k' = k then None else look d k')"
    and keys_look: "k \<in> set (key_list d) \<longleftrightarrow> look d k \<noteq> None"
    and distinct_store: "distinct (key_list d) \<Longrightarrow> distinct (key_list (store k v d))"
begin

lemma store_same: "look (store k v d) k = Some v"
  by (simp add: look_store)

lemma store_other: "k' \<noteq> k \<Longrightarrow> look (store k v d) k' = look d k'"
  by (simp add: look_store)

lemma keys_store: "set (key_list (store k v d)) = insert k (set (key_list d))"
  by (auto simp: keys_look look_store split: if_splits)

lemma keys_remove: "set (key_list (remove_key k d)) = set (key_list d) - {k}"
  by (auto simp: keys_look look_remove split: if_splits)

lemma look_fold_store:
  "look (fold (\<lambda>(k, v). store k v) es d) k'
     = (case map_of (rev es) k' of Some v \<Rightarrow> Some v | None \<Rightarrow> look d k')"
  by (induction es arbitrary: d)
     (auto simp: look_store map_add_def split: option.splits prod.splits)

lemma distinct_fold_store:
  "distinct (key_list d) \<Longrightarrow> distinct (key_list (fold (\<lambda>(k, v). store k v) es d))"
  by (induction es arbitrary: d) (auto simp: distinct_store)

lemma keys_fold_store:
  "set (key_list (fold (\<lambda>(k, v). store k v) es d)) = set (key_list d) \<union> fst ` set es"
  by (induction es arbitrary: d) (auto simp: keys_store)

end

interpretation od: dictionary map_of AList.update AList.delete "map fst"
  by unfold_locales
     (auto simp: update_conv' delete_conv' distinct_update map_of_eq_None_iff)

lemma map_of_dict_update [dict_simps]:
  "map_of (dict_update d e) k = (case map_of (rev e) k of Some v \<Rightarrow> Some v | None \<Rightarrow> map_of d k)"
  unfolding dict_update_def by (rule od.look_fold_store)

lemma distinct_dict_update: "distinct (map fst d) \<Longrightarrow> distinct (map fst (dict_update d e))"
  unfolding dict_update_def by (rule od.distinct_fold_store)

lemma keys_dict_update: "fst ` set (dict_update d e) = fst ` set d \<union> fst ` set e"
  using od.keys_fold_store [of e d] by (simp add: dict_update_def)

lemma map_of_rev_distinct:
  assumes "distinct (map fst e)"
  shows "map_of (rev e) = map_of e"
proof (rule ext)
  fix k
  show "map_of (rev e) k = map_of e k"
  proof (cases "map_of e k")
    case None
    then have "map_of (rev e) k = None" by (simp add: map_of_eq_None_iff)
    with None show ?thesis by simp
  next
    case (Some v)
    with assms show ?thesis by (auto intro: map_of_is_SomeI dest: map_of_SomeD simp: rev_map [symmetric])
  qed
qed

section \<open>Dynamic values\<close>

datatype pyval =
    PNone | PBool bool | PInt int | PFloat flt | PStr string
  | PList "pyval list" | PDict "(string \<times> pyval) list"

type_synonym pydict = "(string, pyval) odict"

fun truthy :: "pyval \<Rightarrow> bool" where
  "truthy PNone = False"
| "truthy (PBool b) = b"
| "truthy (PInt i) = (i \<noteq> 0)"
| "truthy (PFloat f) = (f \<noteq> Fin 0)"
| "truthy (PStr s) = (s \<noteq> [])"
| "truthy (PList l) = (l \<noteq> [])"
| "truthy (PDict d) = (d \<noteq> [])"

text \<open>\<open>d.get(k)\<close> and \<open>d.get(k, default)\<close>.\<close>

definition dget :: "pydict \<Rightarrow> string \<Rightarrow> pyval" where
  "dget d k = (case map_of d k of None \<Rightarrow> PNone | Some v \<Rightarrow> v)"

definition dget_or :: "pydict \<Rightarrow> string \<Rightarrow> pyval \<Rightarrow> pyval" where
  "dget_or d k x = (case map_of d k of None \<Rightarrow> x | Some v \<Rightarrow> v)"

definition or_else :: "pyval \<Rightarrow> pyval \<Rightarrow> pyval" where
  "or_else a b = (if truthy a then a else b)"

definition has_key :: "pydict \<Rightarrow> string \<Rightarrow> bool" where
  "has_key d k \<longleftrightarrow> map_of d k \<noteq> None"

lemma dget_update [dict_simps]:
  "dget (AList.update k v d) k' = (if k' = k then v else dget d k')"
  by (simp add: dget_def update_conv')

lemma has_key_update [dict_simps]:
  "has_key (AList.update k v d) k' \<longleftrightarrow> k' = k \<or> has_key d k'"
  by (simp add: has_key_def update_conv')

definition of_opt_str :: "string option \<Rightarrow> pyval" where
  "of_opt_str x = (case x of None \<Rightarrow> PNone | Some s \<Rightarrow> PStr s)"

definition of_opt_rat :: "rat option \<Rightarrow> pyval" where
  "of_opt_rat x = (case x of None \<Rightarrow> PNone | Some r \<Rightarrow> PFloat (Fin r))"

text \<open>\<open>==\<close> between values of different numeric types compares the numbers: \<open>True == 1 == 1.0\<close>.
  Equal values have equal normal forms.\<close>

fun pnorm :: "pyval \<Rightarrow> pyval" where
  "pnorm (PBool b) = PInt (if b then 1 else 0)"
| "pnorm (PFloat (Fin r)) = (if of_int \<lfloor>r\<rfloor> = r then PInt \<lfloor>r\<rfloor> else PFloat (Fin r))"
| "pnorm v = v"

fun hashable :: "pyval \<Rightarrow> bool" where
  "hashable (PList _) = False"
| "hashable (PDict _) = False"
| "hashable _ = True"

definition type_error :: "string \<Rightarrow> exn" where
  "type_error m = PyExc ''TypeError'' m"

text \<open>\<open>for x in v\<close>: lists and the keys of dictionaries and the characters of strings; any
  other value raises \<open>TypeError\<close>.\<close>

fun py_iter :: "pyval \<Rightarrow> pyval list res" where
  "py_iter (PList l) = Inr l"
| "py_iter (PDict d) = Inr (map (PStr \<circ> fst) d)"
| "py_iter (PStr s) = Inr (map (\<lambda>c. PStr [c]) s)"
| "py_iter _ = Inl (type_error ''object is not iterable'')"

end
