(* ===== verification/PyNum.thy ===== *)
theory PyNum
  imports MSF_Prelude
begin

text \<open>
  Python's conversions between text and numbers, as the services call them: \<open>float(s)\<close>,
  \<open>int(s)\<close>, \<open>int(s, 16)\<close>, truncation, \<open>str\<close> and \<open>repr\<close>, with the value of plain decimal
  literals.
\<close>

section \<open>Numbers in text\<close>

definition value_error :: "string \<Rightarrow> exn" where
  "value_error m = PyExc ''ValueError'' m"

definition hex_val :: "char \<Rightarrow> nat option" where
  "hex_val c = (let n = of_char c in
     if 48 \<le> n \<and> n \<le> 57 then Some (n - 48)
     else if 65 \<le> n \<and> n \<le> 70 then Some (n - 55)
     else if 97 \<le> n \<and> n \<le> 102 then Some (n - 87) else None)"

text \<open>\<open>int(s, 16)\<close> for a text of at most two characters.\<close>

fun int_hex2 :: "string \<Rightarrow> int option" where
  "int_hex2 s = (case strip s of
     [a] \<Rightarrow> map_option int (hex_val a)
   | [a, b] \<Rightarrow>
       if a = CHR ''+'' then map_option int (hex_val b)
       else if a = CHR ''-'' then map_option (\<lambda>n. - int n) (hex_val b)
       else (case (hex_val a, hex_val b) of
               (Some x, Some y) \<Rightarrow> Some (int (16 * x + y)) | _ \<Rightarrow> None)
   | _ \<Rightarrow> None)"

text \<open>\<open>float(s)\<close>: an optional sign, then \<open>inf\<close>, \<open>infinity\<close> or \<open>nan\<close> in any case, or a decimal
  literal with an optional exponent, where single underscores may separate digits.
  \<open>None\<close> is \<open>ValueError\<close>.\<close>

definition lower_char :: "char \<Rightarrow> char" where
  "lower_char c = (let n = (of_char c :: nat) in if 65 \<le> n \<and> n \<le> 90 then char_of (n + 32) else c)"

definition upper_char :: "char \<Rightarrow> char" where
  "upper_char c = (let n = of_char c :: nat in if 97 \<le> n \<and> n \<le> 122 then char_of (n - 32) else c)"

fun drop_underscores :: "string \<Rightarrow> string option" where
  "drop_underscores [] = Some []"
| "drop_underscores [c] = (if c = CHR ''_'' then None else Some [c])"
| "drop_underscores (c # d # s) =
     (if c = CHR ''_'' then None
      else if d = CHR ''_'' then
        (case s of e # _ \<Rightarrow> if is_digit c \<and> is_digit e then map_option (Cons c) (drop_underscores s) else None
         | [] \<Rightarrow> None)
      else map_option (Cons c) (drop_underscores (d # s)))"

definition split_sign :: "string \<Rightarrow> bool \<times> string" where
  "split_sign s = (case s of c # r \<Rightarrow> if c = CHR ''-'' then (True, r)
                      else if c = CHR ''+'' then (False, r) else (False, s) | [] \<Rightarrow> (False, []))"

fun is_exp :: "char \<Rightarrow> bool" where
  "is_exp c = (c = CHR ''e'' \<or> c = CHR ''E'')"

definition read_digits :: "string \<Rightarrow> nat option" where
  "read_digits s = (if list_all is_digit s then Some (read_nat s) else None)"

definition parse_exponent :: "string \<Rightarrow> int option" where
  "parse_exponent s = (case s of [] \<Rightarrow> Some 0
     | _ # r \<Rightarrow> (let (neg, ds) = split_sign r
                 in if all_digits ds then Some (if neg then - int (read_nat ds) else int (read_nat ds))
                    else None))"

definition pow10 :: "int \<Rightarrow> rat" where
  "pow10 e = (if 0 \<le> e then 10 ^ nat e else 1 / 10 ^ nat (- e))"

definition parse_decimal :: "string \<Rightarrow> rat option" where
  "parse_decimal s =
     (let mant = takeWhile (\<lambda>c. \<not> is_exp c) s; ex = dropWhile (\<lambda>c. \<not> is_exp c) s;
          (ip, fp) = cut_at (CHR ''.'') mant;
          fs = (case fp of None \<Rightarrow> [] | Some f \<Rightarrow> f)
      in if all_digits (ip @ fs)
         then (case parse_exponent ex of None \<Rightarrow> None
               | Some e \<Rightarrow> Some (of_nat (read_nat (ip @ fs)) * pow10 (e - int (length fs))))
         else None)"

definition parse_float :: "string \<Rightarrow> flt option" where
  "parse_float s0 =
     (let (neg, s) = split_sign (strip s0); l = map lower_char s
      in if l = ''inf'' \<or> l = ''infinity'' then Some (Inf neg)
         else if l = ''nan'' then Some NaN
         else (case drop_underscores s of None \<Rightarrow> None
               | Some t \<Rightarrow> map_option (\<lambda>r. Fin (if neg then - r else r)) (parse_decimal t)))"

text \<open>\<open>float(s) if s else None\<close>, \<open>int(s)\<close> of a text of digits (CPython refuses more than 4300)
  and \<open>s or None\<close>.\<close>

definition float_or_none :: "string \<Rightarrow> pyval res" where
  "float_or_none s = (if s = [] then Inr PNone
     else case parse_float s of None \<Rightarrow> Inl (value_error ''could not convert string to float'')
          | Some f \<Rightarrow> Inr (PFloat f))"

definition int_if_digits :: "pyval \<Rightarrow> string \<Rightarrow> pyval res" where
  "int_if_digits dflt s =
     (if all_digits s
      then if 4300 < length s then Inl (value_error ''Exceeds the limit (4300 digits)'')
           else Inr (PInt (int (read_nat s)))
      else Inr dflt)"

definition str_or_none :: "string \<Rightarrow> pyval" where
  "str_or_none s = (if s = [] then PNone else PStr s)"

definition trunc_rat :: "rat \<Rightarrow> int" where
  "trunc_rat r = (if r < 0 then - \<lfloor>- r\<rfloor> else \<lfloor>r\<rfloor>)"

section \<open>\<open>int\<close>, \<open>str\<close> and \<open>repr\<close>\<close>

definition parse_int :: "string \<Rightarrow> int option" where
  "parse_int s0 =
     (let (neg, s) = split_sign (strip s0)
      in case drop_underscores s of
           None \<Rightarrow> None
         | Some t \<Rightarrow> if all_digits t then Some (if neg then - int (read_nat t) else int (read_nat t)) else None)"

fun py_int :: "pyval \<Rightarrow> int res" where
  "py_int (PInt i) = Inr i"
| "py_int (PBool b) = Inr (if b then 1 else 0)"
| "py_int (PFloat (Fin r)) = Inr (trunc_rat r)"
| "py_int (PFloat (Inf _)) = Inl (PyExc ''OverflowError'' ''cannot convert float infinity to integer'')"
| "py_int (PFloat NaN) = Inl (value_error ''cannot convert float NaN to integer'')"
| "py_int (PStr s) = (case parse_int s of None \<Rightarrow> Inl (value_error ''invalid literal for int()'') | Some i \<Rightarrow> Inr i)"
| "py_int _ = Inl (type_error ''int() argument must be a string or a number'')"

text \<open>\<open>float(v)\<close>\<close>

fun py_float :: "pyval \<Rightarrow> flt res" where
  "py_float (PFloat f) = Inr f"
| "py_float (PInt i) = Inr (Fin (of_int i))"
| "py_float (PBool b) = Inr (Fin (if b then 1 else 0))"
| "py_float (PStr s) = (case parse_float s of None \<Rightarrow> Inl (value_error ''could not convert string to float'') | Some f \<Rightarrow> Inr f)"
| "py_float _ = Inl (type_error ''float() argument must be a string or a real number'')"

definition hex_digit :: "nat \<Rightarrow> char" where
  "hex_digit n = (if n < 10 then char_of (48 + n) else char_of (87 + n))"

text \<open>\<open>repr\<close> of a string: single quotes unless it contains some and no double quote, with the
  escapes of control characters.\<close>

definition repr_char :: "char \<Rightarrow> char \<Rightarrow> string" where
  "repr_char q c =
     (let n = (of_char c :: nat) in
      if c = q \<or> c = CHR 0x5C then [CHR 0x5C, c]
      else if n = 10 then [CHR 0x5C, CHR ''n''] else if n = 13 then [CHR 0x5C, CHR ''r'']
      else if n = 9 then [CHR 0x5C, CHR ''t'']
      else if n < 32 \<or> 127 \<le> n \<and> n \<le> 160 \<or> n = 173
           then [CHR 0x5C, CHR ''x'', hex_digit (n div 16), hex_digit (n mod 16)]
      else [c])"

definition repr_str :: "string \<Rightarrow> string" where
  "repr_str s =
     (let q = (if CHR 0x27 \<in> set s \<and> CHR 0x22 \<notin> set s then CHR 0x22 else CHR 0x27)
      in q # concat (map (repr_char q) s) @ [q])"

text \<open>The text of a float (the shortest decimal that reads back as the same double) is the
  parameter \<open>fl\<close>: doubles are not modelled.\<close>

fun py_repr :: "(flt \<Rightarrow> string) \<Rightarrow> pyval \<Rightarrow> string" where
  "py_repr fl PNone = ''None''"
| "py_repr fl (PBool b) = (if b then ''True'' else ''False'')"
| "py_repr fl (PInt i) = show_int i"
| "py_repr fl (PFloat f) = fl f"
| "py_repr fl (PStr s) = repr_str s"
| "py_repr fl (PList l) = ''['' @ join_with '', '' (map (py_repr fl) l) @ '']''"
| "py_repr fl (PDict d) = ''{'' @ join_with '', '' (map (\<lambda>(k, v). repr_str k @ '': '' @ py_repr fl v) d) @ ''}''"

fun py_str :: "(flt \<Rightarrow> string) \<Rightarrow> pyval \<Rightarrow> string" where
  "py_str fl (PStr s) = s"
| "py_str fl v = py_repr fl v"

section \<open>Decimal literals\<close>

lemma read_nat_fold: "fold (\<lambda>c n. 10 * n + digit_val c) b k = k * 10 ^ length b + read_nat b"
proof (induction b arbitrary: k)
  case (Cons c b)
  have "fold (\<lambda>c n. 10 * n + digit_val c) (c # b) k = (10 * k + digit_val c) * 10 ^ length b + read_nat b"
    using Cons.IH by simp
  also have "\<dots> = k * 10 ^ length (c # b) + (digit_val c * 10 ^ length b + read_nat b)"
    by (simp add: algebra_simps)
  also have "digit_val c * 10 ^ length b + read_nat b = read_nat (c # b)"
    using Cons.IH [of "digit_val c"] by (simp add: read_nat_def)
  finally show ?case .
qed (simp add: read_nat_def)

lemma read_nat_append: "read_nat (a @ b) = read_nat a * 10 ^ length b + read_nat b"
  using read_nat_fold [of b "read_nat a"] by (simp add: read_nat_def)

lemma digit_bound: "is_digit c \<Longrightarrow> digit_val c \<le> 9"
  unfolding is_digit_def digit_val_def by linarith

lemma read_nat_bound: "list_all is_digit s \<Longrightarrow> read_nat s < 10 ^ length s"
proof (induction s rule: rev_induct)
  case (snoc c s)
  then show ?case using digit_bound [of c] by (simp add: read_nat_append [of s "[c]"] read_nat_def)
qed (simp add: read_nat_def)

lemma not_digit [simp]:
  "\<not> is_digit CHR ''.''" "\<not> is_digit CHR ''_''" "\<not> is_digit CHR ''e''" "\<not> is_digit CHR ''E''"
  "\<not> is_digit CHR ''-''" "\<not> is_digit CHR ''+''"
  by (simp_all add: is_digit_def)

lemma digit_plain:
  assumes "is_digit c"
  shows "\<not> is_space c" "lower_char c = c" "c \<noteq> CHR ''_''" "c \<noteq> CHR ''-''" "c \<noteq> CHR ''+''"
    "\<not> is_exp c" "c \<noteq> CHR ''i''" "c \<noteq> CHR ''n''" "c \<noteq> CHR ''.''"
  using assms by (auto simp: is_digit_def is_space_def lower_char_def Let_def)

definition plain_char :: "char \<Rightarrow> bool" where
  "plain_char c \<longleftrightarrow> is_digit c \<or> c = CHR ''.''"

lemma plain_no_space: "plain_char c \<Longrightarrow> \<not> is_space c"
  by (auto simp: plain_char_def digit_plain) (simp add: is_space_def)

lemma strip_plain:
  assumes "list_all plain_char s"
  shows "strip s = s"
proof -
  have d: "dropWhile is_space t = t" if "list_all plain_char t" for t
    using that by (cases t) (auto simp: plain_no_space)
  show ?thesis using assms by (simp add: strip_def lstrip_def d list_all_rev)
qed

lemma drop_underscores_plain: "list_all plain_char s \<Longrightarrow> drop_underscores s = Some s"
  by (induction s rule: drop_underscores.induct) (auto simp: plain_char_def)

lemma parse_decimal_plain:
  assumes "list_all is_digit a" "list_all is_digit f" "a \<noteq> []"
  shows "parse_decimal (a @ ''.'' @ f) = Some (of_nat (read_nat (a @ f)) / 10 ^ length f)"
proof -
  have ne: "\<forall>c \<in> set (a @ ''.'' @ f). \<not> is_exp c"
    using assms(1,2) digit_plain(6) by (auto simp: list_all_iff)
  have c: "cut_at CHR ''.'' (a @ CHR ''.'' # f) = (a, Some f)"
    using assms(1) digit_plain(9) by (intro cut_at_append) (auto simp: list_all_iff)
  show ?thesis using ne c assms
    by (simp add: parse_decimal_def Let_def all_digits_def parse_exponent_def pow10_def
        takeWhile_eq_all_conv [THEN iffD2] dropWhile_eq_Nil_conv [THEN iffD2])
qed

lemma parse_float_plain:
  assumes "list_all is_digit a" "list_all is_digit f" "a \<noteq> []"
  shows "parse_float (a @ ''.'' @ f) = Some (Fin (of_nat (read_nat (a @ f)) / 10 ^ length f))"
proof -
  have pl: "list_all plain_char (a @ ''.'' @ f)"
    using assms(1,2) by (auto simp: list_all_iff plain_char_def)
  obtain c a' where a: "a = c # a'" "is_digit c" using assms(1,3) by (cases a) auto
  have sg: "split_sign (a @ ''.'' @ f) = (False, a @ ''.'' @ f)"
    using digit_plain [OF a(2)] by (simp add: split_sign_def a(1))
  have "parse_decimal (a @ ''.'' @ f) = Some (of_nat (read_nat (a @ f)) / 10 ^ length f)"
    by (rule parse_decimal_plain [OF assms])
  then show ?thesis
    using digit_plain [OF a(2)] drop_underscores_plain [OF pl]
    unfolding parse_float_def strip_plain [OF pl] sg by (simp add: a(1))
qed

lemma parse_show_int: "parse_int (show_int i) = Some i"
proof -
  have pos: "parse_int (show_nat n) = Some (int n)" for n
  proof -
    have pl: "list_all plain_char (show_nat n)" using show_nat_digits [of n] by (auto simp: list_all_iff plain_char_def)
    obtain c t where c: "show_nat n = c # t" using show_nat_nonempty by (cases "show_nat n") auto
    then have "is_digit c" using show_nat_digits [of n] by simp
    then have "split_sign (show_nat n) = (False, show_nat n)" using c digit_plain [of c] by (simp add: split_sign_def)
    then show ?thesis by (simp add: parse_int_def strip_plain [OF pl] drop_underscores_plain [OF pl] all_digits_def)
  qed
  have neg: "parse_int (''-'' @ show_nat n) = Some (- int n)" for n
  proof -
    have pl: "list_all plain_char (show_nat n)" using show_nat_digits [of n] by (auto simp: list_all_iff plain_char_def)
    have sp: "\<forall>c\<in>set (''-'' @ show_nat n). \<not> is_space c"
      using pl plain_no_space by (auto simp: list_all_iff is_space_def)
    have d: "dropWhile is_space u = u" if "\<forall>c\<in>set u. \<not> is_space c" for u using that by (cases u) auto
    have "strip (''-'' @ show_nat n) = ''-'' @ show_nat n"
      using d [of "''-'' @ show_nat n"] d [of "rev (''-'' @ show_nat n)"] sp by (simp add: strip_def lstrip_def)
    then show ?thesis by (simp add: parse_int_def split_sign_def drop_underscores_plain [OF pl] all_digits_def)
  qed
  show ?thesis using pos [of "nat i"] neg [of "nat (- i)"] by (simp add: show_int_def)
qed

end
