(* ===== verification/Nmea.thy ===== *)
theory Nmea
  imports PyNum "HOL-Library.Word"
begin

unbundle bit_operations_syntax

text \<open>
  The GPS service (\<open>services/gps/app/listener.py\<close>, \<open>main.py\<close>): the NMEA decoder, the
  listener that keeps the latest fix, and the HTTP reads of it.

  A parsed sentence is the dictionary the code builds. A datagram is decoded as ASCII with
  replacement: the character \<open>CHR 0xFF\<close> stands for U+FFFD, whose \<open>ord\<close> is 65533. The clock and
  the date are arguments of the operations that read them.
\<close>

section \<open>NMEA parsing\<close>

definition ord_of :: "char \<Rightarrow> nat" where
  "ord_of c = (if c = CHR 0xFF then 65533 else of_char c)"

definition xor_body :: "string \<Rightarrow> nat" where
  "xor_body body = fold (\<lambda>ch actual. actual XOR ord_of ch) body 0"

definition checksum_ok :: "string \<Rightarrow> bool" where
  "checksum_ok sentence =
     (case sentence of
        c # rest \<Rightarrow>
          if c \<noteq> CHR ''$'' then False
          else (case cut_at (CHR ''*'') rest of
                  (_, None) \<Rightarrow> False
                | (body, Some tail) \<Rightarrow>
                    (let csum = take 2 (strip tail)
                     in if csum = [] then False
                        else (case int_hex2 csum of None \<Rightarrow> False
                              | Some n \<Rightarrow> int (xor_body body) = n)))
      | [] \<Rightarrow> False)"

definition coord_to_decimal :: "string \<Rightarrow> string \<Rightarrow> pyval res" where
  "coord_to_decimal value hemi =
     (if value = [] \<or> hemi = [] then Inr PNone
      else case parse_float value of
        None \<Rightarrow> Inr PNone
      | Some NaN \<Rightarrow> Inl (value_error ''cannot convert float NaN to integer'')
      | Some (Inf _) \<Rightarrow> Inl (PyExc ''OverflowError'' ''cannot convert float infinity to integer'')
      | Some (Fin f) \<Rightarrow>
          (let deg = trunc_rat (f / 100);
               minutes = f - of_int (deg * 100);
               decimal = of_int deg + minutes / 60
           in Inr (PFloat (Fin (if hemi = ''S'' \<or> hemi = ''W'' then - decimal else decimal)))))"

definition hms_dmy_to_iso :: "string \<Rightarrow> string option \<Rightarrow> string option" where
  "hms_dmy_to_iso hhmmss ddmmyy =
     (if length hhmmss < 6 then None
      else let h = take 2 hhmmss; m = take 2 (drop 2 hhmmss); s = drop 4 hhmmss
           in case ddmmyy of
                Some d \<Rightarrow>
                  if 6 \<le> length d
                  then Some (''20'' @ take 2 (drop 4 d) @ ''-'' @ take 2 (drop 2 d) @ ''-'' @ take 2 d
                             @ ''T'' @ h @ '':'' @ m @ '':'' @ s @ ''Z'')
                  else Some (''T'' @ h @ '':'' @ m @ '':'' @ s @ ''Z'')
              | None \<Rightarrow> Some (''T'' @ h @ '':'' @ m @ '':'' @ s @ ''Z''))"

definition parse_GGA :: "pydict \<Rightarrow> string list \<Rightarrow> pydict res" where
  "parse_GGA out parts =
     bindE (coord_to_decimal (parts ! 2) (parts ! 3)) (\<lambda>lat.
     bindE (coord_to_decimal (parts ! 4) (parts ! 5)) (\<lambda>lon.
     bindE (int_if_digits (PInt 0) (parts ! 6)) (\<lambda>q.
     bindE (int_if_digits (PInt 0) (parts ! 7)) (\<lambda>sats.
     bindE (float_or_none (parts ! 8)) (\<lambda>hdop.
     bindE (float_or_none (parts ! 9)) (\<lambda>alt.
       Inr (dict_update out
         [(''time_utc'', str_or_none (parts ! 1)), (''latitude'', lat), (''longitude'', lon),
          (''fix_quality'', q), (''satellites'', sats), (''hdop'', hdop), (''altitude'', alt)])))))))"

definition parse_RMC :: "pydict \<Rightarrow> string list \<Rightarrow> pydict res" where
  "parse_RMC out parts =
     bindE (coord_to_decimal (parts ! 3) (parts ! 4)) (\<lambda>lat.
     bindE (coord_to_decimal (parts ! 5) (parts ! 6)) (\<lambda>lon.
     bindE (float_or_none (parts ! 7)) (\<lambda>knots.
     bindE (float_or_none (parts ! 8)) (\<lambda>trk.
       Inr (dict_update out
         [(''time_utc'', str_or_none (parts ! 1)), (''status'', PStr (parts ! 2)),
          (''latitude'', lat), (''longitude'', lon), (''speed_knots'', knots),
          (''track_deg'', trk), (''date'', str_or_none (parts ! 9))])))))"

definition parse_GLL :: "pydict \<Rightarrow> string list \<Rightarrow> pydict res" where
  "parse_GLL out parts =
     bindE (coord_to_decimal (parts ! 1) (parts ! 2)) (\<lambda>lat.
     bindE (coord_to_decimal (parts ! 3) (parts ! 4)) (\<lambda>lon.
       Inr (dict_update out
         [(''latitude'', lat), (''longitude'', lon), (''time_utc'', str_or_none (parts ! 5)),
          (''status'', PStr (parts ! 6))])))"

definition parse_VTG :: "pydict \<Rightarrow> string list \<Rightarrow> pydict res" where
  "parse_VTG out parts =
     bindE (float_or_none (parts ! 1)) (\<lambda>trk.
     bindE (float_or_none (parts ! 5)) (\<lambda>knots.
     bindE (float_or_none (parts ! 7)) (\<lambda>kph.
       Inr (dict_update out
         [(''track_deg_true'', trk), (''speed_knots'', knots), (''speed_kph'', kph)]))))"

definition parse_GSV :: "pydict \<Rightarrow> string list \<Rightarrow> pydict res" where
  "parse_GSV out parts =
     bindE (int_if_digits PNone (parts ! 3)) (\<lambda>n. Inr (AList.update ''satellites_in_view'' n out))"

definition parse_GNS :: "pydict \<Rightarrow> string list \<Rightarrow> pydict res" where
  "parse_GNS out parts =
     (let mode = parts ! 6; valid = list_ex (\<lambda>ch. ch \<noteq> CHR ''N'') mode in
     bindE (coord_to_decimal (parts ! 2) (parts ! 3)) (\<lambda>lat.
     bindE (coord_to_decimal (parts ! 4) (parts ! 5)) (\<lambda>lon.
     bindE (int_if_digits (PInt 0) (parts ! 7)) (\<lambda>sats.
     bindE (float_or_none (parts ! 8)) (\<lambda>hdop.
     bindE (float_or_none (parts ! 9)) (\<lambda>alt.
     bindE (float_or_none (parts ! 10)) (\<lambda>geoid.
       Inr (dict_update out
         [(''time_utc'', str_or_none (parts ! 1)), (''latitude'', lat), (''longitude'', lon),
          (''mode_indicator'', PStr mode), (''fix_quality'', PInt (if valid then 1 else 0)),
          (''satellites'', sats), (''hdop'', hdop), (''altitude'', alt),
          (''geoid_separation'', geoid)]))))))))"

definition parse_sentence :: "string \<Rightarrow> pydict option res" where
  "parse_sentence sentence0 =
     (let sentence = strip sentence0
      in if \<not> checksum_ok sentence then Inr None
         else
           let body = fst (cut_at (CHR ''*'') (drop 1 sentence));
               parts = split_on (CHR '','') body;
               talker_type = hd parts
           in if length talker_type < 5 then Inr None
              else
                let typ = drop 2 talker_type;
                    out = [(''talker'', PStr (take 2 talker_type)), (''type'', PStr typ)]
                in if typ = ''GGA'' \<and> 14 \<le> length parts then bindE (parse_GGA out parts) (Inr \<circ> Some)
                   else if typ = ''RMC'' \<and> 12 \<le> length parts then bindE (parse_RMC out parts) (Inr \<circ> Some)
                   else if typ = ''GLL'' \<and> 7 \<le> length parts then bindE (parse_GLL out parts) (Inr \<circ> Some)
                   else if typ = ''VTG'' \<and> 9 \<le> length parts then bindE (parse_VTG out parts) (Inr \<circ> Some)
                   else if typ = ''GSV'' \<and> 4 \<le> length parts then bindE (parse_GSV out parts) (Inr \<circ> Some)
                   else if typ = ''GNS'' \<and> 13 \<le> length parts then bindE (parse_GNS out parts) (Inr \<circ> Some)
                   else Inr None)"

section \<open>The listener\<close>

record gps_fix =
  fix_ok :: bool
  fix_error :: "string option"
  fix_source :: string
  fix_status :: "string option"
  latitude :: pyval
  longitude :: pyval
  altitude :: pyval
  accuracy :: pyval
  satellites :: pyval
  speed :: pyval
  angle :: pyval
  timestamp :: "string option"
  last_sentence :: "string option"
  age_s :: "rat option"
  fix_raw :: "(string, pydict) odict option"

record datagram_item =
  dg_from :: string
  dg_bytes :: nat
  dg_hex :: string
  dg_ascii :: string

type_synonym addr = "string \<times> nat"

record nmea_listener =
  port :: nat
  bind_addr :: string
  cur_fix :: gps_fix
  last_update :: rat
  raw_fields :: "(string, pydict) odict"
  raw_datagrams :: "datagram_item list"
  unparsed :: "string list"
  prefix_seen :: "string option"
  datagrams_total :: nat
  sentences_parsed :: nat
  sentences_unparsed :: nat

definition new_listener :: "nat \<Rightarrow> string \<Rightarrow> nmea_listener" where
  "new_listener p b =
     \<lparr>port = p, bind_addr = b,
      cur_fix = \<lparr>fix_ok = False, fix_error = Some ''no NMEA received yet'',
             fix_source = ''udp/'' @ b @ '':'' @ show_nat p, fix_status = None,
             latitude = PNone, longitude = PNone, altitude = PNone, accuracy = PNone,
             satellites = PNone, speed = PNone, angle = PNone, timestamp = None,
             last_sentence = None, age_s = None, fix_raw = None\<rparr>,
      last_update = 0, raw_fields = [], raw_datagrams = [], unparsed = [], prefix_seen = None,
      datagrams_total = 0, sentences_parsed = 0, sentences_unparsed = 0\<rparr>"

definition to_ascii :: "nat list \<Rightarrow> string" where
  "to_ascii data = map (\<lambda>b. if b < 128 then char_of b else CHR 0xFF) data"

definition to_hex :: "nat list \<Rightarrow> string" where
  "to_hex data = concat (map (\<lambda>b. [hex_digit (b div 16), hex_digit (b mod 16)]) data)"

text \<open>\<open>append\<close>, then \<open>pop(0)\<close> when more than ten are kept.\<close>

definition push10 :: "'a \<Rightarrow> 'a list \<Rightarrow> 'a list" where
  "push10 x xs = (let ys = xs @ [x] in if 10 < length ys then tl ys else ys)"

definition record_raw :: "nat list \<Rightarrow> addr \<Rightarrow> nmea_listener \<Rightarrow> nmea_listener" where
  "record_raw data addr l =
     l\<lparr>datagrams_total := datagrams_total l + 1,
       raw_datagrams := push10
         \<lparr>dg_from = fst addr @ '':'' @ show_nat (snd addr), dg_bytes = length data,
          dg_hex = to_hex (take 64 data), dg_ascii = to_ascii (take 200 data)\<rparr> (raw_datagrams l)\<rparr>"

definition note_prefix :: "string \<Rightarrow> nmea_listener \<Rightarrow> nmea_listener" where
  "note_prefix prefix l =
     (if prefix \<noteq> [] \<and> Some prefix \<noteq> prefix_seen l then l\<lparr>prefix_seen := Some prefix\<rparr> else l)"

definition note_unparsed :: "string \<Rightarrow> nmea_listener \<Rightarrow> nmea_listener" where
  "note_unparsed line l =
     l\<lparr>sentences_unparsed := sentences_unparsed l + 1, unparsed := push10 line (unparsed l)\<rparr>"

text \<open>\<open>if v is not None: cur.field = v\<close>\<close>

definition keep :: "pyval \<Rightarrow> pyval \<Rightarrow> pyval" where
  "keep v old = (if v = PNone then old else v)"

fun str_of :: "pyval \<Rightarrow> string" where
  "str_of (PStr s) = s"
| "str_of _ = []"

fun opt_str :: "pyval \<Rightarrow> string option" where
  "opt_str (PStr s) = Some s"
| "opt_str _ = None"

fun positive :: "pyval \<Rightarrow> bool" where
  "positive (PInt i) = (0 < i)"
| "positive _ = False"

definition update_status :: "string \<Rightarrow> string \<Rightarrow> pydict \<Rightarrow> gps_fix \<Rightarrow> gps_fix" where
  "update_status today typ parsed cur =
     (if typ = ''RMC'' then
        let cur1 = cur\<lparr>fix_status := Some (if dget parsed ''status'' = PStr ''A'' then ''valid'' else ''no_fix'')\<rparr>
        in case hms_dmy_to_iso (str_of (dget parsed ''time_utc'')) (opt_str (dget parsed ''date'')) of
             None \<Rightarrow> cur1
           | Some t \<Rightarrow> if starts_with ''T'' t then cur1 else cur1\<lparr>timestamp := Some t\<rparr>
      else if typ = ''GGA'' \<or> typ = ''GNS'' then
        let cur1 = cur\<lparr>fix_status := Some (if positive (dget_or parsed ''fix_quality'' (PInt 0)) then ''valid'' else ''no_fix'')\<rparr>;
            iso_time = str_of (dget parsed ''time_utc'')
        in if 6 \<le> length iso_time \<and> (timestamp cur = None \<or> timestamp cur = Some [])
           then cur1\<lparr>timestamp := Some (today @ ''T'' @ take 2 iso_time @ '':'' @
                       take 2 (drop 2 iso_time) @ '':'' @ drop 4 iso_time @ ''Z'')\<rparr>
           else cur1
      else cur)"

definition consume :: "rat \<Rightarrow> string \<Rightarrow> pydict \<Rightarrow> addr \<Rightarrow> nmea_listener \<Rightarrow> nmea_listener" where
  "consume now today parsed addr l =
     (let typ = str_of (dget parsed ''type'');
          cur = cur_fix l;
          cur1 = cur\<lparr>latitude := keep (dget parsed ''latitude'') (latitude cur),
                     longitude := keep (dget parsed ''longitude'') (longitude cur),
                     altitude := keep (dget parsed ''altitude'') (altitude cur),
                     accuracy := keep (dget parsed ''hdop'') (accuracy cur),
                     satellites := keep (dget parsed ''satellites'') (satellites cur),
                     speed := keep (dget parsed ''speed_knots'') (speed cur),
                     angle := (if has_key parsed ''track_deg'' then dget parsed ''track_deg'' else angle cur)\<rparr>;
          cur2 = update_status today typ parsed cur1;
          ok = (latitude cur2 \<noteq> PNone \<and> longitude cur2 \<noteq> PNone \<and> fix_status cur2 = Some ''valid'');
          cur3 = cur2\<lparr>last_sentence := Some (str_of (dget parsed ''talker'') @ typ),
                      fix_source := ''udp/'' @ bind_addr l @ '':'' @ show_nat (port l) @ '' (from '' @ fst addr @ '')'',
                      fix_ok := ok,
                      fix_error := (if ok then None
                                    else if fix_status cur2 = Some ''no_fix'' then Some ''no_fix''
                                    else Some ''incomplete fix'')\<rparr>
      in l\<lparr>raw_fields := AList.update typ parsed (raw_fields l), last_update := now,
           sentences_parsed := sentences_parsed l + 1, cur_fix := cur3\<rparr>)"

definition STALE_AFTER_S :: rat where
  "STALE_AFTER_S = 10"

text \<open>\<open>snapshot\<close> returns the fix (or its stale copy) and the listener, whose \<open>age_s\<close> and \<open>raw\<close>
  it has set. A positive or negative age is rounded to three decimals.\<close>

definition snapshot :: "rat \<Rightarrow> nmea_listener \<Rightarrow> gps_fix \<times> nmea_listener" where
  "snapshot now l =
     (let f = cur_fix l in
      if last_update l \<noteq> 0 then
        let age = round_dec 3 (now - last_update l); f1 = f\<lparr>age_s := Some age\<rparr>
        in if age \<noteq> 0 \<and> STALE_AFTER_S < age
           then (f1\<lparr>fix_ok := False, fix_error := Some (''stale fix ('' @ fmt_fixed 1 age @ ''s old)''),
                    fix_raw := Some (raw_fields l)\<rparr>, l\<lparr>cur_fix := f1\<rparr>)
           else (let f2 = f1\<lparr>fix_raw := Some (raw_fields l)\<rparr> in (f2, l\<lparr>cur_fix := f2\<rparr>))
      else (let f2 = f\<lparr>fix_raw := Some (raw_fields l)\<rparr> in (f2, l\<lparr>cur_fix := f2\<rparr>)))"

text \<open>\<open>to_dict\<close>, the document of \<open>GET /gps/current\<close>.\<close>

definition fix_document :: "gps_fix \<Rightarrow> pydict" where
  "fix_document f =
     [(''ok'', PBool (fix_ok f)), (''error'', of_opt_str (fix_error f)), (''source'', PStr (fix_source f)),
      (''fix_status'', of_opt_str (fix_status f)), (''latitude'', latitude f), (''longitude'', longitude f),
      (''altitude'', altitude f), (''accuracy'', accuracy f), (''satellites'', satellites f),
      (''speed'', speed f), (''angle'', angle f), (''timestamp'', of_opt_str (timestamp f)),
      (''last_sentence'', of_opt_str (last_sentence f)), (''age_s'', of_opt_rat (age_s f)),
      (''raw'', case fix_raw f of None \<Rightarrow> PNone | Some r \<Rightarrow> PDict (map (\<lambda>(k, d). (k, PDict d)) r))]"

section \<open>The datagram protocol\<close>

definition is_line_break :: "char \<Rightarrow> bool" where
  "is_line_break c \<longleftrightarrow> (of_char c :: nat) \<in> {10, 11, 12, 13, 28, 29, 30}"

text \<open>\<open>str.splitlines()\<close>: \<open>\r\n\<close> is one break, and a final break ends the last line.\<close>

fun splitlines_acc :: "string \<Rightarrow> string \<Rightarrow> string list" where
  "splitlines_acc cur [] = (if cur = [] then [] else [rev cur])"
| "splitlines_acc cur [c] =
     (if is_line_break c then [rev cur] else [rev (c # cur)])"
| "splitlines_acc cur (c # d # s) =
     (if is_line_break c
      then rev cur # (if c = CHR 0x0D \<and> d = CHR 0x0A then splitlines_acc [] s else splitlines_acc [] (d # s))
      else splitlines_acc (c # cur) (d # s))"

definition splitlines :: "string \<Rightarrow> string list" where
  "splitlines s = splitlines_acc [] s"

fun process_lines ::
  "rat \<Rightarrow> string \<Rightarrow> addr \<Rightarrow> string list \<Rightarrow> nmea_listener \<Rightarrow> exn option \<times> nmea_listener" where
  "process_lines now today addr [] l = (None, l)"
| "process_lines now today addr (line0 # lines) l =
     (let line = strip line0 in
      if \<not> starts_with ''$'' line then process_lines now today addr lines l
      else case parse_sentence line of
             Inl e \<Rightarrow> (Some e, l)
           | Inr None \<Rightarrow> process_lines now today addr lines (note_unparsed line l)
           | Inr (Some parsed) \<Rightarrow> process_lines now today addr lines (consume now today parsed addr l))"

definition datagram_received ::
  "rat \<Rightarrow> string \<Rightarrow> nat list \<Rightarrow> addr \<Rightarrow> nmea_listener \<Rightarrow> exn option \<times> nmea_listener" where
  "datagram_received now today data addr l =
     (let l1 = record_raw data addr l;
          (prefix, rest) = cut_at (CHR ''$'') (to_ascii data)
      in case rest of
           None \<Rightarrow> (None, l1)
         | Some r \<Rightarrow>
             process_lines now today addr (splitlines (CHR ''$'' # r))
               (if prefix \<noteq> [] then note_prefix prefix l1 else l1))"

section \<open>HTTP reads\<close>

text \<open>\<open>GET /gps/current\<close>: the listener is \<open>None\<close> before startup and after shutdown.\<close>

definition no_listener_fix :: gps_fix where
  "no_listener_fix =
     \<lparr>fix_ok = False, fix_error = Some ''listener not running'', fix_source = ''(none)'',
      fix_status = None, latitude = PNone, longitude = PNone, altitude = PNone,
      accuracy = PNone, satellites = PNone, speed = PNone, angle = PNone, timestamp = None,
      last_sentence = None, age_s = None, fix_raw = None\<rparr>"

definition gps_current :: "rat \<Rightarrow> nmea_listener option \<Rightarrow> gps_fix \<times> nmea_listener option" where
  "gps_current now lo = (case lo of None \<Rightarrow> (no_listener_fix, None)
     | Some l \<Rightarrow> (let (f, l') = snapshot now l in (f, Some l')))"

record gps_stats =
  st_bound :: string
  st_datagrams_total :: nat
  st_parsed :: nat
  st_unparsed :: nat
  st_prefix :: "string option"
  st_last_datagrams :: "datagram_item list"
  st_last_unparsed :: "string list"

definition stats :: "nmea_listener \<Rightarrow> gps_stats" where
  "stats l = \<lparr>st_bound = bind_addr l @ '':'' @ show_nat (port l),
     st_datagrams_total = datagrams_total l, st_parsed = sentences_parsed l,
     st_unparsed = sentences_unparsed l, st_prefix = prefix_seen l,
     st_last_datagrams = raw_datagrams l, st_last_unparsed = unparsed l\<rparr>"

definition gps_raw :: "nmea_listener option \<Rightarrow> string + gps_stats" where
  "gps_raw lo = (case lo of None \<Rightarrow> Inl ''listener not running'' | Some l \<Rightarrow> Inr (stats l))"

definition gps_health :: "nmea_listener option \<Rightarrow> bool \<times> bool" where
  "gps_health lo = (True, lo \<noteq> None)"

section \<open>The checksum\<close>

lemma ord_of_inject: "ord_of c = ord_of d \<longleftrightarrow> c = d"
proof -
  have b: "(of_char x :: nat) \<noteq> 65533" for x
  proof -
    have "(of_char x :: nat) < 256" by simp
    then show ?thesis by linarith
  qed
  show ?thesis using b [of c] b [of d] by (auto simp: ord_of_def)
qed

lemma xor_fold: "fold (\<lambda>ch actual. actual XOR ord_of ch) s k = k XOR xor_body s"
proof (induction s arbitrary: k)
  case (Cons c s)
  have "fold (\<lambda>ch actual. actual XOR ord_of ch) (c # s) k = (k XOR ord_of c) XOR xor_body s"
    using Cons.IH by simp
  also have "\<dots> = k XOR (ord_of c XOR xor_body s)" by (simp add: xor.assoc)
  also have "ord_of c XOR xor_body s = xor_body (c # s)"
    using Cons.IH [of "0 XOR ord_of c"] by (simp add: xor_body_def)
  finally show ?case .
qed (simp add: xor_body_def)

lemma xor_cancel_left: "(a :: nat) XOR b = a XOR c \<longleftrightarrow> b = c"
  by (metis xor.assoc xor.left_neutral xor_self_eq)

lemma xor_cancel_right: "(b :: nat) XOR a = c XOR a \<longleftrightarrow> b = c"
  by (metis xor.commute xor_cancel_left)

lemma xor_body_append: "xor_body (s @ t) = xor_body s XOR xor_body t"
  using xor_fold [of t "xor_body s"] by (simp add: xor_body_def)

lemma xor_body_Cons: "xor_body (c # t) = ord_of c XOR xor_body t"
  using xor_fold [of t "0 XOR ord_of c"] by (simp add: xor_body_def)

lemma xor_body_change:
  "xor_body (a @ c # b) = xor_body (a @ d # b) \<longleftrightarrow> c = d"
  by (simp add: xor_body_append xor_body_Cons xor_cancel_left xor_cancel_right ord_of_inject)

section \<open>What the listener keeps\<close>

definition fix_inv :: "gps_fix \<Rightarrow> bool" where
  "fix_inv f \<longleftrightarrow>
     fix_ok f = (fix_error f = None) \<and>
     (fix_ok f \<longrightarrow> latitude f \<noteq> PNone \<and> longitude f \<noteq> PNone \<and> fix_status f = Some ''valid'')"

definition listener_inv :: "nmea_listener \<Rightarrow> bool" where
  "listener_inv l \<longleftrightarrow>
     fix_inv (cur_fix l) \<and> (fix_ok (cur_fix l) \<longrightarrow> 0 < last_update l) \<and>
     length (raw_datagrams l) = min 10 (datagrams_total l) \<and>
     length (unparsed l) = min 10 (sentences_unparsed l) \<and>
     distinct (map fst (raw_fields l))"

lemma length_push10: "length xs \<le> 10 \<Longrightarrow> length (push10 x xs) = min 10 (Suc (length xs))"
  by (simp add: push10_def Let_def)

lemma record_raw_inv: "listener_inv l \<Longrightarrow> listener_inv (record_raw data addr l)"
  by (simp add: listener_inv_def record_raw_def length_push10)

lemma note_prefix_inv: "listener_inv l \<Longrightarrow> listener_inv (note_prefix p l)"
  by (simp add: listener_inv_def note_prefix_def)

lemma note_unparsed_inv: "listener_inv l \<Longrightarrow> listener_inv (note_unparsed x l)"
  by (simp add: listener_inv_def note_unparsed_def length_push10)

lemma consume_inv:
  "0 < now \<Longrightarrow> listener_inv l \<Longrightarrow> listener_inv (consume now today parsed addr l)"
  by (simp add: listener_inv_def consume_def Let_def fix_inv_def distinct_update)

lemma process_lines_inv:
  assumes "0 < now" "listener_inv l"
  shows "listener_inv (snd (process_lines now today addr ls l))"
  using assms
proof (induction now today addr ls l rule: process_lines.induct)
  case (2 now today addr line0 lines l)
  then show ?case
    by (auto simp: Let_def note_unparsed_inv consume_inv split: sum.splits option.splits)
qed simp

lemma datagram_inv:
  assumes "0 < now" "listener_inv l"
  shows "listener_inv (snd (datagram_received now today data addr l))"
  using assms
  by (auto simp: datagram_received_def Let_def
      intro!: process_lines_inv note_prefix_inv record_raw_inv split: prod.splits option.splits)

lemma snapshot_inv: "listener_inv l \<Longrightarrow> listener_inv (snd (snapshot now l))"
  by (auto simp: snapshot_def Let_def listener_inv_def fix_inv_def)

text \<open>The histories of a listener: datagrams and reads in any order, with any clock.\<close>

inductive gps_reachable :: "nat \<Rightarrow> string \<Rightarrow> nmea_listener \<Rightarrow> bool" for p b where
  gps_start: "gps_reachable p b (new_listener p b)"
| gps_datagram: "gps_reachable p b l \<Longrightarrow> 0 < now \<Longrightarrow>
     gps_reachable p b (snd (datagram_received now today data addr l))"
| gps_read: "gps_reachable p b l \<Longrightarrow> gps_reachable p b (snd (snapshot now l))"

lemma gps_reachable_inv: "gps_reachable p b l \<Longrightarrow> listener_inv l"
proof (induction rule: gps_reachable.induct)
  case gps_start
  then show ?case by (simp add: listener_inv_def new_listener_def fix_inv_def)
qed (simp_all add: datagram_inv snapshot_inv)

lemma process_lines_unchecked:
  assumes "\<forall>line \<in> set ls. \<not> checksum_ok (strip (strip line))"
  shows "fst (process_lines now today addr ls l) = None
       \<and> cur_fix (snd (process_lines now today addr ls l)) = cur_fix l
       \<and> last_update (snd (process_lines now today addr ls l)) = last_update l
       \<and> sentences_parsed (snd (process_lines now today addr ls l)) = sentences_parsed l
       \<and> datagrams_total (snd (process_lines now today addr ls l)) = datagrams_total l"
  using assms
proof (induction now today addr ls l rule: process_lines.induct)
  case (2 now today addr line0 lines l)
  then show ?case by (simp add: Let_def parse_sentence_def note_unparsed_def)
qed simp

section \<open>Properties\<close>

text \<open>C17. Whatever datagrams arrive and whenever the fix is read, a fix that is reported \<open>ok\<close> has
  a latitude and a longitude, comes from a sentence that declared itself valid, carries no
  error, and is at most \<open>STALE_AFTER_S\<close> seconds old.\<close>

theorem gps_snapshot_sound:
  assumes "gps_reachable p b l" "fst (snapshot now l) = f" "fix_ok f"
  shows "latitude f \<noteq> PNone \<and> longitude f \<noteq> PNone \<and> fix_status f = Some ''valid'' \<and>
    fix_error f = None \<and> age_s f = Some (round_dec 3 (now - last_update l)) \<and>
    round_dec 3 (now - last_update l) \<le> STALE_AFTER_S"
proof -
  have "listener_inv l" by (rule gps_reachable_inv [OF assms(1)])
  with assms(2,3) show ?thesis
    by (auto simp: listener_inv_def fix_inv_def snapshot_def Let_def STALE_AFTER_S_def
        split: if_splits)
qed

definition rmc_bytes :: "nat list" where
  "rmc_bytes = [36, 71, 80, 82, 77, 67, 44, 49, 50, 48, 48, 48, 48, 44, 65, 44, 49, 44, 78, 44, 50, 44, 69, 44, 48, 44, 48, 44, 48, 49, 48, 49, 50, 52, 44, 44, 42, 50, 66]"

definition rmc_listener :: nmea_listener where
  "rmc_listener = snd (datagram_received 5 ''2024-01-01'' rmc_bytes (''h'', 1) (new_listener 1 ''0''))"

lemma rmc_listener_reachable: "gps_reachable 1 ''0'' rmc_listener"
  unfolding rmc_listener_def by (rule gps_datagram [OF gps_start]) simp

lemma gps_snapshot_sound_witness:
  "latitude (fst (snapshot 9 rmc_listener)) \<noteq> PNone \<and> fix_ok (fst (snapshot 9 rmc_listener))"
proof -
  have "fix_ok (fst (snapshot 9 rmc_listener))" by code_simp
  with gps_snapshot_sound [OF rmc_listener_reachable refl this] show ?thesis by simp
qed

text \<open>Every reachable listener keeps its bookkeeping: the fix carries an error exactly when it
  is not \<open>ok\<close>, and the rings of raw datagrams and of unparsed lines hold the last ten (or all of
  them while there are fewer).\<close>

theorem gps_bookkeeping:
  assumes "gps_reachable p b l"
  shows "(fix_error (cur_fix l) = None \<longleftrightarrow> fix_ok (cur_fix l)) \<and>
    length (st_last_datagrams (stats l)) = min 10 (st_datagrams_total (stats l)) \<and>
    length (st_last_unparsed (stats l)) = min 10 (st_unparsed (stats l)) \<and>
    distinct (map fst (raw_fields l))"
  using gps_reachable_inv [OF assms] by (auto simp: listener_inv_def fix_inv_def stats_def)

lemma gps_bookkeeping_witness: "length (st_last_datagrams (stats rmc_listener)) = min 10 (st_datagrams_total (stats rmc_listener))"
  using gps_bookkeeping [OF rmc_listener_reachable] by simp

text \<open>The checksum detects every corruption of a single character of the sentence body.\<close>

theorem checksum_detects_change:
  assumes "checksum_ok (CHR ''$'' # a @ c # b @ CHR ''*'' # csum)"
    and "CHR ''*'' \<notin> set (a @ c # b)" "c' \<noteq> CHR ''*''" "c' \<noteq> c"
  shows "\<not> checksum_ok (CHR ''$'' # a @ c' # b @ CHR ''*'' # csum)"
proof -
  have cut: "cut_at CHR ''*'' (a @ d # b @ CHR ''*'' # csum) = (a @ d # b, Some csum)"
    if "d \<noteq> CHR ''*''" for d
    using cut_at_append [of "CHR ''*''" "a @ d # b" csum] assms(2) that by simp
  have "c \<noteq> CHR ''*''" using assms(2) by auto
  with assms show ?thesis
    using xor_body_change [of a c b c'] by (auto simp: checksum_ok_def cut Let_def split: if_splits option.splits)
qed

lemma checksum_detects_change_witness:
  "\<not> checksum_ok (CHR ''$'' # ''GP'' @ CHR ''X'' # ''SV'' @ CHR ''*'' # ''55'')"
  by (rule checksum_detects_change [of "''GP''" "CHR ''G''"]) (code_simp, simp_all)

text \<open>A datagram none of whose lines carries a correct checksum changes nothing of the fix:
  the fix, its age and the count of parsed sentences are what they were.\<close>

theorem bad_checksums_leave_fix:
  assumes "\<forall>line \<in> set (splitlines (CHR ''$'' # r)). \<not> checksum_ok (strip (strip line))"
    and "cut_at CHR ''$'' (to_ascii data) = (prefix, Some r)"
  shows "case datagram_received now today data addr l of (e, l') \<Rightarrow>
    e = None \<and> cur_fix l' = cur_fix l \<and> last_update l' = last_update l \<and>
    sentences_parsed l' = sentences_parsed l \<and>
    datagrams_total l' = datagrams_total l + 1"
proof -
  define l1 where "l1 = (if prefix \<noteq> [] then note_prefix prefix (record_raw data addr l) else record_raw data addr l)"
  have "cur_fix l1 = cur_fix l" "last_update l1 = last_update l"
    "sentences_parsed l1 = sentences_parsed l" "datagrams_total l1 = datagrams_total l + 1"
    by (simp_all add: l1_def note_prefix_def record_raw_def)
  moreover have "datagram_received now today data addr l
      = process_lines now today addr (splitlines (CHR ''$'' # r)) l1"
    by (simp add: datagram_received_def assms(2) Let_def l1_def)
  ultimately show ?thesis
    using process_lines_unchecked [OF assms(1), of now today addr l1]
    by (simp add: case_prod_beta)
qed

lemma bad_checksums_leave_fix_witness:
  "cur_fix (snd (datagram_received 7 [] [120, 36, 65, 42, 48, 48, 10, 36] (''h'', 1) rmc_listener)) = cur_fix rmc_listener"
proof -
  have 1: "\<forall>line \<in> set (splitlines (CHR ''$'' # ''A*00'' @ [CHR 0x0A] @ ''$'')). \<not> checksum_ok (strip (strip line))"
    by code_simp
  have 2: "cut_at CHR ''$'' (to_ascii [120, 36, 65, 42, 48, 48, 10, 36]) = (''x'', Some (''A*00'' @ [CHR 0x0A] @ ''$''))"
    by code_simp
  show ?thesis
    using bad_checksums_leave_fix [OF 1 2, of rmc_listener 7 "[]" "(''h'', 1)"] by (simp add: case_prod_beta)
qed

text \<open>A coordinate \<open>DDMM.mmmm\<close> (any number of degree digits and of decimals) is converted to
  degrees plus a sixtieth of the minutes, negative in the southern and western hemispheres.\<close>

theorem coord_to_decimal_exact:
  assumes "list_all is_digit D" "list_all is_digit M" "length M = 2" "list_all is_digit F" "hemi \<noteq> []"
  shows "coord_to_decimal (D @ M @ ''.'' @ F) hemi =
    Inr (PFloat (Fin (
      let deg = of_nat (read_nat D); minutes = of_nat (read_nat M) + of_nat (read_nat F) / 10 ^ length F
      in if hemi = ''S'' \<or> hemi = ''W'' then - (deg + minutes / 60) else deg + minutes / 60)))"
proof -
  define frac :: rat where "frac = of_nat (read_nat F) / 10 ^ length F"
  have fr: "0 \<le> frac" "frac < 1"
    using read_nat_bound [OF assms(4)]
    by (simp_all add: frac_def divide_less_eq)
  have mb: "read_nat M < 100" using read_nat_bound [OF assms(2)] assms(3) by simp
  define f :: rat where "f = 100 * of_nat (read_nat D) + of_nat (read_nat M) + frac"
  have pf: "parse_float ((D @ M) @ ''.'' @ F) = Some (Fin f)"
    using assms by (subst parse_float_plain)
      (auto simp: f_def frac_def read_nat_append field_simps)
  have "of_nat (read_nat M) \<le> (99 :: rat)" using mb by simp
  with fr have fl: "\<lfloor>f / 100\<rfloor> = int (read_nat D)"
    by (intro floor_unique) (simp_all add: f_def)
  have "0 \<le> f" using fr by (simp add: f_def)
  then have "trunc_rat (f / 100) = int (read_nat D)" by (simp add: trunc_rat_def fl)
  with pf assms(5) show ?thesis
    by (simp add: coord_to_decimal_def Let_def f_def flip: frac_def)
qed

lemma coord_to_decimal_exact_witness:
  "coord_to_decimal (''48'' @ ''07'' @ ''.'' @ ''038'') ''S'' = Inr (PFloat (Fin (- (48 + (7 + 38 / 1000) / 60))))"
  using coord_to_decimal_exact [of "''48''" "''07''" "''038''" "''S''"]
  by (simp add: is_digit_def read_nat_def digit_val_def Let_def)

text \<open>The checksum of this sentence is correct and its HDOP is not a number: \<open>float\<close> raises
  out of the decoder, the lines behind it in the datagram are dropped, and the sentence is
  not counted as unparsed.\<close>

theorem bad_number_drops_datagram:
  "process_lines now today addr (''$GPGGA,120000,,,,,0,00,bad,,M,,M,,*02'' # ls) l
     = (Some (value_error ''could not convert string to float''), l)"
  by code_simp

end
