(* ===== verification/Framing.thy ===== *)
theory Framing
  imports MSF_Prelude "HOL-Library.Word"
begin

text \<open>
  The wire layer. \<open>encode\<close> and \<open>read_frames\<close> are the library
  \<open>libs/sapient-encode-decode-msg\<close>, used by the UI and by cot-bridge; \<open>receive_size_prefixed\<close>,
  \<open>receive_until\<close> and the \<open>BufferedWriter\<close> are those of the Apex middleware
  (\<open>sapient_apex_server/trio_util.py\<close>), which sits at the other end of the same sockets.

  Bytes are 8-bit words. A socket is the list of chunks that successive \<open>receive_some\<close> calls
  return; the end of the list, or an empty chunk, is the end of the stream.
\<close>

type_synonym byte = "8 word"
type_synonym bytes = "byte list"

section \<open>32-bit little-endian and big-endian integers (\<open>struct\<close> formats \<open><I\<close> and \<open>!I\<close>)\<close>

definition pack_le32 :: "nat \<Rightarrow> bytes" where
  "pack_le32 n = [of_nat n, of_nat (n div 256), of_nat (n div 65536), of_nat (n div 16777216)]"

fun unpack_le32 :: "bytes \<Rightarrow> nat" where
  "unpack_le32 [a, b, c, d] = unat a + 256 * unat b + 65536 * unat c + 16777216 * unat d"
| "unpack_le32 _ = 0"

fun unpack_be32 :: "bytes \<Rightarrow> nat" where
  "unpack_be32 [a, b, c, d] = unpack_le32 [d, c, b, a]"
| "unpack_be32 _ = 0"

lemma length_pack_le32 [simp]: "length (pack_le32 n) = 4"
  by (simp add: pack_le32_def)

lemma unat_of_nat_byte: "unat (of_nat n :: byte) = n mod 256"
  by (simp add: unat_of_nat)

lemma base256_digits:
  assumes "(n :: nat) < 4294967296"
  shows "n mod 256 + 256 * (n div 256 mod 256) + 65536 * (n div 65536 mod 256)
           + 16777216 * (n div 16777216 mod 256) = n"
proof -
  have "n div 16777216 < 256" using assms by (simp add: div_less_iff_less_mult)
  then have 3: "n div 16777216 mod 256 = n div 16777216" by simp
  have 2: "n div 65536 = 256 * (n div 16777216) + n div 65536 mod 256"
    using div_mult_mod_eq [of "n div 65536" 256] by (simp add: div_mult2_eq [symmetric])
  have 1: "n div 256 = 256 * (n div 65536) + n div 256 mod 256"
    using div_mult_mod_eq [of "n div 256" 256] by (simp add: div_mult2_eq [symmetric])
  have 0: "n = 256 * (n div 256) + n mod 256" by simp
  show ?thesis using 0 1 2 3 by linarith
qed

lemma unpack_pack_le32 [simp]:
  assumes "n < 4294967296"
  shows "unpack_le32 (pack_le32 n) = n"
proof -
  have "unpack_le32 (pack_le32 n) = n mod 256 + 256 * (n div 256 mod 256)
          + 65536 * (n div 65536 mod 256) + 16777216 * (n div 16777216 mod 256)"
    unfolding pack_le32_def unpack_le32.simps unat_of_nat_byte ..
  also have "\<dots> = n" by (rule base256_digits [OF assms])
  finally show ?thesis .
qed

section \<open>\<open>sapient_encode_decode_msg\<close>\<close>

definition HEADER_LEN :: nat where
  "HEADER_LEN = 4"

definition encode :: "bytes \<Rightarrow> bytes res" where
  "encode payload =
     (if length payload < 4294967296 then Inr (pack_le32 (length payload) @ payload)
      else Inl (PyExc ''struct.error'' ''argument out of range''))"

definition incomplete_read :: exn where
  "incomplete_read = PyExc ''IncompleteReadError'' ''bytes read on a total of expected bytes''"

text \<open>The payloads the generator yields before the stream ends, with the exception that ends
  it: \<open>readexactly\<close> raises as soon as fewer bytes are left than it was asked for.\<close>

function read_frames :: "bytes \<Rightarrow> bytes list \<times> exn" where
  "read_frames s =
     (if length s < HEADER_LEN then ([], incomplete_read)
      else let n = unpack_le32 (take HEADER_LEN s); s1 = drop HEADER_LEN s
           in if length s1 < n then ([], incomplete_read)
              else let (ps, e) = read_frames (drop n s1) in (take n s1 # ps, e))"
  by pat_completeness auto
termination
proof (relation "measure length")
  fix s :: bytes and n :: nat and s1 :: bytes
  assume "\<not> length s < HEADER_LEN" "s1 = drop HEADER_LEN s"
  then have "length s1 < length s" by (simp add: HEADER_LEN_def)
  then show "(drop n s1, s) \<in> measure length" by simp
qed simp

declare read_frames.simps [simp del]

section \<open>A codec: what sender and receiver agree on\<close>

text \<open>Decoding a fixed number of messages off the front of a byte string.\<close>

fun decode_n :: "(bytes \<Rightarrow> ('m \<times> bytes) option) \<Rightarrow> nat \<Rightarrow> bytes \<Rightarrow> ('m list \<times> bytes) option" where
  "decode_n d 0 s = Some ([], s)"
| "decode_n d (Suc n) s =
     (case d s of None \<Rightarrow> None
      | Some (m, s') \<Rightarrow>
          (case decode_n d n s' of None \<Rightarrow> None | Some (ms, r) \<Rightarrow> Some (m # ms, r)))"

locale codec =
  fixes ok :: "'m \<Rightarrow> bool"
    and enc :: "'m \<Rightarrow> bytes"
    and dec1 :: "bytes \<Rightarrow> ('m \<times> bytes) option"
  assumes dec_enc: "ok m \<Longrightarrow> dec1 (enc m @ r) = Some (m, r)"
begin

lemma decode_stream:
  "list_all ok ms \<Longrightarrow> decode_n dec1 (length ms) (concat (map enc ms) @ r) = Some (ms, r)"
  by (induction ms) (auto simp: dec_enc)

lemma enc_prefix_free:
  assumes "ok m" "ok m'" "enc m @ r = enc m' @ r'"
  shows "m = m' \<and> r = r'"
proof -
  have "Some (m, r) = Some (m', r')"
    unfolding dec_enc [OF assms(1), of r, symmetric] dec_enc [OF assms(2), of r', symmetric]
    by (rule arg_cong [OF assms(3)])
  then show ?thesis by simp
qed

lemma stream_inject:
  assumes "list_all ok ms" "list_all ok ns" "length ms = length ns"
    and "concat (map enc ms) = concat (map enc ns)"
  shows "ms = ns"
proof -
  have "decode_n dec1 (length ms) (concat (map enc ms) @ []) = decode_n dec1 (length ns) (concat (map enc ns) @ [])"
    using assms(3,4) by (simp only:)
  then show ?thesis using decode_stream [OF assms(1), of "[]"] decode_stream [OF assms(2), of "[]"]
    by (simp only: option.inject prod.inject)
qed

end

definition frame :: "bytes \<Rightarrow> bytes" where
  "frame p = pack_le32 (length p) @ p"

definition small :: "bytes \<Rightarrow> bool" where
  "small p \<longleftrightarrow> length p < 4294967296"

lemma encode_frame: "encode p = (if small p then Inr (frame p) else Inl (PyExc ''struct.error'' ''argument out of range''))"
  by (simp add: encode_def frame_def small_def)

text \<open>One step of \<open>read_frames\<close>.\<close>

definition next_frame :: "bytes \<Rightarrow> (bytes \<times> bytes) option" where
  "next_frame s =
     (if length s < HEADER_LEN then None
      else let n = unpack_le32 (take HEADER_LEN s); s1 = drop HEADER_LEN s
           in if length s1 < n then None else Some (take n s1, drop n s1))"

lemma read_frames_step:
  "read_frames s = (case next_frame s of None \<Rightarrow> ([], incomplete_read)
     | Some (p, r) \<Rightarrow> (p # fst (read_frames r), snd (read_frames r)))"
  by (subst read_frames.simps) (simp add: next_frame_def Let_def split: prod.splits)

lemma next_frame_frame: "small p \<Longrightarrow> next_frame (frame p @ r) = Some (p, r)"
  by (simp add: next_frame_def frame_def small_def HEADER_LEN_def)

interpretation fr: codec small frame next_frame
  by unfold_locales (rule next_frame_frame)

lemma read_frames_stream:
  "list_all small ps \<Longrightarrow>
     read_frames (concat (map frame ps) @ r) = (ps @ fst (read_frames r), snd (read_frames r))"
proof (induction ps)
  case (Cons p ps)
  then show ?case by (subst read_frames_step) (simp add: next_frame_frame)
qed simp

lemma read_frames_short: "next_frame s = None \<Longrightarrow> read_frames s = ([], incomplete_read)"
  by (subst read_frames_step) simp

lemma next_frame_truncated:
  assumes "small p" "k < length (frame p)"
  shows "next_frame (take k (frame p)) = None"
  using assms unfolding next_frame_def frame_def small_def HEADER_LEN_def
  by (auto simp: Let_def min_def take_append)

lemma read_frames_exn: "snd (read_frames s) = incomplete_read"
proof (induction s rule: length_induct)
  case (1 s)
  show ?case
  proof (cases "next_frame s")
    case None
    then show ?thesis by (simp add: read_frames_short)
  next
    case (Some pr)
    then obtain p r where pr: "next_frame s = Some (p, r)" by (cases pr) auto
    then have "length r < length s"
      by (auto simp: next_frame_def HEADER_LEN_def Let_def split: if_splits)
    with 1 have "snd (read_frames r) = incomplete_read" by blast
    with pr show ?thesis by (subst read_frames_step) simp
  qed
qed

section \<open>Receiving one message (\<open>trio_util\<close>)\<close>

text \<open>A receive returns its result with the read buffer and the rest of the stream as it leaves
  them, also when it raises: the caller reports what is left in the buffer.\<close>

type_synonym rx = "bytes \<times> bytes list"

definition eof_error :: exn where
  "eof_error = PyExc ''EOFError'' ''''"

definition too_long :: "nat \<Rightarrow> nat \<Rightarrow> exn" where
  "too_long n m = PyExc ''RuntimeError''
     (''Message too long ('' @ show_nat n @ '' > '' @ show_nat m @ '')'')"

definition too_long_pending :: "nat \<Rightarrow> nat \<Rightarrow> exn" where
  "too_long_pending n m = PyExc ''RuntimeError''
     (''Message too long (pending '' @ show_nat n @ '' > '' @ show_nat m @ '')'')"

text \<open>\<open>while len(read_buffer) < n: read_buffer.extend(receive_some())\<close>\<close>

fun fill :: "nat \<Rightarrow> bytes \<Rightarrow> bytes list \<Rightarrow> unit res \<times> rx" where
  "fill n buf cs =
     (if n \<le> length buf then (Inr (), buf, cs)
      else case cs of [] \<Rightarrow> (Inl eof_error, buf, [])
           | c # cs' \<Rightarrow> if c = [] then (Inl eof_error, buf, cs') else fill n (buf @ c) cs')"

declare fill.simps [simp del]

definition receive_size_prefixed :: "nat \<Rightarrow> bytes \<Rightarrow> bytes list \<Rightarrow> bytes res \<times> rx" where
  "receive_size_prefixed max_size buf cs =
     (case fill 4 buf cs of
        (Inl e, rx) \<Rightarrow> (Inl e, rx)
      | (Inr _, buf1, cs1) \<Rightarrow>
          let n = unpack_le32 (take 4 buf1)
          in if max_size < n then (Inl (too_long n max_size), buf1, cs1)
             else case fill n (drop 4 buf1) cs1 of
                    (Inl e, rx) \<Rightarrow> (Inl e, rx)
                  | (Inr _, buf2, cs2) \<Rightarrow> (Inr (take n buf2), drop n buf2, cs2))"

text \<open>\<open>bytearray.find(delimiter, start)\<close>\<close>

fun find_at :: "bytes \<Rightarrow> bytes \<Rightarrow> nat option" where
  "find_at d [] = (if d = [] then Some 0 else None)"
| "find_at d (x # xs) =
     (if take (length d) (x # xs) = d then Some 0 else map_option Suc (find_at d xs))"

definition find_from :: "bytes \<Rightarrow> bytes \<Rightarrow> nat \<Rightarrow> nat option" where
  "find_from d b i = map_option (\<lambda>k. i + k) (find_at d (drop i b))"

text \<open>\<open>receive_until\<close>, with the index \<open>next_find_index\<close> where the search is resumed.\<close>

fun until_loop :: "bytes \<Rightarrow> nat \<Rightarrow> nat \<Rightarrow> bytes \<Rightarrow> bytes list \<Rightarrow> nat res \<times> rx" where
  "until_loop d max_size i buf cs =
     (case find_from d buf i of
        Some t \<Rightarrow> (Inr t, buf, cs)
      | None \<Rightarrow>
          if max_size < length buf then (Inl (too_long_pending (length buf) max_size), buf, cs)
          else case cs of [] \<Rightarrow> (Inl eof_error, buf, [])
               | c # cs' \<Rightarrow>
                   if c = [] then (Inl eof_error, buf, cs')
                   else until_loop d max_size (length buf + 1 - length d) (buf @ c) cs')"

declare until_loop.simps [simp del]

definition receive_until ::
  "bytes \<Rightarrow> nat \<Rightarrow> bool \<Rightarrow> bytes \<Rightarrow> bytes list \<Rightarrow> bytes res \<times> rx" where
  "receive_until d max_size return_delimiter buf cs =
     (let max' = max_size + length d
      in case until_loop d max' 0 buf cs of
           (Inl e, rx) \<Rightarrow> (Inl e, rx)
         | (Inr t, buf1, cs1) \<Rightarrow>
             let message_len = t + length d
             in if max' < message_len then (Inl (too_long message_len max'), buf1, cs1)
                else (Inr (take (if return_delimiter then message_len else t) buf1),
                      drop message_len buf1, cs1))"

section \<open>What a receive returns, whatever the chunks\<close>

text \<open>The bytes that are still to be read: the buffer and the chunks not yet received.\<close>

abbreviation pending :: "rx \<Rightarrow> bytes" where
  "pending rx \<equiv> fst rx @ concat (snd rx)"

definition no_eof :: "bytes list \<Rightarrow> bool" where
  "no_eof cs \<longleftrightarrow> [] \<notin> set cs"

lemma no_eof_Cons [simp]: "no_eof (c # cs) \<longleftrightarrow> c \<noteq> [] \<and> no_eof cs"
  by (auto simp: no_eof_def)

lemma fill_spec:
  assumes "no_eof cs"
  shows "\<exists>buf' cs'. fill n buf cs =
           (if n \<le> length (buf @ concat cs) then Inr () else Inl eof_error, buf', cs')
         \<and> buf' @ concat cs' = buf @ concat cs \<and> no_eof cs'
         \<and> (n \<le> length (buf @ concat cs) \<longrightarrow> n \<le> length buf')"
  using assms
proof (induction cs arbitrary: buf)
  case Nil
  then show ?case by (subst fill.simps) auto
next
  case (Cons c cs)
  show ?case
  proof (cases "n \<le> length buf")
    case True
    then have "fill n buf (c # cs) = (Inr (), buf, c # cs)" by (subst fill.simps) simp
    with True Cons.prems show ?thesis by auto
  next
    case False
    with Cons.prems have "fill n buf (c # cs) = fill n (buf @ c) cs" by (subst fill.simps) simp
    with Cons.IH [of "buf @ c"] Cons.prems show ?thesis by simp
  qed
qed

text \<open>What \<open>receive_size_prefixed\<close> means on the whole of the remaining bytes.\<close>

definition recv_spec :: "nat \<Rightarrow> bytes \<Rightarrow> bytes res \<times> bytes" where
  "recv_spec max_size s =
     (if length s < 4 then (Inl eof_error, s)
      else let n = unpack_le32 (take 4 s)
           in if max_size < n then (Inl (too_long n max_size), s)
              else if length (drop 4 s) < n then (Inl eof_error, drop 4 s)
              else (Inr (take n (drop 4 s)), drop n (drop 4 s)))"

lemma receive_size_prefixed_spec:
  assumes "no_eof cs"
  shows "(let (r, rx) = receive_size_prefixed m buf cs in (r, pending rx))
           = recv_spec m (pending (buf, cs))"
proof -
  define s where "s = buf @ concat cs"
  obtain b1 c1 where f1: "fill 4 buf cs = (if 4 \<le> length s then Inr () else Inl eof_error, b1, c1)"
      and p1: "b1 @ concat c1 = s" and n1: "no_eof c1" and l1: "4 \<le> length s \<longrightarrow> 4 \<le> length b1"
    using fill_spec [OF assms, of 4 buf] unfolding s_def by blast
  show ?thesis
  proof (cases "4 \<le> length s")
    case False
    with f1 p1 show ?thesis by (simp add: receive_size_prefixed_def recv_spec_def flip: s_def)
  next
    case True
    with l1 have l1: "4 \<le> length b1" by simp
    define n where "n = unpack_le32 (take 4 b1)"
    have t: "take 4 s = take 4 b1" "drop 4 s = drop 4 b1 @ concat c1"
      using l1 by (simp_all flip: p1)
    obtain b2 c2 where
      f2: "fill n (drop 4 b1) c1 = (if n \<le> length (drop 4 s) then Inr () else Inl eof_error, b2, c2)"
      and p2: "b2 @ concat c2 = drop 4 s" and l2: "n \<le> length (drop 4 s) \<longrightarrow> n \<le> length b2"
      using fill_spec [OF n1, of n "drop 4 b1"] unfolding t by blast
    have lhs: "receive_size_prefixed m buf cs =
        (if m < n then (Inl (too_long n m), b1, c1)
         else if n \<le> length (drop 4 s) then (Inr (take n b2), drop n b2, c2)
         else (Inl eof_error, b2, c2))"
      using True by (simp add: receive_size_prefixed_def f1 f2 Let_def flip: n_def)
    have rhs: "recv_spec m s = (if m < n then (Inl (too_long n m), s)
        else if length (drop 4 s) < n then (Inl eof_error, drop 4 s)
        else (Inr (take n (drop 4 s)), drop n (drop 4 s)))"
      using True by (simp add: recv_spec_def Let_def t(1) flip: n_def)
    show ?thesis
    proof (cases "n \<le> length (drop 4 s)")
      case True
      with l2 have "take n (drop 4 s) = take n b2" "drop n (drop 4 s) = drop n b2 @ concat c2"
        by (simp_all flip: p2)
      with True show ?thesis by (simp add: lhs rhs p1 flip: s_def)
    next
      case False
      then show ?thesis by (simp add: lhs rhs p1 p2 flip: s_def)
    qed
  qed
qed

text \<open>A framed payload that is not longer than the limit is received whole, and exactly its bytes
  are taken off the stream.\<close>

lemma recv_spec_frame:
  assumes "small p" "length p \<le> m"
  shows "recv_spec m (frame p @ r) = (Inr p, r)"
  using assms by (simp add: recv_spec_def frame_def small_def)

lemma receive_frame_chunks:
  assumes "no_eof cs" "buf @ concat cs = frame p @ r" "small p" "length p \<le> m"
  shows "\<exists>buf' cs'. receive_size_prefixed m buf cs = (Inr p, buf', cs') \<and> buf' @ concat cs' = r"
  using receive_size_prefixed_spec [OF assms(1), of m buf] recv_spec_frame [OF assms(3,4), of r]
  by (auto simp: assms(2) split: prod.splits)

section \<open>Delimited messages\<close>

definition occurs :: "bytes \<Rightarrow> bytes \<Rightarrow> nat \<Rightarrow> bool" where
  "occurs d b k \<longleftrightarrow> take (length d) (drop k b) = d"

lemma occurs_length: "occurs d b k \<Longrightarrow> d \<noteq> [] \<Longrightarrow> k + length d \<le> length b"
proof -
  assume "occurs d b k" "d \<noteq> []"
  then have "min (length b - k) (length d) = length d" "0 < length d"
    by (simp_all add: occurs_def flip: length_drop length_take)
  then show ?thesis by linarith
qed

lemma occurs_append: "k + length d \<le> length b \<Longrightarrow> occurs d (b @ c) k = occurs d b k"
  by (simp add: occurs_def)

lemma find_at_Some:
  assumes "d \<noteq> []"
  shows "find_at d b = Some t \<longleftrightarrow> occurs d b t \<and> (\<forall>k < t. \<not> occurs d b k)"
proof (induction b arbitrary: t)
  case Nil
  with assms show ?case by (simp add: occurs_def)
next
  case (Cons x b)
  have 0: "take (length d) (x # b) = d \<longleftrightarrow> occurs d (x # b) 0" by (simp add: occurs_def)
  have S: "occurs d b k = occurs d (x # b) (Suc k)" for k by (simp add: occurs_def)
  show ?case
    by (cases t) (auto simp: 0 Cons.IH S less_Suc_eq_0_disj)
qed

lemma find_at_None:
  assumes "d \<noteq> []"
  shows "find_at d b = None \<longleftrightarrow> (\<forall>k. \<not> occurs d b k)"
proof
  assume n: "find_at d b = None"
  show "\<forall>k. \<not> occurs d b k"
  proof
    fix k show "\<not> occurs d b k"
    proof (induction k rule: less_induct)
      case (less k)
      with find_at_Some [OF assms, of b k] n show ?case by auto
    qed
  qed
qed (use find_at_Some [OF assms] in \<open>metis not_Some_eq\<close>)

lemma match_length: "d \<noteq> [] \<Longrightarrow> find_at d b = Some t \<Longrightarrow> t + length d \<le> length b"
  by (simp add: find_at_Some occurs_length)

text \<open>Resuming the search where no earlier match can start is a search from the beginning.\<close>

lemma find_from_resume:
  assumes "d \<noteq> []" "\<forall>k < i. \<not> occurs d b k"
  shows "find_from d b i = find_at d b"
proof -
  have sh: "occurs d (drop i b) k = occurs d b (i + k)" for k
    by (simp add: occurs_def add.commute)
  show ?thesis
  proof (cases "find_at d b")
    case None
    with assms(1) have "find_at d (drop i b) = None" by (simp add: find_at_None sh)
    with None show ?thesis by (simp add: find_from_def)
  next
    case (Some t)
    with assms have t: "occurs d b t" "\<forall>k < t. \<not> occurs d b k" "i \<le> t"
      by (auto simp: find_at_Some not_less)
    then have "find_at d (drop i b) = Some (t - i)"
      using assms(1) by (simp add: find_at_Some sh)
    with t Some show ?thesis by (simp add: find_from_def)
  qed
qed

lemma no_match_extend:
  assumes "d \<noteq> []" "find_at d b = None"
  shows "\<forall>k < length b + 1 - length d. \<not> occurs d (b @ c) k"
proof (intro allI impI)
  fix k assume "k < length b + 1 - length d"
  then have "k + length d \<le> length b" by linarith
  with assms show "\<not> occurs d (b @ c) k" by (simp add: occurs_append find_at_None)
qed

lemma match_in_prefix:
  assumes "d \<noteq> []" "find_at d (b @ c) = Some t" "t + length d \<le> length b"
  shows "find_at d b = Some t"
  using assms by (auto simp: find_at_Some occurs_append)

lemma match_append:
  assumes "d \<noteq> []" "find_at d b = Some t"
  shows "find_at d (b @ c) = Some t"
proof -
  have o: "occurs d b t" "\<forall>k < t. \<not> occurs d b k" using assms by (auto simp: find_at_Some)
  then have "t + length d \<le> length b" using assms(1) by (auto dest: occurs_length)
  with o show ?thesis using assms(1) by (simp add: find_at_Some occurs_append)
qed

lemma until_loop_spec:
  assumes "no_eof cs" "d \<noteq> []" "\<forall>k < i. \<not> occurs d buf k"
  shows "\<exists>r buf' cs'. until_loop d m i buf cs = (r, buf', cs') \<and> buf' @ concat cs' = buf @ concat cs
     \<and> (\<forall>t. r = Inr t \<longrightarrow> find_at d (buf @ concat cs) = Some t \<and> t + length d \<le> length buf')
     \<and> (\<forall>t. find_at d (buf @ concat cs) = Some t \<longrightarrow> t + length d \<le> m \<longrightarrow> r = Inr t)"
  using assms(1,3)
proof (induction cs arbitrary: buf i)
  case Nil
  have "find_from d buf i = find_at d buf" by (rule find_from_resume [OF assms(2) Nil.prems(2)])
  with match_length [OF assms(2), of buf] show ?case
    by (subst until_loop.simps) (cases "find_at d buf", auto)
next
  case (Cons c cs)
  note ff = find_from_resume [OF assms(2) Cons.prems(2)]
  show ?case
  proof (cases "find_at d buf")
    case (Some t)
    then have "until_loop d m i buf (c # cs) = (Inr t, buf, c # cs)"
      by (subst until_loop.simps) (simp add: ff)
    moreover have "find_at d (buf @ concat (c # cs)) = Some t"
      by (rule match_append [OF assms(2) Some])
    moreover have "t + length d \<le> length buf"
      using Some assms(2) by (auto simp: find_at_Some dest: occurs_length)
    ultimately show ?thesis by auto
  next
    case None
    show ?thesis
    proof (cases "m < length buf")
      case True
      with None have "until_loop d m i buf (c # cs) = (Inl (too_long_pending (length buf) m), buf, c # cs)"
        by (subst until_loop.simps) (simp add: ff)
      moreover have "\<not> t + length d \<le> m" if "find_at d (buf @ concat (c # cs)) = Some t" for t
        using match_in_prefix [OF assms(2) that] True None by auto
      ultimately show ?thesis by auto
    next
      case False
      with None Cons.prems have
        "until_loop d m i buf (c # cs) = until_loop d m (length buf + 1 - length d) (buf @ c) cs"
        by (subst until_loop.simps) (simp add: ff)
      with Cons.IH [OF _ no_match_extend [OF assms(2) None]] Cons.prems show ?thesis by auto
    qed
  qed
qed

lemma receive_until_spec:
  assumes "no_eof cs" "d \<noteq> []"
  shows "\<exists>r buf' cs'. receive_until d m False buf cs = (r, buf', cs')
     \<and> (\<forall>p. r = Inr p \<longleftrightarrow> (\<exists>t. find_at d (buf @ concat cs) = Some t \<and> t \<le> m \<and>
             p = take t (buf @ concat cs)))
     \<and> (\<forall>p. r = Inr p \<longrightarrow> buf @ concat cs = p @ d @ buf' @ concat cs')"
proof -
  define s where "s = buf @ concat cs"
  have "\<forall>k < 0. \<not> occurs d buf k" by simp
  note ex = until_loop_spec [OF assms this, of "m + length d", folded s_def]
  obtain r b c where u: "until_loop d (m + length d) 0 buf cs = (r, b, c)" and p: "b @ concat c = s"
    and snd: "\<forall>t. r = Inr t \<longrightarrow> find_at d s = Some t \<and> t + length d \<le> length b"
    and cpl: "\<forall>t. find_at d s = Some t \<longrightarrow> t + length d \<le> m + length d \<longrightarrow> r = Inr t"
    using ex by blast
  show ?thesis
  proof (cases r)
    case (Inl e)
    with cpl have "\<not> (\<exists>t. find_at d s = Some t \<and> t \<le> m)" by auto
    with Inl u show ?thesis by (auto simp: receive_until_def simp flip: s_def)
  next
    case (Inr t)
    with snd have t: "find_at d s = Some t" "t + length d \<le> length b" by auto
    show ?thesis
    proof (cases "m < t")
      case True
      with Inr u t(1) show ?thesis by (auto simp: receive_until_def simp flip: s_def)
    next
      case False
      have take_b: "take t b = take t s" using t(2) by (simp flip: p)
      have "take (length d) (drop t s) = d"
        using t(1) assms(2) by (simp add: find_at_Some occurs_def)
      then have "drop t s = d @ drop (t + length d) s"
        using append_take_drop_id [of "length d" "drop t s"] by (simp add: add.commute)
      moreover have "drop (t + length d) s = drop (t + length d) b @ concat c"
        using t(2) by (simp flip: p)
      ultimately have sp: "s = take t s @ d @ drop (t + length d) b @ concat c"
        using append_take_drop_id [of t s] by simp
      have run: "receive_until d m False buf cs = (Inr (take t s), drop (t + length d) b, c)"
        using False Inr u take_b by (simp add: receive_until_def)
      show ?thesis unfolding s_def [symmetric]
      proof (intro exI conjI allI)
        show "receive_until d m False buf cs = (Inr (take t s), drop (t + length d) b, c)"
          by (rule run)
        show "(Inr (take t s) = (Inr p :: bytes res))
                = (\<exists>t. find_at d s = Some t \<and> t \<le> m \<and> p = take t s)" for p
          using False t(1) by auto
        show "Inr (take t s) = (Inr p :: bytes res)
                \<longrightarrow> s = p @ d @ drop (t + length d) b @ concat c" for p
          using sp by (metis sum.inject(2))
      qed
    qed
  qed
qed

section \<open>\<open>BufferedWriter\<close>\<close>

text \<open>\<open>buffered_bytes\<close> becomes \<open>None\<close> when the buffer overflows. Each pass of the loop of
  \<open>perform_writes\<close> parks, hands the whole buffer to \<open>send_all\<close>, or raises.\<close>

record buffered_writer =
  buffered_bytes :: "bytes option"
  writer_exception :: "exn option"
  max_data :: nat

datatype writes_action = Park | SendAll bytes | RaiseExn exn

definition new_writer :: "nat \<Rightarrow> buffered_writer" where
  "new_writer n = \<lparr>buffered_bytes = Some [], writer_exception = None, max_data = n\<rparr>"

definition write_nowait :: "bytes \<Rightarrow> buffered_writer \<Rightarrow> buffered_writer" where
  "write_nowait message w =
     (case (writer_exception w, buffered_bytes w) of
        (None, Some b) \<Rightarrow>
          let b' = b @ message
          in if max_data w < length b'
             then w\<lparr>writer_exception := Some (PyExc ''RuntimeError''
                      (''Send buffer full ('' @ show_nat (length b') @ '' > ''
                        @ show_nat (max_data w) @ '' bytes)'')),
                    buffered_bytes := None\<rparr>
             else w\<lparr>buffered_bytes := Some b'\<rparr>
      | _ \<Rightarrow> w)"

definition perform_writes :: "buffered_writer \<Rightarrow> writes_action \<times> buffered_writer" where
  "perform_writes w =
     (case writer_exception w of
        Some e \<Rightarrow> (RaiseExn e, w)
      | None \<Rightarrow>
          (case buffered_bytes w of
             None \<Rightarrow> (Park, w)
           | Some b \<Rightarrow> if b = [] then (Park, w)
                       else (SendAll b, w\<lparr>buffered_bytes := Some []\<rparr>)))"

text \<open>Writers of other tasks interleave with the passes of the sending task.\<close>

datatype writer_event = Write bytes | Pass

fun run_writer :: "writer_event list \<Rightarrow> buffered_writer \<Rightarrow> buffered_writer \<times> bytes" where
  "run_writer [] w = (w, [])"
| "run_writer (Write m # es) w = run_writer es (write_nowait m w)"
| "run_writer (Pass # es) w =
     (case perform_writes w of
        (SendAll b, w') \<Rightarrow> (let (w'', out) = run_writer es w' in (w'', b @ out))
      | (_, w') \<Rightarrow> run_writer es w')"

fun written :: "writer_event list \<Rightarrow> bytes" where
  "written [] = []"
| "written (Write m # es) = m @ written es"
| "written (Pass # es) = written es"

lemma run_writer_dead:
  assumes "writer_exception w = Some e"
  shows "run_writer es w = (w, [])"
  using assms
proof (induction es)
  case (Cons ev es)
  then show ?case by (cases ev) (simp_all add: write_nowait_def perform_writes_def)
qed simp

lemma run_writer_inv:
  assumes "writer_exception w = None" "buffered_bytes w = Some b" "length b \<le> max_data w"
  shows "case run_writer es w of (w', out) \<Rightarrow>
           (case writer_exception w' of
              None \<Rightarrow> (\<exists>b'. buffered_bytes w' = Some b' \<and> length b' \<le> max_data w'
                        \<and> out @ b' = b @ written es)
            | Some _ \<Rightarrow> buffered_bytes w' = None \<and> (\<exists>lost. out @ lost = b @ written es))"
  using assms
proof (induction es arbitrary: w b)
  case Nil
  then show ?case by simp
next
  case (Cons ev es)
  show ?case
  proof (cases ev)
    case (Write m)
    show ?thesis
    proof (cases "max_data w < length (b @ m)")
      case True
      define w1 where "w1 = write_nowait m w"
      have "writer_exception w1 \<noteq> None" "buffered_bytes w1 = None"
        using True Cons.prems by (simp_all add: w1_def write_nowait_def)
      then show ?thesis using run_writer_dead [of w1 _ es]
        by (auto simp: Write simp flip: w1_def split: option.splits)
    next
      case False
      then show ?thesis
        using Cons.prems Cons.IH [of "write_nowait m w" "b @ m"]
        by (simp add: Write write_nowait_def split: prod.splits option.splits)
    qed
  next
    case Pass
    show ?thesis
    proof (cases "b = []")
      case True
      with Cons.prems have "run_writer (Pass # es) w = run_writer es w"
        by (simp add: perform_writes_def)
      moreover note Cons.IH [OF Cons.prems]
      ultimately show ?thesis unfolding Pass written.simps by (simp only:)
    next
      case False
      have "case run_writer es (w\<lparr>buffered_bytes := Some []\<rparr>) of (w', out) \<Rightarrow>
           (case writer_exception w' of
              None \<Rightarrow> (\<exists>b'. buffered_bytes w' = Some b' \<and> length b' \<le> max_data w'
                        \<and> out @ b' = [] @ written es)
            | Some _ \<Rightarrow> buffered_bytes w' = None \<and> (\<exists>lost. out @ lost = [] @ written es))"
        by (rule Cons.IH) (simp_all add: Cons.prems)
      then show ?thesis using False Cons.prems
        by (simp add: Pass perform_writes_def split: prod.splits option.splits)
    qed
  qed
qed

section \<open>Properties\<close>

lemma mapE_encode:
  "mapE encode ps = Inr fs \<Longrightarrow> list_all small ps \<and> fs = map frame ps"
  by (induction ps arbitrary: fs) (auto simp: encode_frame res_simps split: if_splits)

text \<open>C1. A receiver reads back exactly the payloads that a sender encoded, in order, also when
  the connection breaks in the middle of a further message: the partial message is never
  yielded, and the generator ends with \<open>IncompleteReadError\<close>.\<close>

theorem read_frames_encode:
  assumes "mapE encode ps = Inr fs" "encode q = Inr f" "k < length f"
  shows "read_frames (concat fs @ take k f) = (ps, incomplete_read)"
proof -
  from assms(1) have ps: "list_all small ps" "fs = map frame ps" by (auto dest: mapE_encode)
  from assms(2) have q: "small q" "f = frame q" by (auto simp: encode_frame split: if_splits)
  have "read_frames (take k f) = ([], incomplete_read)"
    using next_frame_truncated [OF q(1)] assms(3) q(2) by (auto intro: read_frames_short)
  with read_frames_stream [OF ps(1), of "take k f"] ps(2) show ?thesis by simp
qed

lemma read_frames_encode_witness:
  "read_frames [2, 0, 0, 0, 7, 8, 0, 0, 0, 0, 1, 0, 0, 0] = ([[7, 8], []], incomplete_read)"
  using read_frames_encode [of "[[7, 8], []]" "[[2, 0, 0, 0, 7, 8], [0, 0, 0, 0]]" "[9]"
      "[1, 0, 0, 0, 9]" 4]
  by (simp add: encode_def pack_le32_def)

text \<open>C2. What the UI encodes, the middleware receives: a payload within the size limit is
  returned whole, however the stream is cut into chunks, and the bytes behind it stay pending.\<close>

theorem encode_receive_size_prefixed:
  assumes "encode p = Inr f" "length p \<le> m" "no_eof cs" "buf @ concat cs = f @ r"
  shows "\<exists>buf' cs'. receive_size_prefixed m buf cs = (Inr p, buf', cs') \<and> buf' @ concat cs' = r"
  using assms receive_frame_chunks [of cs buf p r m]
  by (auto simp: encode_frame split: if_splits)

lemma encode_receive_size_prefixed_witness:
  "\<exists>buf' cs'. receive_size_prefixed 10 [2, 0] [[0], [0, 7], [8, 5]] = (Inr [7, 8], buf', cs')
     \<and> buf' @ concat cs' = [5]"
  by (rule encode_receive_size_prefixed [where f = "[2, 0, 0, 0, 7, 8]"])
     (simp_all add: encode_def pack_le32_def no_eof_def)

text \<open>A delimited message is received exactly when the delimiter occurs in the remaining
  bytes with at most \<open>max_size\<close> bytes before it; the message is what precedes the first
  occurrence, and message, delimiter and what stays pending are the stream. So resuming the
  search at \<open>next_find_index\<close> misses no delimiter that straddles two chunks.\<close>

theorem receive_until_first_delimiter:
  assumes "no_eof cs" "d \<noteq> []"
  shows "\<exists>r buf' cs'. receive_until d m False buf cs = (r, buf', cs')
     \<and> (\<forall>p. r = Inr p \<longleftrightarrow> (\<exists>t. find_at d (buf @ concat cs) = Some t \<and> t \<le> m \<and>
             p = take t (buf @ concat cs)))
     \<and> (\<forall>p. r = Inr p \<longrightarrow> buf @ concat cs = p @ d @ buf' @ concat cs')"
  using assms by (rule receive_until_spec)

lemma receive_until_first_delimiter_witness:
  "\<exists>r buf' cs'. receive_until [13, 10] 5 False [] [[65, 66, 13], [10, 67]] = (r, buf', cs')
     \<and> (\<forall>p. r = Inr p \<longleftrightarrow> p = [65, 66])
     \<and> (\<forall>p. r = Inr p \<longrightarrow> [65, 66, 13, 10, 67] = p @ [13, 10] @ buf' @ concat cs')"
  using receive_until_first_delimiter [of "[[65, 66, 13], [10, 67]]" "[13, 10]" 5 "[]"]
  by (simp add: no_eof_def)

text \<open>C36. However writes and passes of the sending task interleave, the bytes handed to the
  socket are those written, in order: while the buffer has not overflowed none is lost and at
  most \<open>max_data\<close> are waiting; once it has, a prefix was sent and nothing more ever is.\<close>

theorem buffered_writer_in_order:
  "case run_writer es (new_writer n) of (w, out) \<Rightarrow>
     (case writer_exception w of
        None \<Rightarrow> (\<exists>b. buffered_bytes w = Some b \<and> length b \<le> max_data w \<and> out @ b = written es)
      | Some _ \<Rightarrow> buffered_bytes w = None \<and> (\<exists>lost. out @ lost = written es)
                  \<and> (\<forall>es'. run_writer es' w = (w, [])))"
proof -
  have "case run_writer es (new_writer n) of (w, out) \<Rightarrow>
     (case writer_exception w of
        None \<Rightarrow> (\<exists>b. buffered_bytes w = Some b \<and> length b \<le> max_data w \<and> out @ b = [] @ written es)
      | Some _ \<Rightarrow> buffered_bytes w = None \<and> (\<exists>lost. out @ lost = [] @ written es))"
    by (rule run_writer_inv) (simp_all add: new_writer_def)
  then show ?thesis
    by (auto split: prod.splits option.splits simp: run_writer_dead)
qed

end
