(* ===== verification/Ntp.thy ===== *)
theory Ntp
  imports Framing PyNum
begin

text \<open>
  The NTP service (\<open>services/ntp/app/probe.py\<close>, \<open>main.py\<close>): the query of one server, the vote
  over all of them, the per-source table that a round of probes updates, and the HTTP reads.

  What the network returns is an argument: the error text, or the reply with the clock readings
  before sending and after receiving. Timestamps and offsets are exact rationals.
\<close>

section \<open>One server (\<open>probe.py\<close>)\<close>

definition NTP_TO_UNIX :: rat where "NTP_TO_UNIX = 2208988800"
definition WARN_THRESHOLD_S :: rat where "WARN_THRESHOLD_S = 1 / 2"
definition FAIL_THRESHOLD_S :: rat where "FAIL_THRESHOLD_S = 2"

record ntp_result =
  nr_server :: string
  nr_ok :: bool
  offset_s :: "rat option"
  rtt_s :: "rat option"
  nr_error :: "string option"
  nr_severity :: string

definition ntp_to_dict :: "ntp_result \<Rightarrow> pydict" where
  "ntp_to_dict r =
     [(''server'', PStr (nr_server r)), (''ok'', PBool (nr_ok r)),
      (''offset_s'', of_opt_rat (offset_s r)), (''rtt_s'', of_opt_rat (rtt_s r)),
      (''error'', of_opt_str (nr_error r)), (''severity'', PStr (nr_severity r)),
      (''warn_threshold_s'', PFloat (Fin WARN_THRESHOLD_S)),
      (''fail_threshold_s'', PFloat (Fin FAIL_THRESHOLD_S))]"

definition ntp_time :: "bytes \<Rightarrow> rat" where
  "ntp_time b = (of_nat (unpack_be32 (take 4 b)) - NTP_TO_UNIX) + of_nat (unpack_be32 (drop 4 b)) / 2 ^ 32"

definition classify_offset :: "rat \<Rightarrow> string" where
  "classify_offset off =
     (if FAIL_THRESHOLD_S \<le> \<bar>off\<bar> then ''fail''
      else if WARN_THRESHOLD_S \<le> \<bar>off\<bar> then ''warn'' else ''ok'')"

definition query_sync :: "string \<Rightarrow> string + (rat \<times> bytes \<times> rat) \<Rightarrow> ntp_result" where
  "query_sync server reply =
     (case reply of
        Inl exc \<Rightarrow> \<lparr>nr_server = server, nr_ok = False, offset_s = None, rtt_s = None,
                    nr_error = Some (''network: '' @ exc), nr_severity = ''fail''\<rparr>
      | Inr (t0, data, t3) \<Rightarrow>
          if length data < 48
          then \<lparr>nr_server = server, nr_ok = False, offset_s = None, rtt_s = None,
                nr_error = Some (''short reply: '' @ show_nat (length data) @ '' bytes''),
                nr_severity = ''fail''\<rparr>
          else let t1 = ntp_time (take 8 (drop 32 data)); t2 = ntp_time (take 8 (drop 40 data));
                   off = ((t1 - t0) + (t2 - t3)) / 2; rtt = (t3 - t0) - (t2 - t1)
               in \<lparr>nr_server = server, nr_ok = True, offset_s = Some off, rtt_s = Some rtt,
                   nr_error = None, nr_severity = classify_offset off\<rparr>)"

section \<open>The vote (\<open>main.py\<close>)\<close>

text \<open>\<open>statistics.median\<close> of a non-empty list.\<close>

definition median :: "rat list \<Rightarrow> rat" where
  "median xs = (let ys = sort xs; n = length xs
     in if odd n then ys ! (n div 2) else (ys ! (n div 2 - 1) + ys ! (n div 2)) / 2)"

text \<open>\<open>severity_rank\<close>; the probe produces no other severity.\<close>

definition severity_rank :: "string \<Rightarrow> nat" where
  "severity_rank s = (if s = ''ok'' then 0 else if s = ''warn'' then 1 else 2)"

text \<open>\<open>max(xs, key=f)\<close> returns the first of the largest elements.\<close>

fun max_by :: "('a \<Rightarrow> nat) \<Rightarrow> 'a list \<Rightarrow> 'a" where
  "max_by f [] = undefined"
| "max_by f [x] = x"
| "max_by f (x # y # xs) = (let m = max_by f (y # xs) in if f x < f m then m else x)"

record voted =
  v_ok :: bool
  v_offset :: "rat option"
  v_rtt :: "rat option"
  v_error :: "string option"
  v_severity :: string
  voted_from :: nat
  asked :: nat

fun the_list :: "'a option \<Rightarrow> 'a list" where
  "the_list None = []"
| "the_list (Some x) = [x]"

definition reachable_results :: "ntp_result list \<Rightarrow> ntp_result list" where
  "reachable_results results = filter (\<lambda>r. nr_ok r \<and> offset_s r \<noteq> None) results"

definition first_error :: "ntp_result list \<Rightarrow> string" where
  "first_error results =
     (case filter (\<lambda>r. nr_error r \<noteq> None \<and> nr_error r \<noteq> Some []) results of
        r # _ \<Rightarrow> (case nr_error r of Some e \<Rightarrow> e | None \<Rightarrow> [])
      | [] \<Rightarrow> ''no reachable NTP sources'')"

definition vote :: "ntp_result list \<Rightarrow> voted" where
  "vote results =
     (let oks = reachable_results results in
      if oks = []
      then \<lparr>v_ok = False, v_offset = None, v_rtt = None, v_error = Some (first_error results),
            v_severity = ''fail'', voted_from = 0, asked = length results\<rparr>
      else let med = median (concat (map (the_list \<circ> offset_s) oks));
               sev = classify_offset med;
               worst = max_by severity_rank (map nr_severity oks);
               sev' = (if severity_rank sev < severity_rank worst then worst else sev);
               rtts = concat (map (the_list \<circ> rtt_s) oks)
           in \<lparr>v_ok = True, v_offset = Some med,
               v_rtt = (if rtts = [] then None else Some (median rtts)), v_error = None,
               v_severity = sev', voted_from = length oks, asked = length results\<rparr>)"

definition voted_to_dict :: "voted \<Rightarrow> pydict" where
  "voted_to_dict v =
     [(''ok'', PBool (v_ok v)), (''offset_s'', of_opt_rat (v_offset v)),
      (''rtt_s'', of_opt_rat (v_rtt v)), (''error'', of_opt_str (v_error v)),
      (''severity'', PStr (v_severity v)), (''voted_from'', PInt (int (voted_from v))),
      (''asked'', PInt (int (asked v))),
      (''warn_threshold_s'', PFloat (Fin WARN_THRESHOLD_S)),
      (''fail_threshold_s'', PFloat (Fin FAIL_THRESHOLD_S))]"

section \<open>The service\<close>

record ntp_service =
  servers :: "string list"
  interval_s :: flt
  timeout_s :: flt
  per_source :: "(string, pydict) odict"
  voted_answer :: pydict

definition not_yet_probed :: pydict where
  "not_yet_probed = [(''ok'', PBool False), (''error'', PStr ''not yet probed''), (''severity'', PStr ''fail'')]"

definition initial_service :: ntp_service where
  "initial_service = \<lparr>servers = [''pool.ntp.org''], interval_s = Fin 30, timeout_s = Fin 2,
     per_source = [], voted_answer = not_yet_probed\<rparr>"

definition time_val :: "rat \<Rightarrow> pyval" where
  "time_val t = PFloat (Fin t)"

definition note_source :: "rat \<Rightarrow> ntp_result \<Rightarrow> (string, pydict) odict \<Rightarrow> (string, pydict) odict" where
  "note_source now r tbl =
     (let entry0 = (case map_of tbl (nr_server r) of Some e \<Rightarrow> e | None \<Rightarrow> [(''first_seen'', time_val now)]);
          entry1 = AList.update ''last_probed_at'' (time_val now) (dict_update entry0 (ntp_to_dict r));
          entry2 = (if nr_ok r then AList.update ''last_ok_at'' (time_val now) entry1 else entry1)
      in AList.update (nr_server r) entry2 tbl)"

text \<open>\<open>net\<close> answers the query of each configured server, by its position.\<close>

definition probe_round :: "(nat \<Rightarrow> string + (rat \<times> bytes \<times> rat)) \<Rightarrow> rat \<Rightarrow> ntp_service \<Rightarrow> ntp_service" where
  "probe_round net now s =
     (let results = map (\<lambda>(i, srv). query_sync srv (net i)) (enumerate 0 (servers s))
      in s\<lparr>per_source := fold (note_source now) results (per_source s),
           voted_answer := voted_to_dict (vote results)\<rparr>)"

text \<open>\<open>_lifespan\<close>: the environment variables, \<open>None\<close> when unset, and the first round.\<close>

definition read_servers :: "string option \<Rightarrow> string list" where
  "read_servers raw =
     filter (\<lambda>s. s \<noteq> []) (map strip (split_on CHR '','' (case raw of None \<Rightarrow> ''pool.ntp.org'' | Some r \<Rightarrow> r)))"

definition env_float :: "rat \<Rightarrow> string option \<Rightarrow> flt res" where
  "env_float d raw = (case raw of None \<Rightarrow> Inr (Fin d)
     | Some r \<Rightarrow> (case parse_float r of None \<Rightarrow> Inl (value_error ''could not convert string to float'')
                 | Some f \<Rightarrow> Inr f))"

definition ntp_startup ::
  "string option \<Rightarrow> string option \<Rightarrow> string option \<Rightarrow> (nat \<Rightarrow> string + (rat \<times> bytes \<times> rat)) \<Rightarrow> rat
     \<Rightarrow> ntp_service \<Rightarrow> ntp_service res" where
  "ntp_startup raw_servers raw_interval raw_timeout net now s =
     bindE (env_float 30 raw_interval) (\<lambda>i.
     bindE (env_float 2 raw_timeout) (\<lambda>t.
       Inr (probe_round net now (s\<lparr>servers := read_servers raw_servers, interval_s := i, timeout_s := t\<rparr>))))"

definition ntp_current :: "ntp_service \<Rightarrow> pydict" where
  "ntp_current s = voted_answer s"

definition ntp_sources :: "ntp_service \<Rightarrow> pydict" where
  "ntp_sources s =
     [(''servers'', PList (map PStr (servers s))), (''interval_s'', PFloat (interval_s s)),
      (''results'', PDict (map (\<lambda>(k, e). (k, PDict e)) (per_source s)))]"

definition ntp_health :: "ntp_service \<Rightarrow> pydict" where
  "ntp_health s = [(''ok'', PBool True), (''configured_servers'', PList (map PStr (servers s))),
     (''interval_s'', PFloat (interval_s s))]"

definition refresh_now ::
  "(nat \<Rightarrow> string + (rat \<times> bytes \<times> rat)) \<Rightarrow> rat \<Rightarrow> rat \<Rightarrow> ntp_service \<Rightarrow> pydict \<times> ntp_service" where
  "refresh_now net now later s =
     (let s' = probe_round net now s
      in ([(''refreshed_at'', time_val later),
           (''results'', PDict (map (\<lambda>(k, e). (k, PDict e)) (per_source s'))),
           (''voted'', PDict (voted_answer s'))], s'))"

section \<open>The median\<close>

lemma sorted_below:
  assumes "sorted ys" "i < length ys" "ys ! i < (lo :: rat)"
  shows "Suc i \<le> length (filter (\<lambda>y. y < lo) ys)"
proof -
  have "filter (\<lambda>y. y < lo) (take (Suc i) ys) = take (Suc i) ys"
  proof (rule filter_True, rule ballI)
    fix y assume "y \<in> set (take (Suc i) ys)"
    then obtain j where "j < Suc i" "y = ys ! j" using assms(2)
      by (auto simp: in_set_conv_nth)
    with assms show "y < lo" by (metis le_less_trans less_Suc_eq_le sorted_nth_mono)
  qed
  then have "length (filter (\<lambda>y. y < lo) (take (Suc i) ys)) = Suc i" using assms(2) by simp
  moreover have "length (filter (\<lambda>y. y < lo) ys)
      = length (filter (\<lambda>y. y < lo) (take (Suc i) ys)) + length (filter (\<lambda>y. y < lo) (drop (Suc i) ys))"
    by (metis append_take_drop_id filter_append length_append)
  ultimately show ?thesis by simp
qed

lemma sorted_above:
  assumes "sorted ys" "i < length ys" "(hi :: rat) < ys ! i"
  shows "length ys - i \<le> length (filter (\<lambda>y. hi < y) ys)"
proof -
  have "filter (\<lambda>y. hi < y) (drop i ys) = drop i ys"
  proof (rule filter_True, rule ballI)
    fix y assume "y \<in> set (drop i ys)"
    then obtain j where "j < length ys - i" "y = ys ! (i + j)"
      by (auto simp: in_set_conv_nth)
    then have "i + j < length ys" "y = ys ! (i + j)" by simp_all
    with assms show "hi < y" by (metis le_add1 less_le_trans sorted_nth_mono)
  qed
  then have "length (filter (\<lambda>y. hi < y) (drop i ys)) = length ys - i" by simp
  moreover have "length (filter (\<lambda>y. hi < y) ys)
      = length (filter (\<lambda>y. hi < y) (take i ys)) + length (filter (\<lambda>y. hi < y) (drop i ys))"
    by (metis append_take_drop_id filter_append length_append)
  ultimately show ?thesis by simp
qed

lemma length_filter_sort: "length (filter P (sort xs)) = length (filter P xs)"
  by (simp add: filter_sort)

lemma three_parts:
  "lo \<le> hi \<Longrightarrow> length (filter (\<lambda>y. y < lo) ys) + length (filter (\<lambda>y. lo \<le> y \<and> y \<le> hi) ys)
     + length (filter (\<lambda>y. hi < y) ys) = length (ys :: rat list)"
  by (induction ys) auto

lemma middle_in_range:
  fixes xs :: "rat list"
  assumes maj: "length xs < 2 * length (filter (\<lambda>y. lo \<le> y \<and> y \<le> hi) xs)"
    and i: "length xs \<le> 2 * i + 2" "2 * i \<le> length xs" "i < length xs"
  shows "lo \<le> sort xs ! i \<and> sort xs ! i \<le> hi"
proof -
  have "filter (\<lambda>y. lo \<le> y \<and> y \<le> hi) xs \<noteq> []" using maj by auto
  then have le: "lo \<le> hi" by (auto simp: filter_empty_conv)
  note parts = three_parts [OF le, of xs]
  have "\<not> sort xs ! i < lo"
    using sorted_below [of "sort xs" i lo] i maj parts
    by (auto simp: length_filter_sort)
  moreover have "\<not> hi < sort xs ! i"
    using sorted_above [of "sort xs" i hi] i maj parts
    by (auto simp: length_filter_sort)
  ultimately show ?thesis by auto
qed

lemma median_majority:
  assumes "length xs < 2 * length (filter (\<lambda>y. lo \<le> y \<and> y \<le> hi) xs)"
  shows "lo \<le> median xs \<and> median xs \<le> hi"
proof -
  have pos: "0 < length xs" using assms by (cases xs) auto
  show ?thesis
  proof (cases "odd (length xs)")
    case True
    with pos have "lo \<le> sort xs ! (length xs div 2) \<and> sort xs ! (length xs div 2) \<le> hi"
      by (intro middle_in_range [OF assms]) presburger+
    with True show ?thesis by (simp add: median_def Let_def)
  next
    case False
    with pos have "lo \<le> sort xs ! (length xs div 2 - 1) \<and> sort xs ! (length xs div 2 - 1) \<le> hi"
      "lo \<le> sort xs ! (length xs div 2) \<and> sort xs ! (length xs div 2) \<le> hi"
      by (intro middle_in_range [OF assms]; presburger)+
    with False show ?thesis by (simp add: median_def Let_def)
  qed
qed

lemma max_by_in: "xs \<noteq> [] \<Longrightarrow> max_by f xs \<in> set xs"
  by (induction f xs rule: max_by.induct) (auto simp: Let_def)

lemma max_by_ge: "x \<in> set xs \<Longrightarrow> f x \<le> f (max_by f xs)"
proof (induction f xs rule: max_by.induct)
  case (3 f x' y xs)
  then show ?case by (fastforce simp: Let_def)
qed auto

section \<open>The per-source table\<close>

lemma note_source_keys: "fst ` set (note_source now r tbl) = insert (nr_server r) (fst ` set tbl)"
  by (simp add: note_source_def Let_def dom_update)

lemma note_source_other: "k \<noteq> nr_server r \<Longrightarrow> map_of (note_source now r tbl) k = map_of tbl k"
  by (simp add: note_source_def Let_def update_conv')

lemma ntp_dict_keys: "k \<notin> fst ` set (ntp_to_dict r) \<Longrightarrow> dget (dict_update d (ntp_to_dict r)) k = dget d k"
  by (auto simp: dget_def map_of_dict_update map_of_eq_None_iff split: option.splits
      dest!: map_of_SomeD simp: rev_image_eqI)

lemma note_source_same:
  assumes "map_of tbl (nr_server r) = Some e"
  shows "\<exists>e'. map_of (note_source now r tbl) (nr_server r) = Some e'
    \<and> dget e' ''first_seen'' = dget e ''first_seen''
    \<and> dget e' ''last_probed_at'' = time_val now
    \<and> dget e' ''last_ok_at'' = (if nr_ok r then time_val now else dget e ''last_ok_at'')"
proof -
  define d where "d = dict_update e (ntp_to_dict r)"
  have d: "dget d ''first_seen'' = dget e ''first_seen''" "dget d ''last_ok_at'' = dget e ''last_ok_at''"
    unfolding d_def by (rule ntp_dict_keys, simp add: ntp_to_dict_def)+
  show ?thesis
    by (simp add: note_source_def Let_def update_conv' assms dget_update d flip: d_def)
qed

lemma fold_note_source:
  assumes "map_of tbl k = Some e"
  shows "\<exists>e'. map_of (fold (note_source now) rs tbl) k = Some e'
    \<and> dget e' ''first_seen'' = dget e ''first_seen''
    \<and> (dget e' ''last_ok_at'' = dget e ''last_ok_at''
       \<or> dget e' ''last_ok_at'' = time_val now \<and> (\<exists>r \<in> set rs. nr_server r = k \<and> nr_ok r))"
  using assms
proof (induction rs arbitrary: tbl e)
  case (Cons r rs)
  show ?case
  proof (cases "k = nr_server r")
    case True
    with Cons.prems have "map_of tbl (nr_server r) = Some e" by simp
    from note_source_same [OF this, of now] obtain e1 where
      e1: "map_of (note_source now r tbl) k = Some e1" "dget e1 ''first_seen'' = dget e ''first_seen''"
        "dget e1 ''last_ok_at'' = (if nr_ok r then time_val now else dget e ''last_ok_at'')"
      using True by auto
    from Cons.IH [OF e1(1)] e1(2,3) True show ?thesis by (auto split: if_splits)
  next
    case False
    with Cons.prems have "map_of (note_source now r tbl) k = Some e" by (simp add: note_source_other)
    from Cons.IH [OF this] show ?thesis by auto
  qed
qed simp

lemma fold_note_source_keys:
  "fst ` set (fold (note_source now) rs tbl) = fst ` set tbl \<union> nr_server ` set rs"
  by (induction rs arbitrary: tbl) (auto simp: note_source_keys)

lemma query_sync_server [simp]: "nr_server (query_sync srv reply) = srv"
  by (simp add: query_sync_def Let_def split: sum.splits prod.splits)

section \<open>Properties\<close>

text \<open>C39. Let the server's clock be ahead of the local one by \<open>theta\<close>, the request travel
  for \<open>d1\<close> seconds and the reply for \<open>d2\<close>. The round-trip time reported is \<open>d1 + d2\<close>, the
  offset reported is exactly \<open>theta\<close> when both ways take the same time, and is otherwise off by
  at most half of the round-trip time.\<close>

theorem ntp_offset_error:
  assumes "48 \<le> length data" "0 \<le> d1" "0 \<le> d2"
    and "ntp_time (take 8 (drop 32 data)) = t0 + d1 + theta"
    and "ntp_time (take 8 (drop 40 data)) = t3 - d2 + theta"
  shows "\<exists>off. offset_s (query_sync srv (Inr (t0, data, t3))) = Some off
    \<and> rtt_s (query_sync srv (Inr (t0, data, t3))) = Some (d1 + d2)
    \<and> \<bar>off - theta\<bar> \<le> (d1 + d2) / 2 \<and> (d1 = d2 \<longrightarrow> off = theta)"
proof -
  have q: "offset_s (query_sync srv (Inr (t0, data, t3))) = Some ((t0 + d1 + theta - t0 + (t3 - d2 + theta - t3)) / 2)"
    "rtt_s (query_sync srv (Inr (t0, data, t3))) = Some (t3 - t0 - (t3 - d2 + theta - (t0 + d1 + theta)))"
    using assms(1) by (simp_all add: query_sync_def Let_def assms(4,5))
  have o: "(t0 + d1 + theta - t0 + (t3 - d2 + theta - t3)) / 2 = theta + (d1 - d2) / 2"
    by (simp add: field_simps)
  have r: "t3 - t0 - (t3 - d2 + theta - (t0 + d1 + theta)) = d1 + d2" by simp
  have "\<bar>theta + (d1 - d2) / 2 - theta\<bar> \<le> (d1 + d2) / 2"
    using assms(2,3) by (simp add: abs_if field_simps)
  then show ?thesis unfolding q o r by simp
qed

lemma ntp_offset_error_witness:
  "offset_s (query_sync ''s'' (Inr (-2208988800, replicate 48 0, -2208988798))) = Some (-1)"
proof -
  have z: "replicate 4 (0 :: byte) = [0, 0, 0, 0]" by (simp add: eval_nat_numeral)
  have 0: "ntp_time (take 8 (drop 32 (replicate 48 0))) = -2208988800"
    "ntp_time (take 8 (drop 40 (replicate 48 0))) = -2208988800"
    by (simp_all add: ntp_time_def NTP_TO_UNIX_def z)
  show ?thesis
    using ntp_offset_error [of "replicate 48 0" 1 1 "-2208988800" "-1" "-2208988798" "''s''"] 0 by simp
qed

text \<open>C18. The vote is robust: when more than half of the reachable servers report an offset
  between \<open>lo\<close> and \<open>hi\<close>, so does the vote, whatever the others report.\<close>

theorem vote_majority:
  assumes "length (reachable_results rs)
      < 2 * length (filter (\<lambda>r. case offset_s r of Some x \<Rightarrow> lo \<le> x \<and> x \<le> hi | None \<Rightarrow> False) (reachable_results rs))"
  shows "\<exists>m. v_offset (vote rs) = Some m \<and> lo \<le> m \<and> m \<le> hi"
proof -
  have conv: "concat (map (the_list \<circ> offset_s) qs) = map (the \<circ> offset_s) qs
      \<and> length (filter (\<lambda>y. lo \<le> y \<and> y \<le> hi) (map (the \<circ> offset_s) qs))
        = length (filter (\<lambda>r. case offset_s r of Some x \<Rightarrow> lo \<le> x \<and> x \<le> hi | None \<Rightarrow> False) qs)"
    if "\<forall>r \<in> set qs. offset_s r \<noteq> None" for qs :: "ntp_result list"
    using that by (induction qs) auto
  have "\<forall>r \<in> set (reachable_results rs). offset_s r \<noteq> None" by (auto simp: reachable_results_def)
  note c = conv [OF this]
  have "reachable_results rs \<noteq> []" using assms by auto
  moreover have "lo \<le> median (map (the \<circ> offset_s) (reachable_results rs))
      \<and> median (map (the \<circ> offset_s) (reachable_results rs)) \<le> hi"
    using assms c by (intro median_majority) simp
  ultimately show ?thesis using c by (simp add: vote_def Let_def)
qed

definition sample_result :: "rat \<Rightarrow> ntp_result" where
  "sample_result x = \<lparr>nr_server = ''s'', nr_ok = True, offset_s = Some x, rtt_s = Some 1,
     nr_error = None, nr_severity = classify_offset x\<rparr>"

lemma vote_majority_witness:
  "\<exists>m. v_offset (vote [sample_result 900, sample_result 1, sample_result 0]) = Some m \<and> 0 \<le> m \<and> m \<le> 1"
  by (rule vote_majority) (simp add: reachable_results_def sample_result_def)

text \<open>The vote fails exactly when no server is reachable. Otherwise its severity is the worst
  of the reachable servers' own and of the voted offset's: never better than any of them, and
  equal to one of them.\<close>

theorem vote_severity_worst:
  "case vote rs of v \<Rightarrow>
     (v_ok v \<longleftrightarrow> reachable_results rs \<noteq> []) \<and>
     (case v_offset v of
        None \<Rightarrow> \<not> v_ok v \<and> v_severity v = ''fail'' \<and> v_error v \<noteq> None
      | Some m \<Rightarrow> v_ok v \<and> v_error v = None \<and>
          (\<forall>sev \<in> insert (classify_offset m) (nr_severity ` set (reachable_results rs)).
              severity_rank sev \<le> severity_rank (v_severity v)) \<and>
          v_severity v \<in> insert (classify_offset m) (nr_severity ` set (reachable_results rs)))"
proof (cases "reachable_results rs = []")
  case True
  then show ?thesis by (simp add: vote_def)
next
  case False
  define sevs where "sevs = map nr_severity (reachable_results rs)"
  have ne: "sevs \<noteq> []" using False by (simp add: sevs_def)
  have in_sevs: "max_by severity_rank sevs \<in> nr_severity ` set (reachable_results rs)"
    using max_by_in [OF ne, of severity_rank] by (simp add: sevs_def)
  have ge: "severity_rank (nr_severity r) \<le> severity_rank (max_by severity_rank sevs)"
    if "r \<in> set (reachable_results rs)" for r
    using max_by_ge [of "nr_severity r" sevs severity_rank] that by (simp add: sevs_def)
  show ?thesis
    using False in_sevs ge by (auto simp: vote_def Let_def simp flip: sevs_def dest!: ge)
qed

lemma vote_severity_worst_witness:
  "v_severity (vote [sample_result 0]) = ''ok''"
  using vote_severity_worst [of "[sample_result 0]"]
  by (simp add: reachable_results_def sample_result_def vote_def classify_offset_def
      FAIL_THRESHOLD_S_def WARN_THRESHOLD_S_def severity_rank_def median_def Let_def)

text \<open>A round of probes never loses a source or its history: the table then lists the old
  sources and every configured server, \<open>first_seen\<close> stays what it was, and \<open>last_ok_at\<close> moves to
  the time of the round only for a server that answered, also when it is configured twice.\<close>

theorem probe_round_history:
  assumes "map_of (per_source s) k = Some e"
  shows "\<exists>e'. map_of (per_source (probe_round net now s)) k = Some e'
    \<and> dget e' ''first_seen'' = dget e ''first_seen''
    \<and> (dget e' ''last_ok_at'' = dget e ''last_ok_at''
       \<or> dget e' ''last_ok_at'' = time_val now
         \<and> (\<exists>i < length (servers s). servers s ! i = k \<and> nr_ok (query_sync k (net i))))
    \<and> fst ` set (per_source (probe_round net now s)) = fst ` set (per_source s) \<union> set (servers s)"
proof -
  define rs where "rs = map (\<lambda>(i, srv). query_sync srv (net i)) (enumerate 0 (servers s))"
  have ps: "per_source (probe_round net now s) = fold (note_source now) rs (per_source s)"
    by (simp add: probe_round_def rs_def Let_def)
  have srv: "nr_server ` set rs = set (servers s)"
  proof -
    have "map nr_server rs = map snd (enumerate 0 (servers s))" by (simp add: rs_def case_prod_beta comp_def)
    then show ?thesis by (simp flip: set_map)
  qed
  have ok: "\<exists>i < length (servers s). servers s ! i = k \<and> nr_ok (query_sync k (net i))"
    if "r \<in> set rs" "nr_server r = k" "nr_ok r" for r
    using that by (auto simp: rs_def in_set_enumerate_eq)
  from fold_note_source [OF assms, of now rs] ok show ?thesis
    unfolding ps fold_note_source_keys srv by blast
qed

lemma probe_round_history_witness:
  "fst ` set (per_source (probe_round (\<lambda>_. Inl ''timed out'') 7
     (initial_service\<lparr>per_source := [(''a'', [(''first_seen'', PInt 1)])]\<rparr>))) = {''a'', ''pool.ntp.org''}"
  using probe_round_history [of "initial_service\<lparr>per_source := [(''a'', [(''first_seen'', PInt 1)])]\<rparr>" "''a''"
      "[(''first_seen'', PInt 1)]" "\<lambda>_. Inl ''timed out''" 7]
  by (auto simp: initial_service_def)

end
