(* ===== verification/Probes.thy ===== *)
theory Probes
  imports PyNum
begin

text \<open>
  The probe strategies of the nodes service (\<open>services/nodes/app/probes\<close>): health checks of the
  stack's own containers, SAPIENT endpoints, TAK servers, and the composed health of an edge
  node. Statuses are the dictionaries the code returns. What a connection attempt gives, with
  the time it took, is an argument: \<open>net\<close> for TCP and \<open>web\<close> for HTTP.
\<close>

section \<open>What the network gives\<close>

text \<open>\<open>ConnErr\<close> carries the name of the exception's class and its text. \<open>ConnRaise\<close> is an
  exception that the probe does not handle (a host that is not a string, a port out of range).\<close>

datatype conn = Connected rat | ConnTimeout rat string | ConnErr rat string string | ConnRaise exn

datatype web_reply = WebStatus rat int | WebHttpError rat int | WebErr rat string string | WebRaise exn

type_synonym net = "pyval \<Rightarrow> int \<Rightarrow> conn"
type_synonym web = "pyval \<Rightarrow> int \<Rightarrow> pyval \<Rightarrow> web_reply"

definition key_error :: "string \<Rightarrow> exn" where
  "key_error k = PyExc ''KeyError'' (repr_str k)"

text \<open>\<open>d[k]\<close>\<close>

definition dict_at :: "pydict \<Rightarrow> string \<Rightarrow> pyval res" where
  "dict_at d k = (case map_of d k of None \<Rightarrow> Inl (key_error k) | Some v \<Rightarrow> Inr v)"

definition status :: "bool \<Rightarrow> string \<Rightarrow> rat option \<Rightarrow> string option \<Rightarrow> pydict" where
  "status ok severity rtt error =
     [(''ok'', PBool ok), (''severity'', PStr severity), (''rtt_s'', of_opt_rat rtt), (''error'', of_opt_str error)]"

definition WARN_AFTER_S :: rat where "WARN_AFTER_S = 1 / 2"

definition classify_rtt :: "rat \<Rightarrow> string" where
  "classify_rtt rtt = (if WARN_AFTER_S < rtt then ''warn'' else ''ok'')"

section \<open>Own containers (\<open>service.py\<close>)\<close>

definition http_probe :: "web_reply \<Rightarrow> pydict res" where
  "http_probe r = (case r of
     WebStatus rtt code \<Rightarrow>
       if 200 \<le> code \<and> code < 300 then Inr (status True (classify_rtt rtt) (Some rtt) None)
       else Inr (status False ''fail'' (Some rtt) (Some (''HTTP '' @ show_int code)))
   | WebHttpError rtt code \<Rightarrow> Inr (status False ''fail'' (Some rtt) (Some (''HTTP '' @ show_int code)))
   | WebErr rtt cls msg \<Rightarrow> Inr (status False ''fail'' (Some rtt) (Some (cls @ '': '' @ msg)))
   | WebRaise e \<Rightarrow> Inl e)"

definition service_tcp_probe :: "conn \<Rightarrow> pydict res" where
  "service_tcp_probe c = (case c of
     Connected rtt \<Rightarrow> Inr (status True (classify_rtt rtt) (Some rtt) None)
   | ConnTimeout rtt msg \<Rightarrow> Inr (status False ''fail'' (Some rtt) (Some (''TimeoutError: '' @ msg)))
   | ConnErr rtt cls msg \<Rightarrow> Inr (status False ''fail'' (Some rtt) (Some (cls @ '': '' @ msg)))
   | ConnRaise e \<Rightarrow> Inl e)"

definition lift_status :: "pydict \<Rightarrow> pydict \<Rightarrow> pydict" where
  "lift_status extra res = extra @ [(''status'', PDict res), (''severity'', dget res ''severity''), (''ok'', dget res ''ok'')]"

definition unprobed :: "pydict \<Rightarrow> string \<Rightarrow> pydict" where
  "unprobed extra msg = extra @ [(''status'', PDict (status False ''unknown'' None (Some msg))),
     (''severity'', PStr ''unknown''), (''ok'', PBool False)]"

definition service_probe :: "net \<Rightarrow> web \<Rightarrow> pydict \<Rightarrow> pydict res" where
  "service_probe net web entry =
     (if truthy (dget entry ''health_path'') then
        bindE (dict_at entry ''host'') (\<lambda>host.
        bindE (dict_at entry ''port'') (\<lambda>pv.
        bindE (py_int pv) (\<lambda>port.
        bindE (http_probe (web host port (dget entry ''health_path''))) (\<lambda>res.
          Inr (lift_status [(''probe_kind'', PStr ''http'')] res)))))
      else if dget entry ''probe_kind'' = PStr ''tcp'' then
        bindE (dict_at entry ''host'') (\<lambda>host.
        bindE (dict_at entry ''port'') (\<lambda>pv.
        bindE (py_int pv) (\<lambda>port.
        bindE (service_tcp_probe (net host port)) (\<lambda>res.
          Inr (lift_status [(''probe_kind'', PStr ''tcp'')] res)))))
      else Inr (unprobed [(''probe_kind'', PNone)] ''no probe configured (need health_path or probe_kind=tcp)''))"

section \<open>TAK servers (\<open>tak_server.py\<close>)\<close>

definition tak_tcp_probe :: "conn \<Rightarrow> pydict res" where
  "tak_tcp_probe c = (case c of
     Connected rtt \<Rightarrow> Inr (status True (if WARN_AFTER_S < rtt then ''warn'' else ''ok'') (Some rtt) None)
   | ConnTimeout rtt msg \<Rightarrow> Inr (status False ''fail'' (Some rtt) (Some (''TimeoutError: '' @ msg)))
   | ConnErr rtt cls msg \<Rightarrow> Inr (status False ''fail'' (Some rtt) (Some (cls @ '': '' @ msg)))
   | ConnRaise e \<Rightarrow> Inl e)"

definition tak_probe :: "net \<Rightarrow> pydict \<Rightarrow> pydict res" where
  "tak_probe net entry =
     (if dget entry ''probe_kind'' = PStr ''tcp'' \<and> truthy (dget entry ''admin_port'') then
        bindE (dict_at entry ''host'') (\<lambda>host.
        bindE (py_int (dget entry ''admin_port'')) (\<lambda>port.
        bindE (tak_tcp_probe (net host port)) (\<lambda>res.
          Inr (lift_status [(''probe_kind'', PStr ''tcp''), (''admin_port'', PInt port)] res))))
      else Inr (unprobed [(''probe_kind'', PNone)]
        ''UDP CoT ingest cannot be probed at the protocol level; add 'probe_kind': 'tcp' + 'admin_port' to TCP-check the TAK admin port instead''))"

section \<open>SAPIENT endpoints (\<open>middleware.py\<close>)\<close>

definition middleware_tcp_probe :: "conn \<Rightarrow> pydict res" where
  "middleware_tcp_probe c = (case c of
     Connected rtt \<Rightarrow> Inr (status True (if WARN_AFTER_S < rtt then ''warn'' else ''ok'') (Some rtt) None)
   | ConnTimeout rtt _ \<Rightarrow> Inr (status False ''fail'' (Some rtt) (Some ''timeout after 1.5s''))
   | ConnErr rtt cls msg \<Rightarrow> Inr (status False ''fail'' (Some rtt) (Some (cls @ '': '' @ msg)))
   | ConnRaise e \<Rightarrow> Inl e)"

definition middleware_probe :: "net \<Rightarrow> pydict \<Rightarrow> pydict res" where
  "middleware_probe net entry =
     (if \<not> truthy (dget_or entry ''probe'' (PBool True)) then
        Inr (unprobed [(''kind'', dget entry ''kind'')] ''probing disabled in config'')
      else
        bindE (if truthy (dget entry ''admin_port'') then Inr (dget entry ''admin_port'') else dict_at entry ''port'') (\<lambda>pv.
        bindE (py_int pv) (\<lambda>port.
        bindE (dict_at entry ''host'') (\<lambda>host.
        bindE (middleware_tcp_probe (net host port)) (\<lambda>res.
          Inr (lift_status [(''kind'', dget entry ''kind'')] res))))))"

section \<open>Edge nodes (\<open>edge_node.py\<close>)\<close>

definition sev_rank :: "pyval \<Rightarrow> nat" where
  "sev_rank s = (if s = PStr ''ok'' then 0 else if s = PStr ''warn'' then 1
                 else if s = PStr ''fail'' then 2 else if s = PStr ''unknown'' then 3 else 99)"

fun worst_from :: "pyval \<Rightarrow> pyval list \<Rightarrow> pyval" where
  "worst_from m [] = m"
| "worst_from m (s # ss) = worst_from (if sev_rank m < sev_rank s then s else m) ss"

definition worst :: "pyval list \<Rightarrow> pyval res" where
  "worst severities = (case severities of [] \<Rightarrow> Inr (PStr ''unknown'')
     | s # ss \<Rightarrow> if list_all hashable severities then Inr (worst_from s ss)
                 else Inl (type_error ''unhashable type''))"

text \<open>\<open>v.get(k)\<close> for a value that need not be a dictionary.\<close>

definition attr_get :: "pyval \<Rightarrow> string \<Rightarrow> pyval \<Rightarrow> pyval res" where
  "attr_get v k dflt = (case v of PDict d \<Rightarrow> Inr (dget_or d k dflt)
     | _ \<Rightarrow> Inl (PyExc ''AttributeError'' ''object has no attribute get''))"

text \<open>\<open>d.get(host)\<close> where the key need not be a string: no JSON object has such a key.\<close>

definition get_by :: "pyval \<Rightarrow> pyval \<Rightarrow> pyval res" where
  "get_by v key = (case v of
     PDict d \<Rightarrow> if \<not> hashable key then Inl (type_error ''unhashable type'')
                else Inr (case key of PStr k \<Rightarrow> dget d k | _ \<Rightarrow> PNone)
   | _ \<Rightarrow> Inl (PyExc ''AttributeError'' ''object has no attribute get''))"

definition ntp_status_for_host :: "(flt \<Rightarrow> string) \<Rightarrow> pyval \<Rightarrow> pyval \<Rightarrow> pydict res" where
  "ntp_status_for_host fl host ntp_sources =
     bindE (attr_get (or_else ntp_sources (PDict [])) ''results'' (PDict [])) (\<lambda>results.
     bindE (get_by results host) (\<lambda>entry.
       case entry of
         PNone \<Rightarrow> Inr [(''ok'', PBool False), (''severity'', PStr ''unknown''),
                      (''error'', PStr (''host '' @ py_repr fl host @ '' not in ntp's configured servers''))]
       | PDict e \<Rightarrow> Inr [(''ok'', PBool (truthy (dget e ''ok''))),
                      (''severity'', or_else (dget e ''severity'') (PStr ''unknown'')),
                      (''offset_s'', dget e ''offset_s''), (''rtt_s'', dget e ''rtt_s''),
                      (''error'', dget e ''error''), (''last_ok_at'', dget e ''last_ok_at'')]
       | _ \<Rightarrow> Inl (PyExc ''AttributeError'' ''object has no attribute get'')))"

definition GPS_FRESH_S :: rat where "GPS_FRESH_S = 8"

definition gps_fail :: "string \<Rightarrow> pydict" where
  "gps_fail msg = [(''ok'', PBool False), (''severity'', PStr ''fail''), (''error'', PStr msg)]"

text \<open>The text behind the first \<open>"from "\<close>, without closing brackets and spaces at its end.\<close>

definition seen_from :: "string \<Rightarrow> string option" where
  "seen_from source = (case find_sub ''from '' source of None \<Rightarrow> None
     | Some i \<Rightarrow> Some (rstrip_chars '') '' (drop (i + 5) source)))"

text \<open>\<open>isinstance(age, (int, float)) and not age > GPS_FRESH_S\<close>; a boolean is an integer.\<close>

fun fresh_age :: "pyval \<Rightarrow> bool" where
  "fresh_age (PInt i) = (of_int i \<le> GPS_FRESH_S)"
| "fresh_age (PBool b) = True"
| "fresh_age (PFloat (Fin r)) = (r \<le> GPS_FRESH_S)"
| "fresh_age (PFloat (Inf neg)) = neg"
| "fresh_age (PFloat NaN) = True"
| "fresh_age _ = False"

definition gps_status_for_host :: "(flt \<Rightarrow> string) \<Rightarrow> pyval \<Rightarrow> pyval \<Rightarrow> pydict res" where
  "gps_status_for_host fl host gps_fix =
     (if \<not> truthy gps_fix then Inr (gps_fail ''gps unreachable'')
      else case gps_fix of
        PDict fix \<Rightarrow>
          (case or_else (dget fix ''source'') (PStr []) of
             PStr source \<Rightarrow>
               (case seen_from source of
                  None \<Rightarrow> Inr (gps_fail ''no NMEA received yet'')
                | Some from \<Rightarrow>
                    if PStr from \<noteq> host
                    then Inr (gps_fail (''latest NMEA is from '' @ from @ '', not '' @ py_str fl host))
                    else let age = dget fix ''age_s'' in
                         if \<not> fresh_age age
                         then Inr (gps_fail (''NMEA stale ('' @ py_str fl age @ ''s ago, threshold 8.0s)'') @ [(''age_s'', age)])
                         else if \<not> truthy (dget fix ''ok'')
                         then Inr [(''ok'', PBool False), (''severity'', PStr ''fail''),
                                   (''error'', or_else (dget fix ''error'') (PStr ''fix invalid'')), (''age_s'', age)]
                         else Inr [(''ok'', PBool True), (''severity'', PStr ''ok''),
                                   (''fix_status'', dget fix ''fix_status''), (''satellites'', dget fix ''satellites''),
                                   (''age_s'', age)])
           | PList l \<Rightarrow> if PStr ''from '' \<in> set l then Inl (PyExc ''AttributeError'' ''object has no attribute split'')
                        else Inr (gps_fail ''no NMEA received yet'')
           | PDict d \<Rightarrow> if has_key d ''from '' then Inl (PyExc ''AttributeError'' ''object has no attribute split'')
                        else Inr (gps_fail ''no NMEA received yet'')
           | _ \<Rightarrow> Inl (type_error ''argument is not iterable''))
      | _ \<Rightarrow> Inl (PyExc ''AttributeError'' ''object has no attribute get''))"

text \<open>\<open>services[kind] = \<dots>\<close>: the keys are the listed kinds, which must be hashable.\<close>

fun edge_services ::
  "(flt \<Rightarrow> string) \<Rightarrow> pydict \<Rightarrow> pydict \<Rightarrow> pyval list \<Rightarrow> (pyval \<times> pydict) list \<Rightarrow> (pyval \<times> pydict) list res" where
  "edge_services fl entry ctx [] acc = Inr acc"
| "edge_services fl entry ctx (kind # ks) acc =
     bindE (if kind = PStr ''ntp'' then
              bindE (dict_at entry ''host'') (\<lambda>host.
                ntp_status_for_host fl host (or_else (dget ctx ''ntp_sources'') (PDict [])))
            else if kind = PStr ''gps'' then
              bindE (dict_at entry ''host'') (\<lambda>host.
                gps_status_for_host fl host (or_else (dget ctx ''gps_fix'') (PDict [])))
            else if \<not> hashable kind then Inl (type_error ''unhashable type'')
            else Inr [(''ok'', PBool False), (''severity'', PStr ''unknown''),
                      (''error'', PStr (''no probe for service '' @ py_repr fl kind))])
       (\<lambda>st. edge_services fl entry ctx ks (AList.update kind st acc))"

record edge_status =
  services_enabled :: "pyval list"
  es_services :: "(pyval \<times> pydict) list"
  es_severity :: pyval
  es_ok :: bool

definition edge_node_probe :: "(flt \<Rightarrow> string) \<Rightarrow> pydict \<Rightarrow> pydict \<Rightarrow> edge_status res" where
  "edge_node_probe fl entry ctx =
     bindE (py_iter (dget_or entry ''services'' (PList []))) (\<lambda>kinds.
     bindE (edge_services fl entry ctx kinds []) (\<lambda>services.
     bindE (worst (map (\<lambda>(_, s). or_else (dget s ''severity'') (PStr ''unknown'')) services)) (\<lambda>overall.
       Inr \<lparr>services_enabled = kinds, es_services = services, es_severity = overall,
            es_ok = (overall = PStr ''ok'')\<rparr>)))"

text \<open>The dictionary it returns. A kind that is not a string becomes a key only in a status that
  is already \<open>unknown\<close>; JSON writes such a key as text.\<close>

definition edge_to_dict :: "(flt \<Rightarrow> string) \<Rightarrow> edge_status \<Rightarrow> pydict" where
  "edge_to_dict fl s =
     [(''services_enabled'', PList (services_enabled s)),
      (''services'', PDict (map (\<lambda>(k, d). (py_str fl k, PDict d)) (es_services s))),
      (''severity'', es_severity s), (''ok'', PBool (es_ok s))]"

section \<open>The registry (\<open>__init__.py\<close>)\<close>

type_synonym probe_fn = "pydict \<Rightarrow> pydict \<Rightarrow> pydict res"

definition edge_probe :: "(flt \<Rightarrow> string) \<Rightarrow> probe_fn" where
  "edge_probe fl entry ctx = bindE (edge_node_probe fl entry ctx) (Inr \<circ> edge_to_dict fl)"

definition for_type :: "(flt \<Rightarrow> string) \<Rightarrow> net \<Rightarrow> web \<Rightarrow> pyval \<Rightarrow> probe_fn option res" where
  "for_type fl net web type_name =
     (if \<not> hashable type_name then Inl (type_error ''unhashable type'')
      else Inr
       (if type_name = PStr ''edge-node'' then Some (edge_probe fl)
        else if type_name = PStr ''middleware'' then Some (\<lambda>entry ctx. middleware_probe net entry)
        else if type_name = PStr ''service'' then Some (\<lambda>entry ctx. service_probe net web entry)
        else if type_name = PStr ''tak-server'' then Some (\<lambda>entry ctx. tak_probe net entry)
        else None))"

section \<open>What every probe promises\<close>

text \<open>The orchestrator relies on this of every strategy: a boolean \<open>ok\<close>, a severity that is
  \<open>ok\<close> or \<open>warn\<close> when \<open>ok\<close> holds, and keys that leave the identity of the entry alone.\<close>

definition status_keys :: "string set" where
  "status_keys = {''probe_kind'', ''admin_port'', ''kind'', ''status'', ''severity'', ''ok'',
     ''services_enabled'', ''services''}"

locale probe_contract =
  fixes probe :: "pydict \<Rightarrow> pydict \<Rightarrow> pydict res"
  assumes ok_bool: "probe entry ctx = Inr d \<Longrightarrow> \<exists>b. dget d ''ok'' = PBool b"
    and severity_key: "probe entry ctx = Inr d \<Longrightarrow> has_key d ''severity''"
    and ok_severity: "probe entry ctx = Inr d \<Longrightarrow> dget d ''ok'' = PBool True
          \<Longrightarrow> dget d ''severity'' \<in> {PStr ''ok'', PStr ''warn''}"
    and own_keys: "probe entry ctx = Inr d \<Longrightarrow> fst ` set d \<subseteq> status_keys"
    and distinct_keys: "probe entry ctx = Inr d \<Longrightarrow> distinct (map fst d)"
begin

lemma ok_key: "probe entry ctx = Inr d \<Longrightarrow> has_key d ''ok''"
  using ok_bool [of entry ctx d] by (auto simp: dget_def has_key_def split: option.splits)

lemma truthy_ok: "probe entry ctx = Inr d \<Longrightarrow> truthy (dget d ''ok'')
    \<Longrightarrow> dget d ''severity'' \<in> {PStr ''ok'', PStr ''warn''}"
  using ok_bool [of entry ctx d] ok_severity [of entry ctx d] by auto

lemma keeps_identity:
  assumes "probe entry ctx = Inr d" "k \<notin> status_keys"
  shows "dget (dict_update e d) k = dget e k"
proof -
  have "k \<notin> fst ` set (rev d)" using own_keys [OF assms(1)] assms(2) by auto
  then have "map_of (rev d) k = None" by (simp add: map_of_eq_None_iff)
  then show ?thesis by (simp add: dget_def map_of_dict_update)
qed

end

definition good_status :: "pydict \<Rightarrow> bool" where
  "good_status res \<longleftrightarrow> (dget res ''ok'' = PBool True \<and> dget res ''severity'' \<in> {PStr ''ok'', PStr ''warn''})
     \<or> (dget res ''ok'' = PBool False \<and> dget res ''severity'' = PStr ''fail'')"

lemma tcp_probes_good:
  "service_tcp_probe c = Inr res \<Longrightarrow> good_status res"
  "tak_tcp_probe c = Inr res \<Longrightarrow> good_status res"
  "middleware_tcp_probe c = Inr res \<Longrightarrow> good_status res"
  by (auto simp: service_tcp_probe_def tak_tcp_probe_def middleware_tcp_probe_def good_status_def
      status_def dget_def classify_rtt_def split: conn.splits)

lemma http_probe_good: "http_probe r = Inr res \<Longrightarrow> good_status res"
  by (auto simp: http_probe_def good_status_def status_def dget_def classify_rtt_def
      split: web_reply.splits if_splits)

lemma dget_Cons: "dget ((k, v) # d) x = (if x = k then v else dget d x)"
  by (simp add: dget_def)

lemma has_key_Cons: "has_key ((k, v) # d) x \<longleftrightarrow> x = k \<or> has_key d x"
  by (simp add: has_key_def)

lemma lift_status_simps:
  "dget (lift_status [(k, v)] res) ''ok'' = (if k = ''ok'' then v else dget res ''ok'')"
  "dget (lift_status [(k, v)] res) ''severity'' = (if k = ''severity'' then v else dget res ''severity'')"
  "has_key (lift_status [(k, v)] res) ''severity''"
  by (auto simp: lift_status_def dget_Cons has_key_Cons)

lemma unprobed_simps:
  "dget (unprobed [(k, v)] msg) ''ok'' = (if k = ''ok'' then v else PBool False)"
  "has_key (unprobed [(k, v)] msg) ''severity''"
  by (auto simp: unprobed_def dget_Cons has_key_Cons)

lemmas probe_simps = lift_status_simps unprobed_simps res_simps status_keys_def

interpretation svc: probe_contract "\<lambda>entry ctx. service_probe net web entry"
proof unfold_locales
  fix entry ctx d assume p: "service_probe net web entry = Inr d"
  from p show "\<exists>b. dget d ''ok'' = PBool b"
    by (auto simp: service_probe_def probe_simps good_status_def
        dest!: tcp_probes_good http_probe_good split: if_splits)
  from p show "has_key d ''severity''"
    by (auto simp: service_probe_def probe_simps split: if_splits)
  from p show "dget d ''severity'' \<in> {PStr ''ok'', PStr ''warn''}" if "dget d ''ok'' = PBool True"
    using that by (auto simp: service_probe_def probe_simps good_status_def
        dest!: tcp_probes_good http_probe_good split: if_splits)
  from p show "fst ` set d \<subseteq> status_keys"
    by (auto simp: service_probe_def probe_simps lift_status_def unprobed_def split: if_splits)  from p show "distinct (map fst d)"
    by (auto simp: service_probe_def probe_simps lift_status_def unprobed_def split: if_splits)
qed

interpretation tak: probe_contract "\<lambda>entry ctx. tak_probe net entry"
proof unfold_locales
  fix entry ctx d assume p: "tak_probe net entry = Inr d"
  from p show "\<exists>b. dget d ''ok'' = PBool b"
    by (auto simp: tak_probe_def probe_simps lift_status_def dget_Cons good_status_def
        dest!: tcp_probes_good split: if_splits)
  from p show "has_key d ''severity''"
    by (auto simp: tak_probe_def probe_simps lift_status_def has_key_Cons split: if_splits)
  from p show "dget d ''severity'' \<in> {PStr ''ok'', PStr ''warn''}" if "dget d ''ok'' = PBool True"
    using that by (auto simp: tak_probe_def probe_simps lift_status_def dget_Cons good_status_def
        dest!: tcp_probes_good split: if_splits)
  from p show "fst ` set d \<subseteq> status_keys"
    by (auto simp: tak_probe_def probe_simps lift_status_def unprobed_def split: if_splits)  from p show "distinct (map fst d)"
    by (auto simp: tak_probe_def probe_simps lift_status_def unprobed_def split: if_splits)
qed

interpretation mw: probe_contract "\<lambda>entry ctx. middleware_probe net entry"
proof unfold_locales
  fix entry ctx d assume p: "middleware_probe net entry = Inr d"
  from p show "\<exists>b. dget d ''ok'' = PBool b"
    by (auto simp: middleware_probe_def probe_simps good_status_def
        dest!: tcp_probes_good split: if_splits)
  from p show "has_key d ''severity''"
    by (auto simp: middleware_probe_def probe_simps split: if_splits)
  from p show "dget d ''severity'' \<in> {PStr ''ok'', PStr ''warn''}" if "dget d ''ok'' = PBool True"
    using that by (auto simp: middleware_probe_def probe_simps good_status_def
        dest!: tcp_probes_good split: if_splits)
  from p show "fst ` set d \<subseteq> status_keys"
    by (auto simp: middleware_probe_def probe_simps lift_status_def unprobed_def split: if_splits)  from p show "distinct (map fst d)"
    by (auto simp: middleware_probe_def probe_simps lift_status_def unprobed_def split: if_splits)
qed

interpretation edge: probe_contract "edge_probe fl"
proof unfold_locales
  fix entry ctx d assume "edge_probe fl entry ctx = Inr d"
  then obtain s where s: "edge_node_probe fl entry ctx = Inr s" "d = edge_to_dict fl s"
    by (auto simp: edge_probe_def res_simps)
  then have "es_ok s \<longleftrightarrow> es_severity s = PStr ''ok''"
    by (auto simp: edge_node_probe_def res_simps)
  with s(2) show "\<exists>b. dget d ''ok'' = PBool b" "has_key d ''severity''" "fst ` set d \<subseteq> status_keys"
      "distinct (map fst d)"
    and "dget d ''ok'' = PBool True \<Longrightarrow> dget d ''severity'' \<in> {PStr ''ok'', PStr ''warn''}"
    by (auto simp: edge_to_dict_def dget_Cons has_key_Cons status_keys_def)
qed

lemma for_type_cases:
  assumes "for_type fl net web t = Inr (Some f)"
  shows "probe_contract f"
  using assms edge.probe_contract_axioms [of fl] svc.probe_contract_axioms [of net web]
    tak.probe_contract_axioms [of net] mw.probe_contract_axioms [of net]
  by (auto simp: for_type_def split: if_splits)

lemma worst_from_in: "worst_from m ss \<in> insert m (set ss)"
  by (induction m ss rule: worst_from.induct) auto

lemma worst_from_ge: "sev_rank s \<le> sev_rank (worst_from m ss) \<or> s \<notin> insert m (set ss)"
proof (induction m ss arbitrary: s rule: worst_from.induct)
  case (2 m x ss)
  show ?case
    using "2.IH" [of s] "2.IH" [of "if sev_rank m < sev_rank x then x else m"]
    by (auto split: if_splits)
qed auto

section \<open>Properties\<close>

text \<open>C38. Whatever strategy the registry selects, a status that says \<open>ok\<close> has severity \<open>ok\<close> or
  \<open>warn\<close>, and merging it into an entry changes none of the entry's identity.\<close>

theorem probe_status_consistent:
  assumes "for_type fl net web t = Inr (Some f)" "f entry ctx = Inr d"
  shows "has_key d ''severity''
    \<and> (truthy (dget d ''ok'') \<longrightarrow> dget d ''severity'' \<in> {PStr ''ok'', PStr ''warn''})
    \<and> (\<forall>k \<in> {''id'', ''type'', ''name'', ''host'', ''port'', ''description''}. dget (dict_update e d) k = dget e k)"
proof -
  have c: "probe_contract f" by (rule for_type_cases [OF assms(1)])
  have n: "k \<in> {''id'', ''type'', ''name'', ''host'', ''port'', ''description''} \<Longrightarrow> k \<notin> status_keys" for k
    by (auto simp: status_keys_def)
  show ?thesis
    using probe_contract.severity_key [OF c assms(2)] probe_contract.truthy_ok [OF c assms(2)]
      probe_contract.keeps_identity [OF c assms(2) n] by blast
qed

lemma probe_status_consistent_witness:
  "has_key (unprobed [(''probe_kind'', PNone)]
     ''no probe configured (need health_path or probe_kind=tcp)'') ''severity''"
  using probe_status_consistent [of "\<lambda>_. []" "\<lambda>_ _. ConnTimeout 1 []" "\<lambda>_ _ _. WebStatus 1 200" "PStr ''service''"
      "\<lambda>entry ctx. service_probe (\<lambda>_ _. ConnTimeout 1 []) (\<lambda>_ _ _. WebStatus 1 200) entry" "[]" "[]"
      "unprobed [(''probe_kind'', PNone)] ''no probe configured (need health_path or probe_kind=tcp)''" "[]"]
  by (simp add: for_type_def service_probe_def dget_def)

definition service_severity :: "pydict \<Rightarrow> pyval" where
  "service_severity d = or_else (dget d ''severity'') (PStr ''unknown'')"

text \<open>The severity of an edge node is the worst of its enabled services: no service ranks
  higher, one of them has it, and the node is \<open>ok\<close> exactly when it has a service and every one
  is \<open>ok\<close>. A node without services is \<open>unknown\<close>.\<close>

theorem edge_node_worst:
  assumes "edge_node_probe fl entry ctx = Inr s"
  shows "(\<forall>(k, d) \<in> set (es_services s). sev_rank (service_severity d) \<le> sev_rank (es_severity s))
    \<and> (es_services s = [] \<and> es_severity s = PStr ''unknown''
       \<or> es_severity s \<in> (service_severity \<circ> snd) ` set (es_services s))
    \<and> (es_ok s \<longleftrightarrow> es_services s \<noteq> [] \<and> (\<forall>(k, d) \<in> set (es_services s). service_severity d = PStr ''ok''))"
proof -
  define sevs where "sevs = map (\<lambda>(_, d). service_severity d) (es_services s)"
  have w: "worst sevs = Inr (es_severity s)" and ok: "es_ok s \<longleftrightarrow> es_severity s = PStr ''ok''"
    using assms by (auto simp: edge_node_probe_def res_simps sevs_def service_severity_def)
  have rank0: "sev_rank v = 0 \<longleftrightarrow> v = PStr ''ok''" for v by (simp add: sev_rank_def)
  show ?thesis
  proof (cases sevs)
    case Nil
    with w ok show ?thesis by (auto simp: worst_def sevs_def)
  next
    case (Cons v vs)
    with w have m: "es_severity s = worst_from v vs" by (auto simp: worst_def split: if_splits)
    have ge: "\<forall>x \<in> set sevs. sev_rank x \<le> sev_rank (es_severity s)"
      using worst_from_ge [of _ v vs] Cons m by auto
    have mem: "es_severity s \<in> set sevs" using worst_from_in [of v vs] Cons m by auto
    have "es_ok s \<longleftrightarrow> (\<forall>x \<in> set sevs. x = PStr ''ok'')"
      using ok ge mem rank0 by (metis le_zero_eq)
    with ge mem Cons show ?thesis
      by (fastforce simp: sevs_def case_prod_beta comp_def image_image)
  qed
qed

lemma edge_node_worst_witness:
  "es_ok \<lparr>services_enabled = [PStr ''gps''],
     es_services = [(PStr ''gps'', [(''ok'', PBool False), (''severity'', PStr ''fail''), (''error'', PStr ''gps unreachable'')])],
     es_severity = PStr ''fail'', es_ok = False\<rparr> = False"
  using edge_node_worst [of "\<lambda>_. []" "[(''host'', PStr ''h''), (''services'', PList [PStr ''gps''])]" "[]"
      "\<lparr>services_enabled = [PStr ''gps''],
     es_services = [(PStr ''gps'', [(''ok'', PBool False), (''severity'', PStr ''fail''), (''error'', PStr ''gps unreachable'')])],
     es_severity = PStr ''fail'', es_ok = False\<rparr>"]
  by (simp add: edge_node_probe_def dget_or_def dget_def dict_at_def or_else_def
      gps_status_for_host_def gps_fail_def worst_def)

end
