(* ===== verification/Nodes.thy ===== *)
theory Nodes
  imports Probes
begin

text \<open>
  The nodes service (\<open>services/nodes/app/main.py\<close>): the registry of named resources, kept in a
  JSON file and edited over HTTP, and the rounds of probes that compose each entry with its
  status.

  The file is modelled by what reading it gives. Node ids are compared as Python compares them
  (\<open>pnorm\<close>). The body of a request is the record that pydantic has validated; the field
  constraints are \<open>create_fields_ok\<close> and \<open>patch_fields_ok\<close>. The outcome of writing the file,
  the probes' network, the clock and the two documents fetched from ntp and gps are arguments.
\<close>

section \<open>The configuration file\<close>

datatype config_file = NoFile string | ReadError exn | BadJson string | JsonDoc pyval

datatype write_result = Written | WriteFailed string config_file

definition required_fields :: "string list" where
  "required_fields = [''id'', ''type'', ''name'', ''host'']"

fun first_missing :: "string list \<Rightarrow> pydict \<Rightarrow> string option" where
  "first_missing [] e = None"
| "first_missing (f # fs) e = (if has_key e f then first_missing fs e else Some f)"

definition setdefault :: "string \<Rightarrow> pyval \<Rightarrow> pydict \<Rightarrow> pydict" where
  "setdefault k v d = (if has_key d k then d else AList.update k v d)"

text \<open>\<open>json.loads\<close> keeps the last value of a repeated key, at the place of the first.\<close>

definition json_object :: "pydict \<Rightarrow> pydict" where
  "json_object pairs = dict_update [] pairs"

fun check_entries :: "(flt \<Rightarrow> string) \<Rightarrow> nat \<Rightarrow> pyval list \<Rightarrow> pyval list \<Rightarrow> pydict list res" where
  "check_entries fl i seen [] = Inr []"
| "check_entries fl i seen (PDict pairs # es) =
     (let e = json_object pairs in
      case first_missing required_fields e of
        Some f \<Rightarrow> Inl (value_error (''entry '' @ show_nat i @ '' missing required field '' @ repr_str f))
      | None \<Rightarrow>
          if \<not> hashable (dget e ''id'') then Inl (type_error ''unhashable type'')
          else if pnorm (dget e ''id'') \<in> set seen
          then Inl (value_error (''duplicate id: '' @ py_repr fl (dget e ''id'')))
          else bindE (check_entries fl (i + 1) (pnorm (dget e ''id'') # seen) es)
                 (\<lambda>rest. Inr (setdefault ''description'' (PStr []) e # rest)))"
| "check_entries fl i seen (v # es) = Inl (value_error (''entry '' @ show_nat i @ '' is not an object''))"

definition load_config :: "(flt \<Rightarrow> string) \<Rightarrow> config_file \<Rightarrow> pydict list res" where
  "load_config fl cf =
     (case cf of
        NoFile path \<Rightarrow> Inl (PyExc ''FileNotFoundError'' (''nodes config not found: '' @ path))
      | ReadError e \<Rightarrow> Inl e
      | BadJson msg \<Rightarrow> Inl (value_error (''nodes config invalid JSON: '' @ msg))
      | JsonDoc (PList data) \<Rightarrow> check_entries fl 0 [] data
      | JsonDoc _ \<Rightarrow> Inl (value_error ''nodes config must be a JSON array''))"

definition dump_config :: "pydict list \<Rightarrow> config_file" where
  "dump_config entries = JsonDoc (PList (map PDict entries))"

section \<open>The service state\<close>

record nodes_service =
  config :: config_file
  node_state :: "(pyval \<times> pydict) list"
  config_error :: "string option"
  last_refresh_at :: rat
  nodes_interval_s :: flt

definition state_get :: "pyval \<Rightarrow> nodes_service \<Rightarrow> pydict option" where
  "state_get i s = map_of (node_state s) (pnorm i)"

text \<open>\<open>_save_config\<close>\<close>

definition save_config :: "write_result \<Rightarrow> pydict list \<Rightarrow> nodes_service \<Rightarrow> unit res \<times> nodes_service" where
  "save_config w entries s =
     (case w of
        Written \<Rightarrow> (Inr (), s\<lparr>config := dump_config entries\<rparr>)
      | WriteFailed msg after \<Rightarrow> (Inl (PyExc ''OSError'' msg), s\<lparr>config := after\<rparr>))"

section \<open>A round of probes\<close>

record world =
  wnet :: net
  wweb :: web
  wctx :: pydict
  wnow :: rat

text \<open>\<open>_fetch_context\<close>: a document that cannot be fetched is \<open>None\<close>.\<close>

definition fetch_context :: "pyval res \<Rightarrow> pyval res \<Rightarrow> pydict" where
  "fetch_context ntp gps =
     [(''ntp_sources'', case ntp of Inl _ \<Rightarrow> PNone | Inr v \<Rightarrow> v),
      (''gps_fix'', case gps of Inl _ \<Rightarrow> PNone | Inr v \<Rightarrow> v)]"

definition failed_status :: "string \<Rightarrow> string \<Rightarrow> pydict" where
  "failed_status severity error =
     [(''severity'', PStr severity), (''ok'', PBool False),
      (''status'', PDict [(''ok'', PBool False), (''severity'', PStr severity), (''error'', PStr error)])]"

definition probe_entry :: "(flt \<Rightarrow> string) \<Rightarrow> world \<Rightarrow> pydict \<Rightarrow> pydict res" where
  "probe_entry fl w entry =
     bindE (for_type fl (wnet w) (wweb w) (dget entry ''type'')) (\<lambda>probe_fn.
       Inr (case probe_fn of
              None \<Rightarrow> failed_status ''unknown'' (''no probe registered for type '' @ py_repr fl (dget entry ''type''))
            | Some f \<Rightarrow> (case f entry (wctx w) of
                 Inl e \<Rightarrow> failed_status ''fail'' (''probe error: '' @ exn_str e)
               | Inr extras \<Rightarrow> extras)))"

definition compose :: "rat \<Rightarrow> pydict \<Rightarrow> pydict \<Rightarrow> pydict \<Rightarrow> pydict" where
  "compose now prev extras entry =
     AList.update ''first_seen_at'' (or_else (dget prev ''first_seen_at'') (PFloat (Fin now)))
      (AList.update ''last_ok_at'' (if truthy (dget extras ''ok'') then PFloat (Fin now) else dget prev ''last_ok_at'')
        (AList.update ''last_probed_at'' (PFloat (Fin now)) (dict_update entry extras)))"

fun compose_all ::
  "(flt \<Rightarrow> string) \<Rightarrow> world \<Rightarrow> nodes_service \<Rightarrow> pydict list \<Rightarrow> (pyval \<times> pydict) list \<Rightarrow> (pyval \<times> pydict) list res" where
  "compose_all fl w s [] acc = Inr acc"
| "compose_all fl w s (entry # es) acc =
     bindE (probe_entry fl w entry) (\<lambda>extras.
       let prev = (case state_get (dget entry ''id'') s of None \<Rightarrow> [] | Some p \<Rightarrow> p)
       in compose_all fl w s es
            (AList.update (pnorm (dget entry ''id'')) (compose (wnow w) prev extras entry) acc))"

text \<open>The log line at the end reads \<open>n['id']\<close> and \<open>n['severity']\<close> of every node.\<close>

definition refresh_round :: "(flt \<Rightarrow> string) \<Rightarrow> world \<Rightarrow> nodes_service \<Rightarrow> unit res \<times> nodes_service" where
  "refresh_round fl w s =
     (case load_config fl (config s) of
        Inl e \<Rightarrow> (Inr (), s\<lparr>config_error := Some (exn_str e)\<rparr>)
      | Inr entries \<Rightarrow>
          let s1 = s\<lparr>config_error := None\<rparr>
          in case compose_all fl w s1 entries [] of
               Inl e \<Rightarrow> (Inl e, s1)
             | Inr st \<Rightarrow>
                 (bindE (mapE (\<lambda>(_, n). bindE (dict_at n ''id'') (\<lambda>_. dict_at n ''severity'')) st) (\<lambda>_. Inr ()),
                  s1\<lparr>node_state := st, last_refresh_at := wnow w\<rparr>))"

section \<open>Reads\<close>

definition nodes_health :: "nodes_service \<Rightarrow> bool \<times> string option \<times> nat" where
  "nodes_health s = (config_error s = None, config_error s, length (node_state s))"

record nodes_view =
  nv_error :: "string option"
  nv_interval :: flt
  nv_refreshed :: "rat option"
  nv_nodes :: "pydict list"

definition nodes_current :: "string option \<Rightarrow> nodes_service \<Rightarrow> nodes_view" where
  "nodes_current type s =
     (let items = map snd (node_state s);
          shown = (case type of None \<Rightarrow> items | Some t \<Rightarrow>
                     if t = [] then items else filter (\<lambda>n. dget n ''type'' = PStr t) items)
      in \<lparr>nv_error = config_error s, nv_interval = nodes_interval_s s,
          nv_refreshed = (if last_refresh_at s = 0 then None else Some (last_refresh_at s)),
          nv_nodes = shown\<rparr>)"

definition one :: "string \<Rightarrow> nodes_service \<Rightarrow> pydict res" where
  "one node_id s = (case state_get (PStr node_id) s of
      None \<Rightarrow> Inl (HttpExc 404 (''unknown node: '' @ node_id)) | Some n \<Rightarrow> Inr n)"

definition nodes_refresh_now :: "(flt \<Rightarrow> string) \<Rightarrow> world \<Rightarrow> nodes_service \<Rightarrow> (rat \<times> nat) res \<times> nodes_service" where
  "nodes_refresh_now fl w s =
     (case refresh_round fl w s of (r, s') \<Rightarrow>
        (bindE r (\<lambda>_. Inr (last_refresh_at s', length (node_state s'))), s'))"

section \<open>Validation\<close>

definition known_types :: "string list" where
  "known_types = [''edge-node'', ''middleware'', ''service'', ''tak-server'']"

definition is_alnum :: "char \<Rightarrow> bool" where
  "is_alnum c = (let n = (of_char c :: nat) in
     48 \<le> n \<and> n \<le> 57 \<or> 65 \<le> n \<and> n \<le> 90 \<or> 97 \<le> n \<and> n \<le> 122)"

definition id_chars :: "string \<Rightarrow> bool" where
  "id_chars s \<longleftrightarrow> s \<noteq> [] \<and> is_alnum (hd s) \<and> length s \<le> 64
     \<and> list_all (\<lambda>c. is_alnum c \<or> c = CHR ''_'' \<or> c = CHR ''-'') s"

text \<open>\<open>^[a-zA-Z0-9][a-zA-Z0-9_-]{0,63}$\<close>, where \<open>$\<close> also matches before a final line feed.\<close>

definition id_re :: "string \<Rightarrow> bool" where
  "id_re s \<longleftrightarrow> id_chars s \<or> (s \<noteq> [] \<and> last s = CHR 0x0A \<and> id_chars (butlast s))"

definition validate_id :: "string \<Rightarrow> unit res" where
  "validate_id node_id =
     (if id_re node_id then Inr ()
      else Inl (HttpExc 400 (''invalid id '' @ repr_str node_id @
        '': must be alphanumeric, dash, underscore; 1-64 chars; can't start with -/_'')))"

definition bad_request :: "string \<Rightarrow> 'a res" where
  "bad_request m = Inl (HttpExc 400 m)"

definition validate_type_specific :: "(flt \<Rightarrow> string) \<Rightarrow> pydict \<Rightarrow> unit res" where
  "validate_type_specific fl entry =
     (let t = dget entry ''type'' in
      if \<not> hashable t then Inl (type_error ''unhashable type'')
      else if t \<notin> set (map PStr known_types)
      then bad_request (''unknown type '' @ py_repr fl t @ ''; must be one of '' @
             py_repr fl (PList (map PStr known_types)))
      else if t = PStr ''edge-node'' then
        (case or_else (dget entry ''services'') (PList []) of
           PList services \<Rightarrow>
             let unknown = filter (\<lambda>s. s \<noteq> PStr ''ntp'' \<and> s \<noteq> PStr ''gps'') services
             in if unknown \<noteq> [] then bad_request (''unknown edge-node services: '' @ py_repr fl (PList unknown))
                else Inr ()
         | _ \<Rightarrow> bad_request ''services must be a list'')
      else if t = PStr ''middleware'' then
        (if \<not> has_key entry ''port'' then bad_request ''middleware requires port'' else Inr ())
      else if t = PStr ''service'' then
        (if \<not> has_key entry ''port'' then bad_request ''service requires port''
         else if \<not> has_key entry ''health_path'' \<and> dget entry ''probe_kind'' \<noteq> PStr ''tcp''
         then bad_request ''service requires either health_path (HTTP probe) or probe_kind=tcp''
         else Inr ())
      else
        (if \<not> has_key entry ''port'' then bad_request ''tak-server requires port''
         else if dget entry ''probe_kind'' = PStr ''tcp'' \<and> \<not> has_key entry ''admin_port''
         then bad_request ''tak-server with probe_kind=tcp needs admin_port (TCP admin port, e.g. 8089)''
         else Inr ()))"

section \<open>Create, delete, patch\<close>

record node_extras =
  x_port :: "int option"
  x_services :: "string list option"
  x_kind :: "string option"
  x_probe :: "bool option"
  x_health_path :: "string option"
  x_probe_kind :: "string option"
  x_admin_port :: "int option"
  x_protocol :: "string option"
  x_description :: "string option"
  x_db_kind :: "string option"
  x_db_user :: "string option"
  x_db_password :: "string option"
  x_db_database :: "string option"

record node_create =
  c_id :: string
  c_type :: string
  c_name :: string
  c_host :: string
  c_extras :: node_extras

record node_patch =
  p_name :: "string option"
  p_host :: "string option"
  p_extras :: node_extras

definition max_len :: "nat \<Rightarrow> string option \<Rightarrow> bool" where
  "max_len n v = (case v of None \<Rightarrow> True | Some s \<Rightarrow> length s \<le> n)"

definition port_ok :: "int option \<Rightarrow> bool" where
  "port_ok v = (case v of None \<Rightarrow> True | Some i \<Rightarrow> 1 \<le> i \<and> i \<le> 65535)"

definition extras_ok :: "node_extras \<Rightarrow> bool" where
  "extras_ok x \<longleftrightarrow> port_ok (x_port x) \<and> max_len 64 (x_kind x) \<and> max_len 128 (x_health_path x)
     \<and> max_len 16 (x_probe_kind x) \<and> port_ok (x_admin_port x) \<and> max_len 16 (x_protocol x)
     \<and> max_len 4096 (x_description x) \<and> max_len 32 (x_db_kind x) \<and> max_len 128 (x_db_user x)
     \<and> max_len 256 (x_db_password x) \<and> max_len 128 (x_db_database x)"

definition between_len :: "nat \<Rightarrow> string \<Rightarrow> bool" where
  "between_len n s \<longleftrightarrow> s \<noteq> [] \<and> length s \<le> n"

definition create_fields_ok :: "node_create \<Rightarrow> bool" where
  "create_fields_ok r \<longleftrightarrow> between_len 64 (c_id r) \<and> between_len 32 (c_type r)
     \<and> between_len 128 (c_name r) \<and> between_len 253 (c_host r) \<and> extras_ok (c_extras r)"

definition patch_fields_ok :: "node_patch \<Rightarrow> bool" where
  "patch_fields_ok r \<longleftrightarrow> (case p_name r of None \<Rightarrow> True | Some s \<Rightarrow> between_len 128 s)
     \<and> (case p_host r of None \<Rightarrow> True | Some s \<Rightarrow> between_len 253 s) \<and> extras_ok (p_extras r)"

text \<open>\<open>model_dump(exclude_none=True)\<close>\<close>

fun drop_none :: "(string \<times> pyval option) list \<Rightarrow> pydict" where
  "drop_none [] = []"
| "drop_none ((k, None) # r) = drop_none r"
| "drop_none ((k, Some v) # r) = (k, v) # drop_none r"

definition extras_fields :: "node_extras \<Rightarrow> (string \<times> pyval option) list" where
  "extras_fields x =
     [(''port'', map_option PInt (x_port x)), (''services'', map_option (PList \<circ> map PStr) (x_services x)),
      (''kind'', map_option PStr (x_kind x)), (''probe'', map_option PBool (x_probe x)),
      (''health_path'', map_option PStr (x_health_path x)), (''probe_kind'', map_option PStr (x_probe_kind x)),
      (''admin_port'', map_option PInt (x_admin_port x)), (''protocol'', map_option PStr (x_protocol x)),
      (''description'', map_option PStr (x_description x)), (''db_kind'', map_option PStr (x_db_kind x)),
      (''db_user'', map_option PStr (x_db_user x)), (''db_password'', map_option PStr (x_db_password x)),
      (''db_database'', map_option PStr (x_db_database x))]"

definition dump_create :: "node_create \<Rightarrow> pydict" where
  "dump_create r = drop_none ([(''id'', Some (PStr (c_id r))), (''type'', Some (PStr (c_type r))),
     (''name'', Some (PStr (c_name r))), (''host'', Some (PStr (c_host r)))] @ extras_fields (c_extras r))"

definition dump_patch :: "node_patch \<Rightarrow> pydict" where
  "dump_patch r = drop_none ([(''name'', map_option PStr (p_name r)), (''host'', map_option PStr (p_host r))]
     @ extras_fields (p_extras r))"

definition load_or_500 :: "(flt \<Rightarrow> string) \<Rightarrow> nodes_service \<Rightarrow> pydict list res" where
  "load_or_500 fl s = (case load_config fl (config s) of
     Inl e \<Rightarrow> Inl (HttpExc 500 (''config: '' @ exn_str e)) | Inr es \<Rightarrow> Inr es)"

text \<open>Save, refresh, and answer from the new state.\<close>

definition save_and_refresh ::
  "(flt \<Rightarrow> string) \<Rightarrow> world \<Rightarrow> write_result \<Rightarrow> pydict list \<Rightarrow> (nodes_service \<Rightarrow> pydict) \<Rightarrow> nodes_service
     \<Rightarrow> pydict res \<times> nodes_service" where
  "save_and_refresh fl w wr entries answer s =
     (case save_config wr entries s of
        (Inl e, s1) \<Rightarrow> (Inl (HttpExc 500 (''write config: '' @ exn_str e @ '' (is the volume rw?)'')), s1)
      | (Inr _, s1) \<Rightarrow>
          (case refresh_round fl w s1 of
             (Inl e, s2) \<Rightarrow> (Inl e, s2)
           | (Inr _, s2) \<Rightarrow> (Inr (answer s2), s2)))"

definition state_or_empty :: "string \<Rightarrow> nodes_service \<Rightarrow> pydict" where
  "state_or_empty node_id s = (case state_get (PStr node_id) s of None \<Rightarrow> [] | Some n \<Rightarrow> n)"

definition has_id :: "string \<Rightarrow> pydict \<Rightarrow> bool" where
  "has_id node_id e \<longleftrightarrow> dget e ''id'' = PStr node_id"

definition create_node ::
  "(flt \<Rightarrow> string) \<Rightarrow> world \<Rightarrow> write_result \<Rightarrow> node_create \<Rightarrow> nodes_service \<Rightarrow> pydict res \<times> nodes_service" where
  "create_node fl w wr req s =
     (case validate_id (c_id req) of Inl e \<Rightarrow> (Inl e, s) | Inr _ \<Rightarrow>
      case load_or_500 fl s of Inl e \<Rightarrow> (Inl e, s) | Inr entries \<Rightarrow>
      if list_ex (has_id (c_id req)) entries
      then (Inl (HttpExc 409 (''node '' @ repr_str (c_id req) @ '' already exists'')), s)
      else let new_entry = setdefault ''description'' (PStr []) (dump_create req)
           in case validate_type_specific fl new_entry of Inl e \<Rightarrow> (Inl e, s) | Inr _ \<Rightarrow>
              save_and_refresh fl w wr (entries @ [new_entry]) (state_or_empty (c_id req)) s)"

definition delete_node ::
  "(flt \<Rightarrow> string) \<Rightarrow> world \<Rightarrow> write_result \<Rightarrow> string \<Rightarrow> nodes_service \<Rightarrow> pydict res \<times> nodes_service" where
  "delete_node fl w wr node_id s =
     (case load_or_500 fl s of Inl e \<Rightarrow> (Inl e, s) | Inr entries \<Rightarrow>
      if \<not> list_ex (has_id node_id) entries
      then (Inl (HttpExc 404 (''unknown node: '' @ node_id)), s)
      else save_and_refresh fl w wr (filter (\<lambda>e. \<not> has_id node_id e) entries)
             (\<lambda>_. [(''removed'', PStr node_id)]) s)"

text \<open>\<open>target.update(merged)\<close> changes the first entry with the id in place.\<close>

fun update_first :: "string \<Rightarrow> pydict \<Rightarrow> pydict list \<Rightarrow> pydict list" where
  "update_first node_id merged [] = []"
| "update_first node_id merged (e # es) =
     (if has_id node_id e then dict_update e merged # es else e # update_first node_id merged es)"

definition merge_patch :: "(flt \<Rightarrow> string) \<Rightarrow> pydict \<Rightarrow> pydict \<Rightarrow> pydict" where
  "merge_patch fl target updates =
     (let merged = dict_update target updates
      in if has_key updates ''host''
         then AList.update ''host'' (PStr (strip (py_str fl (dget merged ''host'')))) merged else merged)"

definition patch_one ::
  "(flt \<Rightarrow> string) \<Rightarrow> world \<Rightarrow> write_result \<Rightarrow> string \<Rightarrow> node_patch \<Rightarrow> nodes_service \<Rightarrow> pydict res \<times> nodes_service" where
  "patch_one fl w wr node_id req s =
     (let updates = dump_patch req in
      if updates = [] then (bad_request ''provide at least one field to update'', s)
      else case load_or_500 fl s of Inl e \<Rightarrow> (Inl e, s) | Inr entries \<Rightarrow>
      case filter (has_id node_id) entries of
        [] \<Rightarrow> (Inl (HttpExc 404 (''unknown node: '' @ node_id)), s)
      | target # _ \<Rightarrow>
          let merged = merge_patch fl target updates
          in case validate_type_specific fl merged of Inl e \<Rightarrow> (Inl e, s) | Inr _ \<Rightarrow>
             save_and_refresh fl w wr (update_first node_id merged entries) (state_or_empty node_id) s)"

section \<open>What loading guarantees\<close>

definition entry_ok :: "pydict \<Rightarrow> bool" where
  "entry_ok e \<longleftrightarrow> distinct (map fst e) \<and> (\<forall>f \<in> set required_fields. has_key e f)
     \<and> hashable (dget e ''id'') \<and> has_key e ''description''"

definition ids_of :: "pydict list \<Rightarrow> pyval list" where
  "ids_of es = map (\<lambda>e. pnorm (dget e ''id'')) es"

definition config_ok :: "pydict list \<Rightarrow> bool" where
  "config_ok es \<longleftrightarrow> list_all entry_ok es \<and> distinct (ids_of es)"

lemma first_missing_None: "first_missing fs e = None \<longleftrightarrow> (\<forall>f \<in> set fs. has_key e f)"
  by (induction fs) auto

lemma setdefault_simps [simp]:
  "dget (setdefault k v e) k' = (if k' = k \<and> \<not> has_key e k then v else dget e k')"
  "has_key (setdefault k v e) k' \<longleftrightarrow> k' = k \<or> has_key e k'"
  by (auto simp: setdefault_def dict_simps)

lemma distinct_setdefault: "distinct (map fst e) \<Longrightarrow> distinct (map fst (setdefault k v e))"
  by (simp add: setdefault_def distinct_update)

lemma update_new: "k \<notin> fst ` set d \<Longrightarrow> AList.update k v d = d @ [(k, v)]"
  by (induction d) auto

lemma fold_update_new:
  "distinct (map fst d) \<Longrightarrow> fst ` set d \<inter> fst ` set acc = {} \<Longrightarrow>
     fold (\<lambda>(k, v). AList.update k v) d acc = acc @ d"
  by (induction d arbitrary: acc) (force simp: update_new)+

lemma json_object_distinct [simp]: "distinct (map fst (json_object e))"
  by (simp add: json_object_def distinct_dict_update)

lemma json_object_id: "distinct (map fst e) \<Longrightarrow> json_object e = e"
  by (simp add: json_object_def dict_update_def fold_update_new)

lemma check_entries_ok:
  "check_entries fl i seen vs = Inr es \<Longrightarrow>
     list_all entry_ok es \<and> distinct (ids_of es) \<and> set (ids_of es) \<inter> set seen = {}"
proof (induction fl i seen vs arbitrary: es rule: check_entries.induct)
  case (2 fl i seen pairs vs)
  define e where "e = json_object pairs"
  obtain rest where rest: "check_entries fl (i + 1) (pnorm (dget e ''id'') # seen) vs = Inr rest"
      "es = setdefault ''description'' (PStr []) e # rest"
    and e: "first_missing required_fields e = None" "hashable (dget e ''id'')" "pnorm (dget e ''id'') \<notin> set seen"
    using 2(2) by (auto simp: res_simps Let_def simp flip: e_def split: option.splits if_splits)
  have d: "distinct (map fst e)" by (simp add: e_def)
  from e(1) have "\<forall>f \<in> set required_fields. has_key e f" by (simp add: first_missing_None)
  moreover from 2(1) [OF e_def _ _ _ rest(1)] e have
    "list_all entry_ok rest \<and> distinct (ids_of rest) \<and> set (ids_of rest) \<inter> set (pnorm (dget e ''id'') # seen) = {}"
    by blast
  moreover have "entry_ok (setdefault ''description'' (PStr []) e)"
    using calculation(1) e(2) d by (auto simp: entry_ok_def required_fields_def distinct_setdefault)
  ultimately show ?case using e rest(2) by (auto simp: ids_of_def)
qed (auto simp: ids_of_def)

lemma check_entries_dump:
  "list_all entry_ok es \<Longrightarrow> distinct (ids_of es) \<Longrightarrow> set (ids_of es) \<inter> set seen = {} \<Longrightarrow>
     check_entries fl i seen (map PDict es) = Inr es"
proof (induction es arbitrary: i seen)
  case (Cons e es)
  have "check_entries fl (i + 1) (pnorm (dget e ''id'') # seen) (map PDict es) = Inr es"
    using Cons.prems by (intro Cons.IH) (auto simp: ids_of_def)
  moreover have "first_missing required_fields e = None" "hashable (dget e ''id'')"
      "has_key e ''description''" "pnorm (dget e ''id'') \<notin> set seen" "json_object e = e"
    using Cons.prems by (auto simp: entry_ok_def ids_of_def first_missing_None json_object_id)
  ultimately show ?case by (simp add: setdefault_def)
qed simp

lemma load_config_ok: "load_config fl cf = Inr es \<Longrightarrow> config_ok es"
  using check_entries_ok [of fl 0 "[]"]
  by (auto simp: load_config_def config_ok_def split: config_file.splits pyval.splits)

lemma load_dump: "config_ok es \<Longrightarrow> load_config fl (dump_config es) = Inr es"
  by (simp add: load_config_def dump_config_def config_ok_def check_entries_dump)

section \<open>What the operations do to the configuration\<close>

datatype node_op = Create node_create | Delete string | Patch string node_patch

fun apply_op :: "(flt \<Rightarrow> string) \<Rightarrow> world \<Rightarrow> write_result \<Rightarrow> node_op \<Rightarrow> nodes_service \<Rightarrow> pydict res \<times> nodes_service" where
  "apply_op fl w wr (Create req) s = create_node fl w wr req s"
| "apply_op fl w wr (Delete i) s = delete_node fl w wr i s"
| "apply_op fl w wr (Patch i req) s = patch_one fl w wr i req s"

lemma pnorm_PStr [simp]: "pnorm v = PStr x \<longleftrightarrow> v = PStr x"
  by (cases v rule: pnorm.cases) auto

lemma refresh_config [simp]: "config (snd (refresh_round fl w s)) = config s"
  by (simp add: refresh_round_def Let_def split: sum.splits)

lemma save_and_refresh_config:
  "config (snd (save_and_refresh fl w Written entries answer s)) = dump_config entries"
proof -
  define s1 where "s1 = s\<lparr>config := dump_config entries\<rparr>"
  obtain r s2 where r: "refresh_round fl w s1 = (r, s2)" by fastforce
  then have "config s2 = dump_config entries" using refresh_config [of fl w s1] by (simp add: s1_def)
  with r show ?thesis
    by (simp add: save_and_refresh_def save_config_def flip: s1_def split: sum.splits)
qed

lemma drop_none_keys: "fst ` set (drop_none l) \<subseteq> fst ` set l"
  by (induction l rule: drop_none.induct) auto

lemma drop_none_distinct: "distinct (map fst l) \<Longrightarrow> distinct (map fst (drop_none l))"
  by (induction l rule: drop_none.induct) (use drop_none_keys in auto)

lemma dump_patch_keys: "k \<in> {''id'', ''type''} \<Longrightarrow> k \<notin> fst ` set (dump_patch r)"
  using drop_none_keys [of "[(''name'', map_option PStr (p_name r)), (''host'', map_option PStr (p_host r))]
     @ extras_fields (p_extras r)"]
  by (auto simp: dump_patch_def extras_fields_def)

lemma has_key_iff: "has_key d k \<longleftrightarrow> k \<in> fst ` set d"
  by (simp add: has_key_def map_of_eq_None_iff)

lemma has_key_dict_update: "has_key (dict_update d e) k \<longleftrightarrow> has_key d k \<or> has_key e k"
  by (simp add: has_key_iff keys_dict_update)

lemma dget_dict_update_other: "\<not> has_key e k \<Longrightarrow> dget (dict_update d e) k = dget d k"
proof -
  assume "\<not> has_key e k"
  then have "map_of (rev e) k = None" by (simp add: map_of_eq_None_iff has_key_iff)
  then show ?thesis by (simp add: dget_def map_of_dict_update)
qed

lemma dget_dict_update_own:
  "has_key e k \<Longrightarrow> distinct (map fst e) \<Longrightarrow> dget (dict_update d e) k = dget e k"
  by (auto simp: dget_def has_key_def map_of_dict_update map_of_rev_distinct)

lemma dump_create_dget:
  "dget (dump_create r) ''id'' = PStr (c_id r)" "dget (dump_create r) ''type'' = PStr (c_type r)"
  "dget (dump_create r) ''name'' = PStr (c_name r)" "dget (dump_create r) ''host'' = PStr (c_host r)"
  "\<forall>f \<in> set required_fields. has_key (dump_create r) f"
  by (simp_all add: dump_create_def dget_def has_key_def required_fields_def)

lemma dump_create_distinct: "distinct (map fst (dump_create r))"
  unfolding dump_create_def by (rule drop_none_distinct) (simp add: extras_fields_def)

lemma new_entry_ok: "entry_ok (setdefault ''description'' (PStr []) (dump_create r))"
proof -
  define d where "d = dump_create r"
  have "dget d ''id'' = PStr (c_id r)" "\<forall>f \<in> set required_fields. has_key d f" "distinct (map fst d)"
    by (simp_all add: d_def dump_create_dget dump_create_distinct)
  then show ?thesis by (auto simp: entry_ok_def distinct_setdefault simp flip: d_def)
qed

lemma append_new_ok:
  assumes "config_ok es" "\<not> list_ex (has_id i) es" "entry_ok e" "dget e ''id'' = PStr i"
  shows "config_ok (es @ [e])"
proof -
  have "PStr i \<notin> set (ids_of es)"
    using assms(2) by (force simp: ids_of_def has_id_def list_ex_iff dest: sym)
  then have "distinct (ids_of es @ [PStr i])" using assms(1) by (simp add: config_ok_def)
  moreover have "ids_of (es @ [e]) = ids_of es @ [PStr i]" using assms(4) by (simp add: ids_of_def)
  ultimately show ?thesis using assms(1,3) by (simp add: config_ok_def)
qed

lemma filter_ok: "config_ok es \<Longrightarrow> config_ok (filter P es)"
  by (auto simp: config_ok_def list_all_iff ids_of_def distinct_map inj_on_def)

lemma merge_patch_facts:
  assumes "entry_ok t" "u = dump_patch r"
  shows "distinct (map fst (merge_patch fl t u))"
    "k \<in> {''id'', ''type''} \<Longrightarrow> dget (merge_patch fl t u) k = dget t k"
    "k \<in> {''id'', ''type''} \<Longrightarrow> has_key (merge_patch fl t u) k"
proof -
  show "distinct (map fst (merge_patch fl t u))"
    using assms(1) by (simp add: merge_patch_def Let_def entry_ok_def distinct_update distinct_dict_update)
  assume k: "k \<in> {''id'', ''type''}"
  then have n: "\<not> has_key u k" using dump_patch_keys assms(2) by (auto simp: has_key_iff)
  from k show "dget (merge_patch fl t u) k = dget t k"
    by (auto simp: merge_patch_def Let_def dict_simps dget_dict_update_other [OF n])
  from k assms(1) show "has_key (merge_patch fl t u) k"
    by (auto simp: merge_patch_def Let_def dict_simps has_key_dict_update entry_ok_def required_fields_def)
qed

lemma target_update_facts:
  fixes fl :: "flt \<Rightarrow> string"
  assumes "entry_ok t" "u = dump_patch r"
  defines "t' \<equiv> dict_update t (merge_patch fl t u)"
  shows "entry_ok t'" "dget t' ''id'' = dget t ''id''" "dget t' ''type'' = dget t ''type''"
proof -
  note m = merge_patch_facts [OF assms(1,2), where fl = fl]
  show i: "dget t' ''id'' = dget t ''id''" and "dget t' ''type'' = dget t ''type''"
    using m(2) [of "''id''"] m(2) [of "''type''"] by (simp_all add: t'_def dget_dict_update_own m)
  from assms(1) show "entry_ok t'"
    unfolding entry_ok_def i
    by (auto simp: t'_def has_key_dict_update distinct_dict_update)
qed

lemma update_first_facts:
  fixes fl :: "flt \<Rightarrow> string" and r :: node_patch
  assumes "list_all entry_ok es" "filter (has_id i) es = t # ts"
  defines "es' \<equiv> update_first i (merge_patch fl t (dump_patch r)) es"
  shows "list_all entry_ok es'"
    "map (\<lambda>e. (dget e ''id'', dget e ''type'')) es' = map (\<lambda>e. (dget e ''id'', dget e ''type'')) es"
    "filter (\<lambda>e. \<not> has_id i e) es' = filter (\<lambda>e. \<not> has_id i e) es"
  using assms(1,2) unfolding es'_def
proof (induction es)
  case (Cons e es)
  {
    case 1 with Cons show ?case by (auto simp: target_update_facts)
  next
    case 2 with Cons show ?case by (auto simp: target_update_facts)
  next
    case 3 with Cons show ?case by (auto simp: target_update_facts has_id_def)
  }
qed simp_all

lemma update_first_ok:
  assumes "config_ok es" "filter (has_id i) es = t # ts"
  shows "config_ok (update_first i (merge_patch fl t (dump_patch r)) es)"
proof -
  have l: "list_all entry_ok es" using assms(1) by (simp add: config_ok_def)
  note u = update_first_facts [OF l assms(2), where fl = fl and r = r]
  have "ids_of (update_first i (merge_patch fl t (dump_patch r)) es) = ids_of es"
    using arg_cong [OF u(2), of "map (pnorm \<circ> fst)"] by (simp add: ids_of_def comp_def)
  with u(1) assms(1) show ?thesis by (simp add: config_ok_def)
qed

text \<open>What a successful write stores, for each operation.\<close>

inductive stored :: "(flt \<Rightarrow> string) \<Rightarrow> node_op \<Rightarrow> pydict list \<Rightarrow> pydict list \<Rightarrow> bool" for fl where
  stored_create: "\<not> list_ex (has_id (c_id req)) es \<Longrightarrow> id_re (c_id req) \<Longrightarrow>
     e = setdefault ''description'' (PStr []) (dump_create req) \<Longrightarrow>
     validate_type_specific fl e = Inr () \<Longrightarrow> stored fl (Create req) es (es @ [e])"
| stored_delete: "list_ex (has_id i) es \<Longrightarrow> stored fl (Delete i) es (filter (\<lambda>e. \<not> has_id i e) es)"
| stored_patch: "filter (has_id i) es = t # ts \<Longrightarrow> m = merge_patch fl t (dump_patch req) \<Longrightarrow>
     validate_type_specific fl m = Inr () \<Longrightarrow> stored fl (Patch i req) es (update_first i m es)"

inductive_cases stored_createE: "stored fl (Create req) es es'"
inductive_cases stored_deleteE: "stored fl (Delete i) es es'"
inductive_cases stored_patchE: "stored fl (Patch i req) es es'"

lemma stored_ok: "stored fl op es es' \<Longrightarrow> config_ok es \<Longrightarrow> config_ok es'"
proof (induction rule: stored.induct)
  case (stored_create req es e)
  then show ?case
    using append_new_ok [of es "c_id req" e] new_entry_ok [of req] dump_create_dget [of req] by simp
next
  case (stored_delete i es)
  then show ?case by (simp add: filter_ok)
next
  case (stored_patch i es t ts m req)
  then show ?case by (simp add: update_first_ok)
qed

text \<open>An operation either refuses and leaves the service as it was, or goes on to write what
  \<open>stored\<close> says.\<close>

lemma apply_op_cases:
  obtains (refused) e where "apply_op fl w wr op s = (Inl e, s)"
  | (written) es es' answer where "load_config fl (config s) = Inr es" "stored fl op es es'"
      "apply_op fl w wr op s = save_and_refresh fl w wr es' answer s"
proof (cases op)
  case (Create req)
  show ?thesis
  proof (cases "id_re (c_id req) \<and> (\<exists>es. load_config fl (config s) = Inr es \<and> \<not> list_ex (has_id (c_id req)) es)")
    case False
    then have "\<exists>e. create_node fl w wr req s = (Inl e, s)"
      by (cases "load_config fl (config s)") (auto simp: create_node_def validate_id_def load_or_500_def)
    with Create that(1) show ?thesis by auto
  next
    case True
    then obtain es where es: "id_re (c_id req)" "load_config fl (config s) = Inr es"
      "\<not> list_ex (has_id (c_id req)) es" by blast
    define e where "e = setdefault ''description'' (PStr []) (dump_create req)"
    show ?thesis
    proof (cases "validate_type_specific fl e")
      case (Inl x)
      with es have "create_node fl w wr req s = (Inl x, s)"
        by (simp add: create_node_def validate_id_def load_or_500_def Let_def flip: e_def)
      with Create that(1) show ?thesis by simp
    next
      case (Inr x)
      with es have "create_node fl w wr req s = save_and_refresh fl w wr (es @ [e]) (state_or_empty (c_id req)) s"
        by (simp add: create_node_def validate_id_def load_or_500_def Let_def flip: e_def)
      moreover have "stored fl (Create req) es (es @ [e])"
        using es Inr by (intro stored_create [OF _ _ e_def]) auto
      ultimately show ?thesis using Create that(2) es(2) by auto
    qed
  qed
next
  case (Delete i)
  have "(\<exists>e. delete_node fl w wr i s = (Inl e, s)) \<or>
    (\<exists>es es' answer. load_config fl (config s) = Inr es \<and> stored fl (Delete i) es es'
       \<and> delete_node fl w wr i s = save_and_refresh fl w wr es' answer s)"
  proof (cases "\<exists>es. load_config fl (config s) = Inr es \<and> list_ex (has_id i) es")
    case True
    then obtain es where es: "load_config fl (config s) = Inr es" "list_ex (has_id i) es" by blast
    then have "delete_node fl w wr i s = save_and_refresh fl w wr (filter (\<lambda>e. \<not> has_id i e) es)
        (\<lambda>_. [(''removed'', PStr i)]) s"
      by (simp add: delete_node_def load_or_500_def)
    with stored_delete [OF es(2)] es(1) show ?thesis by blast
  next
    case False
    then show ?thesis
      by (cases "load_config fl (config s)") (auto simp: delete_node_def load_or_500_def)
  qed
  with Delete that show ?thesis by auto
next
  case (Patch i req)
  have "(\<exists>e. patch_one fl w wr i req s = (Inl e, s)) \<or>
    (\<exists>es es' answer. load_config fl (config s) = Inr es \<and> stored fl (Patch i req) es es'
       \<and> patch_one fl w wr i req s = save_and_refresh fl w wr es' answer s)"
  proof (cases "\<exists>es t ts. dump_patch req \<noteq> [] \<and> load_config fl (config s) = Inr es \<and> filter (has_id i) es = t # ts")
    case True
    then obtain es t ts where es: "dump_patch req \<noteq> []" "load_config fl (config s) = Inr es"
        "filter (has_id i) es = t # ts" by blast
    define m where "m = merge_patch fl t (dump_patch req)"
    show ?thesis
    proof (cases "validate_type_specific fl m")
      case (Inl e)
      with es have "patch_one fl w wr i req s = (Inl e, s)"
        by (simp add: patch_one_def load_or_500_def Let_def flip: m_def)
      then show ?thesis by blast
    next
      case (Inr u)
      with es have "patch_one fl w wr i req s
          = save_and_refresh fl w wr (update_first i m es) (state_or_empty i) s"
        by (simp add: patch_one_def load_or_500_def Let_def flip: m_def)
      moreover have "stored fl (Patch i req) es (update_first i m es)"
        using stored_patch [OF es(3) m_def] Inr by simp
      ultimately show ?thesis using es(2) by blast
    qed
  next
    case False
    then show ?thesis
      by (cases "load_config fl (config s)")
         (auto simp: patch_one_def load_or_500_def bad_request_def Let_def split: list.splits)
  qed
  with Patch that show ?thesis by auto
qed

section \<open>What a round of probes does\<close>

lemma for_type_hashable: "hashable t \<Longrightarrow> \<exists>f. for_type fl net web t = Inr f"
  by (simp add: for_type_def)

lemma probe_entry_exn: "probe_entry fl w e = Inl x \<Longrightarrow> \<exists>c m. x = PyExc c m"
  by (auto simp: probe_entry_def for_type_def res_simps type_error_def split: if_splits)

lemma compose_all_exn: "compose_all fl w s es acc = Inl x \<Longrightarrow> \<exists>c m. x = PyExc c m"
  by (induction es arbitrary: acc) (auto simp: res_simps Let_def dest: probe_entry_exn)

lemma mapE_exn:
  "mapE f xs = Inl x \<Longrightarrow> \<exists>y \<in> set xs. f y = Inl x"
  by (induction xs) (auto simp: res_simps)

lemma refresh_exn:
  assumes "fst (refresh_round fl w s) = Inl x"
  shows "\<exists>c m. x = PyExc c m"
proof (cases "load_config fl (config s)")
  case (Inl e)
  with assms show ?thesis by (simp add: refresh_round_def)
next
  case (Inr es)
  with assms show ?thesis
    by (auto simp: refresh_round_def Let_def res_simps dict_at_def key_error_def
        dest!: mapE_exn compose_all_exn split: sum.splits option.splits)
qed

text \<open>The extras of an entry: a status by a registered probe, or one of the two synthetic ones.\<close>

lemma extras_facts:
  assumes "probe_entry fl w e = Inr x"
  shows "fst ` set x \<subseteq> status_keys" "has_key x ''severity''" "has_key x ''ok''" "distinct (map fst x)"
    "truthy (dget x ''ok'') \<Longrightarrow> dget x ''severity'' \<in> {PStr ''ok'', PStr ''warn''}"
proof -
  have syn: "fst ` set (failed_status sv m) \<subseteq> status_keys \<and> has_key (failed_status sv m) ''severity''
      \<and> has_key (failed_status sv m) ''ok'' \<and> distinct (map fst (failed_status sv m))
      \<and> \<not> truthy (dget (failed_status sv m) ''ok'')" for sv m
    by (simp add: failed_status_def status_keys_def has_key_def dget_def)
  obtain pf where pf: "for_type fl (wnet w) (wweb w) (dget e ''type'') = Inr pf"
    using assms by (auto simp: probe_entry_def res_simps)
  consider sv m where "x = failed_status sv m" | f where "pf = Some f" "f e (wctx w) = Inr x"
    using assms pf by (fastforce simp: probe_entry_def split: option.splits sum.splits)
  then have "fst ` set x \<subseteq> status_keys \<and> has_key x ''severity'' \<and> has_key x ''ok'' \<and> distinct (map fst x)
      \<and> (truthy (dget x ''ok'') \<longrightarrow> dget x ''severity'' \<in> {PStr ''ok'', PStr ''warn''})"
  proof cases
    case (1 sv m)
    with syn show ?thesis by blast
  next
    case (2 f)
    from pf 2(1) have c: "probe_contract f" by (auto dest: for_type_cases)
    show ?thesis
      using probe_contract.own_keys [OF c 2(2)] probe_contract.severity_key [OF c 2(2)]
        probe_contract.truthy_ok [OF c 2(2)] probe_contract.ok_key [OF c 2(2)]
        probe_contract.distinct_keys [OF c 2(2)] by blast
  qed
  then show "fst ` set x \<subseteq> status_keys" "has_key x ''severity''" "has_key x ''ok''" "distinct (map fst x)"
    "truthy (dget x ''ok'') \<Longrightarrow> dget x ''severity'' \<in> {PStr ''ok'', PStr ''warn''}"
    by blast+
qed

definition time_keys :: "string set" where
  "time_keys = {''last_probed_at'', ''last_ok_at'', ''first_seen_at''}"

lemma compose_keeps:
  assumes "fst ` set x \<subseteq> status_keys" "k \<notin> status_keys \<union> time_keys"
  shows "dget (compose now prev x e) k = dget e k" "has_key (compose now prev x e) k \<longleftrightarrow> has_key e k"
proof -
  have "\<not> has_key x k" using assms by (auto simp: has_key_iff)
  then show "dget (compose now prev x e) k = dget e k" "has_key (compose now prev x e) k \<longleftrightarrow> has_key e k"
    using assms(2) by (auto simp: compose_def time_keys_def dict_simps dget_dict_update_other has_key_dict_update)
qed

lemma compose_times:
  "dget (compose now prev x e) ''first_seen_at'' = or_else (dget prev ''first_seen_at'') (PFloat (Fin now))"
  "dget (compose now prev x e) ''last_probed_at'' = PFloat (Fin now)"
  "dget (compose now prev x e) ''last_ok_at'' = (if truthy (dget x ''ok'') then PFloat (Fin now) else dget prev ''last_ok_at'')"
  by (simp_all add: compose_def dict_simps)

lemma compose_extras:
  assumes "has_key x k" "k \<notin> time_keys" "distinct (map fst x)"
  shows "dget (compose now prev x e) k = dget x k" "has_key (compose now prev x e) k"
  using assms by (auto simp: compose_def time_keys_def dict_simps has_key_dict_update dget_dict_update_own)

definition prev_of :: "nodes_service \<Rightarrow> pydict \<Rightarrow> pydict" where
  "prev_of s e = (case state_get (dget e ''id'') s of None \<Rightarrow> [] | Some p \<Rightarrow> p)"

lemma compose_all_result:
  assumes "list_all (\<lambda>e. hashable (dget e ''type'')) es" "distinct (ids_of es)"
    and "set (ids_of es) \<inter> fst ` set acc = {}"
  shows "\<exists>xs. length xs = length es \<and> list_all2 (\<lambda>e x. probe_entry fl w e = Inr x) es xs
    \<and> compose_all fl w s es acc = Inr (acc @ map2 (\<lambda>e x. (pnorm (dget e ''id''), compose (wnow w) (prev_of s e) x e)) es xs)"
  using assms
proof (induction es arbitrary: acc)
  case Nil
  then show ?case by simp
next
  case (Cons e es)
  have "hashable (dget e ''type'')" using Cons.prems(1) by simp
  then obtain x where x: "probe_entry fl w e = Inr x"
    using for_type_hashable [of "dget e ''type''" fl "wnet w" "wweb w"] by (auto simp: probe_entry_def)
  define k where "k = pnorm (dget e ''id'')"
  define c where "c = compose (wnow w) (prev_of s e) x e"
  have "AList.update k c acc = acc @ [(k, c)]"
    using Cons.prems(3) by (intro update_new) (auto simp: ids_of_def k_def)
  then have step: "compose_all fl w s (e # es) acc = compose_all fl w s es (acc @ [(k, c)])"
    by (simp add: x Let_def c_def k_def prev_of_def)
  have "set (ids_of es) \<inter> fst ` set (acc @ [(k, c)]) = {}"
    using Cons.prems(2,3) by (auto simp: ids_of_def k_def)
  with Cons.IH [of "acc @ [(k, c)]"] Cons.prems obtain xs where
    "length xs = length es" "list_all2 (\<lambda>e x. probe_entry fl w e = Inr x) es xs"
    "compose_all fl w s es (acc @ [(k, c)]) = Inr ((acc @ [(k, c)])
       @ map2 (\<lambda>e x. (pnorm (dget e ''id''), compose (wnow w) (prev_of s e) x e)) es xs)"
    by (auto simp: ids_of_def)
  then show ?case using x step by (intro exI [of _ "x # xs"]) (simp add: k_def c_def)
qed

lemma mapE_ok: "\<forall>x \<in> set xs. \<exists>y. f x = Inr y \<Longrightarrow> \<exists>ys. mapE f xs = Inr ys"
  by (induction xs) (auto simp: res_simps)

lemma refresh_result:
  assumes "load_config fl (config s) = Inr es" "list_all (\<lambda>e. hashable (dget e ''type'')) es"
  shows "\<exists>xs. length xs = length es \<and> list_all2 (\<lambda>e x. probe_entry fl w e = Inr x) es xs \<and>
    refresh_round fl w s = (Inr (), s\<lparr>config_error := None, last_refresh_at := wnow w,
      node_state := map2 (\<lambda>e x. (pnorm (dget e ''id''), compose (wnow w) (prev_of s e) x e)) es xs\<rparr>)"
proof -
  have ok: "config_ok es" by (rule load_config_ok [OF assms(1)])
  then have d: "distinct (ids_of es)" by (simp add: config_ok_def)
  define s1 where "s1 = s\<lparr>config_error := None\<rparr>"
  have prev: "prev_of s1 e = prev_of s e" for e by (simp add: prev_of_def state_get_def s1_def)
  from compose_all_result [OF assms(2) d, of "[]" fl w s1] obtain xs where
    xs: "length xs = length es" "list_all2 (\<lambda>e x. probe_entry fl w e = Inr x) es xs"
      "compose_all fl w s1 es []
         = Inr (map2 (\<lambda>e x. (pnorm (dget e ''id''), compose (wnow w) (prev_of s e) x e)) es xs)"
    by (auto simp: prev)
  define st where "st = map2 (\<lambda>e x. (pnorm (dget e ''id''), compose (wnow w) (prev_of s e) x e)) es xs"
  have "\<exists>y. bindE (dict_at n ''id'') (\<lambda>_. dict_at n ''severity'') = Inr y" if "(k, n) \<in> set st" for k n
  proof -
    from that obtain e x where ex: "(e, x) \<in> set (zip es xs)" "n = compose (wnow w) (prev_of s e) x e"
      by (auto simp: st_def)
    then have p: "probe_entry fl w e = Inr x" "e \<in> set es"
      using xs(2) by (auto simp: list_all2_iff dest: set_zip_leftD)
    note f = extras_facts [OF p(1)]
    have "entry_ok e" using ok p(2) by (simp add: config_ok_def list_all_iff)
    then have "has_key e ''id''" by (simp add: entry_ok_def required_fields_def)
    then have "has_key n ''id''" unfolding ex(2)
      by (subst compose_keeps(2) [OF f(1)]) (simp_all add: status_keys_def time_keys_def)
    moreover have "has_key n ''severity''" unfolding ex(2)
      by (rule compose_extras(2) [OF f(2) _ f(4)]) (simp add: time_keys_def)
    ultimately show ?thesis by (auto simp: has_key_def dict_at_def)
  qed
  then have "\<exists>ys. mapE (\<lambda>(_, n). bindE (dict_at n ''id'') (\<lambda>_. dict_at n ''severity'')) st = Inr ys"
    by (intro mapE_ok) auto
  then show ?thesis
    using xs by (auto simp: refresh_round_def assms(1) Let_def simp flip: s1_def st_def)
qed

section \<open>Properties\<close>


text \<open>A sample configuration for the witnesses.\<close>

definition sample_world :: world where
  "sample_world = \<lparr>wnet = (\<lambda>_ _. Connected (1/10)), wweb = (\<lambda>_ _ _. WebStatus 1 200), wctx = [], wnow = 9\<rparr>"

definition sample_entry :: pydict where
  "sample_entry = [(''id'', PStr ''a''), (''type'', PStr ''middleware''), (''name'', PStr ''A''),
     (''host'', PStr ''h''), (''port'', PInt 1), (''description'', PStr [])]"

definition sample_service :: nodes_service where
  "sample_service = \<lparr>config = dump_config [sample_entry], node_state = [], config_error = None,
     last_refresh_at = 0, nodes_interval_s = Fin 60\<rparr>"

lemma sample_loads: "load_config fl (config sample_service) = Inr [sample_entry]"
  unfolding sample_service_def
  by (simp add: load_dump config_ok_def entry_ok_def ids_of_def sample_entry_def has_key_def
      required_fields_def dget_def)




text \<open>No operation changes the id or the type of an existing node: what a successful create
  stores is the old entries with the new one, whose id was free and is well formed; a delete
  drops exactly the named one; a patch keeps the list of ids and types and touches no other
  entry.\<close>

theorem stored_entries:
  assumes "stored fl op es es'" "config_ok es"
  shows "case op of
      Create req \<Rightarrow> \<exists>e. es' = es @ [e] \<and> dget e ''id'' = PStr (c_id req) \<and> dget e ''type'' = PStr (c_type req)
         \<and> c_type req \<in> set known_types \<and> id_re (c_id req) \<and> PStr (c_id req) \<notin> set (ids_of es)
    | Delete i \<Rightarrow> es' = filter (\<lambda>e. dget e ''id'' \<noteq> PStr i) es \<and> Suc (length es') = length es
    | Patch i req \<Rightarrow> map (\<lambda>e. (dget e ''id'', dget e ''type'')) es' = map (\<lambda>e. (dget e ''id'', dget e ''type'')) es
         \<and> filter (\<lambda>e. dget e ''id'' \<noteq> PStr i) es' = filter (\<lambda>e. dget e ''id'' \<noteq> PStr i) es"
  using assms
proof (induction rule: stored.induct)
  case (stored_create req es e)
  have t: "dget e ''type'' = PStr (c_type req)" "dget e ''id'' = PStr (c_id req)"
    using stored_create.hyps(3) by (simp_all add: dump_create_dget)
  moreover have "c_type req \<in> set known_types"
    using stored_create.hyps(4) by (auto simp: validate_type_specific_def t(1) Let_def bad_request_def split: if_splits)
  moreover have "PStr (c_id req) \<notin> set (ids_of es)"
    using stored_create.hyps(1) by (force simp: ids_of_def has_id_def list_ex_iff dest: sym)
  ultimately show ?case using stored_create.hyps(2) by auto
next
  case (stored_delete i es)
  have "Suc (length (filter (\<lambda>e. \<not> has_id i e) es)) = length es"
    if "distinct (ids_of es)" "list_ex (has_id i) es"
    using that
  proof (induction es)
    case (Cons e es)
    show ?case
    proof (cases "has_id i e")
      case True
      with Cons.prems(1) have "\<forall>x \<in> set es. \<not> has_id i x" by (force simp: ids_of_def has_id_def)
      then have "filter (\<lambda>e. \<not> has_id i e) es = es" by (simp add: filter_id_conv)
      with True show ?thesis by simp
    next
      case False
      with Cons show ?thesis by (simp add: ids_of_def)
    qed
  qed simp
  with stored_delete show ?case by (simp add: config_ok_def has_id_def)
next
  case (stored_patch i es t ts m req)
  then have "list_all entry_ok es" by (simp add: config_ok_def)
  from update_first_facts [OF this stored_patch.hyps(1)] stored_patch.hyps(2) show ?case
    by (simp add: has_id_def)
qed

lemma stored_entries_witness: "Suc (length (filter (\<lambda>e. \<not> has_id ''a'' e) [sample_entry])) = length [sample_entry]"
proof -
  have "stored (\<lambda>_. []) (Delete ''a'') [sample_entry] (filter (\<lambda>e. \<not> has_id ''a'' e) [sample_entry])"
    by (rule stored_delete) (simp add: has_id_def sample_entry_def dget_def)
  from stored_entries [OF this load_config_ok [OF sample_loads], unfolded node_op.case] show ?thesis
    by (rule conjunct2)
qed

text \<open>The id check does not do what its comment and its message say: an id with a line feed
  behind 1 to 63 valid characters is accepted, although a line feed is not among them.\<close>

theorem id_with_line_feed_accepted:
  assumes "id_chars t" "length t < 64"
  shows "validate_id (t @ [CHR 0x0A]) = Inr () \<and> between_len 64 (t @ [CHR 0x0A]) \<and> \<not> id_chars (t @ [CHR 0x0A])"
  using assms by (simp add: validate_id_def id_re_def between_len_def id_chars_def is_alnum_def Let_def)

lemma id_with_line_feed_accepted_witness: "validate_id (''a'' @ [CHR 0x0A]) = Inr ()"
  using id_with_line_feed_accepted [of "''a''"] by (simp add: id_chars_def is_alnum_def)

end
