(* ===== verification/UiNodes.thy ===== *)
theory UiNodes
  imports Nodes
begin

text \<open>
  The UI's access to the other services: the proxy to the nodes service
  (\<open>services/ui/app/nodes/client.py\<close>, \<open>nodes/routes.py\<close>), the proxy to the regression service
  (\<open>tests/client.py\<close>), and the node lookup that the three controllers share.

  The service behind a proxy is an argument: a function from a request and the service's state
  to what \<open>urllib\<close> makes of the answer, and the new state.
\<close>

section \<open>Reading the registry\<close>

text \<open>The document; \<open>URLError\<close>, \<open>TimeoutError\<close> or \<open>OSError\<close>; any other exception.\<close>

datatype fetched = Document pyval | NetworkError string | OtherError string

definition nodes_query :: "string option \<Rightarrow> string" where
  "nodes_query type = (case type of None \<Rightarrow> ''/nodes/current''
     | Some t \<Rightarrow> if t = [] then ''/nodes/current'' else ''/nodes/current?type='' @ t)"

definition no_nodes :: "string \<Rightarrow> pyval" where
  "no_nodes error = PDict [(''config_error'', PStr error), (''nodes'', PList [])]"

definition fetch_current :: "fetched \<Rightarrow> pyval" where
  "fetch_current f = (case f of
     Document v \<Rightarrow> v
   | NetworkError m \<Rightarrow> no_nodes (''nodes service unreachable: '' @ m)
   | OtherError m \<Rightarrow> no_nodes (''nodes service error: '' @ m))"

text \<open>\<open>_node\<close> of the controllers: the first node with the controller's id.\<close>

fun find_in :: "string \<Rightarrow> pyval list \<Rightarrow> pydict res" where
  "find_in node_id [] = Inl (HttpExc 404 (''node '' @ repr_str node_id @ '' not found in registry''))"
| "find_in node_id (v # vs) = (case v of
     PDict d \<Rightarrow> if dget d ''id'' = PStr node_id then Inr d else find_in node_id vs
   | _ \<Rightarrow> Inl (PyExc ''AttributeError'' ''object has no attribute get''))"

definition find_node :: "string \<Rightarrow> fetched \<Rightarrow> pydict res" where
  "find_node node_id f =
     bindE (attr_get (fetch_current f) ''nodes'' (PList [])) (\<lambda>ns.
     bindE (py_iter ns) (find_in node_id))"

section \<open>The proxy to the nodes service\<close>

text \<open>The UI's models declare no \<open>db_\<close> fields, and pydantic ignores what a model does not
  declare.\<close>

definition ui_extras :: "node_extras \<Rightarrow> node_extras" where
  "ui_extras x = x\<lparr>x_db_kind := None, x_db_user := None, x_db_password := None, x_db_database := None\<rparr>"

definition ui_create :: "node_create \<Rightarrow> node_create" where
  "ui_create r = r\<lparr>c_extras := ui_extras (c_extras r)\<rparr>"

definition ui_patch :: "node_patch \<Rightarrow> node_patch" where
  "ui_patch r = r\<lparr>p_extras := ui_extras (p_extras r)\<rparr>"

record upstream_request =
  up_method :: string
  up_path :: string
  up_body :: "pydict option"

text \<open>The body of an error answer: empty (with the reason phrase), JSON (with its text), or
  something that cannot be read as either.\<close>

datatype error_body = EmptyBody string | ErrorJson pyval string | ErrorText

text \<open>An answer with a JSON body, one without body, an \<open>HTTPError\<close> with its text, or another
  exception.\<close>

datatype upstream = Answer pyval | NoBody | ErrorStatus int string error_body | CallFails string

type_synonym 's service = "upstream_request \<Rightarrow> 's \<Rightarrow> upstream \<times> 's"
type_synonym proxied = "(int \<times> pyval) + pyval"

definition proxy_error :: "upstream \<Rightarrow> proxied" where
  "proxy_error u = (case u of
     Answer v \<Rightarrow> Inr v
   | NoBody \<Rightarrow> Inr (PDict [])
   | ErrorStatus code msg b \<Rightarrow>
       Inl (code, case b of EmptyBody reason \<Rightarrow> PStr reason
                  | ErrorJson (PDict d) raw \<Rightarrow> dget_or d ''detail'' (PStr raw)
                  | _ \<Rightarrow> PStr msg)
   | CallFails msg \<Rightarrow> Inl (502, PStr (''nodes service: '' @ msg)))"

definition via :: "'s service \<Rightarrow> upstream_request \<Rightarrow> 's \<Rightarrow> proxied \<times> 's" where
  "via send rq s = (case send rq s of (u, s1) \<Rightarrow> (proxy_error u, s1))"

definition ui_create_node :: "'s service \<Rightarrow> node_create \<Rightarrow> 's \<Rightarrow> proxied \<times> 's" where
  "ui_create_node send r s =
     via send \<lparr>up_method = ''POST'', up_path = ''/nodes'', up_body = Some (dump_create (ui_create r))\<rparr> s"

definition ui_patch_node :: "'s service \<Rightarrow> string \<Rightarrow> node_patch \<Rightarrow> 's \<Rightarrow> proxied \<times> 's" where
  "ui_patch_node send node_id r s =
     (let body = dump_patch (ui_patch r)
      in if body = [] then (Inl (400, PStr ''provide at least one field to update''), s)
         else via send \<lparr>up_method = ''PATCH'', up_path = ''/nodes/'' @ node_id, up_body = Some body\<rparr> s)"

definition ui_delete_node :: "'s service \<Rightarrow> string \<Rightarrow> 's \<Rightarrow> proxied \<times> 's" where
  "ui_delete_node send node_id s =
     via send \<lparr>up_method = ''DELETE'', up_path = ''/nodes/'' @ node_id, up_body = None\<rparr> s"

section \<open>The proxy to the regression service (\<open>tests/client.py\<close>)\<close>

text \<open>Item assignment raises for a payload that is not a dictionary.\<close>

definition with_status :: "pyval \<Rightarrow> int \<Rightarrow> pyval res" where
  "with_status payload code = (case payload of
     PDict d \<Rightarrow> Inr (PDict (AList.update ''__status_code'' (PInt code) d))
   | PList l \<Rightarrow> Inl (type_error ''list indices must be integers or slices, not str'')
   | _ \<Rightarrow> Inl (type_error ''object does not support item assignment''))"

datatype test_reply = TestJson pyval | TestEmpty | TestError int "pyval option" string | TestUnreachable string | TestRaises exn

definition regression_request :: "test_reply \<Rightarrow> pyval res" where
  "regression_request r = (case r of
     TestJson v \<Rightarrow> Inr v
   | TestEmpty \<Rightarrow> Inr (PDict [])
   | TestError code payload reason \<Rightarrow>
       with_status (case payload of None \<Rightarrow> PDict [(''detail'', PStr reason)] | Some v \<Rightarrow> v) code
   | TestUnreachable m \<Rightarrow> Inr (PDict [(''error'', PStr m), (''__status_code'', PInt 503)])
   | TestRaises e \<Rightarrow> Inl e)"

section \<open>The nodes service behind the proxy\<close>

text \<open>How FastAPI answers for an operation of the nodes service: the returned document, the
  status and detail of an \<open>HTTPException\<close>, and 500 with a plain text for any other exception.\<close>

fun answer_of :: "pydict res \<Rightarrow> upstream" where
  "answer_of (Inr d) = Answer (PDict d)"
| "answer_of (Inl (HttpExc code detail)) = ErrorStatus code [] (ErrorJson (PDict [(''detail'', PStr detail)]) [])"
| "answer_of (Inl (PyExc c m)) = ErrorStatus 500 ''HTTP Error 500: Internal Server Error'' ErrorText"

text \<open>The three routes that the proxy uses; reading the body is pydantic's.\<close>

definition nodes_http ::
  "(pydict \<Rightarrow> node_create option) \<Rightarrow> (pydict \<Rightarrow> node_patch option) \<Rightarrow> (flt \<Rightarrow> string) \<Rightarrow> world \<Rightarrow> write_result
     \<Rightarrow> nodes_service service" where
  "nodes_http parse_create parse_patch fl w wr rq s =
     (let unprocessable = ErrorStatus 422 ''HTTP Error 422: Unprocessable Entity'' ErrorText;
          ident = drop (length ''/nodes/'') (up_path rq) in
      if up_method rq = ''POST'' \<and> up_path rq = ''/nodes'' then
        (case Option.bind (up_body rq) parse_create of
           None \<Rightarrow> (unprocessable, s)
         | Some r \<Rightarrow> if create_fields_ok r then (case create_node fl w wr r s of (res, s1) \<Rightarrow> (answer_of res, s1))
                    else (unprocessable, s))
      else if up_method rq = ''PATCH'' then
        (case Option.bind (up_body rq) parse_patch of
           None \<Rightarrow> (unprocessable, s)
         | Some r \<Rightarrow> if patch_fields_ok r then (case patch_one fl w wr ident r s of (res, s1) \<Rightarrow> (answer_of res, s1))
                    else (unprocessable, s))
      else if up_method rq = ''DELETE'' then
        (case delete_node fl w wr ident s of (res, s1) \<Rightarrow> (answer_of res, s1))
      else (ErrorStatus 405 ''HTTP Error 405: Method Not Allowed'' ErrorText, s))"

text \<open>What a caller of the nodes service itself would get.\<close>

fun direct :: "pydict res \<Rightarrow> proxied" where
  "direct (Inr d) = Inr (PDict d)"
| "direct (Inl (HttpExc code detail)) = Inl (code, PStr detail)"
| "direct (Inl (PyExc c m)) = Inl (500, PStr ''HTTP Error 500: Internal Server Error'')"

lemma drop_none_mem: "x \<in> set (drop_none l) \<Longrightarrow> (fst x, Some (snd x)) \<in> set l"
  by (induction l rule: drop_none.induct) auto

lemma proxy_answer: "proxy_error (answer_of r) = direct r"
  by (cases r rule: answer_of.cases) (simp_all add: proxy_error_def dget_or_def)

definition no_extras :: node_extras where
  "no_extras = \<lparr>x_port = None, x_services = None, x_kind = None, x_probe = None, x_health_path = None,
     x_probe_kind = None, x_admin_port = None, x_protocol = None, x_description = None, x_db_kind = None,
     x_db_user = None, x_db_password = None, x_db_database = None\<rparr>"


definition sample_create :: node_create where
  "sample_create = \<lparr>c_id = ''a'', c_type = ''middleware'', c_name = ''A'', c_host = ''h'', c_extras = no_extras\<rparr>"


text \<open>Database credentials sent through the UI never reach the nodes service: no request the
  UI forwards carries them, and a patch with nothing else is refused as empty.\<close>

theorem ui_drops_db_credentials:
  assumes "k \<in> {''db_kind'', ''db_user'', ''db_password'', ''db_database''}"
  shows "\<not> has_key (dump_create (ui_create c)) k \<and> \<not> has_key (dump_patch (ui_patch p)) k
    \<and> ui_patch_node send node_id
         \<lparr>p_name = None, p_host = None, p_extras = no_extras\<lparr>x_db_kind := a, x_db_user := b, x_db_password := d, x_db_database := e\<rparr>\<rparr> s
       = (Inl (400, PStr ''provide at least one field to update''), s)"
proof -
  have ex: "(k, Some v) \<notin> set (extras_fields (ui_extras y))" for v y
    using assms by (auto simp: extras_fields_def ui_extras_def)
  have "(k, v) \<notin> set (dump_create (ui_create c))" for v
    using ex assms by (auto simp: dump_create_def ui_create_def dest: drop_none_mem)
  then have "k \<notin> fst ` set (dump_create (ui_create c))" by force
  moreover have "(k, v) \<notin> set (dump_patch (ui_patch p))" for v
    using ex assms by (auto simp: dump_patch_def ui_patch_def dest: drop_none_mem)
  then have "k \<notin> fst ` set (dump_patch (ui_patch p))" by force
  ultimately show ?thesis
    by (simp add: has_key_def map_of_eq_None_iff ui_patch_node_def ui_patch_def ui_extras_def dump_patch_def extras_fields_def no_extras_def)
qed

lemma ui_drops_db_credentials_witness:
  "fst (ui_patch_node (\<lambda>_ s. (NoBody, s)) ''a''
     \<lparr>p_name = None, p_host = None, p_extras = no_extras\<lparr>x_db_kind := None, x_db_user := Some ''secret'', x_db_password := None, x_db_database := None\<rparr>\<rparr> ())
   = Inl (400, PStr ''provide at least one field to update'')"
  using ui_drops_db_credentials [where k = "''db_user''" and send = "\<lambda>_ s. (NoBody, s)" and node_id = "''a''"
      and a = None and b = "Some ''secret''" and d = None and e = None and s = "()"] by simp

end
