(* ===== verification/Sapient.thy ===== *)
theory Sapient
  imports PyNum
begin

text \<open>
  The SAPIENT messages (BSI Flex 335 v2.0) as the services see them after parsing: a record per
  message kind with the fields that the validators, the CoT converter and the flow read. An
  \<open>optional\<close> field is an \<open>option\<close> (\<open>HasField\<close> is presence, reading an absent field gives the
  default), a \<open>oneof\<close> is a datatype, an enum is its number (an unknown number is preserved, as
  proto3 does).
\<close>

section \<open>Messages\<close>

record location =
  loc_x :: "flt option"
  loc_y :: "flt option"
  loc_z :: "flt option"
  coordinate_system :: int

datatype place = NoPlace | RangeBearing | AtLocation location

record task_definition =
  concurrent_tasks :: "int option"

record mode_definition =
  md_task :: "task_definition option"

record registration =
  node_definition :: "int list"
  icd_version :: "string option"
  reg_name :: "string option"
  short_name :: "string option"
  n_capabilities :: nat
  has_status_definition :: bool
  reg_modes :: "mode_definition list"
  config_models :: "string list"

record registration_ack =
  acceptance :: "bool option"

record status_report =
  sr_report_id :: "string option"
  sr_system :: int
  sr_info :: int
  active_task_id :: "string option"
  sr_mode :: "string option"
  node_location :: "location option"

record detection_report =
  dr_report_id :: "string option"
  object_id :: "string option"
  dr_task_id :: "string option"
  dr_place :: place
  detection_confidence :: "flt option"

record task =
  t_task_id :: "string option"
  control :: int

record task_ack =
  ta_task_id :: "string option"
  task_status :: int

record alert =
  alert_id :: "string option"
  al_description :: "string option"
  al_place :: place
  region_id :: "string option"
  ranking :: "flt option"
  confidence :: "flt option"

record alert_ack =
  aa_alert_id :: "string option"
  alert_ack_status :: int

record error_report =
  packet_length :: nat
  error_messages :: "string list"

datatype content =
    Registration registration | RegistrationAck registration_ack | StatusReport status_report
  | DetectionReport detection_report | Task task | TaskAck task_ack
  | Alert alert | AlertAck alert_ack | ErrorReport error_report

record sapient_message =
  msg_timestamp :: "rat option"
  node_id :: "string option"
  destination_id :: "string option"
  msg_content :: "content option"

text \<open>Reading a string field that is not set.\<close>

definition str_field :: "string option \<Rightarrow> string" where
  "str_field v = (case v of None \<Rightarrow> [] | Some s \<Rightarrow> s)"

fun content_kind :: "content \<Rightarrow> string" where
  "content_kind (Registration _) = ''registration''"
| "content_kind (RegistrationAck _) = ''registration_ack''"
| "content_kind (StatusReport _) = ''status_report''"
| "content_kind (DetectionReport _) = ''detection_report''"
| "content_kind (Task _) = ''task''"
| "content_kind (TaskAck _) = ''task_ack''"
| "content_kind (Alert _) = ''alert''"
| "content_kind (AlertAck _) = ''alert_ack''"
| "content_kind (ErrorReport _) = ''error''"

definition which_content :: "sapient_message \<Rightarrow> string option" where
  "which_content m = map_option content_kind (msg_content m)"

fun has_location :: "place \<Rightarrow> bool" where
  "has_location (AtLocation _) = True"
| "has_location _ = False"

fun has_range_bearing :: "place \<Rightarrow> bool" where
  "has_range_bearing RangeBearing = True"
| "has_range_bearing _ = False"

section \<open>Enum names\<close>

definition node_type_names :: "(int \<times> string) list" where
  "node_type_names =
     [(0, ''NODE_TYPE_UNSPECIFIED''), (1, ''NODE_TYPE_OTHER''), (2, ''NODE_TYPE_RADAR''),
      (3, ''NODE_TYPE_LIDAR''), (4, ''NODE_TYPE_CAMERA''), (5, ''NODE_TYPE_SEISMIC''),
      (6, ''NODE_TYPE_ACOUSTIC''), (7, ''NODE_TYPE_PROXIMITY_SENSOR''), (8, ''NODE_TYPE_PASSIVE_RF''),
      (9, ''NODE_TYPE_HUMAN''), (10, ''NODE_TYPE_CHEMICAL''), (11, ''NODE_TYPE_BIOLOGICAL''),
      (12, ''NODE_TYPE_RADIATION''), (13, ''NODE_TYPE_KINETIC''), (14, ''NODE_TYPE_JAMMER''),
      (15, ''NODE_TYPE_CYBER''), (16, ''NODE_TYPE_LDEW''), (17, ''NODE_TYPE_RFDEW''),
      (18, ''NODE_TYPE_MOBILE_NODE''), (19, ''NODE_TYPE_POINTABLE_NODE''), (20, ''NODE_TYPE_FUSION_NODE'')]"

definition system_names :: "(int \<times> string) list" where
  "system_names = [(0, ''SYSTEM_UNSPECIFIED''), (1, ''SYSTEM_OK''), (2, ''SYSTEM_WARNING''),
     (3, ''SYSTEM_ERROR''), (5, ''SYSTEM_GOODBYE'')]"

text \<open>\<open>EnumType.Name(n)\<close> raises for a number without a name.\<close>

definition enum_name :: "(int \<times> string) list \<Rightarrow> int \<Rightarrow> string res" where
  "enum_name names n = (case map_of names n of
     None \<Rightarrow> Inl (value_error (''Enum has no name defined for value '' @ show_int n))
   | Some s \<Rightarrow> Inr s)"

end
