(* ===== verification/PyTime.thy ===== *)
theory PyTime
  imports PyNum
begin

text \<open>
  Naive UTC times (\<open>datetime\<close>) and intervals (\<open>timedelta\<close>) as numbers of microseconds, the former
  since 1970-01-01, their text, and the conversions of the Apex middleware
  (\<open>sapient_apex_server/time_util.py\<close>).
\<close>

section \<open>Dates\<close>

text \<open>Proleptic Gregorian date of a day number, day 0 being 1970-01-01.\<close>

definition civil :: "int \<Rightarrow> int \<times> int \<times> int" where
  "civil day =
     (let z = day + 719468; era = z div 146097; doe = z mod 146097;
          yoe = (doe - doe div 1460 + doe div 36524 - doe div 146096) div 365;
          doy = doe - (365 * yoe + yoe div 4 - yoe div 100);
          mp = (5 * doy + 2) div 153; d = doy - (153 * mp + 2) div 5 + 1;
          m = (if mp < 10 then mp + 3 else mp - 9);
          y = yoe + era * 400 + (if m \<le> 2 then 1 else 0)
      in (y, m, d))"

definition pad_int :: "nat \<Rightarrow> int \<Rightarrow> string" where
  "pad_int n i = pad_left n CHR ''0'' (show_nat (nat i))"

section \<open>Text of the library types\<close>

text \<open>\<open>d.isoformat(sep, timespec="microseconds")\<close>\<close>

definition iso_text :: "string \<Rightarrow> int \<Rightarrow> string" where
  "iso_text sep us =
     (let s = us div 1000000; (y, m, d) = civil (s div 86400); r = s mod 86400
      in pad_int 4 y @ ''-'' @ pad_int 2 m @ ''-'' @ pad_int 2 d @ sep
         @ pad_int 2 (r div 3600) @ '':'' @ pad_int 2 (r div 60 mod 60) @ '':'' @ pad_int 2 (r mod 60)
         @ ''.'' @ pad_int 6 (us mod 1000000))"

text \<open>\<open>str(d)\<close>: no fraction when it is zero.\<close>

definition datetime_text :: "int \<Rightarrow> string" where
  "datetime_text us = (let t = iso_text '' '' us in if us mod 1000000 = 0 then take (length t - 7) t else t)"

text \<open>\<open>str(td)\<close>\<close>

definition timedelta_text :: "int \<Rightarrow> string" where
  "timedelta_text us =
     (let s = us div 1000000; d = s div 86400; r = s mod 86400; f = us mod 1000000
      in (if d = 0 then [] else show_int d @ '' day'' @ (if \<bar>d\<bar> \<noteq> 1 then ''s'' else []) @ '', '')
         @ show_int (r div 3600) @ '':'' @ pad_int 2 (r div 60 mod 60) @ '':'' @ pad_int 2 (r mod 60)
         @ (if f = 0 then [] else ''.'' @ pad_int 6 f))"

text \<open>\<open>timedelta(seconds=x)\<close>: rounded to microseconds, at most 999999999 days.\<close>

definition in_delta_range :: "int \<Rightarrow> bool" where
  "in_delta_range us \<longleftrightarrow> - 86399999913600000000 \<le> us \<and> us < 86400000000000000000"

definition timedelta_seconds :: "flt \<Rightarrow> int res" where
  "timedelta_seconds x = (case x of
      Fin r \<Rightarrow> (let us = round_half_even (r * 1000000)
                in if in_delta_range us then Inr us else Inl (PyExc ''OverflowError'' ''days out of range''))
    | Inf _ \<Rightarrow> Inl (PyExc ''OverflowError'' ''cannot convert float infinity to integer'')
    | NaN \<Rightarrow> Inl (value_error ''cannot convert float NaN to integer''))"

section \<open>Conversions (\<open>time_util.py\<close>)\<close>

definition datetime_to_str :: "int option \<Rightarrow> bool \<Rightarrow> string" where
  "datetime_to_str d quiet = (case d of None \<Rightarrow> ''-''
     | Some us \<Rightarrow> if quiet then iso_text '' '' us else iso_text ''T'' us @ ''Z'')"

definition datetime_to_display_str :: "int option \<Rightarrow> int \<Rightarrow> string" where
  "datetime_to_display_str d most = (case d of None \<Rightarrow> ''-''
     | Some us \<Rightarrow>
         if us div 86400000000 < most div 86400000000 then take 10 (iso_text '' '' us)
         else take 8 (drop 11 (iso_text '' '' us)))"

text \<open>\<open>round(n, -k)\<close> of an integer: to the nearest multiple of \<open>10 ^ k\<close>, halves to the even one.\<close>

definition round_to :: "int \<Rightarrow> int \<Rightarrow> int" where
  "round_to n p = p * round_half_even (of_int n / of_int p)"

definition timedelta_to_display_str :: "int \<Rightarrow> string" where
  "timedelta_to_display_str us =
     (let s = round_to us 1000000 div 1000000
      in if s \<le> - 10 \<or> 10 \<le> s then show_int s @ ''s'' else show_int (round_to us 1000 div 1000) @ ''ms'')"

definition datetime_to_int :: "int option \<Rightarrow> bool \<Rightarrow> int option" where
  "datetime_to_int d reverse = map_option (\<lambda>us. us * (if reverse then - 1 else 1)) d"

text \<open>The years 1 to 9999.\<close>

definition in_datetime_range :: "int \<Rightarrow> bool" where
  "in_datetime_range us \<longleftrightarrow> - 62135596800000000 \<le> us \<and> us < 253402300800000000"

definition int_to_datetime :: "pyval \<Rightarrow> int option res" where
  "int_to_datetime v =
     (let moment = (\<lambda>us. if in_datetime_range us then Inr (Some us) else Inl (PyExc ''OverflowError'' ''date value out of range''))
      in case v of PInt us \<Rightarrow> moment us | PBool b \<Rightarrow> moment (if b then 1 else 0) | _ \<Rightarrow> Inr None)"

definition datetime_int_to_str :: "pyval \<Rightarrow> bool \<Rightarrow> string res" where
  "datetime_int_to_str v quiet = bindE (int_to_datetime v) (\<lambda>d. Inr (datetime_to_str d quiet))"

section \<open>Reading a time\<close>

text \<open>The day number of a date, and \<open>datetime(y, m, d, h, n, s)\<close>.\<close>

definition day_number :: "int \<Rightarrow> int \<Rightarrow> int \<Rightarrow> int" where
  "day_number y m d =
     (let y' = (if m \<le> 2 then y - 1 else y); era = y' div 400; yoe = y' mod 400;
          doy = (153 * (if 2 < m then m - 3 else m + 9) + 2) div 5 + d - 1
      in era * 146097 + (365 * yoe + yoe div 4 - yoe div 100 + doy) - 719468)"

definition leap :: "int \<Rightarrow> bool" where
  "leap y \<longleftrightarrow> y mod 4 = 0 \<and> (y mod 100 \<noteq> 0 \<or> y mod 400 = 0)"

definition days_in_month :: "int \<Rightarrow> int \<Rightarrow> int" where
  "days_in_month y m = (if m = 2 then (if leap y then 29 else 28) else if m \<in> {4, 6, 9, 11} then 30 else 31)"

definition make_datetime :: "int \<Rightarrow> int \<Rightarrow> int \<Rightarrow> int \<Rightarrow> int \<Rightarrow> int \<Rightarrow> int option" where
  "make_datetime y m d h n s =
     (if 1 \<le> y \<and> y \<le> 9999 \<and> 1 \<le> m \<and> m \<le> 12 \<and> 1 \<le> d \<and> d \<le> days_in_month y m \<and> s \<le> 59
      then Some ((day_number y m d * 86400 + h * 3600 + n * 60 + s) * 1000000) else None)"

text \<open>The fields of \<open>strptime\<close>: four digits for the year; one or two digits in a range, the day also with
  a space for its first digit. Letters of the format are matched in either case.\<close>

definition year_field :: "string \<Rightarrow> int option" where
  "year_field t = (if length t = 4 \<and> all_digits t then Some (int (read_nat t)) else None)"

definition small_field :: "nat \<Rightarrow> nat \<Rightarrow> string \<Rightarrow> int option" where
  "small_field lo hi t =
     (if all_digits t \<and> length t \<le> 2 \<and> lo \<le> read_nat t \<and> read_nat t \<le> hi then Some (int (read_nat t)) else None)"

definition day_field :: "string \<Rightarrow> int option" where
  "day_field t = (case t of
      [a, b] \<Rightarrow> if a = CHR '' '' then small_field 1 9 [b] else small_field 1 31 t
    | _ \<Rightarrow> small_field 1 31 t)"

definition date_part :: "string \<Rightarrow> (int \<times> int \<times> int) option" where
  "date_part t = (case split_on (CHR ''-'') t of
      [y, m, d] \<Rightarrow> Option.bind (year_field y) (\<lambda>y. Option.bind (small_field 1 12 m) (\<lambda>m. map_option (\<lambda>d. (y, m, d)) (day_field d)))
    | _ \<Rightarrow> None)"

definition time_part :: "string \<Rightarrow> (int \<times> int \<times> int) option" where
  "time_part t = (case split_on (CHR '':'') t of
      [h, n, s] \<Rightarrow> Option.bind (small_field 0 23 h) (\<lambda>h. Option.bind (small_field 0 59 n) (\<lambda>n. map_option (\<lambda>s. (h, n, s)) (small_field 0 61 s)))
    | _ \<Rightarrow> None)"

text \<open>\<open>datetime.strptime(t, "%Y-%m-%dT%H:%M:%S")\<close>\<close>

definition strptime :: "string \<Rightarrow> int option" where
  "strptime t = (case split_on (CHR ''T'') (map (\<lambda>c. if c = CHR ''t'' then CHR ''T'' else c) t) of
      [a, b] \<Rightarrow> Option.bind (date_part a) (\<lambda>(y, m, d). Option.bind (time_part b) (\<lambda>(h, n, s). make_datetime y m d h n s))
    | _ \<Rightarrow> None)"

definition without_z :: "string \<Rightarrow> string option" where
  "without_z t = (if t \<noteq> [] \<and> last t \<in> {CHR ''Z'', CHR ''z''} then Some (butlast t) else None)"

definition str_to_datetime :: "string \<Rightarrow> int res" where
  "str_to_datetime t =
     (case (case split_on (CHR ''.'') t of
         [p] \<Rightarrow> Option.bind (without_z p) strptime
       | [p, q] \<Rightarrow>
           if all_digits (butlast q) \<and> last q = CHR ''Z''
           then map_option (\<lambda>d. d + int (read_nat (if 7 < length q then take 6 q else butlast q @ replicate (7 - length q) (CHR ''0'')))) (strptime p)
           else None
       | _ \<Rightarrow> None) of
        Some us \<Rightarrow> Inr us | None \<Rightarrow> Inl (value_error (''Invalid timestamp: '' @ t)))"

definition datetime_str_to_int :: "string \<Rightarrow> int option res" where
  "datetime_str_to_int t = bindE (str_to_datetime t) (\<lambda>d. Inr (datetime_to_int (Some d) False))"

section \<open>Dates and day numbers\<close>

definition year_start :: "int \<Rightarrow> int" where
  "year_start k = 365 * k + k div 4 - k div 100"

definition day_count :: "int \<Rightarrow> int" where
  "day_count n = n - n div 1460 + n div 36524 - n div 146096"

lemma day_count_mono: "0 \<le> i \<Longrightarrow> day_count i \<le> day_count (i + int n)"
proof (induction n)
  case (Suc n)
  have step: "day_count j \<le> day_count (j + 1)" if "0 \<le> j" for j
  proof -
    define b b' where "b = j div 36524" and "b' = (j + 1) div 36524"
    have 4: "j div 146096 = b div 4" "(j + 1) div 146096 = b' div 4"
      using zdiv_zmult2_eq [of 4 j 36524] zdiv_zmult2_eq [of 4 "j + 1" 36524] by (simp_all add: b_def b'_def)
    have "b' = b \<or> b' = b + 1" unfolding b_def b'_def by linarith
    then have "b' div 4 - b div 4 \<le> b' - b" by auto
    moreover have "(j + 1) div 1460 \<le> j div 1460 + 1" by linarith
    ultimately show ?thesis by (simp add: day_count_def 4 flip: b_def b'_def)
  qed
  have "i + int (Suc n) = i + int n + 1" by simp
  with Suc step [of "i + int n"] show ?case by (simp add: ac_simps)
qed simp

definition year_end :: "int \<Rightarrow> int" where
  "year_end k = (if k = 399 then 146097 else year_start (k + 1))"

lemma year_bounds:
  "list_all (\<lambda>k. 365 * k \<le> day_count (year_start k) \<and> day_count (year_end k - 1) < 365 * (k + 1)) [0..399]"
  by code_simp

lemma year_of_day:
  assumes "0 \<le> n" "n < 146097"
  shows "\<exists>k. 0 \<le> k \<and> k \<le> 399 \<and> year_start k \<le> n \<and> n < year_end k"
proof (cases "year_start 399 \<le> n")
  case True
  with assms(2) show ?thesis by (intro exI [of _ 399]) (simp add: year_end_def)
next
  case False
  have "\<exists>k. 0 \<le> k \<and> k \<le> int j \<and> year_start k \<le> n \<and> n < year_start (k + 1)" if "n < year_start (int j + 1)" for j
    using that
  proof (induction j)
    case 0
    with assms(1) show ?case by (intro exI [of _ 0]) (simp add: year_start_def)
  next
    case (Suc j)
    show ?case
    proof (cases "n < year_start (int j + 1)")
      case True
      with Suc.IH show ?thesis by force
    next
      case False
      with Suc.prems show ?thesis by (intro exI [of _ "int (Suc j)"]) (simp add: add.commute)
    qed
  qed
  from this [of 398] False obtain k where "0 \<le> k" "k \<le> 398" "year_start k \<le> n" "n < year_start (k + 1)" by auto
  then show ?thesis by (intro exI [of _ k]) (simp add: year_end_def)
qed

lemma year_of_era_day:
  assumes "0 \<le> n" "n < 146097"
  defines "k \<equiv> day_count n div 365"
  shows "0 \<le> k" "k \<le> 399" "0 \<le> n - year_start k" "n < year_end k"
proof -
  obtain j where j: "0 \<le> j" "j \<le> 399" "year_start j \<le> n" "n < year_end j" using year_of_day [OF assms(1,2)] by blast
  then have b: "365 * j \<le> day_count (year_start j)" "day_count (year_end j - 1) < 365 * (j + 1)"
    using year_bounds by (auto simp: list_all_iff)
  have s: "0 \<le> year_start j" using j(1) unfolding year_start_def by linarith
  have "day_count (year_start j) \<le> day_count n" using day_count_mono [OF s, of "nat (n - year_start j)"] j(3) by simp
  moreover have "day_count n \<le> day_count (year_end j - 1)"
    using day_count_mono [OF assms(1), of "nat (year_end j - 1 - n)"] j(4) by simp
  ultimately have x: "365 * j \<le> day_count n" "day_count n < 365 * (j + 1)" using b by linarith+
  have "k = j" unfolding k_def by (rule int_div_pos_eq [where r = "day_count n - 365 * j"]) (use x in auto)
  with j show "0 \<le> k" "k \<le> 399" "0 \<le> n - year_start k" "n < year_end k" by simp_all
qed

text \<open>The length of a year that starts in March, by the leap day at its end.\<close>

lemma year_length:
  assumes "0 \<le> k" "k \<le> 399"
  shows "year_end k - year_start k = (if leap (k + 1) then 366 else 365)"
proof -
  have "list_all (\<lambda>k. year_end k - year_start k = (if leap (k + 1) then 366 else 365)) [0..399]" by code_simp
  with assms show ?thesis by (simp add: list_all_iff)
qed

lemma leap_era: "leap (k + e * 400) \<longleftrightarrow> leap k"
proof -
  have "(k + (e * 100) * 4) mod 4 = k mod 4" "(k + (e * 4) * 100) mod 100 = k mod 100" "(k + e * 400) mod 400 = k mod 400"
    by (rule mod_mult_self1)+
  then show ?thesis by (simp add: leap_def mult.assoc)
qed

lemma civil_valid:
  assumes "civil n = (y, m, d)"
  shows "1 \<le> m" "m \<le> 12" "1 \<le> d" "d \<le> days_in_month y m" "day_number y m d = n"
    "- 719162 \<le> n \<Longrightarrow> 1 \<le> y" "n \<le> 2932896 \<Longrightarrow> y \<le> 9999"
proof -
  define z era doe where "z = n + 719468" and "era = z div 146097" and "doe = z mod 146097"
  define k where "k = day_count doe div 365"
  have doe: "0 \<le> doe" "doe < 146097" by (simp_all add: doe_def)
  note k = year_of_era_day [OF doe, folded k_def] and len = year_length [OF year_of_era_day(1,2) [OF doe], folded k_def]
  define doy mp where "doy = doe - year_start k" and "mp = (5 * doy + 2) div 153"
  have doy: "0 \<le> doy" "doy \<le> 365" "doy = 365 \<longrightarrow> leap (k + 1)"
    using k len by (auto simp: doy_def split: if_splits)
  have mp: "0 \<le> mp" "mp \<le> 11" using doy(1,2) by (auto simp: mp_def)
  have "civil n = (k + era * 400 + (if (if mp < 10 then mp + 3 else mp - 9) \<le> 2 then 1 else 0),
      if mp < 10 then mp + 3 else mp - 9, doy - (153 * mp + 2) div 5 + 1)"
    by (simp only: civil_def Let_def z_def era_def doe_def k_def day_count_def doy_def year_start_def mp_def)
  with assms have "(y, m, d) = (k + era * 400 + (if (if mp < 10 then mp + 3 else mp - 9) \<le> 2 then 1 else 0),
      if mp < 10 then mp + 3 else mp - 9, doy - (153 * mp + 2) div 5 + 1)" by (simp only:)
  then have e: "y = k + era * 400 + (if (if mp < 10 then mp + 3 else mp - 9) \<le> 2 then 1 else 0)"
    "m = (if mp < 10 then mp + 3 else mp - 9)" "d = doy - (153 * mp + 2) div 5 + 1" by (simp_all only: prod.inject)
  have eqs: "d = doy - (153 * mp + 2) div 5 + 1" "m = (if mp < 10 then mp + 3 else mp - 9)"
    "y = k + era * 400 + (if m \<le> 2 then 1 else 0)"
    unfolding e by (rule refl)+
  show "1 \<le> m" "m \<le> 12" using mp eqs(2) by auto
  have d1: "1 \<le> d" unfolding eqs(1) mp_def by linarith
  then show "1 \<le> d" .
  have y': "(if m \<le> 2 then y - 1 else y) = k + era * 400" using eqs(3) by auto
  have "(k + era * 400) div 400 = era" "(k + era * 400) mod 400 = k" using k(1,2) by auto
  moreover have "(if 2 < m then m - 3 else m + 9) = mp" using mp eqs(2) by auto
  moreover have "era * 146097 + doe = z" by (simp add: era_def doe_def)
  ultimately show "day_number y m d = n"
    unfolding day_number_def Let_def y' using eqs(1) by (simp add: doy_def year_start_def z_def)
  have feb: "leap y \<longleftrightarrow> leap (k + 1)" if "m = 2" using that eqs(3) leap_era [of "k + 1" era] by (simp add: algebra_simps)
  have cases: "mp \<in> {0, 1, 2, 3, 4, 5, 6, 7, 8, 9, 10, 11}" using mp unfolding insert_iff empty_iff by presburger
  have q: "153 * mp \<le> 5 * doy + 2" "5 * doy + 2 < 153 * mp + 153" unfolding mp_def by linarith+
  show "d \<le> days_in_month y m"
    using cases q doy feb eqs(1,2) by (auto simp: days_in_month_def)
  have z: "z = era * 146097 + doe" by (simp add: era_def doe_def)
  show "1 \<le> y" if "- 719162 \<le> n"
  proof -
    have e0: "0 \<le> era" using that z_def z doe by linarith
    show ?thesis
    proof (cases "era = 0 \<and> k = 0")
      case True
      with that z_def z have "306 \<le> doy" by (simp add: doy_def year_start_def)
      with q have "10 \<le> mp" by linarith
      with mp True eqs show ?thesis by auto
    qed (use e0 k(1) eqs(3) in auto)
  qed
  show "y \<le> 9999" if "n \<le> 2932896"
  proof -
    have e24: "era \<le> 24" using that z_def z doe by linarith
    show ?thesis
    proof (cases "era = 24 \<and> k = 399")
      case True
      with that z_def z have "doy \<le> 305" by (simp add: doy_def year_start_def)
      with q have "mp \<le> 9" by linarith
      with mp True eqs show ?thesis by auto
    qed (use e24 k(2) eqs(3) in auto)
  qed
qed

section \<open>Text and back\<close>

lemma pad_int_facts:
  assumes "0 \<le> i" "i < 10 ^ k" "0 < k"
  shows "length (pad_int k i) = k" "all_digits (pad_int k i)" "read_nat (pad_int k i) = nat i"
    "c \<in> set (pad_int k i) \<Longrightarrow> is_digit c"
proof -
  have "nat i < 10 ^ k" using assms(1,2) by (simp add: nat_less_iff)
  with length_show_nat assms(3) show len: "length (pad_int k i) = k" by (simp add: pad_int_def pad_left_def)
  have z: "is_digit (CHR ''0'')" "digit_val (CHR ''0'') = 0" by code_simp+
  have digits: "list_all is_digit (pad_int k i)"
    using z show_nat_digits [of "nat i"] by (auto simp: pad_int_def pad_left_def list_all_iff)
  then show "all_digits (pad_int k i)" using len assms(3) by (auto simp: all_digits_def)
  show "c \<in> set (pad_int k i) \<Longrightarrow> is_digit c" using digits by (simp add: list_all_iff)
  have "read_nat (replicate j (CHR ''0'') @ w) = read_nat w" for j w
    by (induction j) (simp_all add: read_nat_def z)
  then show "read_nat (pad_int k i) = nat i" by (simp add: pad_int_def pad_left_def)
qed

lemma digit_no_separator: "is_digit c \<Longrightarrow> c \<notin> set ''-:.tT ''"
  by (auto simp: is_digit_def)

lemma fields_padded:
  assumes "0 \<le> i"
  shows "i \<le> 9999 \<Longrightarrow> year_field (pad_int 4 i) = Some i"
    "i \<le> 99 \<Longrightarrow> int lo \<le> i \<Longrightarrow> i \<le> int hi \<Longrightarrow> small_field lo hi (pad_int 2 i) = Some i"
    "1 \<le> i \<Longrightarrow> i \<le> 31 \<Longrightarrow> day_field (pad_int 2 i) = Some i"
proof -
  show "i \<le> 9999 \<Longrightarrow> year_field (pad_int 4 i) = Some i" using pad_int_facts [of i 4] assms by (simp add: year_field_def)
  show small: "i \<le> 99 \<Longrightarrow> int lo \<le> i \<Longrightarrow> i \<le> int hi \<Longrightarrow> small_field lo hi (pad_int 2 i) = Some i" for lo hi
    using pad_int_facts [of i 2] assms by (simp add: small_field_def le_nat_iff nat_le_iff)
  assume d: "1 \<le> i" "i \<le> 31"
  with pad_int_facts [of i 2] assms obtain a b where ab: "pad_int 2 i = [a, b]" "is_digit a"
    by (cases "pad_int 2 i"; cases "tl (pad_int 2 i)") auto
  then have "a \<noteq> CHR '' ''" by (auto simp: is_digit_def)
  with small [of 1 31] d ab(1) show "day_field (pad_int 2 i) = Some i" by (simp add: day_field_def)
qed

lemma clean_padded:
  assumes "0 \<le> i" "i < 10 ^ k" "0 < k" "c \<in> set ''-:.tT ''"
  shows "c \<notin> set (pad_int k i)"
  using pad_int_facts(4) [OF assms(1-3), of c] digit_no_separator assms(4) by blast

lemma strptime_iso:
  assumes "1 \<le> y" "y \<le> 9999" "1 \<le> m" "m \<le> 12" "1 \<le> d" "d \<le> days_in_month y m"
    and "0 \<le> h" "h \<le> 23" "0 \<le> n" "n \<le> 59" "0 \<le> s" "s \<le> 59"
  shows "strptime (pad_int 4 y @ ''-'' @ pad_int 2 m @ ''-'' @ pad_int 2 d @ ''T'' @ pad_int 2 h @ '':'' @ pad_int 2 n @ '':'' @ pad_int 2 s)
    = Some ((day_number y m d * 86400 + h * 3600 + n * 60 + s) * 1000000)"
proof -
  have d31: "d \<le> 31" using assms(6) by (auto simp: days_in_month_def split: if_splits)
  note clean = clean_padded [of y 4] clean_padded [of m 2] clean_padded [of d 2] clean_padded [of h 2] clean_padded [of n 2] clean_padded [of s 2]
  let ?D = "pad_int 4 y @ ''-'' @ pad_int 2 m @ ''-'' @ pad_int 2 d"
  let ?T = "pad_int 2 h @ '':'' @ pad_int 2 n @ '':'' @ pad_int 2 s"
  have D: "date_part ?D = Some (y, m, d)"
    using assms d31 clean by (simp add: date_part_def split_append_clean split_clean fields_padded)
  have T: "time_part ?T = Some (h, n, s)"
    using assms clean by (simp add: time_part_def split_append_clean split_clean fields_padded)
  have "CHR ''t'' \<notin> set (?D @ ''T'' @ ?T)" using assms d31 clean by simp
  then have "map (\<lambda>c. if c = CHR ''t'' then CHR ''T'' else c) (?D @ ''T'' @ ?T) = ?D @ ''T'' @ ?T"
    by (intro map_idI) auto
  moreover have "split_on (CHR ''T'') (?D @ ''T'' @ ?T) = [?D, ?T]"
    using assms d31 clean split_append_clean [of "CHR ''T''" ?D ?T] by (simp add: split_clean)
  ultimately have "strptime (?D @ ''T'' @ ?T) = make_datetime y m d h n s" using D T by (simp add: strptime_def)
  then show ?thesis using assms by (simp add: make_datetime_def)
qed

section \<open>Properties\<close>

text \<open>A time survives being written and read again: for every time the library can represent, the
  text of \<open>datetime_to_str\<close>, to the microsecond, is read by \<open>str_to_datetime\<close> as the same time.\<close>

theorem timestamp_round_trip:
  assumes "in_datetime_range us"
  shows "str_to_datetime (datetime_to_str (Some us) False) = Inr us \<and> int_to_datetime (PInt us) = Inr (Some us)
    \<and> datetime_str_to_int (datetime_to_str (Some us) False) = Inr (Some us)"
proof -
  define sec f r where "sec = us div 1000000" and "f = us mod 1000000" and "r = sec mod 86400"
  obtain y m d where c: "civil (sec div 86400) = (y, m, d)" by (metis prod_cases3)
  note v = civil_valid [OF c]
  have n: "- 719162 \<le> sec div 86400" "sec div 86400 \<le> 2932896" using assms by (auto simp: in_datetime_range_def sec_def)
  let ?D = "pad_int 4 y @ ''-'' @ pad_int 2 m @ ''-'' @ pad_int 2 d @ ''T''
    @ pad_int 2 (r div 3600) @ '':'' @ pad_int 2 (r div 60 mod 60) @ '':'' @ pad_int 2 (r mod 60)"
  have r: "0 \<le> r" "r < 86400" by (simp_all add: r_def)
  have p: "strptime ?D = Some ((day_number y m d * 86400 + r div 3600 * 3600 + r div 60 mod 60 * 60 + r mod 60) * 1000000)"
    by (rule strptime_iso) (use v n r in auto)
  have "r div 3600 * 3600 + r div 60 mod 60 * 60 + r mod 60 = r"
  proof -
    have "r div 3600 = r div 60 div 60" using zdiv_zmult2_eq [of 60 r 60] by simp
    then show ?thesis using div_mult_mod_eq [of "r div 60" 60] div_mult_mod_eq [of r 60] by linarith
  qed
  then have "day_number y m d * 86400 + r div 3600 * 3600 + r div 60 mod 60 * 60 + r mod 60 = sec"
    unfolding v(5) using div_mult_mod_eq [of sec 86400] r_def by linarith
  then have p': "strptime ?D = Some (sec * 1000000)" using p by (simp only:)
  have f: "0 \<le> f" "f < 10 ^ 6" by (simp_all add: f_def)
  have d31: "d \<le> 31" using v(4) by (auto simp: days_in_month_def split: if_splits)
  have clean: "CHR ''.'' \<notin> set ?D" "CHR ''.'' \<notin> set (pad_int 6 f @ ''Z'')"
    using v n r d31 f clean_padded [of y 4] clean_padded [of m 2] clean_padded [of d 2] clean_padded [of "r div 3600" 2]
      clean_padded [of "r div 60 mod 60" 2] clean_padded [of "r mod 60" 2] clean_padded [of f 6] by simp_all
  have t: "datetime_to_str (Some us) False = ?D @ CHR ''.'' # pad_int 6 f @ ''Z''"
    by (simp add: datetime_to_str_def iso_text_def c Let_def r_def flip: sec_def f_def)
  have "str_to_datetime (datetime_to_str (Some us) False) = Inr (sec * 1000000 + f)"
    unfolding t str_to_datetime_def split_append_clean [OF clean(1)] split_clean [OF clean(2)]
    using p' pad_int_facts [OF f] f by simp
  moreover have "sec * 1000000 + f = us" by (simp add: sec_def f_def)
  ultimately show ?thesis
    using assms by (simp add: int_to_datetime_def datetime_str_to_int_def datetime_to_int_def)
qed

lemma timestamp_round_trip_witness:
  "str_to_datetime (datetime_to_str (Some 1700000000000001) False) = Inr 1700000000000001"
  using timestamp_round_trip [of 1700000000000001] by (simp add: in_datetime_range_def)

end
