(* ===== verification/Cot.thy ===== *)
theory Cot
  imports Sapient Framing PyTime
begin

text \<open>
  From SAPIENT to Cursor-on-Target: the converter (\<open>libs/sapient-msg-to-cot\<close>) and the cot-bridge
  service around it (\<open>services/cot-bridge/app/main.py\<close>), which reads frames from a TCP client,
  converts each message and sends the events to the TAK server by UDP.

  An event is an XML tree with its serialisation as \<open>xml.etree\<close> writes it: ASCII, other
  characters as numeric references. The clock is given in microseconds since 1970; parsing a
  payload (protobuf) and the outcome of a UDP send are arguments.
\<close>

section \<open>XML\<close>

datatype xml = Elem string "(string \<times> string) list" string "xml list"

definition ascii_ref :: "char \<Rightarrow> string" where
  "ascii_ref c = (let n = (of_char c :: nat) in if n < 128 then [c] else ''&#'' @ show_nat n @ '';'')"

definition esc_attr_char :: "char \<Rightarrow> string" where
  "esc_attr_char c =
     (if c = CHR ''&'' then ''&amp;'' else if c = CHR ''<'' then ''&lt;'' else if c = CHR ''>'' then ''&gt;''
      else if c = CHR 0x22 then ''&quot;'' else if c = CHR 0x0D then ''&#13;''
      else if c = CHR 0x0A then ''&#10;'' else if c = CHR 0x09 then ''&#09;'' else ascii_ref c)"

definition esc_text_char :: "char \<Rightarrow> string" where
  "esc_text_char c =
     (if c = CHR ''&'' then ''&amp;'' else if c = CHR ''<'' then ''&lt;'' else if c = CHR ''>'' then ''&gt;''
      else ascii_ref c)"

definition esc_attr :: "string \<Rightarrow> string" where
  "esc_attr s = concat (map esc_attr_char s)"

definition esc_text :: "string \<Rightarrow> string" where
  "esc_text s = concat (map esc_text_char s)"

definition show_attrs :: "(string \<times> string) list \<Rightarrow> string" where
  "show_attrs as = concat (map (\<lambda>(k, v). '' '' @ k @ ''='' @ [CHR 0x22] @ esc_attr v @ [CHR 0x22]) as)"

fun tostring :: "xml \<Rightarrow> string" where
  "tostring (Elem tag as txt kids) =
     ''<'' @ tag @ show_attrs as
     @ (if txt = [] \<and> kids = [] then '' />''
        else ''>'' @ esc_text txt @ concat (map tostring kids) @ ''</'' @ tag @ ''>'')"

section \<open>Times\<close>

definition utc :: "int \<Rightarrow> string" where
  "utc us =
     (let s = us div 1000000; (y, m, d) = civil (s div 86400); r = s mod 86400
      in pad_int 4 y @ ''-'' @ pad_int 2 m @ ''-'' @ pad_int 2 d @ ''T''
         @ pad_int 2 (r div 3600) @ '':'' @ pad_int 2 (r div 60 mod 60) @ '':'' @ pad_int 2 (r mod 60)
         @ ''.'' @ pad_int 3 (us mod 1000000 div 1000) @ ''Z'')"

section \<open>The converter\<close>

definition node_type_to_cot :: "(int \<times> string) list" where
  "node_type_to_cot =
     [(2, ''a-f-G-E-S-R''), (3, ''a-f-G-E-S''), (4, ''a-f-G-E-S-E''), (5, ''a-f-G-E-S''), (6, ''a-f-G-E-S''),
      (7, ''a-f-G-E-S''), (8, ''a-f-G-E-S-W''), (9, ''a-f-G-U-C-I''), (10, ''a-f-G-E-S''), (11, ''a-f-G-E-S''),
      (12, ''a-f-G-E-S''), (13, ''a-f-G-E-V-A''), (14, ''a-f-G-E-X-J''), (15, ''a-f-G-U''), (16, ''a-f-G-E-W-L''),
      (17, ''a-f-G-E-W-D''), (18, ''a-f-G-U''), (19, ''a-f-G-E-S''), (20, ''a-f-G-U-H''), (1, ''a-f-G-U''), (0, ''a-f-G-U'')]"

definition DETECTION_DEFAULT_TYPE :: string where "DETECTION_DEFAULT_TYPE = ''a-u-G''"
definition ALERT_DEFAULT_TYPE :: string where "ALERT_DEFAULT_TYPE = ''a-h-G''"
definition NODE_DEFAULT_TYPE :: string where "NODE_DEFAULT_TYPE = ''a-f-G-U''"

definition fmt_flt :: "nat \<Rightarrow> flt \<Rightarrow> string" where
  "fmt_flt n x = (case x of Fin r \<Rightarrow> fmt_fixed n r | Inf neg \<Rightarrow> (if neg then ''-inf'' else ''inf'') | NaN \<Rightarrow> ''nan'')"

definition build_cot ::
  "int \<Rightarrow> string \<Rightarrow> string \<Rightarrow> flt \<times> flt \<times> flt \<Rightarrow> string \<Rightarrow> string \<Rightarrow> int \<Rightarrow> xml" where
  "build_cot now uid cot_type pos callsign remarks stale_seconds =
     (let (lat, lon, hae) = pos in
      Elem ''event''
       [(''version'', ''2.0''), (''uid'', uid), (''type'', cot_type), (''time'', utc now), (''start'', utc now),
        (''stale'', utc (now + stale_seconds * 1000000)), (''how'', ''m-g'')] []
       [Elem ''point'' [(''lat'', fmt_flt 7 lat), (''lon'', fmt_flt 7 lon), (''hae'', fmt_flt 3 hae),
                        (''ce'', ''9999999.0''), (''le'', ''9999999.0'')] [] [],
        Elem ''detail'' [] []
         ([Elem ''contact'' [(''callsign'', callsign)] [] [],
           Elem ''__group'' [(''name'', ''Cyan''), (''role'', ''Team Member'')] [] [],
           Elem ''precisionlocation'' [(''altsrc'', ''GPS''), (''geopointsrc'', ''GPS'')] [] []]
          @ (if remarks = [] then [] else [Elem ''remarks'' [] remarks []]))])"

definition cot_bytes :: "xml \<Rightarrow> string" where
  "cot_bytes x = ''<?xml version='' @ [CHR 0x22] @ ''1.0'' @ [CHR 0x22] @ '' encoding='' @ [CHR 0x22] @ ''UTF-8'' @ [CHR 0x22]
     @ '' standalone='' @ [CHR 0x22] @ ''yes'' @ [CHR 0x22] @ ''?>'' @ tostring x"

definition location_from :: "location \<Rightarrow> (flt \<times> flt \<times> flt) option" where
  "location_from loc = (case (loc_x loc, loc_y loc) of
      (Some x, Some y) \<Rightarrow> Some (x, y, case loc_z loc of None \<Rightarrow> Fin 0 | Some z \<Rightarrow> z)
    | _ \<Rightarrow> None)"

fun place_position :: "place \<Rightarrow> (flt \<times> flt \<times> flt) option" where
  "place_position (AtLocation loc) = location_from loc"
| "place_position _ = None"

definition mid_dot :: string where "mid_dot = [CHR '' '', CHR 0xB7, CHR '' '']"

definition registration_meta :: "sapient_message \<Rightarrow> registration \<Rightarrow> (string \<times> string \<times> string) res" where
  "registration_meta m r =
     (let node_type = (case node_definition r of n # _ \<Rightarrow> n | [] \<Rightarrow> 0);
          cot_type = (case map_of node_type_to_cot node_type of Some t \<Rightarrow> t | None \<Rightarrow> NODE_DEFAULT_TYPE);
          c1 = (if str_field (short_name r) \<noteq> [] then str_field (short_name r) else str_field (reg_name r));
          c2 = (if c1 = [] then (case config_models r of x # _ \<Rightarrow> x | [] \<Rightarrow> []) else c1);
          callsign = (if c2 = [] then ''node-'' @ take 8 (str_field (node_id m)) else c2)
      in bindE (enum_name node_type_names node_type) (\<lambda>name.
           Inr (cot_type, callsign, ''SAPIENT Registration'' @ mid_dot @ ''node_type='' @ name)))"

definition status_meta :: "sapient_message \<Rightarrow> status_report \<Rightarrow> (string \<times> string \<times> string) res" where
  "status_meta m s =
     bindE (enum_name system_names (sr_system s)) (\<lambda>name.
       Inr (NODE_DEFAULT_TYPE, ''node-'' @ take 8 (str_field (node_id m)),
            ''SAPIENT StatusReport'' @ mid_dot @ ''system='' @ name @ '' mode='' @ str_field (sr_mode s)))"

definition detection_id :: "detection_report \<Rightarrow> string" where
  "detection_id d = (if str_field (object_id d) \<noteq> [] then str_field (object_id d) else str_field (dr_report_id d))"

definition detection_meta :: "sapient_message \<Rightarrow> detection_report \<Rightarrow> string \<times> string \<times> string" where
  "detection_meta m d =
     (DETECTION_DEFAULT_TYPE, ''det-'' @ take 8 (detection_id d),
      ''SAPIENT DetectionReport'' @ mid_dot @ ''node='' @ take 8 (str_field (node_id m)) @ '' report='' @ str_field (dr_report_id d))"

definition alert_meta :: "alert \<Rightarrow> string \<times> string \<times> string" where
  "alert_meta a =
     (ALERT_DEFAULT_TYPE, ''alert-'' @ take 8 (str_field (alert_id a)),
      ''SAPIENT Alert'' @ mid_dot @ (if str_field (al_description a) \<noteq> [] then str_field (al_description a) else ''alert''))"

text \<open>\<open>_CONTENT_HANDLERS\<close>: position, uid, meta and lifetime for the kinds that have an entry.\<close>

definition content_handler ::
  "sapient_message \<Rightarrow> ((flt \<times> flt \<times> flt) option \<times> string \<times> (string \<times> string \<times> string) res \<times> int) option" where
  "content_handler m = (case msg_content m of
     Some (Registration r) \<Rightarrow> Some (None, str_field (node_id m), registration_meta m r, 300)
   | Some (StatusReport s) \<Rightarrow> Some (Option.bind (node_location s) location_from, str_field (node_id m), status_meta m s, 300)
   | Some (DetectionReport d) \<Rightarrow> Some (place_position (dr_place d), ''det-'' @ detection_id d, Inr (detection_meta m d), 600)
   | Some (Alert a) \<Rightarrow> Some (place_position (al_place a), ''alert-'' @ str_field (alert_id a), Inr (alert_meta a), 900)
   | _ \<Rightarrow> None)"

type_synonym fallback = "flt option \<times> flt option \<times> flt option"

definition fallback_position :: "fallback \<Rightarrow> (flt \<times> flt \<times> flt) option" where
  "fallback_position fb = (case fb of
     (Some lat, Some lon, alt) \<Rightarrow> Some (lat, lon, case alt of None \<Rightarrow> Fin 0 | Some a \<Rightarrow> a)
   | _ \<Rightarrow> None)"

definition convert_tree :: "int \<Rightarrow> fallback \<Rightarrow> sapient_message \<Rightarrow> xml option res" where
  "convert_tree now fb m = (case content_handler m of
     None \<Rightarrow> Inr None
   | Some (own, uid, meta, stale_seconds) \<Rightarrow>
       (case (case own of Some p \<Rightarrow> Some p | None \<Rightarrow> fallback_position fb) of
          None \<Rightarrow> Inr None
        | Some pos \<Rightarrow>
            bindE meta (\<lambda>(cot_type, callsign, remarks).
              Inr (Some (build_cot now uid cot_type pos callsign remarks stale_seconds)))))"

definition convert :: "int \<Rightarrow> fallback \<Rightarrow> sapient_message \<Rightarrow> string option res" where
  "convert now fb m = bindE (convert_tree now fb m) (\<lambda>t. Inr (map_option cot_bytes t))"

section \<open>The bridge\<close>

record bridge_stats =
  frames_in :: nat
  cot_out :: nat
  skipped_no_position :: nat
  skipped_no_mapping :: nat
  send_errors :: nat

definition no_stats :: bridge_stats where
  "no_stats = \<lparr>frames_in = 0, cot_out = 0, skipped_no_position = 0, skipped_no_mapping = 0, send_errors = 0\<rparr>"

text \<open>\<open>_env_float\<close>, on the value of the variable (empty when it is not set).\<close>

definition bridge_env_float :: "string \<Rightarrow> flt option" where
  "bridge_env_float raw = (let v = strip raw in if v = [] then None else parse_float v)"

definition bridge_fallback :: "string \<Rightarrow> string \<Rightarrow> string \<Rightarrow> fallback" where
  "bridge_fallback lat lon alt = (bridge_env_float lat, bridge_env_float lon,
     Some (case bridge_env_float alt of None \<Rightarrow> Fin 0 | Some a \<Rightarrow> a))"

definition convert_and_send ::
  "int \<Rightarrow> fallback \<Rightarrow> bool \<Rightarrow> sapient_message \<Rightarrow> bridge_stats \<Rightarrow> (string list \<times> bridge_stats) res" where
  "convert_and_send now fb send_ok m st =
     bindE (convert now fb m) (\<lambda>xml. case xml of
       None \<Rightarrow>
         Inr ([], if which_content m \<in> {Some ''registration'', Some ''status_report'', Some ''detection_report'', Some ''alert''}
                  then st\<lparr>skipped_no_position := skipped_no_position st + 1\<rparr>
                  else st\<lparr>skipped_no_mapping := skipped_no_mapping st + 1\<rparr>)
     | Some x \<Rightarrow>
         Inr (if send_ok then ([x], st\<lparr>cot_out := cot_out st + 1\<rparr>)
              else ([], st\<lparr>send_errors := send_errors st + 1\<rparr>)))"

text \<open>The body of \<open>handle_client\<close>: the payloads in order, each with the clock, the result of the
  UDP send it may make and what protobuf parses (\<open>None\<close> when it raises). The third component is
  the exception that ended the connection before the stream did.\<close>

fun handle_payloads ::
  "fallback \<Rightarrow> (bytes \<Rightarrow> sapient_message option) \<Rightarrow> (nat \<Rightarrow> int \<times> bool) \<Rightarrow> nat \<Rightarrow> bytes list \<Rightarrow> bridge_stats
     \<Rightarrow> string list \<times> bridge_stats \<times> exn option" where
  "handle_payloads fb parse env i [] st = ([], st, None)"
| "handle_payloads fb parse env i (p # ps) st =
     (let st1 = st\<lparr>frames_in := frames_in st + 1\<rparr> in
      case parse p of
        None \<Rightarrow> handle_payloads fb parse env (i + 1) ps st1
      | Some m \<Rightarrow>
          (case convert_and_send (fst (env i)) fb (snd (env i)) m st1 of
             Inl e \<Rightarrow> ([], st1, Some e)
           | Inr (out, st2) \<Rightarrow>
               (let (rest, st3, e) = handle_payloads fb parse env (i + 1) ps st2 in (out @ rest, st3, e))))"

text \<open>A raised \<open>IncompleteReadError\<close> is the client disconnecting; any other exception is logged.\<close>

definition handle_client ::
  "fallback \<Rightarrow> (bytes \<Rightarrow> sapient_message option) \<Rightarrow> (nat \<Rightarrow> int \<times> bool) \<Rightarrow> bytes \<Rightarrow> bridge_stats
     \<Rightarrow> string list \<times> bridge_stats \<times> exn option" where
  "handle_client fb parse env stream st = handle_payloads fb parse env 0 (fst (read_frames stream)) st"

section \<open>Escaping\<close>

definition markup_free :: "char \<Rightarrow> bool" where
  "markup_free c \<longleftrightarrow> c \<noteq> CHR ''<'' \<and> c \<noteq> CHR ''>'' \<and> c \<noteq> CHR 0x22 \<and> (of_char c :: nat) < 128"

lemma show_nat_markup_free: "list_all markup_free (show_nat n)"
proof -
  have d: "markup_free c" if "is_digit c" for c
    using that by (auto simp: markup_free_def is_digit_def)
  show ?thesis using show_nat_digits [of n] d by (simp add: list_all_iff)
qed

lemma ascii_ref_markup_free:
  "c \<notin> {CHR ''<'', CHR ''>'', CHR 0x22} \<Longrightarrow> list_all markup_free (ascii_ref c)"
  using show_nat_markup_free by (simp add: ascii_ref_def Let_def markup_free_def)

lemma esc_attr_char_free: "list_all markup_free (esc_attr_char c)"
  using ascii_ref_markup_free [of c] by (auto simp: esc_attr_char_def markup_free_def)

lemma list_all_concat: "list_all P (concat xss) \<longleftrightarrow> list_all (list_all P) xss"
  by (induction xss) auto

section \<open>What the bridge counts\<close>

definition outcomes :: "bridge_stats \<Rightarrow> nat" where
  "outcomes st = cot_out st + skipped_no_position st + skipped_no_mapping st + send_errors st"

lemma convert_and_send_counts:
  assumes "convert_and_send now fb ok m st = Inr (out, st')"
  shows "outcomes st' = outcomes st + 1 \<and> cot_out st' = cot_out st + length out \<and> frames_in st' = frames_in st"
  using assms by (auto simp: convert_and_send_def res_simps outcomes_def split: option.splits if_splits)

lemma handle_payloads_counts:
  assumes "handle_payloads fb parse env i ps st = (out, st', e)"
  shows "cot_out st' = cot_out st + length out
    \<and> (\<exists>done. frames_in st' = frames_in st + length done \<and> (\<exists>rest. ps = done @ rest \<and> (e = None \<longrightarrow> rest = []))
       \<and> length done + outcomes st = outcomes st' + length (filter (\<lambda>p. parse p = None) done) + (if e = None then 0 else 1))"
  using assms
proof (induction ps arbitrary: i st out st' e)
  case Nil
  then show ?case by auto
next
  case (Cons p ps)
  define st1 where "st1 = st\<lparr>frames_in := frames_in st + 1\<rparr>"
  have st1: "frames_in st1 = Suc (frames_in st)" "outcomes st1 = outcomes st" "cot_out st1 = cot_out st"
    by (simp_all add: st1_def outcomes_def)
  show ?case
  proof (cases "parse p")
    case None
    with Cons.prems have "handle_payloads fb parse env (i + 1) ps st1 = (out, st', e)"
      by (simp add: st1_def)
    from Cons.IH [OF this] obtain d r where d: "cot_out st' = cot_out st + length out"
      "frames_in st' = Suc (frames_in st) + length d" "ps = d @ r" "e = None \<longrightarrow> r = []"
      "length d + outcomes st = outcomes st' + length (filter (\<lambda>p. parse p = None) d) + (if e = None then 0 else 1)"
      by (auto simp: st1)
    then show ?thesis by (intro conjI exI [of _ "p # d"] exI [of _ r]) (auto simp: None)
  next
    case (Some m)
    show ?thesis
    proof (cases "convert_and_send (fst (env i)) fb (snd (env i)) m st1")
      case (Inl x)
      with Some Cons.prems have "out = []" "st' = st1" "e = Some x" by (simp_all add: st1_def)
      then show ?thesis using Some st1 by (intro conjI exI [of _ "[p]"] exI [of _ ps]) auto
    next
      case (Inr os)
      then obtain o1 st2 where c: "convert_and_send (fst (env i)) fb (snd (env i)) m st1 = Inr (o1, st2)"
        by (cases os) auto
      obtain o2 st3 e2 where h: "handle_payloads fb parse env (i + 1) ps st2 = (o2, st3, e2)"
        by (metis prod_cases3)
      have eqs: "out = o1 @ o2" "st' = st3" "e = e2" using Some c h Cons.prems by (simp_all add: st1_def)
      note k = convert_and_send_counts [OF c]
      from Cons.IH [OF h] obtain d r where d: "cot_out st3 = cot_out st2 + length o2"
        "frames_in st3 = frames_in st2 + length d" "ps = d @ r" "e2 = None \<longrightarrow> r = []"
        "length d + outcomes st2 = outcomes st3 + length (filter (\<lambda>p. parse p = None) d) + (if e2 = None then 0 else 1)"
        by auto
      then show ?thesis using Some k st1 unfolding eqs
        by (intro conjI exI [of _ "p # d"] exI [of _ r]) auto
    qed
  qed
qed

section \<open>Properties\<close>

text \<open>No text of a message can add markup to an event: what an attribute value becomes is
  ASCII without angle brackets and double quotes, so the value ends where the writer ends it.\<close>

theorem attributes_escaped: "list_all markup_free (esc_attr s)"
  using esc_attr_char_free by (simp add: esc_attr_def list_all_concat list_all_iff)

text \<open>No positionless events: an event is produced only for the four mapped kinds, and its
  point is the message's own location or, when it has none, the configured fallback.\<close>

theorem event_has_position:
  assumes "convert_tree now fb m = Inr (Some x)"
  shows "which_content m \<in> Some ` {''registration'', ''status_report'', ''detection_report'', ''alert''} \<and>
    (\<exists>lat lon hae as kids p. x = Elem ''event'' as [] (Elem ''point'' p [] [] # kids)
      \<and> take 3 p = [(''lat'', fmt_flt 7 lat), (''lon'', fmt_flt 7 lon), (''hae'', fmt_flt 3 hae)]
      \<and> (case content_handler m of
           Some (Some own, _) \<Rightarrow> own = (lat, lon, hae)
         | _ \<Rightarrow> fallback_position fb = Some (lat, lon, hae)))"
proof -
  obtain own uid meta stale where h: "content_handler m = Some (own, uid, meta, stale)"
    using assms by (auto simp: convert_tree_def split: option.splits)
  then have k: "which_content m \<in> Some ` {''registration'', ''status_report'', ''detection_report'', ''alert''}"
    by (auto simp: content_handler_def which_content_def split: option.splits content.splits)
  from assms h obtain lat lon hae ct cs rem where
    pos: "(case own of Some p \<Rightarrow> Some p | None \<Rightarrow> fallback_position fb) = Some (lat, lon, hae)"
    and x: "x = build_cot now uid ct (lat, lon, hae) cs rem stale"
    by (auto simp: convert_tree_def res_simps split: option.splits)
  from pos h have "case content_handler m of
           Some (Some own, _) \<Rightarrow> own = (lat, lon, hae)
         | _ \<Rightarrow> fallback_position fb = Some (lat, lon, hae)"
    by (auto split: option.splits)
  with k show ?thesis unfolding x build_cot_def Let_def by auto
qed

definition sample_alert :: sapient_message where
  "sample_alert = \<lparr>msg_timestamp = None, node_id = Some ''n'', destination_id = None,
     msg_content = Some (Alert \<lparr>alert_id = Some ''a'', al_description = None, al_place = NoPlace,
       region_id = None, ranking = None, confidence = None\<rparr>)\<rparr>"

lemma event_has_position_witness:
  "\<exists>x. convert_tree 0 (Some (Fin 1), Some (Fin 2), None) sample_alert = Inr (Some x)
     \<and> which_content sample_alert = Some ''alert''"
proof -
  obtain x where x: "convert_tree 0 (Some (Fin 1), Some (Fin 2), None) sample_alert = Inr (Some x)"
    by (simp add: convert_tree_def content_handler_def sample_alert_def fallback_position_def alert_meta_def)
  from event_has_position [OF x] show ?thesis using x by (simp add: sample_alert_def which_content_def)
qed

text \<open>C31. Every frame of a client is accounted for: the frames counted are a prefix of those in
  the stream, all of them unless an exception ended the connection, and each is one of sent,
  skipped without position, skipped without mapping, failed to send, failed to parse, or the one
  that raised. As many datagrams leave as \<open>cot_out\<close> says.\<close>

theorem bridge_accounts_for_frames:
  "case handle_client fb parse env stream st of (out, st', e) \<Rightarrow>
     cot_out st' = cot_out st + length out \<and>
     (\<exists>seen. frames_in st' = frames_in st + length seen
        \<and> (\<exists>rest. fst (read_frames stream) = seen @ rest \<and> (if e = None then rest = [] else True))
        \<and> length seen + outcomes st
            = outcomes st' + length (filter (\<lambda>p. parse p = None) seen) + (if e = None then 0 else 1))"
proof -
  obtain out st' e where h: "handle_payloads fb parse env 0 (fst (read_frames stream)) st = (out, st', e)"
    by (metis prod_cases3)
  from handle_payloads_counts [OF h] show ?thesis
    unfolding handle_client_def h prod.case by (auto split: if_splits)
qed

text \<open>A registration whose node type has no name in the schema (an open enum keeps unknown
  numbers) makes \<open>NodeType.Name\<close> raise, although the mapping to CoT types has a default: the
  connection ends and the frames behind it are not read.\<close>

theorem unknown_node_type_ends_connection:
  assumes "parse p = Some m" "msg_content m = Some (Registration r)" "node_definition r = n # ns"
    and "n \<notin> fst ` set node_type_names" "fallback_position fb \<noteq> None"
  shows "\<exists>e. handle_payloads fb parse env i (p # ps) st
     = ([], st\<lparr>frames_in := frames_in st + 1\<rparr>, Some (PyExc ''ValueError'' e))"
proof -
  have "map_of node_type_names n = None" using assms(4) by (simp add: map_of_eq_None_iff)
  then have "\<exists>e. registration_meta m r = Inl (PyExc ''ValueError'' e)"
    by (simp add: registration_meta_def Let_def assms(3) enum_name_def value_error_def)
  with assms(5) have "\<exists>e. convert_and_send (fst (env i)) fb (snd (env i)) m (st\<lparr>frames_in := frames_in st + 1\<rparr>)
      = Inl (PyExc ''ValueError'' e)"
    by (auto simp: convert_and_send_def convert_def convert_tree_def content_handler_def assms(2))
  then obtain e where "convert_and_send (fst (env i)) fb (snd (env i)) m (st\<lparr>frames_in := frames_in st + 1\<rparr>)
      = Inl (PyExc ''ValueError'' e)" by blast
  then show ?thesis using assms(1) by simp
qed

definition unnamed_registration :: registration where
  "unnamed_registration = \<lparr>node_definition = [99], icd_version = None, reg_name = Some ''r'',
       short_name = None, n_capabilities = 0, has_status_definition = False, reg_modes = [], config_models = []\<rparr>"

definition sample_registration :: sapient_message where
  "sample_registration = \<lparr>msg_timestamp = None, node_id = Some ''n'', destination_id = None,
     msg_content = Some (Registration unnamed_registration)\<rparr>"

lemma unknown_node_type_ends_connection_witness:
  "\<exists>e. handle_payloads (Some (Fin 1), Some (Fin 2), None) (\<lambda>_. Some sample_registration) (\<lambda>_. (0, True)) 0 [[1], [2]] no_stats
     = ([], no_stats\<lparr>frames_in := frames_in no_stats + 1\<rparr>, Some (PyExc ''ValueError'' e))"
  by (rule unknown_node_type_ends_connection [where m = sample_registration and r = unnamed_registration and n = 99 and ns = "[]"])
     (simp_all add: sample_registration_def unnamed_registration_def node_type_names_def fallback_position_def)

end
