(* ===== verification/EdgeRouter.thy ===== *)
theory EdgeRouter
  imports Nmea Ntp UiNodes Cot "HOL-Library.List_Lexorder"
begin

text \<open>
  The controller of the edge router (\<open>services/ui/app/edge/routes.py\<close>): the cached bearer token
  and the retry after a 401, the reads of the NTP and GPS configuration, the direct SNTP query,
  the reception check, and the two operations that change the router's configuration.

  The router is an argument: a function from its state and a request to a reply, the time the
  exchange takes and its new state. \<open>requests_made\<close> lists the requests in order.
\<close>

section \<open>Requests\<close>

record request =
  rq_host :: string
  rq_method :: string
  rq_path :: string
  rq_token :: "pyval option"
  rq_body :: pyval

text \<open>A reply with a JSON body, one that is not JSON, an HTTP error status, no connection
  (\<open>URLError\<close>, \<open>TimeoutError\<close>, \<open>OSError\<close>), or any other exception while reading.\<close>

datatype reply = Reply pyval | NotJson | HttpError int | Unreachable exn | ReadFails exn

type_synonym 'r api = "'r \<Rightarrow> request \<Rightarrow> reply \<times> rat \<times> 'r"

text \<open>The controller's two fields, the router, the clock, and what was asked of the router and of
  the other services (\<open>_refresh_downstream\<close>).\<close>

record 'r edge =
  token :: pyval
  token_expires_at :: flt
  router :: 'r
  now :: rat
  requests_made :: "request list"
  kicks :: "(rat \<times> string) list"

record edge_env =
  router_user :: string
  router_password :: string
  ntp_refresh_url :: string
  nodes_refresh_url :: string

definition ask :: "'r api \<Rightarrow> request \<Rightarrow> 'r edge \<Rightarrow> reply \<times> 'r edge" where
  "ask api rq s = (case api (router s) rq of
     (rep, dt, r) \<Rightarrow> (rep, s\<lparr>router := r, now := now s + dt, requests_made := requests_made s @ [rq]\<rparr>))"

section \<open>The token\<close>

text \<open>\<open>time.time() + max(exp - 5.0, 10.0)\<close> and \<open>time.time() >= _token_expires_at\<close>.\<close>

definition expiry :: "rat \<Rightarrow> flt \<Rightarrow> flt" where
  "expiry t e = (case e of Fin x \<Rightarrow> Fin (t + max (x - 5) 10)
     | Inf neg \<Rightarrow> if neg then Fin (t + 10) else Inf False | NaN \<Rightarrow> NaN)"

definition expired :: "rat \<Rightarrow> flt \<Rightarrow> bool" where
  "expired t e = (case e of Fin x \<Rightarrow> x \<le> t | Inf neg \<Rightarrow> neg | NaN \<Rightarrow> False)"

text \<open>\<open>v[k]\<close> for a value that need not be a dictionary.\<close>

definition item :: "pyval \<Rightarrow> string \<Rightarrow> pyval res" where
  "item v k = (case v of PDict d \<Rightarrow> dict_at d k | _ \<Rightarrow> Inl (type_error ''object is not subscriptable by str''))"

definition login_request :: "edge_env \<Rightarrow> string \<Rightarrow> request" where
  "login_request env host =
     \<lparr>rq_host = host, rq_method = ''POST'', rq_path = ''/api/login'', rq_token = None,
      rq_body = PDict [(''username'', PStr (router_user env)), (''password'', PStr (router_password env))]\<rparr>"

text \<open>What \<open>_login\<close> takes from the reply: the token and its lifetime.\<close>

definition login_data :: "(flt \<Rightarrow> string) \<Rightarrow> reply \<Rightarrow> (pyval \<times> flt) res" where
  "login_data fl rep = (case rep of
       HttpError n \<Rightarrow> Inl (PyExc ''HTTPError'' (''HTTP Error '' @ show_int n))
     | Unreachable e \<Rightarrow> Inl e
     | ReadFails e \<Rightarrow> Inl e
     | NotJson \<Rightarrow> Inl (PyExc ''JSONDecodeError'' ''Expecting value'')
     | Reply v \<Rightarrow>
         (case v of
            PDict d \<Rightarrow>
              if \<not> truthy (dget d ''success'')
              then Inl (HttpExc 500 (''router login failed: '' @ py_str fl v))
              else bindE (dict_at d ''data'') (\<lambda>data.
                   bindE (item data ''token'') (\<lambda>tok.
                   bindE (attr_get data ''expires'' (PInt 60)) (\<lambda>ex.
                   bindE (py_float ex) (\<lambda>e. Inr (tok, e)))))
          | _ \<Rightarrow> Inl (PyExc ''AttributeError'' ''object has no attribute get'')))"

definition login :: "(flt \<Rightarrow> string) \<Rightarrow> edge_env \<Rightarrow> 'r api \<Rightarrow> string \<Rightarrow> 'r edge \<Rightarrow> pyval res \<times> 'r edge" where
  "login fl env api host s =
     (if router_password env = [] then (Inl (HttpExc 500 ''ROUTER_PASSWORD env not set''), s)
      else case ask api (login_request env host) s of
             (rep, s1) \<Rightarrow>
               (case login_data fl rep of
                  Inl e \<Rightarrow> (Inl e, s1)
                | Inr (tok, ex) \<Rightarrow> (Inr tok, s1\<lparr>token := tok, token_expires_at := expiry (now s1) ex\<rparr>)))"

definition token_for :: "(flt \<Rightarrow> string) \<Rightarrow> edge_env \<Rightarrow> 'r api \<Rightarrow> string \<Rightarrow> 'r edge \<Rightarrow> pyval res \<times> 'r edge" where
  "token_for fl env api host s =
     (if \<not> truthy (token s) \<or> expired (now s) (token_expires_at s) then login fl env api host s
      else (Inr (token s), s))"

section \<open>Authenticated calls\<close>

text \<open>The \<open>data\<close> of the envelope, or the document itself when it is no envelope.\<close>

definition unwrap :: "pyval \<Rightarrow> pyval" where
  "unwrap payload = (case payload of
     PDict d \<Rightarrow> if has_key d ''success'' then (if truthy (dget d ''success'') then dget d ''data'' else PNone)
                else payload
   | _ \<Rightarrow> payload)"

definition call_request :: "string \<Rightarrow> string \<Rightarrow> string \<Rightarrow> pyval \<Rightarrow> pyval \<Rightarrow> request" where
  "call_request host meth path body tok =
     \<lparr>rq_host = host, rq_method = meth, rq_path = path, rq_token = Some tok, rq_body = body\<rparr>"

text \<open>\<open>for attempt in range(2)\<close>.\<close>

fun attempts ::
  "(flt \<Rightarrow> string) \<Rightarrow> edge_env \<Rightarrow> 'r api \<Rightarrow> string \<Rightarrow> string \<Rightarrow> string \<Rightarrow> pyval \<Rightarrow> nat list \<Rightarrow> 'r edge \<Rightarrow> pyval res \<times> 'r edge" where
  "attempts fl env api host meth path body [] s = (Inr PNone, s)"
| "attempts fl env api host meth path body (attempt # rest) s =
     (case token_for fl env api host s of
        (Inl e, s1) \<Rightarrow> (Inl e, s1)
      | (Inr tok, s1) \<Rightarrow>
          (case ask api (call_request host meth path body tok) s1 of
             (rep, s2) \<Rightarrow>
               (case rep of
                  HttpError n \<Rightarrow>
                    if n = 401 \<and> attempt = 0
                    then attempts fl env api host meth path body rest (s2\<lparr>token := PNone\<rparr>)
                    else (Inr PNone, s2)
                | Unreachable e \<Rightarrow> (Inr PNone, s2)
                | ReadFails e \<Rightarrow> (Inl e, s2)
                | NotJson \<Rightarrow> (Inr PNone, s2)
                | Reply payload \<Rightarrow> (Inr (unwrap payload), s2))))"

definition api_call ::
  "(flt \<Rightarrow> string) \<Rightarrow> edge_env \<Rightarrow> 'r api \<Rightarrow> string \<Rightarrow> string \<Rightarrow> string \<Rightarrow> pyval \<Rightarrow> 'r edge \<Rightarrow> pyval res \<times> 'r edge" where
  "api_call fl env api host meth path body s = attempts fl env api host meth path body [0, 1] s"

definition api_get :: "(flt \<Rightarrow> string) \<Rightarrow> edge_env \<Rightarrow> 'r api \<Rightarrow> string \<Rightarrow> string \<Rightarrow> 'r edge \<Rightarrow> pyval res \<times> 'r edge" where
  "api_get fl env api host path s = api_call fl env api host ''GET'' path PNone s"

definition api_put :: "(flt \<Rightarrow> string) \<Rightarrow> edge_env \<Rightarrow> 'r api \<Rightarrow> string \<Rightarrow> string \<Rightarrow> pyval \<Rightarrow> 'r edge \<Rightarrow> pyval res \<times> 'r edge" where
  "api_put fl env api host path data s = api_call fl env api host ''PUT'' path (PDict [(''data'', data)]) s"

text \<open>Sequencing of operations on the state that may raise.\<close>

definition andthen :: "('r edge \<Rightarrow> 'a res \<times> 'r edge) \<Rightarrow> ('a \<Rightarrow> 'r edge \<Rightarrow> 'b res \<times> 'r edge) \<Rightarrow> 'r edge \<Rightarrow> 'b res \<times> 'r edge" where
  "andthen f g s = (case f s of (Inl e, s1) \<Rightarrow> (Inl e, s1) | (Inr v, s1) \<Rightarrow> g v s1)"

definition pure_res :: "'a res \<Rightarrow> 'r edge \<Rightarrow> 'a res \<times> 'r edge" where
  "pure_res r s = (r, s)"


section \<open>The direct SNTP query\<close>

record sntp =
  sn_ok :: bool
  sn_severity :: string
  sn_error :: "string option"
  sn_offset :: "rat option"
  sn_rtt :: "rat option"

definition sntp_severity :: "rat \<Rightarrow> string" where
  "sntp_severity off = (if 2 < \<bar>off\<bar> then ''fail'' else if 1 / 2 < \<bar>off\<bar> then ''warn'' else ''ok'')"

definition sntp_probe :: "string + (rat \<times> bytes \<times> rat) \<Rightarrow> sntp" where
  "sntp_probe rep = (case rep of
     Inl exc \<Rightarrow> \<lparr>sn_ok = False, sn_severity = ''fail'', sn_error = Some exc, sn_offset = None, sn_rtt = None\<rparr>
   | Inr (t_send, data, t_recv) \<Rightarrow>
       if length data < 48
       then \<lparr>sn_ok = False, sn_severity = ''fail'',
             sn_error = Some (''short reply ('' @ show_nat (length data) @ '' bytes)''), sn_offset = None, sn_rtt = None\<rparr>
       else let server_unix = ntp_time (take 8 (drop 40 data)); rtt = t_recv - t_send;
                off = server_unix - (t_send + rtt / 2)
            in \<lparr>sn_ok = True, sn_severity = sntp_severity off, sn_error = None, sn_offset = Some off, sn_rtt = Some rtt\<rparr>)"

section \<open>Reading the configuration\<close>

definition first_row :: "pyval \<Rightarrow> pydict" where
  "first_row rows = (case rows of PList (PDict d # _) \<Rightarrow> d | PDict d \<Rightarrow> d | _ \<Rightarrow> [])"

fun dicts_of :: "pyval list \<Rightarrow> pydict list" where
  "dicts_of [] = []"
| "dicts_of (PDict d # vs) = d # dicts_of vs"
| "dicts_of (_ # vs) = dicts_of vs"

definition is_one :: "pyval \<Rightarrow> bool" where
  "is_one v \<longleftrightarrow> v = PStr ''1''"

record ntp_config =
  client_enabled :: bool
  client_id :: pyval
  server_enabled :: bool
  server_id :: pyval
  zone_name :: pyval
  timezone :: pyval
  ntp_servers :: "pyval list"

definition read_ntp :: "(flt \<Rightarrow> string) \<Rightarrow> edge_env \<Rightarrow> 'r api \<Rightarrow> string \<Rightarrow> 'r edge \<Rightarrow> ntp_config res \<times> 'r edge" where
  "read_ntp fl env api host =
     andthen (api_get fl env api host ''/api/date_time/ntp/client/config'') (\<lambda>crows.
     andthen (api_get fl env api host ''/api/date_time/ntp/server/config'') (\<lambda>srows.
     andthen (api_get fl env api host ''/api/date_time/ntp/client/server/config'') (\<lambda>lst.
       let client = first_row crows; server = first_row srows in
       pure_res (bindE (py_iter (or_else lst (PList []))) (\<lambda>srvs.
         Inr \<lparr>client_enabled = is_one (dget client ''enabled''),
              client_id = or_else (dget client ''id'') (PStr ''ntpclient''),
              server_enabled = is_one (dget server ''enabled''),
              server_id = or_else (dget server ''id'') (PStr ''general''),
              zone_name = dget client ''zoneName'', timezone = dget client ''timezone'',
              ntp_servers = filter truthy (map (\<lambda>d. dget d ''hostname'') (dicts_of srvs))\<rparr>)))))"

record target =
  tg_host :: string
  tg_port :: "int option"
  tg_proto :: "string option"

text \<open>\<open>int(p) if p.isdigit() else None\<close>: the superscripts 1, 2 and 3 are digits for
  \<open>isdigit\<close>, but not for \<open>int\<close>.\<close>

definition superscript :: "char \<Rightarrow> bool" where
  "superscript c \<longleftrightarrow> (of_char c :: nat) \<in> {178, 179, 185}"

definition port_field :: "string \<Rightarrow> int option res" where
  "port_field p =
     (if p = [] \<or> \<not> list_all (\<lambda>c. is_digit c \<or> superscript c) p then Inr None
      else if list_all is_digit p \<and> length p \<le> 4300 then Inr (Some (int (read_nat p)))
      else Inl (value_error ''invalid literal for int() with base 10''))"

text \<open>A \<open>host_info\<close> entry, \<open>ip;port;proto\<close>.\<close>

definition parse_target :: "pyval \<Rightarrow> target res" where
  "parse_target raw = (case or_else raw (PStr []) of
     PStr t \<Rightarrow>
       let parts = split_on CHR '';'' t in
       bindE (if 1 < length parts then port_field (parts ! 1) else Inr None) (\<lambda>p.
         Inr \<lparr>tg_host = hd parts, tg_port = p, tg_proto = (if 2 < length parts then Some (parts ! 2) else None)\<rparr>)
   | _ \<Rightarrow> Inl (PyExc ''AttributeError'' ''object has no attribute split''))"

text \<open>\<open>_f\<close>\<close>

definition float_field :: "pyval \<Rightarrow> flt option" where
  "float_field v = (if v = PNone then None else case py_float v of Inl e \<Rightarrow> None | Inr f \<Rightarrow> Some f)"

record router_fix =
  rf_status :: pyval
  rf_satellites :: int
  rf_latitude :: "flt option"
  rf_longitude :: "flt option"
  rf_altitude :: "flt option"
  rf_accuracy :: "flt option"

record gps_config =
  forwarding_enabled :: bool
  forwarding_id :: pyval
  send_prefix :: pyval
  targets :: "target list"
  sentences_known :: "pyval list"
  sentences_forwarded :: "pyval list"
  router_fix_of :: router_fix

definition read_fix :: "pyval \<Rightarrow> router_fix res" where
  "read_fix pos =
     bindE (attr_get pos ''fix_status'' PNone) (\<lambda>st.
     bindE (attr_get pos ''satellites'' PNone) (\<lambda>sats.
     bindE (py_int (or_else sats (PInt 0))) (\<lambda>n.
     case pos of PDict d \<Rightarrow>
       Inr \<lparr>rf_status = st, rf_satellites = n, rf_latitude = float_field (dget d ''latitude''),
            rf_longitude = float_field (dget d ''longitude''), rf_altitude = float_field (dget d ''altitude''),
            rf_accuracy = float_field (dget d ''accuracy'')\<rparr>
     | _ \<Rightarrow> Inl (PyExc ''AttributeError'' ''object has no attribute get''))))"

definition gps_config_of :: "pyval \<Rightarrow> pyval \<Rightarrow> pyval \<Rightarrow> gps_config res" where
  "gps_config_of frows rules pos =
     (let fwd = first_row frows in
      bindE (py_iter (or_else (dget fwd ''host_info'') (PList []))) (\<lambda>infos.
      bindE (mapE parse_target infos) (\<lambda>tgs.
      bindE (py_iter (or_else rules (PList []))) (\<lambda>rs.
      bindE (read_fix (or_else pos (PDict []))) (\<lambda>fx.
        Inr \<lparr>forwarding_enabled = is_one (dget fwd ''enabled''),
             forwarding_id = or_else (dget fwd ''id'') (PStr ''nmea_forwarding''),
             send_prefix = dget fwd ''send_prefix'', targets = tgs,
             sentences_known = map (\<lambda>d. dget d ''id'') (dicts_of rs),
             sentences_forwarded = map (\<lambda>d. dget d ''id'') (filter (\<lambda>d. is_one (dget d ''forwarding_enabled'')) (dicts_of rs)),
             router_fix_of = fx\<rparr>)))))"

definition read_gps :: "(flt \<Rightarrow> string) \<Rightarrow> edge_env \<Rightarrow> 'r api \<Rightarrow> string \<Rightarrow> 'r edge \<Rightarrow> gps_config res \<times> 'r edge" where
  "read_gps fl env api host =
     andthen (api_get fl env api host ''/api/gps/nmea/config'') (\<lambda>frows.
     andthen (api_get fl env api host ''/api/gps/nmea/rules/config'') (\<lambda>rules.
     andthen (api_get fl env api host ''/api/gps/position/status'') (\<lambda>pos.
       pure_res (gps_config_of frows rules pos))))"

section \<open>Reception\<close>

record reception =
  receiving :: bool
  rc_age :: pyval
  sender :: "string option"

text \<open>\<open>\d+\.\d+\.\d+\.\d+\<close> at the front of a text; digits and dots do not overlap, so the greedy
  match is the only one.\<close>

fun match_dotted :: "nat \<Rightarrow> string \<Rightarrow> string option" where
  "match_dotted n s =
     (let ds = takeWhile is_digit s; rest = dropWhile is_digit s
      in if ds = [] then None
         else case n of 0 \<Rightarrow> Some ds
              | Suc k \<Rightarrow> (case rest of
                    c # r \<Rightarrow> if c = CHR ''.'' then map_option (\<lambda>m. ds @ ''.'' @ m) (match_dotted k r) else None
                  | [] \<Rightarrow> None))"

definition match_source :: "string \<Rightarrow> string option" where
  "match_source s =
     (if starts_with ''from'' s \<and> takeWhile is_space (drop 4 s) \<noteq> []
      then match_dotted 3 (dropWhile is_space (drop 4 s)) else None)"

text \<open>\<open>_GPS_SOURCE_RE.search\<close>: the first position that matches.\<close>

fun search_source :: "string \<Rightarrow> string option" where
  "search_source [] = None"
| "search_source (c # s) = (case match_source (c # s) of Some ip \<Rightarrow> Some ip | None \<Rightarrow> search_source s)"

fun reception_fresh :: "pyval \<Rightarrow> bool" where
  "reception_fresh (PInt i) = (of_int i \<le> GPS_FRESH_S)"
| "reception_fresh (PBool b) = True"
| "reception_fresh (PFloat (Fin r)) = (r \<le> GPS_FRESH_S)"
| "reception_fresh (PFloat (Inf neg)) = neg"
| "reception_fresh _ = False"

definition read_reception :: "pyval res \<Rightarrow> reception res" where
  "read_reception fetched = (case fetched of
     Inl e \<Rightarrow> Inr \<lparr>receiving = False, rc_age = PNone, sender = None\<rparr>
   | Inr (PDict cur) \<Rightarrow>
       (case or_else (dget cur ''source'') (PStr []) of
          PStr src \<Rightarrow> Inr \<lparr>receiving = truthy (dget cur ''ok'') \<and> reception_fresh (dget cur ''age_s''),
                          rc_age = dget cur ''age_s'', sender = search_source src\<rparr>
        | _ \<Rightarrow> Inl (type_error ''expected string or bytes-like object''))
   | Inr _ \<Rightarrow> Inl (PyExc ''AttributeError'' ''object has no attribute get''))"


section \<open>State\<close>

definition of_opt_flt :: "flt option \<Rightarrow> pyval" where
  "of_opt_flt x = (case x of None \<Rightarrow> PNone | Some f \<Rightarrow> PFloat f)"

definition ntp_config_dict :: "ntp_config \<Rightarrow> pydict" where
  "ntp_config_dict c =
     [(''client_enabled'', PBool (client_enabled c)), (''client_id'', client_id c),
      (''server_enabled'', PBool (server_enabled c)), (''server_id'', server_id c),
      (''zone_name'', zone_name c), (''timezone'', timezone c), (''servers'', PList (ntp_servers c))]"

definition target_dict :: "target \<Rightarrow> pydict" where
  "target_dict t = [(''host'', PStr (tg_host t)),
     (''port'', case tg_port t of None \<Rightarrow> PNone | Some p \<Rightarrow> PInt p), (''proto'', of_opt_str (tg_proto t))]"

definition fix_dict :: "router_fix \<Rightarrow> pydict" where
  "fix_dict f = [(''fix_status'', rf_status f), (''satellites'', PInt (rf_satellites f)),
     (''latitude'', of_opt_flt (rf_latitude f)), (''longitude'', of_opt_flt (rf_longitude f)),
     (''altitude'', of_opt_flt (rf_altitude f)), (''accuracy'', of_opt_flt (rf_accuracy f))]"

definition gps_config_dict :: "gps_config \<Rightarrow> pydict" where
  "gps_config_dict c =
     [(''forwarding_enabled'', PBool (forwarding_enabled c)), (''forwarding_id'', forwarding_id c),
      (''send_prefix'', send_prefix c), (''targets'', PList (map (PDict \<circ> target_dict) (targets c))),
      (''sentences_known'', PList (sentences_known c)), (''sentences_forwarded'', PList (sentences_forwarded c)),
      (''fix'', PDict (fix_dict (router_fix_of c)))]"

definition reception_dict :: "reception \<Rightarrow> pydict" where
  "reception_dict r = [(''receiving'', PBool (receiving r)), (''age_s'', rc_age r), (''sender'', of_opt_str (sender r))]"

definition unavailable :: "string \<Rightarrow> string \<Rightarrow> pydict" where
  "unavailable reason host = [(''available'', PBool False), (''reason'', PStr reason), (''host'', PStr host)]"

text \<open>\<open>state\<close>, from the outcome of the five reads (the first exception, if one raised) at the time
  \<open>t\<close>.\<close>

definition edge_state :: "string \<Rightarrow> (ntp_config \<times> gps_config \<times> sntp \<times> reception \<times> string list) res \<Rightarrow> rat \<Rightarrow> pydict res" where
  "edge_state host gathered t = (case gathered of
     Inl (HttpExc code detail) \<Rightarrow> Inr (unavailable detail host)
   | Inl e \<Rightarrow> Inl e
   | Inr (n, g, sn, rc, ips) \<Rightarrow>
       if \<not> truthy (PDict (ntp_config_dict n)) \<and> \<not> truthy (dget (gps_config_dict g) ''fix'')
       then Inr (unavailable ''router API unreachable'' host)
       else let iso = (case sn_offset sn of
                  Some off \<Rightarrow> if sn_ok sn then PStr (utc (round_half_even ((t + off) * 1000000))) else PNone
                | None \<Rightarrow> PNone);
                ntp = dict_update (ntp_config_dict n)
                  [(''responding'', PBool (sn_ok sn)), (''sntp_severity'', PStr (sn_severity sn)),
                   (''sntp_error'', of_opt_str (sn_error sn)), (''offset_s'', of_opt_rat (sn_offset sn)),
                   (''rtt_s'', of_opt_rat (sn_rtt sn)), (''router_time_iso'', iso)];
                gps = dict_update (gps_config_dict g)
                  [(''local_ips'', PList (map PStr ips)), (''local_reception'', PDict (reception_dict rc))]
            in Inr [(''available'', PBool True), (''host'', PStr host), (''web_url'', PStr (''https://'' @ host @ ''/'')),
                    (''ntp'', PDict ntp), (''gps'', PDict gps)])"

text \<open>The reads run in threads that share the token; here they run one after the other.\<close>

definition gather_reads ::
  "(flt \<Rightarrow> string) \<Rightarrow> edge_env \<Rightarrow> 'r api \<Rightarrow> string \<Rightarrow> sntp \<Rightarrow> reception res \<Rightarrow> string list \<Rightarrow> 'r edge
     \<Rightarrow> (ntp_config \<times> gps_config \<times> sntp \<times> reception \<times> string list) res \<times> 'r edge" where
  "gather_reads fl env api host sn rc ips =
     andthen (read_ntp fl env api host) (\<lambda>n. andthen (read_gps fl env api host) (\<lambda>g.
       pure_res (bindE rc (\<lambda>r. Inr (n, g, sn, r, ips)))))"

definition edge_state_now ::
  "(flt \<Rightarrow> string) \<Rightarrow> edge_env \<Rightarrow> 'r api \<Rightarrow> string \<Rightarrow> sntp \<Rightarrow> reception res \<Rightarrow> string list \<Rightarrow> 'r edge \<Rightarrow> pydict res \<times> 'r edge" where
  "edge_state_now fl env api host sn rc ips s =
     (case gather_reads fl env api host sn rc ips s of (g, s1) \<Rightarrow> (edge_state host g (now s1), s1))"

text \<open>The registry entry of the router and its host.\<close>

definition router_host :: "(flt \<Rightarrow> string) \<Rightarrow> fetched \<Rightarrow> string res" where
  "router_host fl f = bindE (find_node ''router'' f) (\<lambda>n. Inr (py_str fl (dget_or n ''host'' (PStr ''192.168.201.1''))))"

section \<open>Changing the router\<close>

definition local_ipv4s :: "string list \<Rightarrow> string option \<Rightarrow> string list" where
  "local_ipv4s resolved outbound =
     (let ips = remdups (resolved @ (case outbound of None \<Rightarrow> [] | Some ip \<Rightarrow> [ip]))
      in sort_key (map (\<lambda>c. of_char c :: nat)) (filter (\<lambda>ip. \<not> starts_with ''127.'' ip) ips))"

text \<open>\<open>_refresh_downstream\<close>: ntp first, then nodes, at the time of the call.\<close>

definition kick :: "edge_env \<Rightarrow> rat \<Rightarrow> 'r edge \<Rightarrow> 'r edge" where
  "kick env t s = s\<lparr>kicks := kicks s @ [(t, ntp_refresh_url env), (t, nodes_refresh_url env)]\<rparr>"

definition sleep :: "rat \<Rightarrow> 'r edge \<Rightarrow> 'r edge" where
  "sleep d s = s\<lparr>now := now s + d\<rparr>"

fun is_int :: "pyval \<Rightarrow> bool" where
  "is_int (PInt _) = True"
| "is_int (PBool _) = True"
| "is_int _ = False"

definition host_info_entry :: "(flt \<Rightarrow> string) \<Rightarrow> pyval \<Rightarrow> string res" where
  "host_info_entry fl t = (case t of
     PDict d \<Rightarrow>
       (case or_else (dget d ''host'') (PStr []) of
          PStr h0 \<Rightarrow>
            (case or_else (dget d ''proto'') (PStr ''udp'') of
               PStr p0 \<Rightarrow>
                 let h = strip h0; p = dget d ''port''; proto = map lower_char (strip p0)
                 in if h = [] \<or> \<not> is_int p \<or> (proto \<noteq> ''udp'' \<and> proto \<noteq> ''tcp'')
                    then Inl (HttpExc 400 (''invalid target '' @ py_repr fl t @ ''; need host/port(int)/proto in (udp,tcp)''))
                    else Inr (h @ '';'' @ py_str fl p @ '';'' @ proto)
             | _ \<Rightarrow> Inl (PyExc ''AttributeError'' ''object has no attribute strip''))
        | _ \<Rightarrow> Inl (PyExc ''AttributeError'' ''object has no attribute strip''))
   | _ \<Rightarrow> Inl (PyExc ''AttributeError'' ''object has no attribute get''))"

definition forwarding_path :: "(flt \<Rightarrow> string) \<Rightarrow> gps_config \<Rightarrow> string" where
  "forwarding_path fl cfg = ''/api/gps/nmea/config/'' @ py_str fl (or_else (forwarding_id cfg) (PStr ''nmea_forwarding''))"

definition set_forwarding_hosts ::
  "(flt \<Rightarrow> string) \<Rightarrow> edge_env \<Rightarrow> 'r api \<Rightarrow> fetched \<Rightarrow> pyval list \<Rightarrow> 'r edge \<Rightarrow> pydict res \<times> 'r edge" where
  "set_forwarding_hosts fl env api reg hosts =
     andthen (pure_res (router_host fl reg)) (\<lambda>host.
     andthen (read_gps fl env api host) (\<lambda>cfg.
     andthen (pure_res (mapE (host_info_entry fl) hosts)) (\<lambda>infos.
     andthen (api_put fl env api host (forwarding_path fl cfg) (PDict [(''host_info'', PList (map PStr infos))])) (\<lambda>result s.
       if result = PNone
       then (Inl (HttpExc 500 (''PUT '' @ forwarding_path fl cfg @ '' host_info failed'')), s)
       else let s1 = sleep (1 / 5) s
            in (Inr [(''host_info'', PList (map PStr infos)), (''result'', result)],
                kick env (now s1 + 9) (kick env (now s1) s1))))))"

text \<open>The route's check of the body.\<close>

definition gps_forwarding_hosts ::
  "(flt \<Rightarrow> string) \<Rightarrow> edge_env \<Rightarrow> 'r api \<Rightarrow> fetched \<Rightarrow> pydict \<Rightarrow> 'r edge \<Rightarrow> pydict res \<times> 'r edge" where
  "gps_forwarding_hosts fl env api reg payload s = (case dget payload ''hosts'' of
     PList hosts \<Rightarrow> set_forwarding_hosts fl env api reg hosts s
   | _ \<Rightarrow> (Inl (HttpExc 400 ''body must include 'hosts': list''), s))"

datatype role = Client | Server

fun role_name :: "role \<Rightarrow> string" where
  "role_name Client = ''client''"
| "role_name Server = ''server''"

definition ntp_row_path :: "(flt \<Rightarrow> string) \<Rightarrow> role \<Rightarrow> ntp_config \<Rightarrow> string" where
  "ntp_row_path fl r cfg = ''/api/date_time/ntp/'' @ role_name r @ ''/config/''
     @ py_str fl (if r = Client then client_id cfg else server_id cfg)"

definition ntp_set ::
  "(flt \<Rightarrow> string) \<Rightarrow> edge_env \<Rightarrow> 'r api \<Rightarrow> fetched \<Rightarrow> role \<Rightarrow> bool \<Rightarrow> sntp \<Rightarrow> 'r edge \<Rightarrow> (role \<times> bool \<times> sntp) res \<times> 'r edge" where
  "ntp_set fl env api reg r enable after =
     andthen (pure_res (router_host fl reg)) (\<lambda>host.
     andthen (read_ntp fl env api host) (\<lambda>cfg.
     andthen (api_put fl env api host (ntp_row_path fl r cfg) (PDict [(''enabled'', PStr (if enable then ''1'' else ''0''))])) (\<lambda>result s.
       if result = PNone
       then (Inl (HttpExc 500 (''PUT '' @ ntp_row_path fl r cfg @ '' enabled='' @ (if enable then ''1'' else ''0'') @ '' failed'')), s)
       else let s1 = sleep (6 / 5) s in (Inr (r, enable, after), kick env (now s1) s1))))"


section \<open>Calls\<close>

lemma login_requests:
  assumes "login fl env api host s = (r, s1)"
  shows "requests_made s1 = requests_made s @ (if router_password env = [] then [] else [login_request env host])
    \<and> (router_password env = [] \<longrightarrow> r = Inl (HttpExc 500 ''ROUTER_PASSWORD env not set''))"
  using assms by (auto simp: login_def ask_def split: if_splits prod.splits sum.splits)

lemma token_for_requests:
  assumes "token_for fl env api host s = (r, s1)"
  shows "\<exists>ls. requests_made s1 = requests_made s @ ls \<and> ls \<in> {[], [login_request env host]}
    \<and> (\<forall>tok. r = Inr tok \<and> ls = [] \<longrightarrow> tok = token s \<and> truthy tok \<and> \<not> expired (now s) (token_expires_at s))"
proof (cases "\<not> truthy (token s) \<or> expired (now s) (token_expires_at s)")
  case True
  with assms have l: "login fl env api host s = (r, s1)" by (simp add: token_for_def)
  show ?thesis
    using login_requests [OF l]
    by (intro exI [of _ "if router_password env = [] then [] else [login_request env host]"]) auto
next
  case False
  with assms show ?thesis by (auto simp: token_for_def)
qed

text \<open>One attempt: what is left to do after it, and the requests it made.\<close>

lemma one_attempt:
  assumes "attempts fl env api host meth path body (k # rest) s = (r, s')"
  obtains (finished) ls cs where "requests_made s' = requests_made s @ ls @ cs" "ls \<in> {[], [login_request env host]}"
      "cs = [] \<and> (\<exists>e. r = Inl e) \<or> (\<exists>tok. cs = [call_request host meth path body tok]
         \<and> (ls = [] \<longrightarrow> tok = token s \<and> truthy tok \<and> \<not> expired (now s) (token_expires_at s)))"
  | (retry) ls tok s1 where "requests_made s1 = requests_made s @ ls @ [call_request host meth path body tok]"
      "ls \<in> {[], [login_request env host]}" "token s1 = PNone" "k = 0"
      "ls = [] \<longrightarrow> tok = token s \<and> truthy tok \<and> \<not> expired (now s) (token_expires_at s)"
      "attempts fl env api host meth path body rest s1 = (r, s')"
proof -
  obtain t s1 where t: "token_for fl env api host s = (t, s1)" by (metis surj_pair)
  from token_for_requests [OF t] obtain ls where ls: "requests_made s1 = requests_made s @ ls"
    "ls \<in> {[], [login_request env host]}"
    "\<forall>tok. t = Inr tok \<and> ls = [] \<longrightarrow> tok = token s \<and> truthy tok \<and> \<not> expired (now s) (token_expires_at s)" by blast
  show thesis
  proof (cases t)
    case (Inl e)
    with assms t ls(1) show ?thesis by (intro finished [of ls "[]"]) (use ls in auto)
  next
    case (Inr tok)
    obtain rep s2 where a: "ask api (call_request host meth path body tok) s1 = (rep, s2)" by (metis surj_pair)
    have s2: "requests_made s2 = requests_made s @ ls @ [call_request host meth path body tok]"
      using a ls(1) by (auto simp: ask_def split: prod.splits)
    show ?thesis
    proof (cases "rep = HttpError 401 \<and> k = 0")
      case True
      with assms t Inr a have "attempts fl env api host meth path body rest (s2\<lparr>token := PNone\<rparr>) = (r, s')" by simp
      then show ?thesis using True ls Inr s2 by (intro retry [of "s2\<lparr>token := PNone\<rparr>" ls tok]) auto
    next
      case False
      with assms t Inr a have "s' = s2" by (auto split: reply.splits if_splits)
      then show ?thesis using ls Inr s2 by (intro finished [of ls "[call_request host meth path body tok]"]) auto
    qed
  qed
qed

section \<open>Properties\<close>



definition demo_edge :: "nat edge" where
  "demo_edge = \<lparr>token = PStr ''old'', token_expires_at = Fin 50, router = 0, now = 10, requests_made = [], kicks = []\<rparr>"

definition demo_env_edge :: edge_env where
  "demo_env_edge = \<lparr>router_user = ''admin'', router_password = ''pw'', ntp_refresh_url = ''ntp'', nodes_refresh_url = ''nodes''\<rparr>"

text \<open>A router that knows one token, \<open>new\<close>, and hands it out.\<close>

definition demo_api :: "nat api" where
  "demo_api r rq =
     (if rq_path rq = ''/api/login''
      then (Reply (PDict [(''success'', PBool True), (''data'', PDict [(''token'', PStr ''new'')])]), 1, r)
      else if rq_token rq = Some (PStr ''new'') then (Reply (PDict [(''success'', PBool True), (''data'', PList [])]), 1, Suc r)
      else (HttpError 401, 1, r))"


text \<open>A router that cannot be reached raises out of the call when there is no usable token, since the
  login is outside the \<open>try\<close>, and yields \<open>None\<close> only while a cached token is valid; the
  docstring promises \<open>None\<close>.\<close>

lemma unreachable_router_raises:
  assumes "\<And>r rq. fst (api r rq) = Unreachable e" "router_password env \<noteq> []"
  shows "fst (api_call fl env api host meth path body s) =
    (if \<not> truthy (token s) \<or> expired (now s) (token_expires_at s) then Inl e else Inr PNone)"
proof -
  have a: "fst (ask api rq s) = Unreachable e" for rq and s
    using assms(1) [of "router s" rq] by (auto simp: ask_def split: prod.splits)
  have two: "api_call fl env api host meth path body s = attempts fl env api host meth path body (0 # [1]) s"
    by (simp only: api_call_def)
  show ?thesis
  proof (cases "\<not> truthy (token s) \<or> expired (now s) (token_expires_at s)")
    case True
    obtain s1 where "ask api (login_request env host) s = (Unreachable e, s1)" using a by (metis prod.collapse)
    with True assms(2) show ?thesis unfolding two by (simp add: token_for_def login_def login_data_def)
  next
    case False
    obtain s1 where "ask api (call_request host meth path body (token s)) s = (Unreachable e, s1)" using a by (metis prod.collapse)
    with False show ?thesis unfolding two by (simp add: token_for_def)
  qed
qed

text \<open>The branch of \<open>state\<close> that reports an unreachable router is dead: the configuration it tests
  is never empty.\<close>

lemma unreachable_branch_dead:
  "edge_state host (Inr x) t = Inr d \<Longrightarrow> dget d ''available'' = PBool True"
  by (cases x) (auto simp: edge_state_def ntp_config_dict_def gps_config_dict_def fix_dict_def dget_def Let_def split: if_splits)


text \<open>The controller's own SNTP query agrees with the ntp service on the same reply: both
  succeed, the round-trip times and the offsets differ by the server's processing time and by half
  of it, and for a server that answers at once the severities are the same, except on the two
  thresholds themselves, which only the ntp service counts as exceeded.\<close>

theorem sntp_agrees_with_ntp_service:
  assumes "48 \<le> length data"
  defines "t1 \<equiv> ntp_time (take 8 (drop 32 data))" and "t2 \<equiv> ntp_time (take 8 (drop 40 data))"
  shows "\<exists>off rtt. sntp_probe (Inr (t0, data, t3)) =
        \<lparr>sn_ok = True, sn_severity = sntp_severity off, sn_error = None, sn_offset = Some off, sn_rtt = Some rtt\<rparr>
      \<and> query_sync srv (Inr (t0, data, t3)) =
        \<lparr>nr_server = srv, nr_ok = True, offset_s = Some (off - (t2 - t1) / 2), rtt_s = Some (rtt - (t2 - t1)),
         nr_error = None, nr_severity = classify_offset (off - (t2 - t1) / 2)\<rparr>
      \<and> (t1 = t2 \<and> \<bar>off\<bar> \<noteq> 1 / 2 \<and> \<bar>off\<bar> \<noteq> 2 \<longrightarrow> sntp_severity off = classify_offset (off - (t2 - t1) / 2))"
proof -
  define off where "off = t2 - (t0 + (t3 - t0) / 2)"
  have eq: "((t1 - t0) + (t2 - t3)) / 2 = off - (t2 - t1) / 2" by (simp add: off_def field_simps)
  have "sntp_probe (Inr (t0, data, t3)) =
        \<lparr>sn_ok = True, sn_severity = sntp_severity off, sn_error = None, sn_offset = Some off, sn_rtt = Some (t3 - t0)\<rparr>"
    using assms(1) by (simp add: sntp_probe_def Let_def off_def t2_def)
  moreover have "query_sync srv (Inr (t0, data, t3)) =
        \<lparr>nr_server = srv, nr_ok = True, offset_s = Some (off - (t2 - t1) / 2), rtt_s = Some ((t3 - t0) - (t2 - t1)),
         nr_error = None, nr_severity = classify_offset (off - (t2 - t1) / 2)\<rparr>"
    using assms(1) by (simp add: query_sync_def Let_def eq [unfolded t1_def t2_def] t1_def t2_def)
  moreover have "sntp_severity off = classify_offset (off - (t2 - t1) / 2)"
    if "t1 = t2" "\<bar>off\<bar> \<noteq> 1 / 2" "\<bar>off\<bar> \<noteq> 2"
    using that by (auto simp: sntp_severity_def classify_offset_def FAIL_THRESHOLD_S_def WARN_THRESHOLD_S_def)
  ultimately show ?thesis by blast
qed

lemma sntp_agrees_with_ntp_service_witness:
  "sn_ok (sntp_probe (Inr (0, replicate 48 0, 0))) \<and> nr_ok (query_sync ''h'' (Inr (0, replicate 48 0, 0)))"
proof -
  have "48 \<le> length (replicate 48 (0 :: 8 word))" by simp
  from sntp_agrees_with_ntp_service [OF this, of 0 0 "''h''"] show ?thesis by auto
qed

section \<open>Forwarding targets\<close>

lemma digits_not_semicolon: "list_all is_digit s \<Longrightarrow> CHR '';'' \<notin> set s"
  by (auto simp: list_all_iff is_digit_def)

lemma strip_subset: "set (strip s) \<subseteq> set s"
  by (auto simp: strip_def lstrip_def dest!: set_dropWhileD)

lemma parse_target_entry:
  assumes "host_info_entry fl (PDict d) = Inr t" "dget d ''host'' = PStr h" "CHR '';'' \<notin> set h"
    and "dget d ''port'' = PInt p" "0 \<le> p" "p \<le> 65535"
  shows "\<exists>q. or_else (dget d ''proto'') (PStr ''udp'') = PStr q \<and>
    parse_target (PStr t) = Inr \<lparr>tg_host = strip h, tg_port = Some p, tg_proto = Some (map lower_char (strip q))\<rparr>"
proof -
  let ?n = "show_nat (nat p)"
  have ho: "or_else (dget d ''host'') (PStr []) = PStr h" using assms(2) by (simp add: or_else_def)
  obtain q where q: "or_else (dget d ''proto'') (PStr ''udp'') = PStr q"
    using assms(1) ho by (auto simp: host_info_entry_def split: pyval.splits)
  define pr where "pr = map lower_char (strip q)"
  have t: "t = strip h @ '';'' @ ?n @ '';'' @ pr" and pr: "pr = ''udp'' \<or> pr = ''tcp''" and hne: "strip h \<noteq> []"
    using assms(1,4,5) ho q by (auto simp: host_info_entry_def pr_def Let_def show_int_def split: if_splits)
  have hs: "CHR '';'' \<notin> set (strip h)" using strip_subset [of h] assms(3) by blast
  have ns: "CHR '';'' \<notin> set ?n" by (rule digits_not_semicolon) simp
  have ps: "CHR '';'' \<notin> set pr" using pr by auto
  have sp: "split_on CHR '';'' t = [strip h, ?n, pr]"
    using split_append_clean [OF hs, of "?n @ '';'' @ pr"] split_append_clean [OF ns, of pr] split_clean [OF ps]
    by (simp add: t)
  have "length ?n \<le> 5" using assms(5,6) by (intro length_show_nat) auto
  then have pf: "port_field ?n = Inr (Some p)"
    using assms(5) show_nat_digits [of "nat p"] by (auto simp: port_field_def list_all_iff)
  have "t \<noteq> []" using t hne by simp
  then show ?thesis using q pf by (simp add: parse_target_def or_else_def sp pr_def)
qed

lemma targets_back:
  assumes "mapE (host_info_entry fl) (map PDict ds) = Inr infos" "mapE parse_target (map PStr infos) = Inr tgs"
    and "\<forall>d \<in> set ds. \<exists>h p. dget d ''host'' = PStr h \<and> CHR '';'' \<notin> set h \<and> dget d ''port'' = PInt p \<and> 0 \<le> p \<and> p \<le> 65535"
  shows "list_all2 (\<lambda>d t. \<exists>h p q. dget d ''host'' = PStr h \<and> dget d ''port'' = PInt p
      \<and> or_else (dget d ''proto'') (PStr ''udp'') = PStr q
      \<and> t = \<lparr>tg_host = strip h, tg_port = Some p, tg_proto = Some (map lower_char (strip q))\<rparr>) ds tgs"
  using assms
proof (induction ds arbitrary: infos tgs)
  case (Cons d ds)
  obtain t ts where t: "infos = t # ts" "host_info_entry fl (PDict d) = Inr t" "mapE (host_info_entry fl) (map PDict ds) = Inr ts"
    using Cons.prems(1) by (auto simp: res_simps)
  obtain g gs where g: "tgs = g # gs" "parse_target (PStr t) = Inr g" "mapE parse_target (map PStr ts) = Inr gs"
    using Cons.prems(2) t(1) by (auto simp: res_simps)
  obtain h p where hp: "dget d ''host'' = PStr h" "CHR '';'' \<notin> set h" "dget d ''port'' = PInt p" "0 \<le> p" "p \<le> 65535"
    using Cons.prems(3) by auto
  from parse_target_entry [OF t(2) hp] g(2) hp Cons.IH [OF t(3) g(3)] Cons.prems(3)
  show ?case by (auto simp: g(1))
qed simp

text \<open>What the operator sets is what the controller reads back: when the router answers the
  read with the \<open>host_info\<close> that was put, the targets are the listed ones, with the host stripped
  and the protocol in lower case, for hosts without a semicolon and ports of 16 bits.\<close>

theorem forwarding_targets_round_trip:
  assumes "set_forwarding_hosts fl env api reg (map PDict ds) s = (Inr res, s')"
    and "\<forall>d \<in> set ds. \<exists>h p. dget d ''host'' = PStr h \<and> CHR '';'' \<notin> set h \<and> dget d ''port'' = PInt p \<and> 0 \<le> p \<and> p \<le> 65535"
    and "dget (first_row frows) ''host_info'' = dget res ''host_info''"
    and "gps_config_of frows rules pos = Inr cfg"
  shows "list_all2 (\<lambda>d t. \<exists>h p q. dget d ''host'' = PStr h \<and> dget d ''port'' = PInt p
      \<and> or_else (dget d ''proto'') (PStr ''udp'') = PStr q
      \<and> t = \<lparr>tg_host = strip h, tg_port = Some p, tg_proto = Some (map lower_char (strip q))\<rparr>) ds (targets cfg)"
proof -
  obtain infos where infos: "mapE (host_info_entry fl) (map PDict ds) = Inr infos"
    "dget res ''host_info'' = PList (map PStr infos)"
    using assms(1)
    by (auto simp: set_forwarding_hosts_def andthen_def pure_res_def dget_def Let_def split: prod.splits sum.splits if_splits)
  have "py_iter (or_else (dget (first_row frows) ''host_info'') (PList [])) = Inr (map PStr infos)"
    by (simp add: assms(3) infos(2) or_else_def)
  then have tg: "mapE parse_target (map PStr infos) = Inr (targets cfg)"
    using assms(4) by (auto simp: gps_config_of_def Let_def res_simps)
  show ?thesis by (rule targets_back [OF infos(1) tg assms(2)])
qed

definition demo_router_api :: "nat api" where
  "demo_router_api r rq = (Reply (PDict [(''success'', PBool True), (''data'', PDict [(''id'', PStr ''f'')])]), 1, r)"

definition demo_registry :: fetched where
  "demo_registry = Document (PDict [(''nodes'', PList [PDict [(''id'', PStr ''router''), (''host'', PStr ''r'')]])])"

definition demo_host :: pydict where
  "demo_host = [(''host'', PStr '' h ''), (''port'', PInt 1), (''proto'', PStr ''UDP'')]"

lemma forwarding_targets_round_trip_witness:
  "\<exists>res s' cfg. set_forwarding_hosts (\<lambda>_. []) demo_env_edge demo_router_api demo_registry (map PDict [demo_host]) demo_edge = (Inr res, s')
     \<and> gps_config_of (PDict [(''host_info'', dget res ''host_info'')]) (PList []) (PDict []) = Inr cfg \<and> length (targets cfg) = 1"
proof -
  have "\<exists>res s' cfg. set_forwarding_hosts (\<lambda>_. []) demo_env_edge demo_router_api demo_registry (map PDict [demo_host]) demo_edge = (Inr res, s')
     \<and> gps_config_of (PDict [(''host_info'', dget res ''host_info'')]) (PList []) (PDict []) = Inr cfg"
  proof -
    define run where "run = set_forwarding_hosts (\<lambda>_. []) demo_env_edge demo_router_api demo_registry (map PDict [demo_host]) demo_edge"
    have a: "\<not> isl (fst run)" unfolding run_def by code_simp
    have b: "\<not> isl (gps_config_of (PDict [(''host_info'', dget (projr (fst run)) ''host_info'')]) (PList []) (PDict []))"
      unfolding run_def by code_simp
    obtain res s' where "run = (Inr res, s')" using a by (metis isl_def surj_pair sum.exhaust fst_conv)
    moreover from this b obtain cfg where "gps_config_of (PDict [(''host_info'', dget res ''host_info'')]) (PList []) (PDict []) = Inr cfg"
      by (metis isl_def sum.exhaust fst_conv sum.sel(2))
    ultimately show ?thesis unfolding run_def by blast
  qed
  then obtain res s' cfg where r: "set_forwarding_hosts (\<lambda>_. []) demo_env_edge demo_router_api demo_registry (map PDict [demo_host]) demo_edge = (Inr res, s')"
    "gps_config_of (PDict [(''host_info'', dget res ''host_info'')]) (PList []) (PDict []) = Inr cfg" by blast
  have "list_all2 (\<lambda>d t. \<exists>h p q. dget d ''host'' = PStr h \<and> dget d ''port'' = PInt p
      \<and> or_else (dget d ''proto'') (PStr ''udp'') = PStr q
      \<and> t = \<lparr>tg_host = strip h, tg_port = Some p, tg_proto = Some (map lower_char (strip q))\<rparr>) [demo_host] (targets cfg)"
    by (rule forwarding_targets_round_trip [OF r(1) _ _ r(2)]) (simp_all add: demo_host_def dget_def first_row_def)
  then have "length (targets cfg) = 1" using list_all2_lengthD by fastforce
  with r show ?thesis by blast
qed

end
