(* ===== verification/GpsReaders.thy ===== *)
theory GpsReaders
  imports Nmea EdgeRouter
begin

text \<open>
  The two readers of the document that the gps service serves at \<open>GET /gps/current\<close>: the probe of an
  edge node (\<open>services/nodes/app/probes/edge_node.py\<close>) and the edge router controller of the UI
  (\<open>services/ui/app/edge/routes.py\<close>) both take the sender out of the text the listener puts in
  \<open>source\<close>.
\<close>

section \<open>The two consumers of the GPS service\<close>

lemma find_sub_skip: "c \<notin> set a \<Longrightarrow> find_sub (c # p) (a @ b) = map_option (\<lambda>i. length a + i) (find_sub (c # p) b)"
proof (induction a)
  case Nil
  then show ?case by (cases "find_sub (c # p) b") simp_all
next
  case (Cons x a)
  then have "\<not> starts_with (c # p) ((x # a) @ b)" by (auto simp: starts_with_def)
  with Cons show ?case by (cases "find_sub (c # p) b") simp_all
qed

lemma search_source_skip: "CHR ''f'' \<notin> set a \<Longrightarrow> search_source (a @ b) = search_source b"
proof (induction a)
  case (Cons x a)
  then have "x \<noteq> CHR ''f''" by auto
  then have "match_source ((x # a) @ b) = None" by (simp add: match_source_def starts_with_def)
  with Cons show ?case unfolding append_Cons search_source.simps by simp
qed simp

definition dotted :: "string \<Rightarrow> bool" where
  "dotted ip \<longleftrightarrow> (\<exists>a b c d. ip = a @ ''.'' @ b @ ''.'' @ c @ ''.'' @ d
     \<and> all_digits a \<and> all_digits b \<and> all_digits c \<and> all_digits d)"

lemma digits_run:
  assumes "all_digits a" "\<not> is_digit x"
  shows "takeWhile is_digit (a @ x # r) = a" "dropWhile is_digit (a @ x # r) = x # r"
  using assms by (auto simp: all_digits_def list_all_iff)

lemma match_dotted_bracket:
  assumes "dotted ip"
  shows "match_dotted 3 (ip @ '')'') = Some ip"
proof -
  obtain a b c d where ip: "ip = a @ ''.'' @ b @ ''.'' @ c @ ''.'' @ d"
    and ds: "all_digits a" "all_digits b" "all_digits c" "all_digits d" using assms by (auto simp: dotted_def)
  then have ne: "a \<noteq> []" "b \<noteq> []" "c \<noteq> []" "d \<noteq> []" by (simp_all add: all_digits_def)
  have dot: "\<not> is_digit CHR ''.''" by simp
  have nd: "\<not> is_digit CHR '')''" by (simp add: is_digit_def)
  have "match_dotted 0 (d @ '')'') = Some d"
    using digits_run [OF ds(4) nd, of "[]"] ne by simp
  then have "match_dotted 1 (c @ ''.'' @ d @ '')'') = Some (c @ ''.'' @ d)"
    using digits_run [OF ds(3) dot] ne by simp
  then have "match_dotted (Suc 1) (b @ ''.'' @ c @ ''.'' @ d @ '')'') = Some (b @ ''.'' @ c @ ''.'' @ d)"
    using digits_run [OF ds(2) dot] ne by (subst match_dotted.simps) simp
  then have "match_dotted (Suc (Suc 1)) (a @ ''.'' @ b @ ''.'' @ c @ ''.'' @ d @ '')'') = Some ip"
    using digits_run [OF ds(1) dot] ne by (subst match_dotted.simps) (simp add: ip)
  then show ?thesis by (simp add: ip numeral_3_eq_3)
qed

lemma dotted_ends:
  assumes "dotted ip"
  shows "ip \<noteq> []" "is_digit (hd ip)" "is_digit (last ip)"
proof -
  obtain a b c d where ip: "ip = a @ ''.'' @ b @ ''.'' @ c @ ''.'' @ d"
    and ds: "all_digits a" "all_digits d" using assms by (auto simp: dotted_def)
  then show "ip \<noteq> []" "is_digit (hd ip)" "is_digit (last ip)"
    by (auto simp: all_digits_def list_all_iff)
qed

text \<open>The source string that the listener writes, and what its two readers make of it.\<close>

definition listener_source :: "string \<Rightarrow> nat \<Rightarrow> string \<Rightarrow> string" where
  "listener_source b p ip = ''udp/'' @ b @ '':'' @ show_nat p @ '' (from '' @ ip @ '')''"

lemma source_readers:
  assumes "dotted ip" "CHR ''f'' \<notin> set b"
  shows "seen_from (listener_source b p ip) = Some ip" "search_source (listener_source b p ip) = Some ip"
proof -
  define pre where "pre = ''udp/'' @ b @ '':'' @ show_nat p @ '' (''"
  have src: "listener_source b p ip = pre @ (''from '' @ ip @ '')'')" by (simp add: listener_source_def pre_def)
  have "CHR ''f'' \<notin> set (show_nat p)"
    using show_nat_digits [of p] by (auto simp: list_all_iff is_digit_def)
  then have f: "CHR ''f'' \<notin> set pre" using assms(2) by (simp add: pre_def)
  have "find_sub ''from '' (''from '' @ ip @ '')'') = Some 0" by (simp add: starts_with_def)
  then have fs: "find_sub ''from '' (listener_source b p ip) = Some (length pre)"
    unfolding src by (subst find_sub_skip [OF f]) simp
  have "\<not> last ip \<in> set '') ''" using dotted_ends(3) [OF assms(1)] by (auto simp: is_digit_def)
  then have "rstrip_chars '') '' (ip @ '')'') = ip"
    using dotted_ends(1) [OF assms(1)] by (cases ip rule: rev_cases) (auto simp: rstrip_chars_def)
  then show "seen_from (listener_source b p ip) = Some ip"
    unfolding seen_from_def fs by (simp add: src)
  have sp: "\<not> is_space (hd ip)" using dotted_ends(2) [OF assms(1)] digit_plain(1) by blast
  have tw: "takeWhile is_space ('' '' @ ip @ '')'') = '' ''" "dropWhile is_space ('' '' @ ip @ '')'') = ip @ '')''"
    using sp dotted_ends(1) [OF assms(1)] by (cases ip; simp add: is_space_def)+
  have "match_source (''from '' @ ip @ '')'') = Some ip"
    using tw match_dotted_bracket [OF assms(1)] by (simp add: match_source_def starts_with_def)
  then show "search_source (listener_source b p ip) = Some ip"
    unfolding src search_source_skip [OF f] by simp
qed


text \<open>What \<open>GET /gps/current\<close> serves after a sentence was consumed.\<close>

lemma served_fix:
  assumes "t0 \<noteq> 0" "gps_current t (Some (consume t0 today parsed (ip, p) l)) = (fix0, lo)"
  shows "fix_source fix0 = listener_source (bind_addr l) (port l) ip" "age_s fix0 = Some (round_dec 3 (t - t0))"
  using assms by (auto simp: gps_current_def snapshot_def consume_def Let_def listener_source_def split: if_splits)

lemma document_fields [simp]:
  "dget (fix_document f) ''ok'' = PBool (fix_ok f)" "dget (fix_document f) ''source'' = PStr (fix_source f)"
  "dget (fix_document f) ''age_s'' = of_opt_rat (age_s f)" "fix_document f \<noteq> []"
  by (simp_all add: fix_document_def dget_def)

text \<open>The two readers of \<open>GET /gps/current\<close> agree. After a sentence from the address \<open>ip\<close>, the
  UI names \<open>ip\<close> as the sender, and the edge-node probe of a host \<open>h\<close> reports GPS as \<open>ok\<close> exactly
  when \<open>h\<close> is that sender and the UI reports reception.\<close>

theorem gps_consumers_agree:
  assumes "dotted ip" "CHR ''f'' \<notin> set (bind_addr l)" "t0 \<noteq> 0"
    and "gps_current t (Some (consume t0 today parsed (ip, p) l)) = (fix0, lo)"
  shows "\<exists>d rc. gps_status_for_host fl (PStr h) (PDict (fix_document fix0)) = Inr d
    \<and> read_reception (Inr (PDict (fix_document fix0))) = Inr rc
    \<and> sender rc = Some ip \<and> (dget d ''ok'' = PBool True \<longleftrightarrow> h = ip \<and> receiving rc)"
proof -
  note served = served_fix [OF assms(3,4)]
  note readers = source_readers [OF assms(1,2), of "port l"]
  have ne: "or_else (PStr (listener_source (bind_addr l) (port l) ip)) (PStr []) = PStr (listener_source (bind_addr l) (port l) ip)"
    by (simp add: or_else_def listener_source_def)
  show ?thesis
    unfolding gps_status_for_host_def read_reception_def
    by (auto simp: served readers ne gps_fail_def of_opt_rat_def dget_Cons Let_def)
qed

lemma gps_consumers_agree_witness:
  "\<exists>d rc. gps_status_for_host (\<lambda>_. []) (PStr ''1.2.3.4'')
       (PDict (fix_document (fst (gps_current 5 (Some (consume 1 [] [] (''1.2.3.4'', 9) (new_listener 8500 ''0.0.0.0''))))))) = Inr d
     \<and> read_reception (Inr (PDict (fix_document (fst (gps_current 5 (Some (consume 1 [] [] (''1.2.3.4'', 9) (new_listener 8500 ''0.0.0.0''))))))))
       = Inr rc \<and> sender rc = Some ''1.2.3.4''"
proof -
  obtain fix0 lo where c: "gps_current 5 (Some (consume 1 [] [] (''1.2.3.4'', 9) (new_listener 8500 ''0.0.0.0''))) = (fix0, lo)"
    by (metis surj_pair)
  have d: "dotted ''1.2.3.4''"
    unfolding dotted_def
    by (rule exI [of _ "''1''"], rule exI [of _ "''2''"], rule exI [of _ "''3''"], rule exI [of _ "''4''"])
       (simp add: all_digits_def is_digit_def)
  have b: "CHR ''f'' \<notin> set (bind_addr (new_listener 8500 ''0.0.0.0''))" by (simp add: new_listener_def)
  from gps_consumers_agree [OF d b _ c, of "\<lambda>_. []" "''1.2.3.4''"] show ?thesis unfolding c by auto
qed

end
