(* ===== verification/Ids.thy ===== *)
theory Ids
  imports PyNum
begin

text \<open>
  Identifiers as text: what \<open>uuid.UUID(s)\<close> accepts and the ULID pattern, used by the validator of the
  UI (\<open>services/ui/app/message/validators.py\<close>) and by that of the Apex middleware
  (\<open>validate_proto.py\<close>).
\<close>

section \<open>Identifiers\<close>

text \<open>\<open>s.replace(p, '')\<close> for a non-empty pattern.\<close>

fun remove_all :: "string \<Rightarrow> nat \<Rightarrow> string \<Rightarrow> string" where
  "remove_all p 0 s = s"
| "remove_all p (Suc n) [] = []"
| "remove_all p (Suc n) (c # s) =
     (if starts_with p (c # s) then remove_all p n (drop (length p) (c # s)) else c # remove_all p n s)"

definition replace_empty :: "string \<Rightarrow> string \<Rightarrow> string" where
  "replace_empty p s = remove_all p (length s) s"

definition strip_set :: "char list \<Rightarrow> string \<Rightarrow> string" where
  "strip_set cs s = rev (dropWhile (\<lambda>c. c \<in> set cs) (rev (dropWhile (\<lambda>c. c \<in> set cs) s)))"

definition is_hex :: "char \<Rightarrow> bool" where
  "is_hex c \<longleftrightarrow> hex_val c \<noteq> None"

text \<open>Hexadecimal digits with single underscores between them.\<close>

fun hex_digits :: "string \<Rightarrow> bool" where
  "hex_digits [] = False"
| "hex_digits [c] = is_hex c"
| "hex_digits (c # d # s) = (is_hex c \<and> (if d = CHR ''_'' then hex_digits s else hex_digits (d # s)))"

text \<open>Whether \<open>int(s, 16)\<close> succeeds on a text without minus sign.\<close>

definition int_hex_ok :: "string \<Rightarrow> bool" where
  "int_hex_ok s0 =
     (let s1 = strip s0;
          s = (case s1 of c # r \<Rightarrow> if c = CHR ''+'' then r else s1 | [] \<Rightarrow> [])
      in if starts_with ''0x'' s \<or> starts_with ''0X'' s
         then (case drop 2 s of c # r \<Rightarrow> if c = CHR ''_'' then hex_digits r else hex_digits (c # r)
               | [] \<Rightarrow> False)
         else hex_digits s)"

text \<open>\<open>uuid.UUID(s)\<close>: prefixes, braces and dashes are removed, and 32 characters must remain that
  \<open>int(\<dots>, 16)\<close> reads.\<close>

definition uuid_core :: "string \<Rightarrow> string" where
  "uuid_core s = filter (\<lambda>c. c \<noteq> CHR ''-'')
     (strip_set ''{}'' (replace_empty ''uuid:'' (replace_empty ''urn:'' s)))"

definition is_valid_uuid :: "string \<Rightarrow> bool" where
  "is_valid_uuid s \<longleftrightarrow> length (uuid_core s) = 32 \<and> int_hex_ok (uuid_core s)"

definition crockford :: "char \<Rightarrow> bool" where
  "crockford c \<longleftrightarrow> c \<in> set ''0123456789ABCDEFGHJKMNPQRSTVWXYZ''"

definition ulid_chars :: "string \<Rightarrow> bool" where
  "ulid_chars s \<longleftrightarrow> length s = 26 \<and> hd s \<in> set ''01234567'' \<and> list_all crockford (tl s)"

text \<open>\<open>^[0-7][0-9A-HJKMNP-TV-Z]{25}$\<close>, where \<open>$\<close> also matches before a final line feed.\<close>

definition is_valid_ulid :: "string \<Rightarrow> bool" where
  "is_valid_ulid s \<longleftrightarrow> ulid_chars s \<or> (s \<noteq> [] \<and> last s = CHR 0x0A \<and> ulid_chars (butlast s))"

section \<open>Lemmas\<close>

lemma hex_char:
  assumes "is_hex c"
  shows "c \<noteq> CHR ''u''" "c \<noteq> CHR ''{''" "c \<noteq> CHR ''}''" "c \<noteq> CHR ''-''" "c \<noteq> CHR ''+''"
    "c \<noteq> CHR ''_''" "c \<noteq> CHR ''x''" "c \<noteq> CHR ''X''" "\<not> is_space c"
  using assms by (auto simp: is_hex_def hex_val_def Let_def is_space_def)

lemma remove_all_id:
  assumes "p \<noteq> []" "hd p \<notin> set s"
  shows "remove_all p n s = s"
  using assms
proof (induction p n s rule: remove_all.induct)
  case (3 q n c s)
  then show ?case by (cases q) (auto simp: starts_with_def)
qed auto

lemma hex_digits_plain: "s \<noteq> [] \<Longrightarrow> list_all is_hex s \<Longrightarrow> hex_digits s"
  by (induction s rule: hex_digits.induct) (auto simp: hex_char)

lemma int_hex_ok_plain:
  assumes "s \<noteq> []" "list_all is_hex s"
  shows "int_hex_ok s"
proof -
  have d: "dropWhile is_space t = t" if "list_all is_hex t" for t
    using that by (cases t) (auto simp: hex_char)
  have st: "strip s = s" using assms(2) by (simp add: strip_def lstrip_def d list_all_rev)
  obtain c r where c: "s = c # r" using assms(1) by (cases s) auto
  have "\<not> starts_with ''0x'' s \<and> \<not> starts_with ''0X'' s"
    using assms(2) c by (cases r) (auto simp: starts_with_def hex_char)
  with assms st c show ?thesis
    by (simp add: int_hex_ok_def Let_def hex_char hex_digits_plain)
qed

lemma strip_set_ends:
  assumes "s \<noteq> []" "hd s \<notin> set cs" "last s \<notin> set cs"
  shows "strip_set cs s = s"
proof -
  have "dropWhile (\<lambda>c. c \<in> set cs) s = s" using assms(1,2) by (cases s) auto
  moreover have "dropWhile (\<lambda>c. c \<in> set cs) (rev s) = rev s"
    using assms(1,3) by (cases s rule: rev_cases) auto
  ultimately show ?thesis by (simp add: strip_set_def)
qed

lemma uuid_core_dashed:
  assumes "list_all (\<lambda>c. is_hex c \<or> c = CHR ''-'') s" "s \<noteq> []"
  shows "uuid_core s = filter (\<lambda>c. c \<noteq> CHR ''-'') s"
proof -
  have c: "c \<noteq> CHR ''u'' \<and> c \<noteq> CHR ''{'' \<and> c \<noteq> CHR ''}''" if "c \<in> set s" for c
  proof -
    from that assms(1) have "is_hex c \<or> c = CHR ''-''" by (auto simp: list_all_iff)
    then show ?thesis by (auto simp: is_hex_def hex_val_def Let_def)
  qed
  have u: "CHR ''u'' \<notin> set s" "hd s \<notin> set ''{}''" "last s \<notin> set ''{}''"
    using c c [OF hd_in_set [OF assms(2)]] c [OF last_in_set [OF assms(2)]] by auto
  then show ?thesis
    using assms(2) by (simp add: uuid_core_def replace_empty_def remove_all_id strip_set_ends)
qed

end
