(* ===== verification/Validators.thy ===== *)
theory Validators
  imports Sapient Ids
begin

text \<open>
  The client-side validation of messages before they are sent
  (\<open>services/ui/app/message/validators.py\<close>): the errors of a message in the order in which the
  code finds them, and what it takes for there to be none.
\<close>

fun scalar_in_unit_interval :: "flt \<Rightarrow> bool" where
  "scalar_in_unit_interval (Fin r) = (0 \<le> r \<and> r \<le> 1)"
| "scalar_in_unit_interval _ = False"

definition err :: "bool \<Rightarrow> string \<Rightarrow> string list" where
  "err cond msg = (if cond then [] else [msg])"

section \<open>Message kinds\<close>

definition mode_errors :: "nat \<Rightarrow> mode_definition \<Rightarrow> string list" where
  "mode_errors i md = (case md_task md of None \<Rightarrow> []
     | Some t \<Rightarrow> err (concurrent_tasks t \<noteq> None)
         (''Registration.mode_definition['' @ show_nat i @ ''].task.concurrent_tasks is mandatory (validator quirk)''))"

definition validate_registration :: "registration \<Rightarrow> string list" where
  "validate_registration r =
     err (node_definition r \<noteq> []) ''Registration.node_definition is mandatory''
     @ err (str_field (icd_version r) = ''BSI Flex 335 v2.0'')
         (''Registration.icd_version must be the literal '' @ [CHR 0x22] @ ''BSI Flex 335 v2.0'' @ [CHR 0x22] @ '' (validator quirk)'')
     @ err (0 < n_capabilities r) ''Registration.capabilities is mandatory''
     @ err (has_status_definition r) ''Registration.status_definition is mandatory''
     @ err (reg_modes r \<noteq> []) ''Registration.mode_definition is mandatory''
     @ err (config_models r \<noteq> []) ''Registration.config_data is mandatory''
     @ concat (map (\<lambda>(i, md). mode_errors i md) (enumerate 0 (reg_modes r)))"

definition validate_registration_ack :: "registration_ack \<Rightarrow> string list" where
  "validate_registration_ack ra = err (acceptance ra \<noteq> None) ''RegistrationAck.acceptance is mandatory''"

definition validate_status_report :: "status_report \<Rightarrow> string list" where
  "validate_status_report s =
     err (is_valid_ulid (str_field (sr_report_id s))) ''StatusReport.report_id is mandatory and must be a valid ULID''
     @ err (sr_system s \<noteq> 0) ''StatusReport.system is mandatory (cannot be UNSPECIFIED)''
     @ err (sr_info s \<noteq> 0) ''StatusReport.info is mandatory (cannot be UNSPECIFIED)''
     @ err (str_field (sr_mode s) \<noteq> []) ''StatusReport.mode is mandatory (validator quirk: must be non-empty)''
     @ (if str_field (active_task_id s) \<noteq> []
        then err (is_valid_ulid (str_field (active_task_id s))) ''StatusReport.active_task_id must be a valid ULID when set''
        else [])"

definition validate_detection_report :: "detection_report \<Rightarrow> string list" where
  "validate_detection_report d =
     err (is_valid_ulid (str_field (dr_report_id d))) ''DetectionReport.report_id is mandatory and must be a valid ULID''
     @ err (is_valid_ulid (str_field (object_id d))) ''DetectionReport.object_id is mandatory and must be a valid ULID''
     @ (if str_field (dr_task_id d) \<noteq> []
        then err (is_valid_ulid (str_field (dr_task_id d))) ''DetectionReport.task_id must be a valid ULID when set''
        else [])
     @ (let has_loc = has_location (dr_place d); has_rb = has_range_bearing (dr_place d)
        in err (has_loc \<or> has_rb) ''DetectionReport must have either location or range_bearing''
           @ err (\<not> (has_loc \<and> has_rb)) ''DetectionReport must NOT have both location and range_bearing'')
     @ (case detection_confidence d of None \<Rightarrow> []
        | Some c \<Rightarrow> err (scalar_in_unit_interval c) ''DetectionReport.detection_confidence must be in [0,1]'')"

definition validate_task :: "task \<Rightarrow> string list" where
  "validate_task t =
     err (is_valid_ulid (str_field (t_task_id t))) ''Task.task_id is mandatory and must be a valid ULID''
     @ err (control t \<noteq> 0) ''Task.control is mandatory (cannot be UNSPECIFIED)''"

definition validate_task_ack :: "task_ack \<Rightarrow> string list" where
  "validate_task_ack ta =
     err (is_valid_ulid (str_field (ta_task_id ta))) ''TaskAck.task_id is mandatory and must be a valid ULID''
     @ err (task_status ta \<noteq> 0) ''TaskAck.task_status is mandatory (cannot be UNSPECIFIED)''"

definition validate_alert :: "alert \<Rightarrow> string list" where
  "validate_alert a =
     err (is_valid_ulid (str_field (alert_id a))) ''Alert.alert_id is mandatory and must be a valid ULID''
     @ (case ranking a of None \<Rightarrow> [] | Some x \<Rightarrow> err (scalar_in_unit_interval x) ''Alert.ranking must be in [0,1]'')
     @ (case confidence a of None \<Rightarrow> [] | Some x \<Rightarrow> err (scalar_in_unit_interval x) ''Alert.confidence must be in [0,1]'')
     @ (if str_field (region_id a) \<noteq> []
        then err (is_valid_ulid (str_field (region_id a))) ''Alert.region_id must be a valid ULID when set'' else [])"

definition validate_alert_ack :: "alert_ack \<Rightarrow> string list" where
  "validate_alert_ack aa =
     err (is_valid_ulid (str_field (aa_alert_id aa))) ''AlertAck.alert_id is mandatory and must be a valid ULID''
     @ err (alert_ack_status aa \<noteq> 0) ''AlertAck.alert_ack_status is mandatory (cannot be UNSPECIFIED)''"

definition validate_error :: "error_report \<Rightarrow> string list" where
  "validate_error e =
     err (0 < packet_length e) ''Error.packet is mandatory (must be non-empty bytes)''
     @ err (error_messages e \<noteq> []) ''Error.error_message is mandatory (at least one entry)''"

fun validate_content :: "content \<Rightarrow> string list" where
  "validate_content (Registration r) = validate_registration r"
| "validate_content (RegistrationAck r) = validate_registration_ack r"
| "validate_content (StatusReport s) = validate_status_report s"
| "validate_content (DetectionReport d) = validate_detection_report d"
| "validate_content (Task t) = validate_task t"
| "validate_content (TaskAck t) = validate_task_ack t"
| "validate_content (Alert a) = validate_alert a"
| "validate_content (AlertAck a) = validate_alert_ack a"
| "validate_content (ErrorReport e) = validate_error e"

definition validate :: "sapient_message \<Rightarrow> string list" where
  "validate m =
     err (msg_timestamp m \<noteq> None) ''SapientMessage.timestamp is mandatory''
     @ err (str_field (node_id m) \<noteq> [] \<and> is_valid_uuid (str_field (node_id m))) ''SapientMessage.node_id must be a valid UUID''
     @ (if str_field (destination_id m) \<noteq> []
        then err (is_valid_uuid (str_field (destination_id m))) ''SapientMessage.destination_id must be a valid UUID when set''
        else [])
     @ err (msg_content m \<noteq> None) ''SapientMessage.content is mandatory''
     @ (case msg_content m of None \<Rightarrow> [] | Some c \<Rightarrow> validate_content c)"

section \<open>Lemmas\<close>

lemma err_Nil [simp]: "err c m = [] \<longleftrightarrow> c"
  by (simp add: err_def)

definition hex_text :: "string \<Rightarrow> bool" where
  "hex_text s \<longleftrightarrow> list_all is_hex s"

section \<open>Each kind\<close>

lemma unit_iff: "scalar_in_unit_interval c \<longleftrightarrow> (\<exists>x. c = Fin x \<and> 0 \<le> x \<and> x \<le> 1)"
  by (cases c) auto

lemma modes_iff: "concat (map (\<lambda>(i, md). mode_errors i md) (enumerate k mds)) = []
    \<longleftrightarrow> (\<forall>md \<in> set mds. \<forall>t \<in> set_option (md_task md). concurrent_tasks t \<noteq> None)"
  by (induction mds arbitrary: k) (auto simp: mode_errors_def split: option.splits)

lemma icd_iff: "str_field v = ''BSI Flex 335 v2.0'' \<longleftrightarrow> v = Some ''BSI Flex 335 v2.0''"
  by (auto simp: str_field_def split: option.splits)

lemma opt_id_iff: "(if s \<noteq> [] then err c m else []) = [] \<longleftrightarrow> s = [] \<or> c"
  by simp

lemma opt_unit_iff: "(case v of None \<Rightarrow> [] | Some x \<Rightarrow> err (P x) m) = [] \<longleftrightarrow> (\<forall>x \<in> set_option v. P x)"
  by (cases v) auto

lemma place_iff: "err (has_location p \<or> has_range_bearing p) m @ err (\<not> (has_location p \<and> has_range_bearing p)) m' = []
    \<longleftrightarrow> p \<noteq> NoPlace"
  by (cases p) auto

lemma kind_iff:
  "validate_registration r = [] \<longleftrightarrow> node_definition r \<noteq> [] \<and> icd_version r = Some ''BSI Flex 335 v2.0''
     \<and> n_capabilities r \<noteq> 0 \<and> has_status_definition r \<and> config_models r \<noteq> [] \<and> reg_modes r \<noteq> []
     \<and> (\<forall>md \<in> set (reg_modes r). \<forall>t \<in> set_option (md_task md). concurrent_tasks t \<noteq> None)"
  "validate_registration_ack ra = [] \<longleftrightarrow> acceptance ra \<noteq> None"
  "validate_status_report s = [] \<longleftrightarrow> is_valid_ulid (str_field (sr_report_id s)) \<and> sr_system s \<noteq> 0 \<and> sr_info s \<noteq> 0
     \<and> str_field (sr_mode s) \<noteq> [] \<and> (str_field (active_task_id s) = [] \<or> is_valid_ulid (str_field (active_task_id s)))"
  "validate_detection_report d = [] \<longleftrightarrow> is_valid_ulid (str_field (dr_report_id d)) \<and> is_valid_ulid (str_field (object_id d))
     \<and> (str_field (dr_task_id d) = [] \<or> is_valid_ulid (str_field (dr_task_id d))) \<and> dr_place d \<noteq> NoPlace
     \<and> (\<forall>c \<in> set_option (detection_confidence d). \<exists>x. c = Fin x \<and> 0 \<le> x \<and> x \<le> 1)"
  "validate_task t = [] \<longleftrightarrow> is_valid_ulid (str_field (t_task_id t)) \<and> control t \<noteq> 0"
  "validate_task_ack ta = [] \<longleftrightarrow> is_valid_ulid (str_field (ta_task_id ta)) \<and> task_status ta \<noteq> 0"
  "validate_alert a = [] \<longleftrightarrow> is_valid_ulid (str_field (alert_id a))
     \<and> (\<forall>c \<in> set_option (ranking a) \<union> set_option (confidence a). \<exists>x. c = Fin x \<and> 0 \<le> x \<and> x \<le> 1)
     \<and> (str_field (region_id a) = [] \<or> is_valid_ulid (str_field (region_id a)))"
  "validate_alert_ack aa = [] \<longleftrightarrow> is_valid_ulid (str_field (aa_alert_id aa)) \<and> alert_ack_status aa \<noteq> 0"
  "validate_error e = [] \<longleftrightarrow> packet_length e \<noteq> 0 \<and> error_messages e \<noteq> []"
proof -
  show "validate_registration r = [] \<longleftrightarrow> node_definition r \<noteq> [] \<and> icd_version r = Some ''BSI Flex 335 v2.0''
     \<and> n_capabilities r \<noteq> 0 \<and> has_status_definition r \<and> config_models r \<noteq> [] \<and> reg_modes r \<noteq> []
     \<and> (\<forall>md \<in> set (reg_modes r). \<forall>t \<in> set_option (md_task md). concurrent_tasks t \<noteq> None)"
    unfolding validate_registration_def append_is_Nil_conv err_Nil icd_iff modes_iff by auto
  show "validate_registration_ack ra = [] \<longleftrightarrow> acceptance ra \<noteq> None"
    unfolding validate_registration_ack_def err_Nil ..
  show "validate_status_report s = [] \<longleftrightarrow> is_valid_ulid (str_field (sr_report_id s)) \<and> sr_system s \<noteq> 0 \<and> sr_info s \<noteq> 0
     \<and> str_field (sr_mode s) \<noteq> [] \<and> (str_field (active_task_id s) = [] \<or> is_valid_ulid (str_field (active_task_id s)))"
    unfolding validate_status_report_def append_is_Nil_conv err_Nil opt_id_iff by auto
  show "validate_detection_report d = [] \<longleftrightarrow> is_valid_ulid (str_field (dr_report_id d)) \<and> is_valid_ulid (str_field (object_id d))
     \<and> (str_field (dr_task_id d) = [] \<or> is_valid_ulid (str_field (dr_task_id d))) \<and> dr_place d \<noteq> NoPlace
     \<and> (\<forall>c \<in> set_option (detection_confidence d). \<exists>x. c = Fin x \<and> 0 \<le> x \<and> x \<le> 1)"
    unfolding validate_detection_report_def Let_def place_iff
    unfolding append_is_Nil_conv [of _ "_ @ _"] err_Nil opt_id_iff opt_unit_iff unit_iff
      place_iff [unfolded append_is_Nil_conv] by (cases "dr_place d"; cases "detection_confidence d") auto
  show "validate_task t = [] \<longleftrightarrow> is_valid_ulid (str_field (t_task_id t)) \<and> control t \<noteq> 0"
    unfolding validate_task_def append_is_Nil_conv err_Nil ..
  show "validate_task_ack ta = [] \<longleftrightarrow> is_valid_ulid (str_field (ta_task_id ta)) \<and> task_status ta \<noteq> 0"
    unfolding validate_task_ack_def append_is_Nil_conv err_Nil ..
  show "validate_alert a = [] \<longleftrightarrow> is_valid_ulid (str_field (alert_id a))
     \<and> (\<forall>c \<in> set_option (ranking a) \<union> set_option (confidence a). \<exists>x. c = Fin x \<and> 0 \<le> x \<and> x \<le> 1)
     \<and> (str_field (region_id a) = [] \<or> is_valid_ulid (str_field (region_id a)))"
    unfolding validate_alert_def append_is_Nil_conv err_Nil opt_id_iff opt_unit_iff unit_iff ball_Un by blast
  show "validate_alert_ack aa = [] \<longleftrightarrow> is_valid_ulid (str_field (aa_alert_id aa)) \<and> alert_ack_status aa \<noteq> 0"
    unfolding validate_alert_ack_def append_is_Nil_conv err_Nil ..
  show "validate_error e = [] \<longleftrightarrow> packet_length e \<noteq> 0 \<and> error_messages e \<noteq> []"
    unfolding validate_error_def append_is_Nil_conv err_Nil by simp
qed

section \<open>Properties\<close>

text \<open>Every UUID in canonical form, five groups of 8, 4, 4, 4 and 12 hexadecimal digits of
  either case joined by dashes, is accepted as a node id.\<close>

theorem canonical_uuid_valid:
  assumes "list_all (list_all is_hex) [a, b, c, d, e]" "map length [a, b, c, d, e] = [8, 4, 4, 4, 12]"
  shows "is_valid_uuid (join_with ''-'' [a, b, c, d, e])"
proof -
  have f: "filter (\<lambda>x. x \<noteq> CHR ''-'') g = g" if "list_all is_hex g" for g
    using that hex_char by (auto simp: filter_id_conv list_all_iff)
  have "uuid_core (join_with ''-'' [a, b, c, d, e]) = a @ b @ c @ d @ e"
    using assms by (subst uuid_core_dashed) (auto simp: f list_all_iff)
  with assms show ?thesis by (auto simp: is_valid_uuid_def intro!: int_hex_ok_plain)
qed

lemma canonical_uuid_valid_witness:
  "is_valid_uuid ''123e4567-E89b-12d3-a456-426614174000''"
  using canonical_uuid_valid [of "''123e4567''" "''E89b''" "''12d3''" "''a456''" "''426614174000''"]
  by (simp add: is_hex_def hex_val_def Let_def)



text \<open>The ULID check accepts a line feed behind 26 valid characters, which its comment
  (26 characters of Crockford base32) excludes.\<close>

theorem ulid_with_line_feed_accepted:
  assumes "ulid_chars s"
  shows "is_valid_ulid (s @ [CHR 0x0A]) \<and> length (s @ [CHR 0x0A]) = 27 \<and> \<not> crockford (last (s @ [CHR 0x0A]))"
  using assms by (simp add: is_valid_ulid_def ulid_chars_def crockford_def)

lemma ulid_with_line_feed_accepted_witness: "is_valid_ulid (replicate 26 CHR ''0'' @ [CHR 0x0A])"
proof -
  have "replicate 26 CHR ''0'' = CHR ''0'' # replicate 25 CHR ''0''" by (simp add: numeral_eq_Suc)
  then have "ulid_chars (replicate 26 CHR ''0'')"
    by (simp add: ulid_chars_def crockford_def list_all_iff)
  then show ?thesis using ulid_with_line_feed_accepted [of "replicate 26 CHR ''0''"] by simp
qed

end
