(* ===== verification/Templates.thy ===== *)
theory Templates
  imports Validators Cot
begin

text \<open>
  Message templates (\<open>services/ui/app/message/templates.py\<close>) and their generation from the
  protobuf descriptors (\<open>proto_to_template.py\<close>).

  The template directory is a list of name and text. ULIDs come from a supply, numbered in the
  order in which they are drawn; the parsing of protobuf's JSON encoding is the parameter
  \<open>parse_json\<close>. Descriptors are records, looked up by message name, since message types may be
  recursive.
\<close>

section \<open>Placeholders\<close>

datatype placeholder = NOW | ULID | NODE_ID | GPS_LAT | GPS_LON | GPS_ALT

fun placeholder_text :: "placeholder \<Rightarrow> string" where
  "placeholder_text NOW = ''{{NOW}}''"
| "placeholder_text ULID = ''{{ULID}}''"
| "placeholder_text NODE_ID = ''{{NODE_ID}}''"
| "placeholder_text GPS_LAT = ''{{GPS_LAT}}''"
| "placeholder_text GPS_LON = ''{{GPS_LON}}''"
| "placeholder_text GPS_ALT = ''{{GPS_ALT}}''"

definition placeholders :: "placeholder list" where
  "placeholders = [NOW, ULID, NODE_ID, GPS_LAT, GPS_LON, GPS_ALT]"

text \<open>The match of \<open>_PLACEHOLDER_RE\<close> at the front of a text, with what follows it.\<close>

definition match_placeholder :: "string \<Rightarrow> (placeholder \<times> string) option" where
  "match_placeholder s =
     (case filter (\<lambda>p. starts_with (placeholder_text p) s) placeholders of
        [] \<Rightarrow> None
      | p # _ \<Rightarrow> Some (p, drop (length (placeholder_text p)) s))"

record substitution =
  sub_now :: string
  sub_node_id :: string
  sub_gps :: "flt \<times> flt \<times> flt"
  sub_ulid :: "nat \<Rightarrow> string"

fun placeholder_value :: "substitution \<Rightarrow> nat \<Rightarrow> placeholder \<Rightarrow> string" where
  "placeholder_value v n NOW = sub_now v"
| "placeholder_value v n ULID = sub_ulid v n"
| "placeholder_value v n NODE_ID = sub_node_id v"
| "placeholder_value v n GPS_LAT = fmt_flt 7 (fst (sub_gps v))"
| "placeholder_value v n GPS_LON = fmt_flt 7 (fst (snd (sub_gps v)))"
| "placeholder_value v n GPS_ALT = fmt_flt 3 (snd (snd (sub_gps v)))"

fun drawn :: "nat \<Rightarrow> placeholder \<Rightarrow> nat" where
  "drawn n ULID = Suc n"
| "drawn n _ = n"

lemma match_placeholder_shorter:
  "match_placeholder s = Some (p, rest) \<Longrightarrow> length rest < length s"
proof -
  assume m: "match_placeholder s = Some (p, rest)"
  obtain q qs where q: "filter (\<lambda>p. starts_with (placeholder_text p) s) placeholders = q # qs"
    using m by (auto simp: match_placeholder_def split: list.splits)
  then have "q \<in> set (filter (\<lambda>p. starts_with (placeholder_text p) s) placeholders)" by simp
  then have "starts_with (placeholder_text q) s" by simp
  moreover have "placeholder_text q \<noteq> []" by (cases q) auto
  ultimately have "s \<noteq> []" by (auto simp: starts_with_def)
  moreover have "rest = drop (length (placeholder_text q)) s"
    using m q by (auto simp: match_placeholder_def)
  ultimately show ?thesis using \<open>placeholder_text q \<noteq> []\<close> by (simp add: length_greater_0_conv)
qed

text \<open>\<open>_PLACEHOLDER_RE.sub(repl, text)\<close>, where \<open>n\<close> ULIDs have been drawn.\<close>

function substitute :: "substitution \<Rightarrow> nat \<Rightarrow> string \<Rightarrow> string" where
  "substitute v n s =
     (case match_placeholder s of
        Some (p, rest) \<Rightarrow> placeholder_value v n p @ substitute v (drawn n p) rest
      | None \<Rightarrow> (case s of [] \<Rightarrow> [] | c # cs \<Rightarrow> c # substitute v n cs))"
  by pat_completeness auto
termination
  by (relation "measure (\<lambda>(v, n, s). length s)") (auto dest: match_placeholder_shorter)

declare substitute.simps [simp del]

section \<open>GPS values\<close>

definition FALLBACK_LAT :: flt where "FALLBACK_LAT = Fin (- 274705 / 10000)"
definition FALLBACK_LON :: flt where "FALLBACK_LON = Fin (1530260 / 10000)"
definition FALLBACK_ALT :: flt where "FALLBACK_ALT = Fin 28"

text \<open>The document of \<open>GET /gps/current\<close>; \<open>PNone\<close> when it cannot be fetched.\<close>

definition resolve_gps :: "pyval \<Rightarrow> (flt \<times> flt \<times> flt) res" where
  "resolve_gps fetched =
     (if \<not> truthy fetched then Inr (FALLBACK_LAT, FALLBACK_LON, FALLBACK_ALT)
      else case fetched of
        PDict fix \<Rightarrow>
          if truthy (dget fix ''ok'') then
            bindE (py_float (or_else (dget fix ''latitude'') (PFloat FALLBACK_LAT))) (\<lambda>lat.
            bindE (py_float (or_else (dget fix ''longitude'') (PFloat FALLBACK_LON))) (\<lambda>lon.
            bindE (py_float (or_else (dget fix ''altitude'') (PFloat FALLBACK_ALT))) (\<lambda>alt.
              Inr (lat, lon, alt))))
          else Inr (FALLBACK_LAT, FALLBACK_LON, FALLBACK_ALT)
      | _ \<Rightarrow> Inl (PyExc ''AttributeError'' ''object has no attribute get''))"

definition uses_gps :: "string \<Rightarrow> bool" where
  "uses_gps text \<longleftrightarrow> find_sub ''{{GPS_LAT}}'' text \<noteq> None \<or> find_sub ''{{GPS_LON}}'' text \<noteq> None
     \<or> find_sub ''{{GPS_ALT}}'' text \<noteq> None"

section \<open>Rendering\<close>

type_synonym directory = "(string \<times> string) list"

definition get_template :: "directory \<Rightarrow> string \<Rightarrow> string res" where
  "get_template dir name = (case map_of dir name of
     None \<Rightarrow> Inl (PyExc ''FileNotFoundError'' (''template not found: '' @ name)) | Some t \<Rightarrow> Inr t)"

record render_env =
  env_now :: string
  env_ulid :: "nat \<Rightarrow> string"
  env_gps :: pyval
  env_parse :: "string \<Rightarrow> sapient_message res"

definition render :: "render_env \<Rightarrow> string \<Rightarrow> string \<Rightarrow> (flt \<times> flt \<times> flt) option \<Rightarrow> sapient_message res" where
  "render env template_text node gps_override =
     (if \<not> is_valid_uuid node
      then Inl (value_error (''node_id is not a valid UUID: '' @ repr_str node))
      else bindE (case gps_override of Some g \<Rightarrow> Inr g
                  | None \<Rightarrow> if uses_gps template_text then resolve_gps (env_gps env)
                            else Inr (FALLBACK_LAT, FALLBACK_LON, FALLBACK_ALT)) (\<lambda>gps.
           env_parse env (substitute \<lparr>sub_now = env_now env, sub_node_id = node, sub_gps = gps,
                                       sub_ulid = env_ulid env\<rparr> 0 template_text)))"

section \<open>Generated templates\<close>

datatype field_type = TString | TBytes | TBool | TEnum "int list" | TFloat | TInteger | TMessage string | TOther

record field_desc =
  fd_name :: string
  repeated :: bool
  fd_type :: field_type
  is_mandatory :: bool
  is_ulid :: bool
  is_uuid :: bool
  in_oneof :: "string option"

record oneof_desc =
  oo_name :: string
  oo_mandatory :: bool
  oo_fields :: "field_desc list"

record message_desc =
  full_name :: string
  md_fields :: "field_desc list"
  md_oneofs :: "oneof_desc list"

datatype pbval = PbScalar pyval | PbBytes "nat list" | PbMessage "(string \<times> pbval) list" | PbRepeated "pbval list"

type_synonym pbmsg = "(string \<times> pbval) list"

definition validator_quirks :: "((string \<times> string) \<times> pyval) list" where
  "validator_quirks =
     [((''sapient_msg.bsi_flex_335_v2_0.Registration'', ''icd_version''), PStr ''BSI Flex 335 v2.0''),
      ((''sapient_msg.bsi_flex_335_v2_0.Registration.TaskDefinition'', ''concurrent_tasks''), PInt 1),
      ((''sapient_msg.bsi_flex_335_v2_0.StatusReport'', ''mode''), PStr ''default''),
      ((''sapient_msg.bsi_flex_335_v2_0.Alert'', ''ranking''), PFloat (Fin (1/2))),
      ((''sapient_msg.bsi_flex_335_v2_0.Alert'', ''confidence''), PFloat (Fin (9/10))),
      ((''sapient_msg.bsi_flex_335_v2_0.Registration.Duration'', ''value''), PFloat (Fin 1))]"

definition quirk_value :: "string \<Rightarrow> string \<Rightarrow> pyval option" where
  "quirk_value parent name = map_of validator_quirks (parent, name)"

fun first_non_zero :: "int list \<Rightarrow> int" where
  "first_non_zero [] = 0"
| "first_non_zero (n # ns) = (if n \<noteq> 0 then n else first_non_zero ns)"

definition placeholder_for_string :: "field_desc \<Rightarrow> string" where
  "placeholder_for_string f =
     (if is_ulid f then ''{{ULID}}'' else if is_uuid f then ''{{NODE_ID}}'' else ''sample-'' @ fd_name f)"

fun scalar_default :: "field_desc \<Rightarrow> pbval" where
  "scalar_default f = (case fd_type f of
     TString \<Rightarrow> PbScalar (PStr (placeholder_for_string f))
   | TBytes \<Rightarrow> PbBytes [1, 2, 3, 4]
   | TBool \<Rightarrow> PbScalar (PBool True)
   | TEnum ns \<Rightarrow> PbScalar (PInt (first_non_zero ns))
   | TFloat \<Rightarrow> PbScalar (PFloat (Fin 0))
   | TInteger \<Rightarrow> PbScalar (PInt 0)
   | _ \<Rightarrow> PbScalar PNone)"

definition is_synthetic :: "oneof_desc \<Rightarrow> bool" where
  "is_synthetic o1 \<longleftrightarrow> starts_with ''_'' (oo_name o1) \<and> length (oo_fields o1) = 1"

definition real_oneofs :: "message_desc \<Rightarrow> oneof_desc list" where
  "real_oneofs d = filter (\<lambda>o1. \<not> is_synthetic o1) (md_oneofs d)"

definition in_real_oneof :: "message_desc \<Rightarrow> field_desc \<Rightarrow> bool" where
  "in_real_oneof d f = (case in_oneof f of None \<Rightarrow> False
     | Some n \<Rightarrow> list_ex (\<lambda>o1. oo_name o1 = n) (real_oneofs d))"

definition append_to :: "pbmsg \<Rightarrow> string \<Rightarrow> pbval \<Rightarrow> pbmsg" where
  "append_to msg name v = AList.update name
     (PbRepeated ((case map_of msg name of Some (PbRepeated vs) \<Rightarrow> vs | _ \<Rightarrow> []) @ [v])) msg"

definition default_or :: "pyval option \<Rightarrow> field_desc \<Rightarrow> pbval" where
  "default_or override f = (case override of Some v \<Rightarrow> PbScalar v | None \<Rightarrow> scalar_default f)"

text \<open>\<open>_set_field\<close>, given how a submessage is populated. Reading a submessage does not set it: it
  is present only once something inside it is.\<close>

definition set_field ::
  "(string \<Rightarrow> pbmsg) \<Rightarrow> field_desc \<Rightarrow> pyval option \<Rightarrow> pbmsg \<Rightarrow> pbmsg" where
  "set_field populate f override msg =
     (if repeated f then
        (case fd_type f of TMessage t \<Rightarrow> append_to msg (fd_name f) (PbMessage (populate t))
         | _ \<Rightarrow> append_to msg (fd_name f) (default_or override f))
      else (case fd_type f of
              TMessage t \<Rightarrow> (let sub = populate t in
                 if sub = [] then msg else AList.update (fd_name f) (PbMessage sub) msg)
            | _ \<Rightarrow> AList.update (fd_name f) (default_or override f) msg))"

definition oneof_required :: "oneof_desc \<Rightarrow> bool" where
  "oneof_required o1 \<longleftrightarrow> oo_mandatory o1 \<or> list_ex is_mandatory (oo_fields o1)"

definition populate_fields :: "(string \<Rightarrow> pbmsg) \<Rightarrow> message_desc \<Rightarrow> pbmsg" where
  "populate_fields populate d =
     fold (\<lambda>f msg.
        if in_real_oneof d f then msg
        else let quirk = quirk_value (full_name d) (fd_name f)
             in if \<not> is_mandatory f \<and> quirk = None then msg else set_field populate f quirk msg)
       (md_fields d)
       (fold (\<lambda>o1 msg. if oneof_required o1 then (case oo_fields o1 of f # _ \<Rightarrow> set_field populate f None msg | [] \<Rightarrow> msg)
                        else msg) (real_oneofs d) [])"

text \<open>\<open>_populate_message\<close> at depth \<open>max_depth + 1 - n\<close>: the recursion stops when \<open>n\<close> is used up,
  as the code does beyond \<open>max_depth\<close>.\<close>

fun populate_message :: "(string \<Rightarrow> message_desc) \<Rightarrow> nat \<Rightarrow> string \<Rightarrow> pbmsg" where
  "populate_message env 0 t = []"
| "populate_message env (Suc n) t = populate_fields (populate_message env n) (env t)"

definition max_depth :: nat where "max_depth = 8"

text \<open>\<open>build_template_for_content\<close>: the message that is serialised. The content is populated from
  depth 1, so \<open>max_depth\<close> levels are left.\<close>

definition build_template_for_content :: "(string \<Rightarrow> message_desc) \<Rightarrow> field_desc \<Rightarrow> pbmsg res" where
  "build_template_for_content env f =
     (case fd_type f of
        TMessage t \<Rightarrow>
          (let sub = populate_message env max_depth t;
               base = [(''node_id'', PbScalar (PStr ''{{NODE_ID}}''))]
           in Inr ((if sub = [] then base else AList.update (fd_name f) (PbMessage sub) base)
                   @ [(''timestamp'', PbScalar (PStr ''{{NOW}}''))]))
      | _ \<Rightarrow> Inl (value_error (''content field is not a message: '' @ fd_name f)))"

definition list_content_cases :: "message_desc \<Rightarrow> string list" where
  "list_content_cases d = concat (map (\<lambda>o1. if oo_name o1 = ''content'' then map fd_name (oo_fields o1) else []) (md_oneofs d))"

text \<open>\<open>regenerate_all\<close>: \<open>to_json\<close> and \<open>reads_back\<close> are protobuf's serialisation and the parse
  that checks it.\<close>

fun regenerate_all ::
  "(string \<Rightarrow> message_desc) \<Rightarrow> (pbmsg \<Rightarrow> string) \<Rightarrow> (string \<Rightarrow> exn option) \<Rightarrow> field_desc list \<Rightarrow> directory
     \<Rightarrow> (string \<times> string) list res \<times> directory" where
  "regenerate_all env to_json reads_back [] dir = (Inr [], dir)"
| "regenerate_all env to_json reads_back (f # fs) dir =
     (case build_template_for_content env f of
        Inl e \<Rightarrow> (Inl e, dir)
      | Inr m \<Rightarrow>
          let body = to_json m @ [CHR 0x0A]
          in case reads_back body of
               Some e \<Rightarrow> (Inl e, dir)
             | None \<Rightarrow>
                 (case regenerate_all env to_json reads_back fs (AList.update (fd_name f) body dir) of
                    (r, dir') \<Rightarrow> (bindE r (\<lambda>w. Inr ((fd_name f, fd_name f @ ''.json'') # w)), dir')))"

section \<open>Substitution piece by piece\<close>

datatype piece = Literal string | Hole placeholder

fun piece_text :: "piece \<Rightarrow> string" where
  "piece_text (Literal s) = s"
| "piece_text (Hole p) = placeholder_text p"

fun literal_ok :: "piece \<Rightarrow> bool" where
  "literal_ok (Literal s) = (CHR ''{'' \<notin> set s)"
| "literal_ok (Hole _) = True"

fun fill_in :: "substitution \<Rightarrow> nat \<Rightarrow> piece list \<Rightarrow> string" where
  "fill_in v n [] = []"
| "fill_in v n (Literal s # ps) = s @ fill_in v n ps"
| "fill_in v n (Hole p # ps) = placeholder_value v n p @ fill_in v (drawn n p) ps"

lemma match_none: "s = [] \<or> hd s \<noteq> CHR ''{'' \<Longrightarrow> match_placeholder s = None"
  by (cases s) (auto simp: match_placeholder_def placeholders_def starts_with_def)

lemma match_own: "match_placeholder (placeholder_text p @ r) = Some (p, r)"
  by (cases p) (simp_all add: match_placeholder_def placeholders_def starts_with_def)

lemma substitute_literal:
  "CHR ''{'' \<notin> set s \<Longrightarrow> substitute v n (s @ r) = s @ substitute v n r"
proof (induction s)
  case (Cons c s)
  have "match_placeholder (c # s @ r) = None" using Cons.prems by (intro match_none) auto
  with Cons show ?case by (subst substitute.simps) simp
qed simp

lemma substitute_hole:
  "substitute v n (placeholder_text p @ r) = placeholder_value v n p @ substitute v (drawn n p) r"
  by (subst substitute.simps) (simp add: match_own)

section \<open>What populating sets\<close>

lemma keys_set_field: "fst ` set (set_field pop f ov msg) \<subseteq> insert (fd_name f) (fst ` set msg)"
  by (auto simp: set_field_def append_to_def Let_def dom_update split: field_type.splits if_splits)

lemma keys_set_field_mono: "fst ` set msg \<subseteq> fst ` set (set_field pop f ov msg)"
  by (auto simp: set_field_def append_to_def Let_def dom_update split: field_type.splits)

lemma set_field_scalar:
  "\<not> repeated f \<Longrightarrow> (\<forall>t. fd_type f \<noteq> TMessage t) \<Longrightarrow> map_of (set_field pop f ov msg) (fd_name f) = Some (default_or ov f)"
  by (auto simp: set_field_def update_conv' split: field_type.splits)

lemma set_field_other: "k \<noteq> fd_name f \<Longrightarrow> map_of (set_field pop f ov msg) k = map_of msg k"
  by (auto simp: set_field_def append_to_def Let_def update_conv' split: field_type.splits)

definition field_step :: "(string \<Rightarrow> pbmsg) \<Rightarrow> message_desc \<Rightarrow> field_desc \<Rightarrow> pbmsg \<Rightarrow> pbmsg" where
  "field_step pop d f msg =
     (if in_real_oneof d f then msg
      else if \<not> is_mandatory f \<and> quirk_value (full_name d) (fd_name f) = None then msg
      else set_field pop f (quirk_value (full_name d) (fd_name f)) msg)"

lemma fold_field_other:
  "k \<notin> fd_name ` set fs \<Longrightarrow> map_of (fold (field_step pop d) fs msg) k = map_of msg k"
  by (induction fs arbitrary: msg) (auto simp: field_step_def set_field_other)

lemma fold_field_scalar:
  assumes "f \<in> set fs" "distinct (map fd_name fs)" "\<not> repeated f" "\<forall>t. fd_type f \<noteq> TMessage t"
    and "\<not> in_real_oneof d f" "is_mandatory f \<or> quirk_value (full_name d) (fd_name f) \<noteq> None"
  shows "map_of (fold (field_step pop d) fs msg) (fd_name f) = Some (default_or (quirk_value (full_name d) (fd_name f)) f)"
  using assms(1,2)
proof (induction fs arbitrary: msg)
  case (Cons g fs)
  show ?case
  proof (cases "g = f")
    case True
    with Cons.prems have "fd_name f \<notin> fd_name ` set fs" by auto
    moreover have "field_step pop d f msg = set_field pop f (quirk_value (full_name d) (fd_name f)) msg"
      using assms(5,6) by (auto simp: field_step_def)
    ultimately show ?thesis using True by (simp add: fold_field_other set_field_scalar [OF assms(3,4)])
  next
    case False
    with Cons show ?thesis by simp
  qed
qed simp

section \<open>Properties\<close>

text \<open>Substitution replaces exactly the placeholders: literal text without an opening brace is
  kept, every placeholder becomes its value, and each ULID is the next one of the supply, so no
  two placeholders share one.\<close>

theorem substitute_pieces:
  assumes "list_all literal_ok ps"
  shows "substitute v n (concat (map piece_text ps)) = fill_in v n ps"
  using assms
proof (induction ps arbitrary: n)
  case Nil
  show ?case by (subst substitute.simps) (simp add: match_none)
next
  case (Cons p ps)
  then show ?case by (cases p) (simp_all add: substitute_literal substitute_hole)
qed

definition sample_substitution :: substitution where
  "sample_substitution = \<lparr>sub_now = ''T'', sub_node_id = ''N'', sub_gps = (Fin 1, Fin 2, Fin 3),
     sub_ulid = (\<lambda>n. if n = 0 then ''01A'' else ''01B'')\<rparr>"

lemma substitute_pieces_witness:
  "substitute sample_substitution 0 ''a: {{ULID}}, b: {{ULID}}'' = ''a: 01A, b: 01B''"
  using substitute_pieces [of "[Literal ''a: '', Hole ULID, Literal '', b: '', Hole ULID]" sample_substitution 0]
  by (simp add: sample_substitution_def)

text \<open>A position on the equator is lost: a valid fix with latitude 0 renders with the fallback
  latitude of Brisbane, since \<open>0.0 or fallback\<close> is the fallback.\<close>

theorem equator_renders_as_fallback:
  assumes "truthy (dget fix ''ok'')" "dget fix ''latitude'' = PFloat (Fin 0)"
    and "dget fix ''longitude'' = PFloat lon" "dget fix ''altitude'' = PFloat alt" "lon \<noteq> Fin 0" "alt \<noteq> Fin 0"
  shows "resolve_gps (PDict fix) = Inr (FALLBACK_LAT, lon, alt)"
proof -
  have "fix \<noteq> []" using assms(1) by (auto simp: dget_def)
  with assms show ?thesis by (simp add: resolve_gps_def or_else_def)
qed

lemma equator_renders_as_fallback_witness:
  "resolve_gps (PDict [(''ok'', PBool True), (''latitude'', PFloat (Fin 0)), (''longitude'', PFloat (Fin 9)), (''altitude'', PFloat (Fin 5))])
     = Inr (FALLBACK_LAT, Fin 9, Fin 5)"
  by (rule equator_renders_as_fallback) (simp_all add: dget_def)

text \<open>A generated template sets every mandatory field of a message that is neither repeated
  nor a submessage and is not part of a choice, and every field the reference validator asks
  for: to the quirk's value where there is one and to its default otherwise.\<close>

theorem mandatory_scalars_set:
  assumes "f \<in> set (md_fields (env t))" "distinct (map fd_name (md_fields (env t)))"
    and "\<not> repeated f" "\<forall>u. fd_type f \<noteq> TMessage u" "\<not> in_real_oneof (env t) f"
    and "is_mandatory f \<or> quirk_value (full_name (env t)) (fd_name f) \<noteq> None"
  shows "map_of (populate_message env (Suc n) t) (fd_name f)
    = Some (case quirk_value (full_name (env t)) (fd_name f) of Some v \<Rightarrow> PbScalar v | None \<Rightarrow> scalar_default f)"
proof -
  have "(\<lambda>f msg. if in_real_oneof (env t) f then msg
        else let quirk = quirk_value (full_name (env t)) (fd_name f)
             in if \<not> is_mandatory f \<and> quirk = None then msg else set_field (populate_message env n) f quirk msg)
      = field_step (populate_message env n) (env t)"
    by (intro ext) (simp add: field_step_def Let_def)
  then show ?thesis
    using fold_field_scalar [OF assms] by (simp add: populate_fields_def default_or_def)
qed

definition mode_field :: field_desc where
  "mode_field = \<lparr>fd_name = ''mode'', repeated = False, fd_type = TString, is_mandatory = True,
     is_ulid = False, is_uuid = False, in_oneof = Some ''_mode''\<rparr>"

definition status_desc :: message_desc where
  "status_desc = \<lparr>full_name = ''sapient_msg.bsi_flex_335_v2_0.StatusReport'', md_fields = [mode_field],
     md_oneofs = [\<lparr>oo_name = ''_mode'', oo_mandatory = False, oo_fields = [mode_field]\<rparr>]\<rparr>"

lemma mandatory_scalars_set_witness:
  "map_of (populate_message (\<lambda>_. status_desc) (Suc 0) ''s'') ''mode'' = Some (PbScalar (PStr ''default''))"
  using mandatory_scalars_set [of mode_field "\<lambda>_. status_desc" "''s''" 0]
  by (simp add: status_desc_def mode_field_def in_real_oneof_def real_oneofs_def is_synthetic_def
      starts_with_def quirk_value_def validator_quirks_def)

end
