(* ===== verification/Flow.thy ===== *)
theory Flow
  imports Templates
begin

text \<open>
  The flow runner (\<open>services/ui/app/message/flow.py\<close>): several steps over one connection, each
  rendering a template, sending it and waiting for a reply or draining.

  Time is the monotonic clock, in seconds since the start of the run; only sleeping and waiting
  take time. The inbox is the list of messages that the background reader will queue, with the
  times at which it does, in order of arrival: \<open>wait_for(inbox.get(), d)\<close> returns the next one
  if it is there within \<open>d\<close> and otherwise lets \<open>d\<close> pass. How a step renders, what protobuf
  serialises, whether a write succeeds, and whether rendering and draining suspend the flow are
  arguments.
\<close>

record step =
  template_name :: string
  raw_json :: "string option"
  wait_for :: "string option"
  recv_timeout_s :: rat
  drain_after_s :: rat
  gap_before_s :: rat

record inbound =
  arrives :: rat
  in_payload :: bytes
  in_message :: sapient_message

datatype direction = Sent | Recv

record entry =
  t_ms :: rat
  at_step :: nat
  dir :: direction
  n_bytes :: nat
  entry_content :: "string option"

record step_result =
  index :: nat
  sr_template :: string
  sr_wait_for :: "string option"
  sr_recv_timeout :: rat
  sr_drain_after :: rat
  sr_gap_before :: rat
  validation_errors :: "string list"
  sr_sent :: bool
  recv_count :: nat
  matched_wait_for :: "string option"
  elapsed_ms :: rat
  step_error :: "string option"
  skipped :: bool

text \<open>What a running flow carries: the clock, the messages not yet taken from the inbox, the
  transcript, the bytes written to the connection (one element for each write that succeeded),
  and whether the flow has been suspended at least once. The background reader is a task created
  before the first step; it runs for the first time when the flow is first suspended.\<close>

record run_state =
  clock :: rat
  inbox :: "inbound list"
  transcript :: "entry list"
  sent_frames :: "bytes list"
  reader_ran :: bool

record flow_env =
  f_render :: "nat \<Rightarrow> step \<Rightarrow> sapient_message res"
  f_serialise :: "sapient_message \<Rightarrow> bytes"
  f_write_error :: "nat \<Rightarrow> exn option"
  f_validate :: bool
  f_render_waits :: "nat \<Rightarrow> bool"
  f_drain_waits :: "nat \<Rightarrow> bool"

definition stamp :: "direction \<Rightarrow> string option \<Rightarrow> bytes \<Rightarrow> nat \<Rightarrow> run_state \<Rightarrow> run_state" where
  "stamp d content payload idx s =
     s\<lparr>transcript := transcript s @ [\<lparr>t_ms = round_dec 3 (clock s * 1000), at_step = idx, dir = d,
                                        n_bytes = length payload, entry_content = content\<rparr>]\<rparr>"

definition ms_since :: "rat \<Rightarrow> run_state \<Rightarrow> rat" where
  "ms_since t0 s = round_dec 3 ((clock s - t0) * 1000)"

text \<open>A receive loop with deadline \<open>dl\<close>. It stops at a message of the awaited kind, if one is
  awaited, and otherwise at the deadline. It returns the number received and whether it stopped
  at a match.\<close>

function receive_loop :: "rat \<Rightarrow> string option \<Rightarrow> nat \<Rightarrow> run_state \<Rightarrow> (nat \<times> bool) \<times> run_state" where
  "receive_loop dl want idx s =
     (if dl \<le> clock s then ((0, False), s)
      else case inbox s of
             [] \<Rightarrow> ((0, False), s\<lparr>clock := dl, reader_ran := True\<rparr>)
           | i # rest \<Rightarrow>
               if dl < arrives i then ((0, False), s\<lparr>clock := dl, reader_ran := True\<rparr>)
               else
                 let content = which_content (in_message i);
                     s1 = stamp Recv content (in_payload i) idx
                            (s\<lparr>clock := max (clock s) (arrives i), inbox := rest, reader_ran := True\<rparr>)
                 in if want \<noteq> None \<and> content = want then ((1, True), s1)
                    else (case receive_loop dl want idx s1 of ((n, m), s2) \<Rightarrow> ((n + 1, m), s2)))"
  by pat_completeness auto
termination
  by (relation "measure (\<lambda>(dl, want, idx, s). length (inbox s))") (auto simp: stamp_def)

declare receive_loop.simps [simp del]

text \<open>\<open>step.wait_for\<close> is awaited when it is a non-empty text.\<close>

definition awaited :: "step \<Rightarrow> string option" where
  "awaited st = (case wait_for st of Some w \<Rightarrow> if w = [] then None else Some w | None \<Rightarrow> None)"

definition base_result :: "nat \<Rightarrow> step \<Rightarrow> step_result" where
  "base_result idx st =
     \<lparr>index = idx, sr_template = template_name st, sr_wait_for = wait_for st,
      sr_recv_timeout = recv_timeout_s st, sr_drain_after = drain_after_s st, sr_gap_before = gap_before_s st,
      validation_errors = [], sr_sent = False, recv_count = 0, matched_wait_for = None, elapsed_ms = 0,
      step_error = None, skipped = True\<rparr>"

definition started :: "nat \<Rightarrow> step \<Rightarrow> step_result" where
  "started idx st = (base_result idx st)\<lparr>skipped := False\<rparr>"

fun render_error :: "exn \<Rightarrow> string" where
  "render_error (PyExc c m) =
     (if c = ''FileNotFoundError'' then ''template not found: '' @ m else ''render failed: '' @ m)"
| "render_error (HttpExc n m) = ''render failed: '' @ m"

definition overall :: "nat \<Rightarrow> string \<Rightarrow> string option" where
  "overall idx msg = Some (''step '' @ show_nat idx @ '': '' @ msg)"

text \<open>The receiving part of a step, after its message has been written.\<close>

definition receive_phase :: "nat \<Rightarrow> step \<Rightarrow> run_state \<Rightarrow> (nat \<times> bool) \<times> run_state" where
  "receive_phase idx st s =
     (case receive_loop (clock s + recv_timeout_s st) (awaited st) idx s of
        ((n, matched), s1) \<Rightarrow>
          if awaited st = None \<and> 0 < drain_after_s st
          then (case receive_loop (clock s1 + drain_after_s st) None idx s1 of
                  ((n2, _), s2) \<Rightarrow> ((n + n2, matched), s2))
          else ((n, matched), s1))"

text \<open>One step: its record, the overall error that ends the flow, and the new state.\<close>

definition run_step :: "flow_env \<Rightarrow> nat \<Rightarrow> step \<Rightarrow> run_state \<Rightarrow> step_result \<times> string option \<times> run_state" where
  "run_step env idx st s0 =
     (let step_start = clock s0;
          sg = (if 0 < gap_before_s st
                then s0\<lparr>clock := clock s0 + gap_before_s st, reader_ran := True\<rparr> else s0);
          s = sg\<lparr>reader_ran := reader_ran sg \<or> f_render_waits env idx\<rparr>;
          rec = started idx st
      in case f_render env idx st of
           Inl e \<Rightarrow> (rec\<lparr>step_error := Some (render_error e)\<rparr>, overall idx (render_error e), s)
         | Inr m \<Rightarrow>
             let errs = (if f_validate env then validate m else []);
                 rec1 = rec\<lparr>validation_errors := errs\<rparr>
             in if errs \<noteq> []
                then (rec1\<lparr>step_error := Some ''validation failed (client-side); not sent''\<rparr>,
                      overall idx ''validation failed'', s)
                else
                  let payload = f_serialise env m;
                      s1 = stamp Sent (which_content m) payload idx s
                  in case (case encode payload of Inl e \<Rightarrow> Inl e
                           | Inr fr \<Rightarrow> (case f_write_error env idx of Some e \<Rightarrow> Inl e | None \<Rightarrow> Inr fr)) of
                       Inl e \<Rightarrow> (rec1\<lparr>step_error := Some (''write failed: '' @ exn_str e)\<rparr>,
                                 overall idx (''write failed: '' @ exn_str e), s1)
                     | Inr fr \<Rightarrow>
                         (case receive_phase idx st (s1\<lparr>sent_frames := sent_frames s1 @ [fr],
                                                  reader_ran := reader_ran s1 \<or> f_drain_waits env idx\<rparr>) of
                            ((n, matched), s2) \<Rightarrow>
                              let rec2 = rec1\<lparr>sr_sent := True, recv_count := n,
                                             matched_wait_for := (if matched then awaited st else None),
                                             elapsed_ms := ms_since step_start s2\<rparr>
                              in case awaited st of
                                   Some w \<Rightarrow>
                                     if matched then (rec2, None, s2)
                                     else (rec2\<lparr>step_error := Some (''timeout waiting for '' @ w)\<rparr>,
                                           overall idx (''timeout waiting for '' @ w), s2)
                                 | None \<Rightarrow> (rec2, None, s2)))"

fun run_steps :: "flow_env \<Rightarrow> nat \<Rightarrow> step list \<Rightarrow> run_state \<Rightarrow> step_result list \<times> string option \<times> run_state" where
  "run_steps env idx [] s = ([], None, s)"
| "run_steps env idx (st # sts) s =
     (case run_step env idx st s of
        (r, Some e, s1) \<Rightarrow> ([r], Some e, s1)
      | (r, None, s1) \<Rightarrow> (case run_steps env (idx + 1) sts s1 of (rs, e, s2) \<Rightarrow> (r # rs, e, s2)))"

record flow_result =
  fr_template :: string
  fr_error :: "string option"
  fr_steps :: "step_result list"
  fr_transcript :: "entry list"

text \<open>The separator is the arrow U+2192, written here with two characters.\<close>

definition arrow :: string where "arrow = ''->''"

text \<open>\<open>_finalise\<close>: every step has a record, the unreached ones as skipped.\<close>

definition finalise :: "step list \<Rightarrow> entry list \<Rightarrow> step_result list \<Rightarrow> string option \<Rightarrow> flow_result" where
  "finalise steps tr results error =
     \<lparr>fr_template = ''flow:'' @ join_with arrow (map template_name steps), fr_error = error,
      fr_steps = map (\<lambda>(i, st). if i < length results then results ! i else base_result i st) (enumerate 0 steps),
      fr_transcript = tr\<rparr>"

text \<open>\<open>run_flow\<close>. The outcome of connecting is the exception, or \<open>None\<close>. The second component is
  what was written to the connection. At the end the reader task is cancelled and awaited. A task
  cancelled before its first step never enters the \<open>try\<close> of its body, so awaiting it raises
  \<open>CancelledError\<close>, which is a \<open>BaseException\<close> and passes \<open>except Exception\<close>.\<close>

definition run_flow ::
  "flow_env \<Rightarrow> string \<Rightarrow> step list \<Rightarrow> exn option \<Rightarrow> inbound list \<Rightarrow> (flow_result \<times> bytes list) res" where
  "run_flow env host steps connect_error inbound =
     (if host = [] then Inl (value_error ''host is required'')
      else if steps = [] then Inl (value_error ''flow must contain at least one step'')
      else case connect_error of
             Some e \<Rightarrow> Inr (finalise steps [] [] (Some (''connect: '' @ exn_str e)), [])
           | None \<Rightarrow>
               (case run_steps env 0 steps \<lparr>clock = 0, inbox = inbound, transcript = [], sent_frames = [], reader_ran = False\<rparr> of
                  (rs, e, s) \<Rightarrow>
                    if reader_ran s then Inr (finalise steps (transcript s) rs e, sent_frames s)
                    else Inl (PyExc ''CancelledError'' [])))"

section \<open>The receive loop\<close>

definition recv_only :: "nat \<Rightarrow> entry list \<Rightarrow> bool" where
  "recv_only idx es \<longleftrightarrow> list_all (\<lambda>e. dir e = Recv \<and> at_step e = idx) es"

lemma receive_loop_facts:
  "case receive_loop dl want idx s of ((n, matched), s') \<Rightarrow>
     sent_frames s' = sent_frames s \<and> clock s \<le> clock s' \<and> clock s' \<le> max (clock s) dl
     \<and> (\<exists>es. transcript s' = transcript s @ es \<and> length es = n \<and> recv_only idx es
          \<and> (matched \<longrightarrow> want \<noteq> None \<and> es \<noteq> [] \<and> entry_content (last es) = want))
     \<and> (\<not> matched \<longrightarrow> clock s' = max (clock s) dl)
     \<and> reader_ran s' = (reader_ran s \<or> clock s < dl)"
proof (induction dl want idx s rule: receive_loop.induct)
  case (1 dl want idx s)
  show ?case
  proof (cases "dl \<le> clock s")
    case True
    then show ?thesis by (subst receive_loop.simps) (simp add: recv_only_def)
  next
    case False
    show ?thesis
    proof (cases "inbox s")
      case Nil
      with False show ?thesis by (subst receive_loop.simps) (simp add: recv_only_def)
    next
      case (Cons i rest)
      show ?thesis
      proof (cases "dl < arrives i")
        case True
        with False Cons show ?thesis by (subst receive_loop.simps) (simp add: recv_only_def)
      next
        case late: False
        define s1 where "s1 = stamp Recv (which_content (in_message i)) (in_payload i) idx
            (s\<lparr>clock := max (clock s) (arrives i), inbox := rest, reader_ran := True\<rparr>)"
        obtain e where e: "transcript s1 = transcript s @ [e]" "dir e = Recv" "at_step e = idx"
            "entry_content e = which_content (in_message i)"
          by (simp add: s1_def stamp_def)
        have s1: "sent_frames s1 = sent_frames s" "clock s1 = max (clock s) (arrives i)" "reader_ran s1"
          by (simp_all add: s1_def stamp_def)
        show ?thesis
        proof (cases "want \<noteq> None \<and> which_content (in_message i) = want")
          case True
          then have "receive_loop dl want idx s = ((1, True), s1)"
            using False Cons late by (subst receive_loop.simps) (simp add: s1_def)
          then show ?thesis using True False late e s1 by (auto simp: recv_only_def)
        next
          case nomatch: False
          obtain n m s2 where r: "receive_loop dl want idx s1 = ((n, m), s2)" by (metis prod_cases3 surj_pair)
          have step: "receive_loop dl want idx s = ((n + 1, m), s2)"
            using False Cons late nomatch r by (subst receive_loop.simps) (auto simp: s1_def Let_def)
          have IH: "sent_frames s2 = sent_frames s1 \<and> clock s1 \<le> clock s2 \<and> clock s2 \<le> max (clock s1) dl
            \<and> (\<exists>es. transcript s2 = transcript s1 @ es \<and> length es = n \<and> recv_only idx es
                 \<and> (m \<longrightarrow> want \<noteq> None \<and> es \<noteq> [] \<and> entry_content (last es) = want))
            \<and> (\<not> m \<longrightarrow> clock s2 = max (clock s1) dl)
            \<and> reader_ran s2 = (reader_ran s1 \<or> clock s1 < dl)"
            using 1 [OF False Cons late refl s1_def nomatch] r by simp
          then obtain es where es: "transcript s2 = transcript s1 @ es" "length es = n" "recv_only idx es"
            "m \<longrightarrow> want \<noteq> None \<and> es \<noteq> [] \<and> entry_content (last es) = want" by blast
          have "transcript s2 = transcript s @ (e # es) \<and> length (e # es) = n + 1 \<and> recv_only idx (e # es)
              \<and> (m \<longrightarrow> want \<noteq> None \<and> e # es \<noteq> [] \<and> entry_content (last (e # es)) = want)"
            using es e by (auto simp: recv_only_def)
          with IH s1 late False show ?thesis unfolding step prod.case by auto
        qed
      qed
    qed
  qed
qed

lemma receive_phase_facts:
  assumes "receive_phase idx st s = ((n, matched), s')"
  shows "sent_frames s' = sent_frames s" "clock s \<le> clock s'"
    "clock s' \<le> clock s + max 0 (recv_timeout_s st) + max 0 (drain_after_s st)"
    "\<exists>es. transcript s' = transcript s @ es \<and> length es = n \<and> recv_only idx es
       \<and> (matched \<longrightarrow> awaited st \<noteq> None \<and> es \<noteq> [] \<and> entry_content (last es) = awaited st)"
proof -
  obtain n1 m1 s1 where r1: "receive_loop (clock s + recv_timeout_s st) (awaited st) idx s = ((n1, m1), s1)"
    by (metis prod_cases3 surj_pair)
  note f1 = receive_loop_facts [where dl = "clock s + recv_timeout_s st" and want = "awaited st" and idx = idx and s = s, unfolded r1 prod.case]
  have "sent_frames s' = sent_frames s \<and> clock s \<le> clock s'
    \<and> clock s' \<le> clock s + max 0 (recv_timeout_s st) + max 0 (drain_after_s st)
    \<and> (\<exists>es. transcript s' = transcript s @ es \<and> length es = n \<and> recv_only idx es
       \<and> (matched \<longrightarrow> awaited st \<noteq> None \<and> es \<noteq> [] \<and> entry_content (last es) = awaited st))"
  proof (cases "awaited st = None \<and> 0 < drain_after_s st")
    case False
    with assms r1 have "n = n1" "matched = m1" "s' = s1" by (auto simp: receive_phase_def)
    with f1 show ?thesis by (auto simp: max_def split: if_splits)
  next
    case True
    obtain n2 m2 s2 where r2: "receive_loop (clock s1 + drain_after_s st) None idx s1 = ((n2, m2), s2)"
      by (metis prod_cases3 surj_pair)
    note f2 = receive_loop_facts [where dl = "clock s1 + drain_after_s st" and want = None and idx = idx and s = s1, unfolded r2 prod.case]
    from True assms r1 r2 have eqs: "n = n1 + n2" "matched = m1" "s' = s2" by (auto simp: receive_phase_def)
    from f1 True have "\<not> m1" by auto
    moreover from f1 f2 obtain e1 e2 where "transcript s2 = transcript s @ e1 @ e2" "length e1 = n1" "length e2 = n2"
      "recv_only idx e1" "recv_only idx e2" by auto
    then have "\<exists>es. transcript s2 = transcript s @ es \<and> length es = n1 + n2 \<and> recv_only idx es"
      by (intro exI [of _ "e1 @ e2"]) (auto simp: recv_only_def)
    ultimately show ?thesis using f1 f2 unfolding eqs by (auto simp: max_def split: if_splits)
  qed
  then show "sent_frames s' = sent_frames s" "clock s \<le> clock s'"
    "clock s' \<le> clock s + max 0 (recv_timeout_s st) + max 0 (drain_after_s st)"
    "\<exists>es. transcript s' = transcript s @ es \<and> length es = n \<and> recv_only idx es
       \<and> (matched \<longrightarrow> awaited st \<noteq> None \<and> es \<noteq> [] \<and> entry_content (last es) = awaited st)"
    by blast+
qed


section \<open>One step\<close>

text \<open>What is sent at a step.\<close>

definition payload_of :: "flow_env \<Rightarrow> nat \<Rightarrow> step \<Rightarrow> bytes" where
  "payload_of env idx st = (case f_render env idx st of Inl e \<Rightarrow> [] | Inr m \<Rightarrow> f_serialise env m)"

definition recvs_at :: "nat \<Rightarrow> entry list \<Rightarrow> entry list" where
  "recvs_at idx es = filter (\<lambda>e. at_step e = idx \<and> dir e = Recv) es"

lemma recvs_at_simps [simp]:
  "recvs_at idx (xs @ ys) = recvs_at idx xs @ recvs_at idx ys" "recvs_at idx [] = []"
  by (simp_all add: recvs_at_def)

lemma recvs_at_recv_only: "recv_only idx es \<Longrightarrow> recvs_at idx es = es"
  by (auto simp: recvs_at_def recv_only_def list_all_iff)

lemma recvs_at_other: "list_all (\<lambda>e. at_step e = j) es \<Longrightarrow> j \<noteq> idx \<Longrightarrow> recvs_at idx es = []"
  by (auto simp: recvs_at_def list_all_iff filter_empty_conv)

lemma recvs_at_concat_none:
  "\<forall>es\<in>set ess. \<forall>e\<in>set es. at_step e \<noteq> idx \<Longrightarrow> recvs_at idx (concat ess) = []"
  by (auto simp: recvs_at_def filter_empty_conv)

lemma recvs_at_concat:
  assumes "\<forall>j<length ess. list_all (\<lambda>e. at_step e = b + j) (ess ! j)"
  shows "recvs_at (b + i) (concat ess) = (if i < length ess then recvs_at (b + i) (ess ! i) else [])"
  using assms
proof (induction ess arbitrary: b i)
  case (Cons es ess)
  have es: "list_all (\<lambda>e. at_step e = b) es" using Cons.prems by (metis add_0_right length_greater_0_conv list.distinct(1) nth_Cons_0)
  have "\<forall>j<length ess. list_all (\<lambda>e. at_step e = Suc b + j) (ess ! j)"
    using Cons.prems by (metis Suc_less_eq add_Suc_shift length_Cons nth_Cons_Suc)
  note IH = Cons.IH [OF this]
  show ?case
  proof (cases i)
    case 0
    have "\<forall>e\<in>set x. at_step e \<noteq> b" if x: "x \<in> set ess" for x
    proof -
      obtain j where j: "j < length ess" "x = ess ! j" using x by (auto simp: in_set_conv_nth)
      then have "list_all (\<lambda>e. at_step e = b + Suc j) x"
        using Cons.prems by (metis Suc_less_eq length_Cons nth_Cons_Suc)
      then show ?thesis by (auto simp: list_all_iff)
    qed
    then have "recvs_at b (concat ess) = []" by (intro recvs_at_concat_none) blast
    with 0 show ?thesis by simp
  next
    case (Suc k)
    then show ?thesis using IH [of k] recvs_at_other [OF es, of "b + i"] by simp
  qed
qed simp

text \<open>What a step adds: the frames it sends and the entries it records, with its own record.\<close>

definition step_adds :: "flow_env \<Rightarrow> nat \<Rightarrow> step \<Rightarrow> step_result \<Rightarrow> bytes list \<Rightarrow> entry list \<Rightarrow> bool" where
  "step_adds env idx st r fs es \<longleftrightarrow>
     index r = idx \<and> \<not> skipped r \<and> sr_template r = template_name st
     \<and> (step_error r = None \<longrightarrow> sr_sent r)
     \<and> fs = (if sr_sent r then [frame (payload_of env idx st)] else [])
     \<and> (sr_sent r \<longrightarrow> length (payload_of env idx st) < 4294967296
          \<and> (f_validate env \<longrightarrow> validation_errors r = [])
          \<and> (\<exists>m. f_render env idx st = Inr m \<and> (f_validate env \<longrightarrow> validate m = [])))
     \<and> list_all (\<lambda>e. at_step e = idx) es \<and> length (recvs_at idx es) = recv_count r
     \<and> (\<forall>w. matched_wait_for r = Some w \<longrightarrow>
          wait_for st = Some w \<and> es \<noteq> [] \<and> dir (last es) = Recv \<and> entry_content (last es) = Some w)
     \<and> (awaited st \<noteq> None \<and> step_error r = None \<longrightarrow> matched_wait_for r = awaited st)"

lemma encode_InrD: "encode p = Inr fr \<Longrightarrow> fr = frame p \<and> length p < 4294967296"
  by (auto simp: encode_def frame_def split: if_splits)

lemma awaited_wait_for: "awaited st = Some w \<Longrightarrow> wait_for st = Some w"
  by (auto simp: awaited_def split: option.splits if_splits)

lemma run_step_facts:
  assumes "run_step env idx st s0 = (r, e, s1)"
  shows "\<exists>fs es. step_adds env idx st r fs es \<and> sent_frames s1 = sent_frames s0 @ fs
    \<and> transcript s1 = transcript s0 @ es \<and> (e = None) = (step_error r = None)"
proof -
  define sg where "sg = (if 0 < gap_before_s st
    then s0\<lparr>clock := clock s0 + gap_before_s st, reader_ran := True\<rparr> else s0)"
  define s where "s = sg\<lparr>reader_ran := reader_ran sg \<or> f_render_waits env idx\<rparr>"
  have s: "sent_frames s = sent_frames s0" "transcript s = transcript s0" by (simp_all add: s_def sg_def)
  note unf = assms [unfolded run_step_def Let_def, folded sg_def, folded s_def]
  show ?thesis
  proof (cases "f_render env idx st")
    case (Inl x)
    with unf s show ?thesis
      by (auto simp: step_adds_def started_def base_result_def overall_def)
  next
    case (Inr m)
    define errs where "errs = (if f_validate env then validate m else [])"
    define t1 where "t1 = stamp Sent (which_content m) (f_serialise env m) idx s"
    note unf2 = unf [unfolded Inr sum.case, folded errs_def t1_def]
    have pay: "payload_of env idx st = f_serialise env m" by (simp add: payload_of_def Inr)
    obtain e0 where t1: "sent_frames t1 = sent_frames s0" "transcript t1 = transcript s0 @ [e0]" "dir e0 = Sent" "at_step e0 = idx"
      by (simp add: t1_def stamp_def s)
    show ?thesis
    proof (cases "errs = []")
      case False
      with unf2 s show ?thesis
        by (auto simp: step_adds_def started_def base_result_def overall_def)
    next
      case True
      define w where "w = (case encode (f_serialise env m) of Inl e \<Rightarrow> Inl e
         | Inr fr \<Rightarrow> (case f_write_error env idx of Some e \<Rightarrow> Inl e | None \<Rightarrow> Inr fr))"
      note unf3 = unf2 [folded w_def]
      show ?thesis
      proof (cases w)
        case (Inl x)
        with True unf3 t1 have "sent_frames s1 = sent_frames s0 @ []" "transcript s1 = transcript s0 @ [e0]"
          and "step_adds env idx st r [] [e0] \<and> (e = None) = (step_error r = None)"
          by (auto simp: step_adds_def started_def base_result_def overall_def recvs_at_def)
        then show ?thesis by (intro exI [of _ "[]"] exI [of _ "[e0]"] conjI) simp_all
      next
        case (Inr fr)
        then have fr: "fr = frame (f_serialise env m)" "length (f_serialise env m) < 4294967296"
          by (auto simp: w_def dest!: encode_InrD split: sum.splits option.splits)
        define t2 where "t2 = t1\<lparr>sent_frames := sent_frames t1 @ [fr], reader_ran := reader_ran t1 \<or> f_drain_waits env idx\<rparr>"
        obtain n matched s2 where p: "receive_phase idx st t2 = ((n, matched), s2)" by (metis prod_cases3 surj_pair)
        note facts = receive_phase_facts [OF p]
        obtain es where es: "transcript s2 = transcript t2 @ es" "length es = n" "recv_only idx es"
          "matched \<longrightarrow> awaited st \<noteq> None \<and> es \<noteq> [] \<and> entry_content (last es) = awaited st"
          using facts(4) by blast
        have recv_last: "es \<noteq> [] \<longrightarrow> dir (last es) = Recv" using es(3) by (auto simp: recv_only_def list_all_iff)
        have all_at: "list_all (\<lambda>e. at_step e = idx) es" using es(3) by (auto simp: recv_only_def list_all_iff)
        have res: "s1 = s2" "(e = None) = (step_error r = None)" "index r = idx" "\<not> skipped r" "sr_template r = template_name st"
          "sr_sent r" "recv_count r = n" "matched_wait_for r = (if matched then awaited st else None)"
          "f_validate env \<longrightarrow> validation_errors r = []" "awaited st \<noteq> None \<and> step_error r = None \<longrightarrow> matched"
          using unf3 True [symmetric] Inr p
          by (auto simp: t2_def [symmetric] started_def base_result_def overall_def split: option.splits if_splits)
        have rendered: "f_render env idx st = Inr m" "f_validate env \<longrightarrow> validate m = []"
          using \<open>f_render env idx st = Inr m\<close> True by (simp_all add: errs_def split: if_splits)
        have "step_adds env idx st r [fr] (e0 # es)"
          unfolding step_adds_def
          using rendered res fr pay es t1(3,4) recv_last all_at recvs_at_recv_only [OF es(3)]
          by (auto simp: recvs_at_def dest!: awaited_wait_for)
        moreover have "sent_frames s1 = sent_frames s0 @ [fr]" "transcript s1 = transcript s0 @ (e0 # es)"
          using facts(1) es(1) t1 res(1) by (simp_all add: t2_def)
        ultimately show ?thesis using res(2) by (intro exI [of _ "[fr]"] exI [of _ "e0 # es"] conjI) simp_all
      qed
    qed
  qed
qed


section \<open>The steps of a flow\<close>

text \<open>The records of the steps reached, and what they add to the wire and to the transcript.\<close>

lemma run_steps_facts:
  assumes "run_steps env idx sts s0 = (rs, e, s1)"
  shows "length rs \<le> length sts
    \<and> (\<exists>fss ess. length fss = length rs \<and> length ess = length rs
         \<and> (\<forall>i<length rs. step_adds env (idx + i) (sts ! i) (rs ! i) (fss ! i) (ess ! i))
         \<and> sent_frames s1 = sent_frames s0 @ concat fss \<and> transcript s1 = transcript s0 @ concat ess)
    \<and> (e = None \<longrightarrow> length rs = length sts \<and> (\<forall>r\<in>set rs. step_error r = None))
    \<and> (e \<noteq> None \<longrightarrow> rs \<noteq> [] \<and> step_error (last rs) \<noteq> None \<and> (\<forall>r\<in>set (butlast rs). step_error r = None))"
  using assms
proof (induction sts arbitrary: idx s0 rs e s1)
  case Nil
  then show ?case by simp
next
  case (Cons st sts)
  obtain r e1 t1 where r: "run_step env idx st s0 = (r, e1, t1)" by (metis prod_cases3)
  obtain fs es where a: "step_adds env idx st r fs es" "sent_frames t1 = sent_frames s0 @ fs"
    "transcript t1 = transcript s0 @ es" "(e1 = None) = (step_error r = None)"
    using run_step_facts [OF r] by metis
  show ?case
  proof (cases e1)
    case (Some x)
    with Cons.prems r have "rs = [r]" "e = Some x" "s1 = t1" by simp_all
    moreover have "\<exists>fss ess. length fss = 1 \<and> length ess = 1 \<and> step_adds env idx st r (fss ! 0) (ess ! 0)
        \<and> sent_frames t1 = sent_frames s0 @ concat fss \<and> transcript t1 = transcript s0 @ concat ess"
      using a by (intro exI [of _ "[fs]"] exI [of _ "[es]"]) simp
    ultimately show ?thesis using a Some by simp
  next
    case None
    obtain rs' e' t2 where rest: "run_steps env (idx + 1) sts t1 = (rs', e', t2)" by (metis prod_cases3)
    with Cons.prems r None have eqs: "rs = r # rs'" "e = e'" "s1 = t2" by simp_all
    note IH = Cons.IH [OF rest]
    then obtain fss ess where ih: "length fss = length rs'" "length ess = length rs'"
      "\<forall>i<length rs'. step_adds env (idx + 1 + i) (sts ! i) (rs' ! i) (fss ! i) (ess ! i)"
      "sent_frames t2 = sent_frames t1 @ concat fss" "transcript t2 = transcript t1 @ concat ess" by blast
    have "\<forall>i<length rs. step_adds env (idx + i) ((st # sts) ! i) (rs ! i) ((fs # fss) ! i) ((es # ess) ! i)"
      using ih(3) a(1) by (auto simp: eqs nth_Cons split: nat.splits)
    moreover have "length (fs # fss) = length rs" "length (es # ess) = length rs"
      "sent_frames s1 = sent_frames s0 @ concat (fs # fss)" "transcript s1 = transcript s0 @ concat (es # ess)"
      using ih a by (simp_all add: eqs)
    ultimately have "\<exists>fss ess. length fss = length rs \<and> length ess = length rs
         \<and> (\<forall>i<length rs. step_adds env (idx + i) ((st # sts) ! i) (rs ! i) (fss ! i) (ess ! i))
         \<and> sent_frames s1 = sent_frames s0 @ concat fss \<and> transcript s1 = transcript s0 @ concat ess" by blast
    then show ?thesis using IH a None eqs by (intro conjI) auto
  qed
qed

lemma run_flow_unfold:
  assumes "run_flow env host steps None inb = Inr (res, w)"
  obtains rs e s where "run_steps env 0 steps \<lparr>clock = 0, inbox = inb, transcript = [], sent_frames = [], reader_ran = False\<rparr> = (rs, e, s)"
    "res = finalise steps (transcript s) rs e" "w = sent_frames s"
  using assms by (auto simp: run_flow_def split: if_splits prod.splits)

lemma finalise_nth:
  "i < length steps \<Longrightarrow> fr_steps (finalise steps tr rs e) ! i = (if i < length rs then rs ! i else base_result i (steps ! i))"
  by (simp add: finalise_def nth_enumerate_eq)

lemma finalise_fields [simp]:
  "fr_error (finalise steps tr rs e) = e" "fr_transcript (finalise steps tr rs e) = tr"
  "length (fr_steps (finalise steps tr rs e)) = length steps"
  by (simp_all add: finalise_def)


section \<open>Properties\<close>

definition demo_step :: "string option \<Rightarrow> step" where
  "demo_step want = \<lparr>template_name = ''t'', raw_json = None, wait_for = want, recv_timeout_s = 5,
     drain_after_s = 1, gap_before_s = 0\<rparr>"

definition demo_env :: "nat \<Rightarrow> flow_env" where
  "demo_env missing = \<lparr>f_render = (\<lambda>i st. if i = missing then Inl (PyExc ''FileNotFoundError'' ''t'') else Inr sample_registration),
     f_serialise = (\<lambda>m. [7, 8]), f_write_error = (\<lambda>i. None), f_validate = False,
     f_render_waits = (\<lambda>i. False), f_drain_waits = (\<lambda>i. False)\<rparr>"

definition demo_reply :: "rat \<Rightarrow> inbound" where
  "demo_reply t = \<lparr>arrives = t, in_payload = [9], in_message = sample_registration\<rparr>"




lemma flow_indexes:
  assumes "run_flow env host steps None inb = Inr (res, w)"
  shows "length (fr_steps res) = length steps \<and> (\<forall>i<length steps. index (fr_steps res ! i) = i)"
proof -
  obtain rs e s where r: "run_steps env 0 steps \<lparr>clock = 0, inbox = inb, transcript = [], sent_frames = [], reader_ran = False\<rparr> = (rs, e, s)"
    and res: "res = finalise steps (transcript s) rs e" by (rule run_flow_unfold [OF assms])
  obtain fss ess where "\<forall>i<length rs. step_adds env (0 + i) (steps ! i) (rs ! i) (fss ! i) (ess ! i)"
    using run_steps_facts [OF r] by blast
  then show ?thesis by (auto simp: res finalise_nth base_result_def step_adds_def)
qed

text \<open>What reaches the wire, and that all of it was rendered and, where asked, found valid.\<close>

lemma flow_wire:
  assumes "run_flow env host steps None inb = Inr (res, w)"
  shows "read_frames (concat w) =
      (map (\<lambda>r. payload_of env (index r) (steps ! index r)) (filter sr_sent (fr_steps res)), incomplete_read)
    \<and> (\<forall>r\<in>set (fr_steps res). sr_sent r \<longrightarrow> (f_validate env \<longrightarrow> validation_errors r = [])
         \<and> (\<exists>m. f_render env (index r) (steps ! index r) = Inr m \<and> (f_validate env \<longrightarrow> validate m = [])))"
proof -
  obtain rs e s where r: "run_steps env 0 steps \<lparr>clock = 0, inbox = inb, transcript = [], sent_frames = [], reader_ran = False\<rparr> = (rs, e, s)"
    and res: "res = finalise steps (transcript s) rs e" and w: "w = sent_frames s" by (rule run_flow_unfold [OF assms])
  note f = run_steps_facts [OF r]
  obtain fss ess where len: "length fss = length rs"
    and adds: "\<forall>i<length rs. step_adds env (0 + i) (steps ! i) (rs ! i) (fss ! i) (ess ! i)"
    and sent: "sent_frames s = concat fss"
    using f by auto
  define pays where "pays = map (\<lambda>r. payload_of env (index r) (steps ! index r)) (filter sr_sent rs)"
  have unsent: "filter sr_sent (fr_steps res) = filter sr_sent rs"
  proof -
    have "fr_steps res = rs @ map (\<lambda>i. base_result i (steps ! i)) [length rs..<length steps]"
      using f by (intro nth_equalityI) (auto simp: res finalise_nth nth_append)
    then show ?thesis by (simp add: filter_map comp_def base_result_def)
  qed
  have "fss = map (\<lambda>r. if sr_sent r then [frame (payload_of env (index r) (steps ! index r))] else []) rs"
    using adds len by (intro nth_equalityI) (auto simp: step_adds_def)
  then have "concat fss = map frame pays"
    unfolding pays_def by (induction rs arbitrary: fss) auto
  moreover have "list_all small pays"
    using adds by (auto simp: pays_def list_all_iff small_def step_adds_def in_set_conv_nth)
  ultimately have "read_frames (concat w) = (pays, incomplete_read)"
    using read_frames_stream [of pays "[]"] read_frames_short [of "[]"]
    by (simp add: w sent next_frame_def HEADER_LEN_def)
  moreover have "\<forall>r\<in>set rs. sr_sent r \<longrightarrow> (f_validate env \<longrightarrow> validation_errors r = [])
      \<and> (\<exists>m. f_render env (index r) (steps ! index r) = Inr m \<and> (f_validate env \<longrightarrow> validate m = []))"
    using adds by (fastforce simp: step_adds_def in_set_conv_nth)
  then have "\<forall>r\<in>set (fr_steps res). sr_sent r \<longrightarrow> (f_validate env \<longrightarrow> validation_errors r = [])
      \<and> (\<exists>m. f_render env (index r) (steps ! index r) = Inr m \<and> (f_validate env \<longrightarrow> validate m = []))"
    using arg_cong [OF unsent, of set] by auto
  ultimately show ?thesis by (simp add: unsent pays_def)
qed

text \<open>C21. What a flow writes to the connection decodes, with the reader the server side uses, to
  exactly the payloads of the steps recorded as sent, in step order; nothing of a step that was
  not sent reaches the wire, and every payload sent fits the four-byte length.\<close>

theorem flow_wire_roundtrip:
  assumes "run_flow env host steps None inb = Inr (res, w)"
  shows "read_frames (concat w) =
      (map (\<lambda>r. payload_of env (index r) (steps ! index r)) (filter sr_sent (fr_steps res)), incomplete_read)
    \<and> (f_validate env \<longrightarrow> (\<forall>r\<in>set (fr_steps res). sr_sent r \<longrightarrow> validation_errors r = []))"
  using flow_wire [OF assms] by blast

lemma flow_wire_roundtrip_witness:
  "\<exists>res w. run_flow (demo_env 1) ''h'' [demo_step None, demo_step None] None [] = Inr (res, w)
     \<and> read_frames (concat w) = ([[7, 8]], incomplete_read)"
proof -
  obtain res w where r: "run_flow (demo_env 1) ''h'' [demo_step None, demo_step None] None [] = Inr (res, w)"
    "map index (filter sr_sent (fr_steps res)) = [0]"
    by (simp add: run_flow_def demo_env_def demo_step_def run_step_def receive_phase_def awaited_def
        receive_loop.simps stamp_def encode_def overall_def Let_def finalise_def started_def base_result_def enumerate_eq_zip upt_rec)
  have "map (\<lambda>r. payload_of (demo_env 1) (index r) ([demo_step None, demo_step None] ! index r)) (filter sr_sent (fr_steps res)) =
      map (\<lambda>i. payload_of (demo_env 1) i ([demo_step None, demo_step None] ! i)) (map index (filter sr_sent (fr_steps res)))"
    by simp
  also have "\<dots> = [[7, 8]]" unfolding r by (simp add: payload_of_def demo_env_def)
  finally show ?thesis using flow_wire_roundtrip [OF r(1)] r(1) by metis
qed

text \<open>The transcript and the step records agree: the number a step reports as received is the
  number of received entries the transcript has for that step, for the steps that were skipped as
  well, and a step that waited for a reply and ended without an error got that very reply.\<close>

theorem flow_transcript_agrees:
  assumes "run_flow env host steps None inb = Inr (res, w)" and "i < length steps"
  shows "length (recvs_at i (fr_transcript res)) = recv_count (fr_steps res ! i)
    \<and> (\<forall>k. matched_wait_for (fr_steps res ! i) = Some k \<longrightarrow>
           wait_for (steps ! i) = Some k \<and> (\<exists>e\<in>set (recvs_at i (fr_transcript res)). entry_content e = Some k))
    \<and> (fr_error res = None \<and> awaited (steps ! i) \<noteq> None \<longrightarrow> matched_wait_for (fr_steps res ! i) = awaited (steps ! i))"
proof -
  obtain rs e s where r: "run_steps env 0 steps \<lparr>clock = 0, inbox = inb, transcript = [], sent_frames = [], reader_ran = False\<rparr> = (rs, e, s)"
    and res: "res = finalise steps (transcript s) rs e" by (rule run_flow_unfold [OF assms(1)])
  note f = run_steps_facts [OF r]
  obtain fss ess where len: "length ess = length rs"
    and adds: "\<forall>i<length rs. step_adds env (0 + i) (steps ! i) (rs ! i) (fss ! i) (ess ! i)"
    and tr: "transcript s = concat ess"
    using f by auto
  have at: "recvs_at i (concat ess) = (if i < length rs then recvs_at i (ess ! i) else [])"
    using adds len recvs_at_concat [of ess 0 i] by (auto simp: step_adds_def)
  have here: "step_adds env i (steps ! i) (rs ! i) (fss ! i) (ess ! i)" if "i < length rs" using adds that by simp
  have counts: "length (recvs_at i (fr_transcript res)) = recv_count (fr_steps res ! i)"
    using here assms(2) by (auto simp: res finalise_nth tr at step_adds_def base_result_def)
  have got: "wait_for (steps ! i) = Some k \<and> (\<exists>e\<in>set (recvs_at i (fr_transcript res)). entry_content e = Some k)"
    if m: "matched_wait_for (fr_steps res ! i) = Some k" for k
  proof -
    from m assms(2) have i: "i < length rs" "matched_wait_for (rs ! i) = Some k"
      by (auto simp: res finalise_nth base_result_def split: if_splits)
    note h = here [OF i(1), unfolded step_adds_def] i(2)
    then have l: "wait_for (steps ! i) = Some k" "ess ! i \<noteq> []" "dir (last (ess ! i)) = Recv"
      "entry_content (last (ess ! i)) = Some k" "\<forall>e\<in>set (ess ! i). at_step e = i"
      by (auto simp: list_all_iff)
    then have "last (ess ! i) \<in> set (recvs_at i (ess ! i))" by (simp add: recvs_at_def)
    with l i(1) show ?thesis by (auto simp: res tr at)
  qed
  have "fr_error res = None \<and> awaited (steps ! i) \<noteq> None \<longrightarrow> matched_wait_for (fr_steps res ! i) = awaited (steps ! i)"
    using here assms(2) f by (auto simp: res finalise_nth step_adds_def)
  with counts got show ?thesis by blast
qed

lemma flow_transcript_agrees_witness:
  "\<exists>res w. run_flow (demo_env 1) ''h'' [demo_step (Some ''registration'')] None [demo_reply 2] = Inr (res, w)
     \<and> length (recvs_at 0 (fr_transcript res)) = 1 \<and> matched_wait_for (fr_steps res ! 0) = Some ''registration''"
proof -
  obtain res w where r: "run_flow (demo_env 1) ''h'' [demo_step (Some ''registration'')] None [demo_reply 2] = Inr (res, w)"
    "fr_error res = None" "recv_count (fr_steps res ! 0) = 1"
    by (simp add: run_flow_def demo_env_def demo_step_def demo_reply_def run_step_def receive_phase_def awaited_def
        receive_loop.simps stamp_def encode_def overall_def Let_def finalise_def started_def base_result_def
        enumerate_eq_zip upt_rec sample_registration_def which_content_def)
  have a: "awaited ([demo_step (Some ''registration'')] ! 0) = Some ''registration''"
    by (simp add: demo_step_def awaited_def)
  show ?thesis using flow_transcript_agrees [OF r(1), of 0] r a by simp
qed




text \<open>A step that waits for no particular reply takes the whole of \<open>recv_timeout_s\<close> and then the
  whole of \<open>drain_after_s\<close>, whatever arrives; the comment on \<open>wait_for\<close> says such a step only
  drains. Its measured time is that, plus its gap.\<close>

theorem no_reply_awaited_takes_both_windows:
  assumes "run_step env idx st s = (r, None, s')" and "awaited st = None"
    and "0 \<le> recv_timeout_s st" "0 \<le> drain_after_s st" "0 \<le> gap_before_s st"
  shows "clock s' = clock s + gap_before_s st + recv_timeout_s st + drain_after_s st
    \<and> elapsed_ms r = round_dec 3 ((gap_before_s st + recv_timeout_s st + drain_after_s st) * 1000)"
proof -
  have phase: "clock s2 = clock s1 + recv_timeout_s st + drain_after_s st"
    if p: "receive_phase idx st s1 = ((n, m), s2)" for n m s1 s2
  proof -
    obtain n1 m1 t where r1: "receive_loop (clock s1 + recv_timeout_s st) None idx s1 = ((n1, m1), t)"
      by (metis prod_cases3 surj_pair)
    with receive_loop_facts [where dl = "clock s1 + recv_timeout_s st" and want = None and idx = idx and s = s1]
    have t: "clock t = clock s1 + recv_timeout_s st" using assms(3) by (auto simp: max_def)
    obtain n2 m2 u where r2: "receive_loop (clock t + drain_after_s st) None idx t = ((n2, m2), u)"
      by (metis prod_cases3 surj_pair)
    with receive_loop_facts [where dl = "clock t + drain_after_s st" and want = None and idx = idx and s = t]
    have u: "clock u = clock t + drain_after_s st" using assms(4) by (auto simp: max_def)
    show ?thesis using p r1 r2 t u assms(2,4) by (auto simp: receive_phase_def split: if_splits)
  qed
  obtain m fr s1 n mt where ok: "receive_phase idx st s1 = ((n, mt), s')" "clock s1 = clock s + gap_before_s st"
    "elapsed_ms r = ms_since (clock s) s'"
    using assms(1,2,5)
    by (auto simp: run_step_def Let_def overall_def stamp_def split: sum.splits if_splits prod.splits)
  from phase [OF ok(1)] ok show ?thesis by (simp add: ms_since_def algebra_simps)
qed

lemma no_reply_awaited_takes_both_windows_witness:
  "clock (snd (snd (run_step (demo_env 1) 0 (demo_step None)
     \<lparr>clock = 2, inbox = [demo_reply 3, demo_reply 9], transcript = [], sent_frames = [], reader_ran = False\<rparr>))) = 2 + 0 + 5 + 1"
proof -
  let ?s = "\<lparr>clock = 2, inbox = [demo_reply 3, demo_reply 9], transcript = [], sent_frames = [], reader_ran = False\<rparr>"
  obtain r s' where r: "run_step (demo_env 1) 0 (demo_step None) ?s = (r, None, s')"
    by (simp add: demo_env_def demo_step_def demo_reply_def run_step_def receive_phase_def awaited_def
        receive_loop.simps stamp_def encode_def Let_def)
  then show ?thesis using no_reply_awaited_takes_both_windows [OF r] by (simp add: demo_step_def awaited_def)
qed

end
