(* ===== verification/UiRoutes.thy ===== *)
theory UiRoutes
  imports Flow EdgeRouter
begin

text \<open>
  The routes of the Message drawer (\<open>services/ui/app/message/routes.py\<close>): templates, validation, runs
  and their history, and the seeding of templates at startup (\<open>main.py\<close>).

  Directories are association lists of names; the result of connecting, rendering and serialising
  is an argument.
\<close>

section \<open>Templates\<close>

definition json_name :: "string \<Rightarrow> string" where
  "json_name stem = stem @ ''.json''"

text \<open>\<open>list_templates\<close>: sorted by path, each with its decoded preview.\<close>

definition list_templates :: "(string \<Rightarrow> pyval + string) \<Rightarrow> directory \<Rightarrow> pydict list" where
  "list_templates loads ds =
     map (\<lambda>(stem, text).
         [(''name'', PStr stem), (''filename'', PStr (json_name stem)), (''raw'', PStr text),
          (''preview'', case loads text of Inl v \<Rightarrow> v | Inr e \<Rightarrow> PDict [(''_parse_error'', PStr e)])])
       (sort_key (\<lambda>(stem, _). map (\<lambda>c. of_char c :: nat) (json_name stem)) ds)"

definition template_route :: "directory \<Rightarrow> string \<Rightarrow> pydict res" where
  "template_route ds name = (case get_template ds name of
     Inr raw \<Rightarrow> Inr [(''name'', PStr name), (''raw'', PStr raw)]
   | Inl e \<Rightarrow> Inl (HttpExc 404 (exn_str e)))"

text \<open>\<open>clear_templates\<close>, with the outcome of each \<open>unlink\<close>: the names removed, and what is left.\<close>

definition clear_templates :: "(string \<Rightarrow> bool) \<Rightarrow> directory \<Rightarrow> string list \<times> directory" where
  "clear_templates unlink_ok ds =
     (map (json_name \<circ> fst) (filter (unlink_ok \<circ> fst) ds), filter (\<lambda>(stem, _). \<not> unlink_ok stem) ds)"

text \<open>\<open>_seed_templates_if_empty\<close>: the directory is only written when it holds no template.\<close>

definition seed_templates_if_empty :: "(directory \<Rightarrow> (string \<times> string) list res \<times> directory) \<Rightarrow> directory \<Rightarrow> unit res \<times> directory" where
  "seed_templates_if_empty regenerate ds =
     (if ds \<noteq> [] then (Inr (), ds)
      else case regenerate ds of (Inl e, d) \<Rightarrow> (Inl e, d) | (Inr _, d) \<Rightarrow> (Inr (), d))"

section \<open>Validate\<close>

record gps_fields =
  gps_lat :: "flt option"
  gps_lon :: "flt option"
  gps_alt :: "flt option"

definition gps_override :: "gps_fields \<Rightarrow> (flt \<times> flt \<times> flt) option" where
  "gps_override g = (case (gps_lat g, gps_lon g) of
     (Some lat, Some lon) \<Rightarrow> Some (lat, lon, case gps_alt g of None \<Rightarrow> FALLBACK_ALT | Some a \<Rightarrow> a)
   | _ \<Rightarrow> None)"

record validate_request =
  vq_node_id :: string
  vq_template :: "string option"
  vq_raw :: "string option"
  vq_gps :: gps_fields

text \<open>The reply has no \<open>content\<close> when rendering failed.\<close>

record validate_reply =
  vr_ok :: bool
  vr_errors :: "string list"
  vr_content :: "string option option"

text \<open>The text of a template, given directly or by name; the name \<open>None\<close> is looked up as such.\<close>

definition template_text :: "directory \<Rightarrow> string option \<Rightarrow> string option \<Rightarrow> string res" where
  "template_text ds raw name = (case raw of Some t \<Rightarrow> Inr t
     | None \<Rightarrow> get_template ds (case name of None \<Rightarrow> ''None'' | Some n \<Rightarrow> n))"

fun not_found :: "exn \<Rightarrow> bool" where
  "not_found (PyExc c _) = (c = ''FileNotFoundError'')"
| "not_found (HttpExc _ _) = False"

definition validate_route :: "render_env \<Rightarrow> directory \<Rightarrow> validate_request \<Rightarrow> validate_reply res" where
  "validate_route env ds rq =
     (case bindE (template_text ds (vq_raw rq) (vq_template rq))
             (\<lambda>text. render env text (vq_node_id rq) (gps_override (vq_gps rq))) of
        Inl e \<Rightarrow> if not_found e then Inl (HttpExc 404 (exn_str e))
                 else Inr \<lparr>vr_ok = False, vr_errors = [''render: '' @ exn_str e], vr_content = None\<rparr>
      | Inr m \<Rightarrow> Inr \<lparr>vr_ok = (validate m = []), vr_errors = validate m, vr_content = Some (which_content m)\<rparr>)"

section \<open>Running a flow\<close>

record flow_request =
  fq_host :: string
  fq_port :: int
  fq_node_id :: string
  fq_steps :: "step list"
  fq_validate :: bool
  fq_gps :: gps_fields

text \<open>The constraints of \<open>FlowStep\<close> and \<open>FlowRequest\<close>.\<close>

definition flow_step_ok :: "step \<Rightarrow> bool" where
  "flow_step_ok s \<longleftrightarrow> 0 \<le> recv_timeout_s s \<and> recv_timeout_s s \<le> 60 \<and> 0 \<le> drain_after_s s \<and> drain_after_s s \<le> 60
     \<and> 0 \<le> gap_before_s s \<and> gap_before_s s \<le> 30"

definition flow_request_ok :: "flow_request \<Rightarrow> bool" where
  "flow_request_ok q \<longleftrightarrow> fq_host q \<noteq> [] \<and> 1 \<le> fq_port q \<and> fq_port q \<le> 65535 \<and> list_all flow_step_ok (fq_steps q)"

text \<open>What the network and the libraries do during the run; a step is rendered as the flow reaches
  it.\<close>

record run_world =
  rw_render :: "nat \<Rightarrow> render_env"
  rw_serialise :: "sapient_message \<Rightarrow> bytes"
  rw_write_error :: "nat \<Rightarrow> exn option"
  rw_render_waits :: "nat \<Rightarrow> bool"
  rw_drain_waits :: "nat \<Rightarrow> bool"
  rw_connect_error :: "exn option"
  rw_inbound :: "inbound list"

definition env_of_request :: "run_world \<Rightarrow> directory \<Rightarrow> flow_request \<Rightarrow> flow_env" where
  "env_of_request w ds q =
     \<lparr>f_render = (\<lambda>i st. bindE (template_text ds (raw_json st) (Some (template_name st)))
                    (\<lambda>text. render (rw_render w i) text (fq_node_id q) (gps_override (fq_gps q)))),
      f_serialise = rw_serialise w, f_write_error = rw_write_error w, f_validate = fq_validate q,
      f_render_waits = rw_render_waits w, f_drain_waits = rw_drain_waits w\<rparr>"

definition run_route :: "run_world \<Rightarrow> directory \<Rightarrow> flow_request \<Rightarrow> (flow_result \<times> bytes list) res" where
  "run_route w ds q =
     (if fq_steps q = [] then Inl (HttpExc 400 ''flow needs at least one step'')
      else case run_flow (env_of_request w ds q) (strip (fq_host q)) (fq_steps q) (rw_connect_error w) (rw_inbound w) of
             Inr r \<Rightarrow> Inr r
           | Inl (PyExc c m) \<Rightarrow> if c = ''ValueError'' then Inl (HttpExc 400 m) else Inl (PyExc c m)
           | Inl e \<Rightarrow> Inl e)"

section \<open>Runs\<close>

definition summary_tops :: "string list" where
  "summary_tops = [''registration'', ''registration_ack'', ''status_report'', ''detection_report'', ''task'',
     ''task_ack'', ''alert'', ''alert_ack'', ''error'']"

definition summary_keys :: "string list" where
  "summary_keys = [''alert_id'', ''task_id'', ''report_id'', ''object_id'', ''icd_version'', ''alert_ack_status'',
     ''task_status'', ''acceptance'']"

definition shorten :: "string \<Rightarrow> string" where
  "shorten s = (if 28 < length s then take 25 s @ ''...'' else s)"

fun summary_of :: "(flt \<Rightarrow> string) \<Rightarrow> pydict \<Rightarrow> string list \<Rightarrow> string option" where
  "summary_of fl sub [] = None"
| "summary_of fl sub (k # ks) = (case map_of sub k of
     Some v \<Rightarrow> (case v of PList _ \<Rightarrow> summary_of fl sub ks | PDict _ \<Rightarrow> summary_of fl sub ks
                | _ \<Rightarrow> Some (k @ ''='' @ shorten (py_str fl v)))
   | None \<Rightarrow> summary_of fl sub ks)"

fun summarise_tops :: "(flt \<Rightarrow> string) \<Rightarrow> pydict \<Rightarrow> string list \<Rightarrow> string" where
  "summarise_tops fl msg [] = []"
| "summarise_tops fl msg (t # ts) = (case dget msg t of
     PDict sub \<Rightarrow> (case summary_of fl sub summary_keys of Some s \<Rightarrow> s | None \<Rightarrow> summarise_tops fl msg ts)
   | _ \<Rightarrow> summarise_tops fl msg ts)"

definition summarise_message :: "(flt \<Rightarrow> string) \<Rightarrow> pyval \<Rightarrow> string" where
  "summarise_message fl msg = (case msg of PDict d \<Rightarrow> summarise_tops fl d summary_tops | _ \<Rightarrow> [])"

text \<open>A run directory: without a result, with a JSON document, or with one that raises when read.\<close>

datatype run_file = NoResult | ResultDoc pyval | BadResult exn

type_synonym runs_dir = "(string \<times> run_file) list"

definition direction_is :: "string \<Rightarrow> pyval \<Rightarrow> bool res" where
  "direction_is d t = bindE (item t ''direction'') (\<lambda>v. Inr (v = PStr d))"

fun first_sent :: "pyval list \<Rightarrow> pyval res" where
  "first_sent [] = Inr PNone"
| "first_sent (t # ts) = bindE (direction_is ''sent'' t) (\<lambda>b. if b then Inr t else first_sent ts)"

fun all_recv :: "pyval list \<Rightarrow> pyval list res" where
  "all_recv [] = Inr []"
| "all_recv (t # ts) = bindE (direction_is ''recv'' t) (\<lambda>b. bindE (all_recv ts) (\<lambda>r. Inr (if b then t # r else r)))"

definition entry_get :: "string \<Rightarrow> pyval \<Rightarrow> pyval res" where
  "entry_get k t = attr_get t k PNone"

definition run_row :: "(flt \<Rightarrow> string) \<Rightarrow> string \<Rightarrow> pyval \<Rightarrow> pydict res" where
  "run_row fl name data =
     bindE (attr_get data ''transcript'' (PList [])) (\<lambda>tr. bindE (py_iter tr) (\<lambda>ts.
     bindE (first_sent ts) (\<lambda>sent0. bindE (all_recv ts) (\<lambda>recvs.
     bindE (attr_get data ''run_id'' (PStr name)) (\<lambda>rid. bindE (entry_get ''host'' data) (\<lambda>host.
     bindE (entry_get ''port'' data) (\<lambda>port. bindE (entry_get ''template'' data) (\<lambda>tpl.
     bindE (entry_get ''started_utc'' data) (\<lambda>st. bindE (entry_get ''error'' data) (\<lambda>err.
     bindE (entry_get ''content'' (or_else sent0 (PDict []))) (\<lambda>sc.
     bindE (entry_get ''message'' (or_else sent0 (PDict []))) (\<lambda>sm.
     bindE (mapE (entry_get ''content'') recvs) (\<lambda>rc. bindE (mapE (entry_get ''message'') recvs) (\<lambda>rm.
       Inr [(''run_id'', rid), (''host'', host), (''port'', port), (''template'', tpl), (''started_utc'', st),
            (''error'', err), (''n_received'', PInt (int (length recvs))), (''sent_content'', sc),
            (''sent_summary'', PStr (summarise_message fl sm)), (''recv_contents'', PList rc),
            (''recv_summaries'', PList (map (PStr \<circ> summarise_message fl) rm))]))))))))))))))"

definition run_entry :: "(flt \<Rightarrow> string) \<Rightarrow> string \<times> run_file \<Rightarrow> pydict list" where
  "run_entry fl nf = (case snd nf of
     NoResult \<Rightarrow> []
   | ResultDoc data \<Rightarrow> [case run_row fl (fst nf) data of Inr row \<Rightarrow> row
       | Inl e \<Rightarrow> [(''run_id'', PStr (fst nf)), (''error'', PStr (''parse: '' @ exn_str e))]]
   | BadResult e \<Rightarrow> [[(''run_id'', PStr (fst nf)), (''error'', PStr (''parse: '' @ exn_str e))]])"

definition newest_first :: "runs_dir \<Rightarrow> runs_dir" where
  "newest_first ds = rev (sort_key (\<lambda>(n, _). map (\<lambda>c. of_char c :: nat) n) ds)"

definition list_runs :: "(flt \<Rightarrow> string) \<Rightarrow> runs_dir \<Rightarrow> pydict list" where
  "list_runs fl ds = concat (map (run_entry fl) (take 50 (newest_first ds)))"

definition get_run :: "runs_dir \<Rightarrow> string \<Rightarrow> pyval res" where
  "get_run ds run_id = (case map_of ds run_id of
     Some (ResultDoc v) \<Rightarrow> Inr v
   | Some (BadResult e) \<Rightarrow> Inl e
   | _ \<Rightarrow> Inl (HttpExc 404 ''run not found''))"

definition clear_runs :: "(string \<Rightarrow> bool) \<Rightarrow> runs_dir \<Rightarrow> string list \<times> runs_dir" where
  "clear_runs rmtree_ok ds = (map fst (filter (rmtree_ok \<circ> fst) ds), filter (\<lambda>(n, _). \<not> rmtree_ok n) ds)"


section \<open>What a run may send\<close>

text \<open>The text a step's message is rendered from.\<close>

definition step_text :: "directory \<Rightarrow> step \<Rightarrow> string res" where
  "step_text ds st = template_text ds (raw_json st) (Some (template_name st))"

lemma run_routeD:
  assumes "run_route w ds q = Inr (res, wire)" and "rw_connect_error w = None"
  shows "run_flow (env_of_request w ds q) (strip (fq_host q)) (fq_steps q) None (rw_inbound w) = Inr (res, wire)"
  using assms by (auto simp: run_route_def split: if_splits sum.splits exn.splits)

text \<open>C22. A run that asks for validation sends nothing invalid: whatever the receiver decodes from the
  connection is the serialisation of a message that was rendered from the template or the text of
  a requested step, with the operator's position where one was given, and in which the validator
  finds no fault.\<close>

theorem api_run_sends_only_valid:
  assumes "run_route w ds q = Inr (res, wire)" and "rw_connect_error w = None" and "fq_validate q"
    and "p \<in> set (fst (read_frames (concat wire)))"
  shows "\<exists>i < length (fq_steps q). \<exists>text m. step_text ds (fq_steps q ! i) = Inr text
    \<and> render (rw_render w i) text (fq_node_id q) (gps_override (fq_gps q)) = Inr m
    \<and> validate m = [] \<and> p = rw_serialise w m"
proof -
  note run = run_routeD [OF assms(1,2)]
  note wire = flow_wire [OF run]
  from wire assms(4) obtain r where r: "r \<in> set (fr_steps res)" "sr_sent r"
    and p: "p = payload_of (env_of_request w ds q) (index r) (fq_steps q ! index r)" by auto
  from wire r assms(3) obtain m where m: "f_render (env_of_request w ds q) (index r) (fq_steps q ! index r) = Inr m" "validate m = []"
    by (auto simp: env_of_request_def)
  have "index r < length (fq_steps q)"
    using r(1) flow_indexes [OF run] by (auto simp: in_set_conv_nth)
  with m p show ?thesis
    by (intro exI [of _ "index r"])
       (auto simp: payload_of_def env_of_request_def step_text_def bindE_def split: sum.splits)
qed

definition valid_message :: sapient_message where
  "valid_message = \<lparr>msg_timestamp = Some 0, node_id = Some ''123e4567-e89b-12d3-a456-426614174000'', destination_id = None,
     msg_content = Some (RegistrationAck \<lparr>acceptance = Some True\<rparr>)\<rparr>"

definition demo_world :: run_world where
  "demo_world = \<lparr>rw_render = (\<lambda>i. \<lparr>env_now = ''T'', env_ulid = (\<lambda>n. ''01''), env_gps = PNone, env_parse = (\<lambda>s. Inr valid_message)\<rparr>),
     rw_serialise = (\<lambda>m. [7, 8]), rw_write_error = (\<lambda>i. None), rw_render_waits = (\<lambda>i. False),
     rw_drain_waits = (\<lambda>i. False), rw_connect_error = None, rw_inbound = []\<rparr>"

definition demo_request :: flow_request where
  "demo_request = \<lparr>fq_host = ''h'', fq_port = 5020, fq_node_id = ''123e4567-e89b-12d3-a456-426614174000'',
     fq_steps = [demo_step None], fq_validate = True, fq_gps = \<lparr>gps_lat = None, gps_lon = None, gps_alt = None\<rparr>\<rparr>"

lemma demo_valid: "validate valid_message = []" "is_valid_uuid ''123e4567-e89b-12d3-a456-426614174000''"
  by code_simp+

lemma demo_render: "render (rw_render demo_world i) ''{}'' ''123e4567-e89b-12d3-a456-426614174000'' None = Inr valid_message"
  using demo_valid by (simp add: render_def demo_world_def bindE_def resolve_gps_def)

lemma api_run_sends_only_valid_witness:
  "\<exists>res. run_route demo_world [(''t'', ''{}'')] demo_request = Inr (res, [frame [7, 8]])
     \<and> (\<exists>m. validate m = [] \<and> [7, 8] = rw_serialise demo_world m)"
proof -
  let ?env = "env_of_request demo_world [(''t'', ''{}'')] demo_request"
  have r: "f_render ?env 0 (demo_step None) = Inr valid_message"
    by (simp add: env_of_request_def demo_request_def demo_step_def template_text_def get_template_def gps_override_def demo_render)
  have e: "f_serialise ?env = (\<lambda>m. [7, 8])" "f_write_error ?env = (\<lambda>i. None)" "f_validate ?env"
    "f_render_waits ?env = (\<lambda>i. False)" "f_drain_waits ?env = (\<lambda>i. False)"
    by (simp_all add: env_of_request_def demo_world_def demo_request_def)
  have h: "strip ''h'' = ''h''" by code_simp
  obtain res where "run_flow ?env ''h'' [demo_step None] None [] = Inr (res, [frame [7, 8]])"
    using r by (simp add: run_flow_def e demo_valid demo_step_def run_step_def receive_phase_def awaited_def
        receive_loop.simps stamp_def encode_def frame_def overall_def Let_def)
  then have run: "run_route demo_world [(''t'', ''{}'')] demo_request = Inr (res, [frame [7, 8]])"
    by (simp add: run_route_def demo_request_def demo_world_def h)
  have "[7, 8] \<in> set (fst (read_frames (concat [frame [7, 8]])))"
    using read_frames_stream [of "[[7, 8]]" "[]"] by (simp add: small_def)
  with api_run_sends_only_valid [OF run] run show ?thesis by (auto simp: demo_world_def demo_request_def)
qed

text \<open>The reply's summary is one identifier of the message: a key, an equals sign and at most 28
  characters.\<close>

lemma summary_of_length:
  "summary_of fl sub ks = Some s \<Longrightarrow> \<exists>k\<in>set ks. starts_with (k @ ''='') s \<and> length s \<le> length k + 29"
proof (induction ks)
  case (Cons k ks)
  then show ?case
    by (auto simp: shorten_def starts_with_def split: option.splits pyval.splits if_splits)
qed simp

lemma summarise_message_length: "length (summarise_message fl msg) \<le> 45"
proof -
  have "length (summarise_tops fl d ts) \<le> 45" for d ts
  proof (induction ts)
    case (Cons t ts)
    have "length k \<le> 16" if "k \<in> set summary_keys" for k using that by (auto simp: summary_keys_def)
    then have "length s \<le> 45" if "summary_of fl sub summary_keys = Some s" for sub s
      using summary_of_length [OF that] by fastforce
    with Cons show ?case by (auto split: pyval.splits option.splits)
  qed simp
  then show ?thesis by (simp add: summarise_message_def split: pyval.splits)
qed

end
