(* ===== verification/UiControllers.thy ===== *)
theory UiControllers
  imports UiNodes "HOL-Library.List_Lexorder"
begin

text \<open>
  The controllers of the TAK server, the BSI node and the Apex middleware
  (\<open>services/ui/app/tak/routes.py\<close>, \<open>bsi/routes.py\<close>, \<open>apex/routes.py\<close>).

  The docker daemon is an argument: a function from a command line and its environment to the exit
  code and the decoded outputs, or the exception that starting the process raises, with the
  daemon's state passed through. What connecting to a host gives and what sqlite answers are
  arguments as well.
\<close>

type_synonym environment = "(string, string) odict"
type_synonym 'd docker = "string list \<Rightarrow> environment \<Rightarrow> 'd \<Rightarrow> (int \<times> string \<times> string) res \<times> 'd"

text \<open>Connecting: \<open>None\<close>, the text of an \<open>OSError\<close>, or another exception (such as the
  \<open>OverflowError\<close> of a port out of range).\<close>

type_synonym dial = "pyval \<Rightarrow> int \<Rightarrow> string option res"

section \<open>Docker\<close>

definition docker_compose :: "'d docker \<Rightarrow> string \<Rightarrow> environment \<Rightarrow> string list \<Rightarrow> 'd \<Rightarrow> (int \<times> string \<times> string) res \<times> 'd" where
  "docker_compose docker project env args d =
     docker ([''docker'', ''compose'', ''--project-directory'', project] @ args) env d"

definition is_running :: "'d docker \<Rightarrow> environment \<Rightarrow> string \<Rightarrow> 'd \<Rightarrow> bool res \<times> 'd" where
  "is_running docker env container d =
     (case docker [''docker'', ''inspect'', ''-f'', ''{{.State.Running}}'', container] env d of
        (r, d1) \<Rightarrow> (bindE r (\<lambda>(rc, out, _). Inr (rc = 0 \<and> strip out = ''true'')), d1))"

text \<open>\<open>if rc != 0: raise HTTPException(500, ...)\<close>.\<close>

definition checked :: "string \<Rightarrow> pydict \<Rightarrow> (int \<times> string \<times> string) res \<times> 'd \<Rightarrow> pydict res \<times> 'd" where
  "checked what answer rd =
     (case rd of (r, d) \<Rightarrow>
        (bindE r (\<lambda>(rc, out, err).
           if rc \<noteq> 0 then Inl (HttpExc 500 (what @ '' failed: '' @ (if err \<noteq> [] then err else out)))
           else Inr answer), d))"

definition up_args :: "string \<Rightarrow> string \<Rightarrow> string list" where
  "up_args profile svc = [''--profile'', profile, ''up'', ''-d'', ''--force-recreate'', svc]"

definition rm_args :: "string \<Rightarrow> string \<Rightarrow> string list" where
  "rm_args profile svc = [''--profile'', profile, ''rm'', ''-fs'', svc]"

section \<open>The TAK server\<close>

definition tcp_alive :: "dial \<Rightarrow> pyval \<Rightarrow> int \<Rightarrow> bool res" where
  "tcp_alive dial host port = bindE (dial host port) (\<lambda>r. Inr (r = None))"

definition tak_state :: "(flt \<Rightarrow> string) \<Rightarrow> dial \<Rightarrow> fetched \<Rightarrow> pydict res" where
  "tak_state fl dial f =
     bindE (find_node ''tak-primary'' f) (\<lambda>n.
       let host = dget n ''host''; stream_port = 8089 in
       bindE (py_int (or_else (dget n ''admin_port'') (PInt 8443))) (\<lambda>admin_port.
       bindE (tcp_alive dial host admin_port) (\<lambda>admin_ok.
       bindE (tcp_alive dial host stream_port) (\<lambda>stream_ok.
         Inr [(''available'', PBool (admin_ok \<or> stream_ok)), (''host'', host),
              (''admin_port'', PInt admin_port), (''admin_alive'', PBool admin_ok),
              (''stream_port'', PInt stream_port), (''stream_alive'', PBool stream_ok),
              (''webtak_url'', PStr (''https://'' @ py_str fl host @ '':'' @ show_int admin_port @ ''/webtak/index.html''))]))))"

section \<open>The BSI node\<close>

definition PGWEB_SVC :: string where "PGWEB_SVC = ''bsi-pgweb''"
definition PGWEB_URL :: string where "PGWEB_URL = ''http://localhost:8096''"

definition bsi_node :: "fetched \<Rightarrow> pydict res" where
  "bsi_node f = find_node ''bsi-windows'' f"

definition bsi_state :: "dial \<Rightarrow> fetched \<Rightarrow> pydict res" where
  "bsi_state dial f =
     bindE (bsi_node f) (\<lambda>n.
       let host = dget n ''host'' in
       bindE (py_int (or_else (dget n ''admin_port'') (PInt 5432))) (\<lambda>pg_port.
       bindE (dial host pg_port) (\<lambda>r. case r of
         Some exc \<Rightarrow> Inr [(''available'', PBool False), (''host'', host), (''port'', PInt pg_port),
                          (''reason'', PStr (if exc \<noteq> [] then exc else ''timeout''))]
       | None \<Rightarrow> Inr [(''available'', PBool True), (''host'', host), (''port'', PInt pg_port),
                      (''database'', dget n ''db_database'')])))"

text \<open>The environment of the command: the process's own, with every override that is not
  \<open>None\<close>.\<close>

definition with_overrides :: "(flt \<Rightarrow> string) \<Rightarrow> environment \<Rightarrow> pydict \<Rightarrow> environment" where
  "with_overrides fl env over =
     dict_update env (map (\<lambda>(k, v). (k, py_str fl v)) (filter (\<lambda>(k, v). v \<noteq> PNone) over))"

definition pgweb_overrides :: "pydict \<Rightarrow> pydict" where
  "pgweb_overrides n =
     [(''BSI_HOST'', dget n ''host''),
      (''BSI_PG_PORT'', or_else (dget n ''admin_port'') (PInt 5432)),
      (''BSI_PG_USER'', or_else (dget n ''db_user'') (PStr ''postgres'')),
      (''BSI_PG_PASS'', or_else (dget n ''db_password'') (PStr ''password'')),
      (''BSI_PG_DB'', or_else (dget n ''db_database'') (PStr ''sapientBSIFlex335v2''))]"

definition pgweb_status :: "'d docker \<Rightarrow> environment \<Rightarrow> 'd \<Rightarrow> pydict res \<times> 'd" where
  "pgweb_status docker env d = (case is_running docker env PGWEB_SVC d of
     (r, d1) \<Rightarrow> (bindE r (\<lambda>b. Inr [(''running'', PBool b), (''url'', PStr PGWEB_URL)]), d1))"

definition pgweb_start ::
  "(flt \<Rightarrow> string) \<Rightarrow> 'd docker \<Rightarrow> string \<Rightarrow> environment \<Rightarrow> fetched \<Rightarrow> 'd \<Rightarrow> pydict res \<times> 'd" where
  "pgweb_start fl docker project env f d =
     (case bsi_node f of
        Inl e \<Rightarrow> (Inl e, d)
      | Inr n \<Rightarrow>
          checked ''pgweb_start'' [(''running'', PBool True), (''url'', PStr PGWEB_URL)]
            (docker_compose docker project (with_overrides fl env (pgweb_overrides n)) (up_args ''bsi-db'' PGWEB_SVC) d))"

definition pgweb_stop :: "'d docker \<Rightarrow> string \<Rightarrow> environment \<Rightarrow> 'd \<Rightarrow> pydict res \<times> 'd" where
  "pgweb_stop docker project env d =
     checked ''pgweb_stop'' [(''running'', PBool False)] (docker_compose docker project env (rm_args ''bsi-db'' PGWEB_SVC) d)"

section \<open>The Apex middleware\<close>

definition APEX_GUI_SVC :: string where "APEX_GUI_SVC = ''apex-gui''"
definition APEX_SQLITE_SVC :: string where "APEX_SQLITE_SVC = ''apex-sqlite-web''"
definition SQLITE_URL :: string where "SQLITE_URL = ''http://localhost:8095''"

text \<open>\<open>glob("data-*.sqlite")\<close>\<close>

definition archive_name :: "string \<Rightarrow> bool" where
  "archive_name n \<longleftrightarrow> 12 \<le> length n \<and> take 5 n = ''data-'' \<and> drop (length n - 7) n = ''.sqlite''"

definition latest_db :: "string list option \<Rightarrow> string option" where
  "latest_db archive = (case archive of
     None \<Rightarrow> None
   | Some names \<Rightarrow>
       let dbs = sort_key (map (\<lambda>c. of_char c :: nat)) (filter archive_name names)
       in if dbs = [] then None else Some (last dbs))"

text \<open>\<open>counts\<close> is what the two queries on a file give, or the text of a \<open>sqlite3.Error\<close>.\<close>

definition apex_state :: "(string \<Rightarrow> string + (int \<times> int)) \<Rightarrow> string list option \<Rightarrow> pydict" where
  "apex_state counts archive = (case latest_db archive of
     None \<Rightarrow> [(''available'', PBool False), (''reason'', PStr ''no archive files yet'')]
   | Some db \<Rightarrow> (case counts db of
       Inl exc \<Rightarrow> [(''available'', PBool False), (''reason'', PStr (''sqlite: '' @ exc)), (''file'', PStr db)]
     | Inr (msgs, conns) \<Rightarrow>
         [(''available'', PBool True), (''file'', PStr db), (''messages'', PInt msgs), (''connections_open'', PInt conns)]))"

definition gui_status :: "'d docker \<Rightarrow> environment \<Rightarrow> 'd \<Rightarrow> pydict res \<times> 'd" where
  "gui_status docker env d = (case is_running docker env APEX_GUI_SVC d of
     (r, d1) \<Rightarrow> (bindE r (\<lambda>b. Inr [(''running'', PBool b)]), d1))"

definition gui_start :: "'d docker \<Rightarrow> string \<Rightarrow> environment \<Rightarrow> 'd \<Rightarrow> pydict res \<times> 'd" where
  "gui_start docker project env d =
     checked ''gui_start'' [(''running'', PBool True)] (docker_compose docker project env (up_args ''gui'' APEX_GUI_SVC) d)"

definition gui_stop :: "'d docker \<Rightarrow> string \<Rightarrow> environment \<Rightarrow> 'd \<Rightarrow> pydict res \<times> 'd" where
  "gui_stop docker project env d =
     checked ''gui_stop'' [(''running'', PBool False)] (docker_compose docker project env (rm_args ''gui'' APEX_GUI_SVC) d)"

definition sqlite_status :: "'d docker \<Rightarrow> environment \<Rightarrow> 'd \<Rightarrow> pydict res \<times> 'd" where
  "sqlite_status docker env d = (case is_running docker env APEX_SQLITE_SVC d of
     (r, d1) \<Rightarrow> (bindE r (\<lambda>b. Inr [(''running'', PBool b), (''url'', PStr SQLITE_URL)]), d1))"

definition sqlite_start :: "'d docker \<Rightarrow> string \<Rightarrow> environment \<Rightarrow> 'd \<Rightarrow> pydict res \<times> 'd" where
  "sqlite_start docker project env d =
     checked ''sqlite_start'' [(''running'', PBool True), (''url'', PStr SQLITE_URL)]
       (docker_compose docker project env (up_args ''sqlite-ui'' APEX_SQLITE_SVC) d)"

definition sqlite_stop :: "'d docker \<Rightarrow> string \<Rightarrow> environment \<Rightarrow> 'd \<Rightarrow> pydict res \<times> 'd" where
  "sqlite_stop docker project env d =
     checked ''sqlite_stop'' [(''running'', PBool False)] (docker_compose docker project env (rm_args ''sqlite-ui'' APEX_SQLITE_SVC) d)"

section \<open>Lemmas\<close>

lemma checked_ok: "fst (checked what answer (Inr (rc, out, err), d)) = (if rc = 0 then Inr answer
     else Inl (HttpExc 500 (what @ '' failed: '' @ (if err \<noteq> [] then err else out))))"
  by (simp add: checked_def)

lemma latest_db_newest:
  assumes "latest_db (Some names) = Some db"
  shows "db \<in> set names \<and> archive_name db
    \<and> list_all (\<lambda>n. archive_name n \<longrightarrow> map (\<lambda>c. of_char c :: nat) n \<le> map (\<lambda>c. of_char c) db) names"
proof -
  let ?k = "map (\<lambda>c. of_char c :: nat)"
  let ?dbs = "sort_key ?k (filter archive_name names)"
  have ne: "?dbs \<noteq> []" and db: "db = last ?dbs" using assms by (auto simp: latest_db_def Let_def split: if_splits)
  then have "db \<in> set ?dbs" using last_in_set by metis
  moreover have "?k n \<le> ?k db" if "n \<in> set ?dbs" for n
  proof -
    from that obtain i where "i < length ?dbs" "n = ?dbs ! i" by (metis in_set_conv_nth)
    moreover have "sorted (map ?k ?dbs)" by (rule sorted_sort_key)
    ultimately show ?thesis using ne db
      by (simp add: last_conv_nth sorted_iff_nth_mono del: length_sort)
  qed
  ultimately show ?thesis by (auto simp: list_all_iff)
qed

text \<open>Starting pgweb runs one command, for the one container, in an environment that carries the
  registry's current entry: host, port, user, password and database, each with its default when
  the entry has none, and every other variable as the UI process has it. The route reports success
  exactly when the command's exit code is zero; without a BSI node nothing is run.\<close>

theorem pgweb_start_command:
  "(\<forall>n. bsi_node f = Inr n \<longrightarrow> (\<exists>e.
       pgweb_start fl docker project env f d = checked ''pgweb_start'' [(''running'', PBool True), (''url'', PStr PGWEB_URL)]
         (docker [''docker'', ''compose'', ''--project-directory'', project, ''--profile'', ''bsi-db'', ''up'', ''-d'',
                  ''--force-recreate'', ''bsi-pgweb''] e d)
     \<and> map_of e ''BSI_HOST'' = (if dget n ''host'' = PNone then map_of env ''BSI_HOST'' else Some (py_str fl (dget n ''host'')))
     \<and> map_of e ''BSI_PG_PORT'' = Some (py_str fl (or_else (dget n ''admin_port'') (PInt 5432)))
     \<and> map_of e ''BSI_PG_USER'' = Some (py_str fl (or_else (dget n ''db_user'') (PStr ''postgres'')))
     \<and> map_of e ''BSI_PG_PASS'' = Some (py_str fl (or_else (dget n ''db_password'') (PStr ''password'')))
     \<and> map_of e ''BSI_PG_DB'' = Some (py_str fl (or_else (dget n ''db_database'') (PStr ''sapientBSIFlex335v2'')))
     \<and> (\<forall>k. k \<notin> {''BSI_HOST'', ''BSI_PG_PORT'', ''BSI_PG_USER'', ''BSI_PG_PASS'', ''BSI_PG_DB''} \<longrightarrow> map_of e k = map_of env k)))
   \<and> (\<forall>x. bsi_node f = Inl x \<longrightarrow> pgweb_start fl docker project env f d = (Inl x, d))"
proof -
  have ne: "or_else v (PInt (numeral j)) \<noteq> PNone" "c # cs \<noteq> [] \<Longrightarrow> or_else v (PStr (c # cs)) \<noteq> PNone" for v j c cs
    by (cases v; simp add: or_else_def)+
  have env: "map_of (with_overrides fl env (pgweb_overrides n)) k =
      (case map_of (pgweb_overrides n) k of
         Some v \<Rightarrow> if v = PNone then map_of env k else Some (py_str fl v) | None \<Rightarrow> map_of env k)" for n k
    by (simp add: with_overrides_def map_of_dict_update pgweb_overrides_def ne)
  show ?thesis
  proof (intro conjI allI impI)
    fix n assume n: "bsi_node f = Inr n"
    let ?e = "with_overrides fl env (pgweb_overrides n)"
    show "\<exists>e. pgweb_start fl docker project env f d = checked ''pgweb_start'' [(''running'', PBool True), (''url'', PStr PGWEB_URL)]
         (docker [''docker'', ''compose'', ''--project-directory'', project, ''--profile'', ''bsi-db'', ''up'', ''-d'',
                  ''--force-recreate'', ''bsi-pgweb''] e d)
     \<and> map_of e ''BSI_HOST'' = (if dget n ''host'' = PNone then map_of env ''BSI_HOST'' else Some (py_str fl (dget n ''host'')))
     \<and> map_of e ''BSI_PG_PORT'' = Some (py_str fl (or_else (dget n ''admin_port'') (PInt 5432)))
     \<and> map_of e ''BSI_PG_USER'' = Some (py_str fl (or_else (dget n ''db_user'') (PStr ''postgres'')))
     \<and> map_of e ''BSI_PG_PASS'' = Some (py_str fl (or_else (dget n ''db_password'') (PStr ''password'')))
     \<and> map_of e ''BSI_PG_DB'' = Some (py_str fl (or_else (dget n ''db_database'') (PStr ''sapientBSIFlex335v2'')))
     \<and> (\<forall>k. k \<notin> {''BSI_HOST'', ''BSI_PG_PORT'', ''BSI_PG_USER'', ''BSI_PG_PASS'', ''BSI_PG_DB''} \<longrightarrow> map_of e k = map_of env k)"
      by (rule exI [of _ ?e])
         (simp add: env, simp add: n pgweb_start_def docker_compose_def up_args_def PGWEB_SVC_def pgweb_overrides_def ne)
  qed (simp add: pgweb_start_def)
qed

lemma pgweb_start_command_witness:
  "\<exists>e. snd (pgweb_start (\<lambda>_. []) (\<lambda>cmd e d. (Inr (0, [], []), d @ [(length cmd, e)])) ''/work'' [(''PATH'', ''/bin'')]
        (Document (PDict [(''nodes'', PList [PDict [(''id'', PStr ''bsi-windows''), (''host'', PStr ''h''), (''db_user'', PStr ''u'')]])])) [])
      = [(10, e)] \<and> map_of e ''BSI_PG_USER'' = Some ''u'' \<and> map_of e ''BSI_PG_PASS'' = Some ''password'' \<and> map_of e ''PATH'' = Some ''/bin''"
proof -
  let ?n = "[(''id'', PStr ''bsi-windows''), (''host'', PStr ''h''), (''db_user'', PStr ''u'')]"
  let ?f = "Document (PDict [(''nodes'', PList [PDict ?n])])"
  have n: "bsi_node ?f = Inr ?n"
    by (simp add: bsi_node_def find_node_def fetch_current_def attr_get_def dget_def dget_or_def)
  show ?thesis
    using pgweb_start_command [where fl = "\<lambda>_. []" and docker = "\<lambda>cmd e d. (Inr (0, [], []), d @ [(length cmd, e)])"
        and project = "''/work''" and env = "[(''PATH'', ''/bin'')]" and f = ?f and d = "[]", THEN conjunct1, rule_format, OF n]
    by (elim exE conjE) (rule_tac x = e in exI, simp add: checked_def or_else_def dget_def)
qed

end
