(* ===== verification/XmlTree.thy ===== *)
theory XmlTree
  imports PyNum
begin

text \<open>
  Elements of \<open>xml.etree.ElementTree\<close> and the operations on them that the Apex middleware uses. An
  operation that changes an element in place returns the changed element.
\<close>

section \<open>Elements\<close>

text \<open>Tag (none for a comment), attributes, text, tail and children.\<close>

datatype element =
  Element (tag: "string option") (attrs: "(string, string) odict") (etext: "string option") (tail: "string option")
    (kids: "element list")

definition new_element :: "string \<Rightarrow> element" where
  "new_element t = Element (Some t) [] None None []"

definition text_element :: "string \<Rightarrow> string option \<Rightarrow> element" where
  "text_element t s = Element (Some t) [] s None []"

fun set_tail :: "string option \<Rightarrow> element \<Rightarrow> element" where
  "set_tail t (Element g a x _ ks) = Element g a x t ks"

fun set_text :: "string option \<Rightarrow> element \<Rightarrow> element" where
  "set_text x (Element g a _ t ks) = Element g a x t ks"

fun set_kids :: "element list \<Rightarrow> element \<Rightarrow> element" where
  "set_kids ks (Element g a x t _) = Element g a x t ks"

text \<open>\<open>e.attrib[k] = v\<close>, \<open>e.append(c)\<close>\<close>

fun set_attr :: "string \<Rightarrow> string \<Rightarrow> element \<Rightarrow> element" where
  "set_attr k v (Element g a x t ks) = Element g (AList.update k v a) x t ks"

fun del_attr :: "string \<Rightarrow> element \<Rightarrow> element" where
  "del_attr k (Element g a x t ks) = Element g (AList.delete k a) x t ks"

fun append_kid :: "element \<Rightarrow> element \<Rightarrow> element" where
  "append_kid c (Element g a x t ks) = Element g a x t (ks @ [c])"

text \<open>\<open>e.find(name)\<close> as the position of the child; \<open>e.remove(c)\<close> of a child that was found so.\<close>

definition has_tag :: "string \<Rightarrow> element \<Rightarrow> bool" where
  "has_tag t e \<longleftrightarrow> tag e = Some t"

definition find_kid :: "string \<Rightarrow> element \<Rightarrow> element option" where
  "find_kid t e = List.find (has_tag t) (kids e)"

fun remove_first :: "('a \<Rightarrow> bool) \<Rightarrow> 'a list \<Rightarrow> 'a list" where
  "remove_first P [] = []"
| "remove_first P (x # xs) = (if P x then xs else x # remove_first P xs)"

definition remove_kid :: "string \<Rightarrow> element \<Rightarrow> element" where
  "remove_kid t e = set_kids (remove_first (has_tag t) (kids e)) e"

text \<open>For every child of that name (\<open>findall\<close>): change it, or remove it.\<close>

definition change_kids :: "string \<Rightarrow> (element \<Rightarrow> element res) \<Rightarrow> element \<Rightarrow> element res" where
  "change_kids t f e = bindE (mapE (\<lambda>c. if has_tag t c then f c else Inr c) (kids e)) (\<lambda>ks. Inr (set_kids ks e))"

definition remove_kids :: "string \<Rightarrow> element \<Rightarrow> element" where
  "remove_kids t e = set_kids (filter (\<lambda>c. \<not> has_tag t c) (kids e)) e"

text \<open>\<open>for x in e.iter(name): \<dots>\<close> where the body \<open>f\<close> may change attributes and text of \<open>x\<close>, remove
  children of \<open>x\<close> and append children without children: the element before its descendants, which are
  the children it has after the body. The first argument bounds the depth.\<close>

fun iter_change :: "nat \<Rightarrow> string \<Rightarrow> (element \<Rightarrow> element res) \<Rightarrow> element \<Rightarrow> element res" where
  "iter_change 0 t f e = Inr e"
| "iter_change (Suc n) t f e =
     bindE (if has_tag t e then f e else Inr e) (\<lambda>e1.
     bindE (mapE (iter_change n t f) (kids e1)) (\<lambda>ks. Inr (set_kids ks e1)))"

fun depth :: "element \<Rightarrow> nat" where
  "depth (Element g a x t ks) = Suc (fold max (map depth ks) 0)"

definition for_iter :: "string \<Rightarrow> (element \<Rightarrow> element res) \<Rightarrow> element \<Rightarrow> element res" where
  "for_iter t f e = iter_change (Suc (depth e)) t f e"

text \<open>The first element of that name in an iteration over the descendants.\<close>

fun first_of :: "('a \<Rightarrow> 'b option) \<Rightarrow> 'a list \<Rightarrow> 'b option" where
  "first_of f [] = None"
| "first_of f (x # xs) = (case f x of None \<Rightarrow> first_of f xs | Some y \<Rightarrow> Some y)"

lemma first_of_cong [fundef_cong]:
  "xs = ys \<Longrightarrow> (\<And>x. x \<in> set ys \<Longrightarrow> f x = h x) \<Longrightarrow> first_of f xs = first_of h ys"
  by (induction ys arbitrary: xs) (auto split: option.split)

fun first_tagged :: "string \<Rightarrow> element \<Rightarrow> element option" where
  "first_tagged n (Element g a x t ks) = (if g = Some n then Some (Element g a x t ks) else first_of (first_tagged n) ks)"

definition list_remove_error :: exn where
  "list_remove_error = value_error ''list.remove(x): x not in list''"

text \<open>\<open>for x in e.iter(name): f(x); e.remove(x)\<close>, over the children of \<open>e\<close>, which has another name: the
  children that are left and the values of \<open>f\<close>. The iterator counts positions, so the child after a
  removed one is passed over with all its descendants; a descendant that is not a child cannot be removed.\<close>

fun iter_removing :: "(element \<Rightarrow> 'a res) \<Rightarrow> string \<Rightarrow> element list \<Rightarrow> (element list \<times> 'a list) res" where
  "iter_removing f t [] = Inr ([], [])"
| "iter_removing f t (k # ks) =
     (let deeper = (case first_of (first_tagged t) (kids k) of
            None \<Rightarrow> Inr () | Some d \<Rightarrow> bindE (f d) (\<lambda>_. Inl list_remove_error))
      in if has_tag t k then
           bindE (f k) (\<lambda>a. bindE deeper (\<lambda>_. case ks of
               [] \<Rightarrow> Inr ([], [a])
             | k1 # ks1 \<Rightarrow> bindE (iter_removing f t ks1) (\<lambda>(r, as). Inr (k1 # r, a # as))))
         else bindE deeper (\<lambda>_. bindE (iter_removing f t ks) (\<lambda>(r, as). Inr (k # r, as))))"

text \<open>Changing the child that \<open>e.find(name)\<close> gives.\<close>

fun change_first :: "('a \<Rightarrow> bool) \<Rightarrow> ('a \<Rightarrow> 'a) \<Rightarrow> 'a list \<Rightarrow> 'a list" where
  "change_first P f [] = []"
| "change_first P f (x # xs) = (if P x then f x # xs else x # change_first P f xs)"

definition change_kid :: "string \<Rightarrow> (element \<Rightarrow> element) \<Rightarrow> element \<Rightarrow> element" where
  "change_kid t f e = set_kids (change_first (has_tag t) f (kids e)) e"

section \<open>Indentation (\<open>ET.indent\<close>)\<close>

definition blank :: "string option \<Rightarrow> bool" where
  "blank s \<longleftrightarrow> (case s of None \<Rightarrow> True | Some t \<Rightarrow> strip t = [])"

definition indentation :: "nat \<Rightarrow> string" where
  "indentation n = CHR 0x0A # replicate (2 * n) (CHR '' '')"

text \<open>The tail of the last child is \<open>outer\<close> when it is blank, which it always is after the loop unless it
  had text of its own.\<close>

fun indent_children :: "nat \<Rightarrow> element \<Rightarrow> element"
and indent_kids :: "nat \<Rightarrow> element list \<Rightarrow> element list" where
  "indent_children n (Element g a x t ks) =
     Element g a (if blank x then Some (indentation (Suc n)) else x) t (indent_kids n ks)"
| "indent_kids n [] = []"
| "indent_kids n (c # cs) =
     (let c1 = (if kids c = [] then c else indent_children (Suc n) c);
          c2 = (if blank (tail c) then set_tail (Some (indentation (if cs = [] then n else Suc n))) c1 else c1)
      in c2 # indent_kids n cs)"

definition indent :: "element \<Rightarrow> element" where
  "indent e = (if kids e = [] then e else indent_children 0 e)"

section \<open>Lemmas\<close>

lemma set_simps [simp]:
  "tag (set_tail t e) = tag e" "attrs (set_tail t e) = attrs e" "etext (set_tail t e) = etext e" "tail (set_tail t e) = t"
  "kids (set_tail t e) = kids e" "tag (set_text x e) = tag e" "attrs (set_text x e) = attrs e" "etext (set_text x e) = x"
  "tail (set_text x e) = tail e" "kids (set_text x e) = kids e" "tag (set_kids ks e) = tag e" "attrs (set_kids ks e) = attrs e"
  "etext (set_kids ks e) = etext e" "tail (set_kids ks e) = tail e" "kids (set_kids ks e) = ks"
  "tag (set_attr k v e) = tag e" "attrs (set_attr k v e) = AList.update k v (attrs e)" "etext (set_attr k v e) = etext e"
  "tail (set_attr k v e) = tail e" "kids (set_attr k v e) = kids e"
  "tag (append_kid c e) = tag e" "attrs (append_kid c e) = attrs e" "etext (append_kid c e) = etext e"
  "tail (append_kid c e) = tail e" "kids (append_kid c e) = kids e @ [c]"
  by (cases e; simp)+

lemma new_element_simps [simp]:
  "tag (new_element t) = Some t" "attrs (new_element t) = []" "etext (new_element t) = None" "tail (new_element t) = None"
  "kids (new_element t) = []"
  by (simp_all add: new_element_def)

lemma strip_indentation [simp]: "strip (indentation n) = []"
  by (induction n) (simp_all add: indentation_def strip_def lstrip_def is_space_def)

lemma length_indent_kids [simp]: "length (indent_kids n ks) = length ks"
  by (induction ks arbitrary: n) (simp_all add: Let_def)

section \<open>Iteration without a bound\<close>

lemma first_tagged_None_iff: "first_of f ks = None \<longleftrightarrow> (\<forall>k \<in> set ks. f k = None)"
  by (induction ks) (auto split: option.splits)

lemma fold_max_ge: "(a::nat) \<le> fold max xs a" "x \<in> set xs \<Longrightarrow> x \<le> fold max xs a"
proof -
  show ge: "a \<le> fold max xs a" for a :: nat and xs
    by (induction xs arbitrary: a) (auto intro: max.coboundedI2 dest: max.boundedE [rotated] le_trans [rotated])
  show "x \<in> set xs \<Longrightarrow> x \<le> fold max xs a"
  proof (induction xs arbitrary: a)
    case (Cons y xs)
    then show ?case using ge [of "max x a" xs] by auto
  qed simp
qed

lemma depth_kid: "c \<in> set (kids e) \<Longrightarrow> depth c < depth e"
  by (cases e) (auto simp: less_Suc_eq_le intro!: fold_max_ge)

lemma depth_pos: "0 < depth e"
  by (cases e) simp

text \<open>A loop body that keeps children or adds ones that the loop passes over.\<close>

definition adds_leaves :: "string \<Rightarrow> (element \<Rightarrow> element res) \<Rightarrow> bool" where
  "adds_leaves t f \<longleftrightarrow> (\<forall>e e1. f e = Inr e1 \<longrightarrow> (\<forall>c \<in> set (kids e1). c \<in> set (kids e) \<or> kids c = [] \<and> \<not> has_tag t c))"

lemma mapE_cong: "(\<And>x. x \<in> set xs \<Longrightarrow> f x = h x) \<Longrightarrow> mapE f xs = mapE h xs"
  by (induction xs) auto

lemma set_own_kids: "kids e = [] \<Longrightarrow> set_kids [] e = e"
  by (cases e) simp

lemma iter_leaf: "kids c = [] \<Longrightarrow> \<not> has_tag t c \<Longrightarrow> iter_change n t f c = Inr c"
  by (cases n) (simp_all add: set_own_kids)

lemma iter_enough:
  assumes "adds_leaves t f"
  shows "depth e \<le> n \<Longrightarrow> depth e \<le> m \<Longrightarrow> iter_change n t f e = iter_change m t f e"
proof (induction n arbitrary: e m)
  case 0
  then show ?case using depth_pos [of e] by simp
next
  case (Suc n)
  then obtain k where m: "m = Suc k" using depth_pos [of e] by (cases m) auto
  have "mapE (iter_change n t f) (kids e1) = mapE (iter_change k t f) (kids e1)"
    if e1: "(if has_tag t e then f e else Inr e) = Inr e1" for e1
  proof (rule mapE_cong)
    fix c assume c: "c \<in> set (kids e1)"
    have "c \<in> set (kids e) \<or> kids c = [] \<and> \<not> has_tag t c"
      using e1 c assms by (cases "has_tag t e") (auto simp: adds_leaves_def)
    then show "iter_change n t f c = iter_change k t f c"
    proof
      assume "c \<in> set (kids e)"
      from depth_kid [OF this] Suc.prems m have "depth c \<le> n" "depth c \<le> k" by auto
      then show ?thesis by (rule Suc.IH)
    next
      assume "kids c = [] \<and> \<not> has_tag t c"
      then show ?thesis using iter_leaf by metis
    qed
  qed
  then show ?case by (cases "if has_tag t e then f e else Inr e") (simp_all add: m)
qed

lemma for_iter_unfold:
  assumes "adds_leaves t f"
  shows "for_iter t f e = bindE (if has_tag t e then f e else Inr e) (\<lambda>e1.
    bindE (mapE (for_iter t f) (kids e1)) (\<lambda>ks. Inr (set_kids ks e1)))"
proof -
  have "mapE (iter_change (depth e) t f) (kids e1) = mapE (for_iter t f) (kids e1)"
    if e1: "(if has_tag t e then f e else Inr e) = Inr e1" for e1
  proof (rule mapE_cong)
    fix c assume c: "c \<in> set (kids e1)"
    have "c \<in> set (kids e) \<or> kids c = [] \<and> \<not> has_tag t c"
      using e1 c assms by (cases "has_tag t e") (auto simp: adds_leaves_def)
    then show "iter_change (depth e) t f c = for_iter t f c"
    proof
      assume "c \<in> set (kids e)"
      from depth_kid [OF this] show ?thesis unfolding for_iter_def by (intro iter_enough [OF assms]) auto
    next
      assume "kids c = [] \<and> \<not> has_tag t c"
      then show ?thesis unfolding for_iter_def using iter_leaf by metis
    qed
  qed
  then show ?thesis unfolding for_iter_def [of t f e] by (cases "if has_tag t e then f e else Inr e") simp_all
qed

text \<open>Removing while iterating passes over every second child.\<close>

fun every_second :: "'a list \<Rightarrow> 'a list" where
  "every_second [] = []"
| "every_second [x] = [x]"
| "every_second (x # y # xs) = x # every_second xs"

lemma removing_every_second:
  "\<forall>k \<in> set ks. has_tag t k \<and> first_of (first_tagged t) (kids k) = None
    \<Longrightarrow> iter_removing f t ks = bindE (mapE f (every_second ks)) (\<lambda>as. Inr (every_second (tl ks), as))"
proof (induction ks rule: every_second.induct)
  case (2 k)
  then show ?case by (cases "f k") simp_all
next
  case (3 k k1 ks)
  then have ih: "iter_removing f t ks = bindE (mapE f (every_second ks)) (\<lambda>as. Inr (every_second (tl ks), as))" by simp
  have "every_second (k1 # ks) = k1 # every_second (tl ks)" by (cases ks) simp_all
  with 3(2) ih show ?case by (cases "f k"; cases "mapE f (every_second ks)") simp_all
qed simp

lemma removing_subset: "iter_removing f t ks = Inr (left, as) \<Longrightarrow> set left \<subseteq> set ks"
proof (induction ks arbitrary: left as rule: length_induct)
  case (1 ks)
  show ?case
  proof (cases ks)
    case (Cons k ks1)
    show ?thesis
    proof (cases "has_tag t k")
      case True
      show ?thesis
      proof (cases ks1)
        case Nil
        with "1.prems" Cons True show ?thesis by (auto simp: Let_def bindE_Inr_iff)
      next
        case step: (Cons k1 ks2)
        with "1.prems" Cons True obtain r as1 where r: "iter_removing f t ks2 = Inr (r, as1)" "left = k1 # r"
          by (auto simp: Let_def bindE_Inr_iff)
        have "set r \<subseteq> set ks2" using "1.IH" r(1) Cons step by auto
        with r(2) Cons step show ?thesis by auto
      qed
    next
      case False
      with "1.prems" Cons obtain r as1 where r: "iter_removing f t ks1 = Inr (r, as1)" "left = k # r"
        by (auto simp: Let_def bindE_Inr_iff)
      have "set r \<subseteq> set ks1" using "1.IH" r(1) Cons by auto
      with r(2) Cons show ?thesis by auto
    qed
  qed (use "1.prems" in simp)
qed

end
