(* ===== verification/IdGenerator.thy ===== *)
theory IdGenerator
  imports PyNum
begin

text \<open>
  The identifiers of the Apex middleware (\<open>sapient_apex_server/translator/id_generator.py\<close>). SAPIENT
  messages in protobuf name things by ULIDs and UUIDs, XML messages by integers; the generator keeps
  dictionaries from the former to the latter, some of them per node.

  The source types the dictionaries as holding either integers or \<open>SensorIdMapping\<close> objects, but puts
  both into the same dictionary, so a value here is one of the two and what either cannot do is an
  exception. A dictionary that is passed around is named by a reference, because it is changed in place.
\<close>

section \<open>The generator\<close>

datatype id_value =
  Id int
| SensorIdMapping int (task_id_map: "(string \<times> id_value) list") (report_id_map: "(string \<times> id_value) list")
    (object_id_map: "(string \<times> id_value) list")

type_synonym ids = "(string, id_value) odict"

definition new_mapping :: "int \<Rightarrow> id_value" where
  "new_mapping i = SensorIdMapping i [] [] []"

definition no_attr :: "string \<Rightarrow> string \<Rightarrow> exn" where
  "no_attr cls a = PyExc ''AttributeError'' (repr_str cls @ '' object has no attribute '' @ repr_str a)"

definition key_error :: "string \<Rightarrow> exn" where
  "key_error k = PyExc ''KeyError'' (repr_str k)"

text \<open>\<open>v.xml_id\<close>\<close>

fun xml_id :: "id_value \<Rightarrow> int res" where
  "xml_id (Id i) = Inl (no_attr ''int'' ''xml_id'')"
| "xml_id (SensorIdMapping i t r ob) = Inr i"

text \<open>\<open>v.xml_id if hasattr(v, "xml_id") else v\<close>\<close>

fun id_number :: "id_value \<Rightarrow> int" where
  "id_number (Id i) = i"
| "id_number (SensorIdMapping i t r ob) = i"

record id_generator =
  node_id_map :: ids
  region_id_map :: ids
  alert_id_map :: ids
  all_ids_map :: "(string, int) odict"
  id_enabled :: bool
  next_id :: int
  next_report_id :: int
  next_object_id :: int

text \<open>\<open>IdGenerator.__init__\<close>, from the values it reads of the configuration.\<close>

definition new_generator :: "(string \<times> int) list \<Rightarrow> bool \<Rightarrow> int \<Rightarrow> id_generator" where
  "new_generator static on starting =
     \<lparr>node_id_map = fold (\<lambda>(u, i). AList.update u (new_mapping i)) static [], region_id_map = [], alert_id_map = [],
      all_ids_map = [], id_enabled = on, next_id = starting - 1, next_report_id = starting - 1,
      next_object_id = starting - 1\<rparr>"

definition get_next_id :: "id_generator \<Rightarrow> int \<times> id_generator" where
  "get_next_id g = (next_id g + 1, g\<lparr>next_id := next_id g + 1\<rparr>)"

definition get_id_ulid_pair :: "string \<Rightarrow> id_generator \<Rightarrow> (string \<times> int) \<times> id_generator" where
  "get_id_ulid_pair fresh g =
     ((fresh, next_id g + 1),
      g\<lparr>next_id := next_id g + 1, node_id_map := AList.update fresh (new_mapping (next_id g + 1)) (node_id_map g)\<rparr>)"

section \<open>Looking an integer up\<close>

text \<open>What is compared with the integer: the values themselves, of which an object equals no integer,
  or their \<open>xml_id\<close>.\<close>

fun id_field :: "bool \<Rightarrow> id_value \<Rightarrow> int option res" where
  "id_field True (Id i) = Inr (Some i)"
| "id_field True (SensorIdMapping i t r ob) = Inr None"
| "id_field False v = bindE (xml_id v) (\<lambda>i. Inr (Some i))"

fun find_id :: "bool \<Rightarrow> int \<Rightarrow> ids \<Rightarrow> string option res" where
  "find_id ints i [] = Inr None"
| "find_id ints i ((u, v) # m) = bindE (id_field ints v) (\<lambda>x. if x = Some i then Inr (Some u) else find_id ints i m)"

text \<open>The first value decides how all are read.\<close>

definition get_ulid_from_id :: "ids \<Rightarrow> int \<Rightarrow> string option res" where
  "get_ulid_from_id m i = (case m of
      [] \<Rightarrow> Inl (PyExc ''IndexError'' ''list index out of range'')
    | (u, v) # _ \<Rightarrow> find_id (is_Id v) i m)"

section \<open>The dictionaries\<close>

definition is_node_id_map :: "string \<Rightarrow> bool" where
  "is_node_id_map name \<longleftrightarrow> name \<in> {''node_id'', ''task_id'', ''report_id'', ''object_id'', ''active_task_id''}"

datatype id_map_ref = NodeIds | RegionIds | AlertIds | TaskIds string | ReportIds string | ObjectIds string

definition node_mapping :: "string \<Rightarrow> id_generator \<Rightarrow> id_value" where
  "node_mapping n g = (case map_of (node_id_map g) n of Some v \<Rightarrow> v | None \<Rightarrow> Id 0)"

fun sub_map :: "(id_value \<Rightarrow> ids) \<Rightarrow> id_value \<Rightarrow> ids" where
  "sub_map f (Id i) = []"
| "sub_map f v = f v"

fun get_map :: "id_map_ref \<Rightarrow> id_generator \<Rightarrow> ids" where
  "get_map NodeIds g = node_id_map g"
| "get_map RegionIds g = region_id_map g"
| "get_map AlertIds g = alert_id_map g"
| "get_map (TaskIds n) g = sub_map task_id_map (node_mapping n g)"
| "get_map (ReportIds n) g = sub_map report_id_map (node_mapping n g)"
| "get_map (ObjectIds n) g = sub_map object_id_map (node_mapping n g)"

fun with_tasks :: "ids \<Rightarrow> id_value \<Rightarrow> id_value" where
  "with_tasks m (SensorIdMapping i t r ob) = SensorIdMapping i m r ob"
| "with_tasks m v = v"

fun with_reports :: "ids \<Rightarrow> id_value \<Rightarrow> id_value" where
  "with_reports m (SensorIdMapping i t r ob) = SensorIdMapping i t m ob"
| "with_reports m v = v"

fun with_objects :: "ids \<Rightarrow> id_value \<Rightarrow> id_value" where
  "with_objects m (SensorIdMapping i t r ob) = SensorIdMapping i t r m"
| "with_objects m v = v"

definition change_node :: "string \<Rightarrow> (id_value \<Rightarrow> id_value) \<Rightarrow> id_generator \<Rightarrow> id_generator" where
  "change_node n f g = g\<lparr>node_id_map := map (\<lambda>(u, v). (u, if u = n then f v else v)) (node_id_map g)\<rparr>"

fun set_map :: "id_map_ref \<Rightarrow> ids \<Rightarrow> id_generator \<Rightarrow> id_generator" where
  "set_map NodeIds m g = g\<lparr>node_id_map := m\<rparr>"
| "set_map RegionIds m g = g\<lparr>region_id_map := m\<rparr>"
| "set_map AlertIds m g = g\<lparr>alert_id_map := m\<rparr>"
| "set_map (TaskIds n) m g = change_node n (with_tasks m) g"
| "set_map (ReportIds n) m g = change_node n (with_reports m) g"
| "set_map (ObjectIds n) m g = change_node n (with_objects m) g"

text \<open>\<open>IdGenerator.id_map_registry\<close> and \<open>SensorIdMapping.map_registry\<close>; in the latter two names stand for
  the object itself.\<close>

definition id_map_registry :: "string \<Rightarrow> id_map_ref res" where
  "id_map_registry name =
     (if name \<in> {''node_id'', ''task_id'', ''report_id'', ''object_id'', ''active_task_id'', ''destination_id''} then Inr NodeIds
      else if name = ''region_id'' then Inr RegionIds else if name = ''alert_id'' then Inr AlertIds
      else Inl (key_error name))"

datatype registered_map = IdMap id_map_ref | OwnMapping

definition map_registry :: "string \<Rightarrow> string \<Rightarrow> registered_map res" where
  "map_registry node name =
     (if name = ''node_id'' \<or> name = ''destination_id'' then Inr OwnMapping
      else if name = ''task_id'' \<or> name = ''active_task_id'' then Inr (IdMap (TaskIds node))
      else if name = ''report_id'' then Inr (IdMap (ReportIds node))
      else if name = ''object_id'' then Inr (IdMap (ObjectIds node)) else Inl (key_error name))"

definition opt_key :: "string option \<Rightarrow> exn" where
  "opt_key n = (case n of None \<Rightarrow> PyExc ''KeyError'' ''None'' | Some s \<Rightarrow> key_error s)"

text \<open>\<open>node_id_map[n]\<close> followed by an attribute that only an object has.\<close>

definition node_object :: "string \<Rightarrow> string option \<Rightarrow> id_generator \<Rightarrow> string res" where
  "node_object a n g = (case Option.bind n (map_of (node_id_map g)) of
      None \<Rightarrow> Inl (opt_key n) | Some (Id i) \<Rightarrow> Inl (no_attr ''int'' a) | Some _ \<Rightarrow> Inr (the n))"

text \<open>\<open>id_map_registry[name]\<close>, and for the names that count per node the dictionary of that node.\<close>

definition map_for :: "string \<Rightarrow> string option \<Rightarrow> id_generator \<Rightarrow> registered_map res" where
  "map_for name node g =
     bindE (id_map_registry name) (\<lambda>r.
       if is_node_id_map name then bindE (node_object ''map_registry'' node g) (\<lambda>n. map_registry n name)
       else Inr (IdMap r))"

definition insert_new_ulid_id_pair :: "string \<Rightarrow> int \<Rightarrow> id_map_ref \<Rightarrow> bool \<Rightarrow> id_generator \<Rightarrow> id_generator" where
  "insert_new_ulid_id_pair ulid i r node g =
     (set_map r (AList.update ulid (if node then new_mapping i else Id i) (get_map r g)) g)
       \<lparr>all_ids_map := AList.update ulid i (all_ids_map g)\<rparr>"

section \<open>Lemmas\<close>

definition object_node :: "string \<Rightarrow> id_generator \<Rightarrow> bool" where
  "object_node n g \<longleftrightarrow> (\<exists>i t r ob. map_of (node_id_map g) n = Some (SensorIdMapping i t r ob))"

text \<open>A reference is valid when the node it goes through has an object.\<close>

fun valid_ref :: "id_map_ref \<Rightarrow> id_generator \<Rightarrow> bool" where
  "valid_ref (TaskIds n) g = object_node n g"
| "valid_ref (ReportIds n) g = object_node n g"
| "valid_ref (ObjectIds n) g = object_node n g"
| "valid_ref r g = True"

lemma map_of_change: "map_of (map (\<lambda>(u, v). (u, if u = n then f v else v)) m) k = (if k = n then map_option f (map_of m k) else map_of m k)"
  by (induction m) auto

lemma node_mapping_change:
  assumes "object_node n g"
  shows "node_mapping n (change_node n f g) = f (node_mapping n g)"
  using assms by (auto simp: object_node_def node_mapping_def change_node_def map_of_change)

lemma get_set_map [simp]: "valid_ref r g \<Longrightarrow> get_map r (set_map r m g) = m"
  by (cases r) (auto simp: node_mapping_change, auto simp: object_node_def node_mapping_def)

lemma node_object_Inr: "node_object a n g = Inr u \<Longrightarrow> n = Some u \<and> object_node u g"
  by (cases n) (auto simp: node_object_def object_node_def split: option.splits id_value.splits)

lemma map_registry_Inr:
  "map_registry u name = Inr (IdMap r) \<Longrightarrow> r = TaskIds u \<or> r = ReportIds u \<or> r = ObjectIds u"
  by (simp add: map_registry_def split: if_split_asm)

lemma id_map_registry_Inr: "id_map_registry name = Inr r \<Longrightarrow> r = NodeIds \<or> r = RegionIds \<or> r = AlertIds"
  by (simp add: id_map_registry_def split: if_split_asm)

lemma map_for_valid:
  assumes "map_for name node g = Inr (IdMap r)"
  shows "valid_ref r g"
proof -
  obtain r0 where r0: "id_map_registry name = Inr r0"
    "(if is_node_id_map name then bindE (node_object ''map_registry'' node g) (\<lambda>n. map_registry n name) else Inr (IdMap r0)) = Inr (IdMap r)"
    using assms unfolding map_for_def bindE_Inr_iff by blast
  show ?thesis
  proof (cases "is_node_id_map name")
    case True
    with r0(2) obtain u where "node_object ''map_registry'' node g = Inr u" "map_registry u name = Inr (IdMap r)"
      unfolding bindE_Inr_iff by (simp add: bindE_Inr_iff) blast
    then show ?thesis using node_object_Inr map_registry_Inr by fastforce
  next
    case False
    with r0 id_map_registry_Inr [OF r0(1)] show ?thesis by auto
  qed
qed

lemma get_map_all [simp]: "get_map r (g\<lparr>all_ids_map := m\<rparr>) = get_map r g"
  by (cases r) (simp_all add: node_mapping_def)

lemma get_map_next [simp]: "get_map r (g\<lparr>next_id := i\<rparr>) = get_map r g"
  by (cases r) (simp_all add: node_mapping_def)

lemma valid_ref_next [simp]: "valid_ref r (g\<lparr>next_id := i\<rparr>) = valid_ref r g"
  by (cases r) (simp_all add: object_node_def)

lemma get_map_insert:
  "valid_ref r g \<Longrightarrow> get_map r (insert_new_ulid_id_pair u i r node g) = AList.update u (if node then new_mapping i else Id i) (get_map r g)"
  by (simp add: insert_new_ulid_id_pair_def)

text \<open>A dictionary of integers, and one of objects, is read back by its first matching entry.\<close>

lemma find_id_ints: "list_all (is_Id \<circ> snd) m \<Longrightarrow> find_id True i m = Inr (map_option fst (List.find (\<lambda>(u, v). v = Id i) m))"
  by (induction m) (auto simp: is_Id_def)

end
