(* ===== verification/ApexIo.thy ===== *)
theory ApexIo
  imports Framing IdGenerator
begin

text \<open>
  Data and output of the Apex middleware (\<open>dstl/Apex-SAPIENT-Middleware/sapient_apex_server\<close>): the
  records of \<open>structures.py\<close>, the writer of a
  connection (\<open>message_io.py\<close>) and the configuration of a connection (\<open>apex_server.py\<close>).

  A protobuf message and an XML element are values of the type variables \<open>'p\<close> and \<open>'x\<close>; what
  protobuf, \<open>ElementTree\<close> and the translators do with them is the argument \<open>lib\<close>. Times are
  microseconds since the epoch.
\<close>

section \<open>Formats, versions and errors (\<open>structures.py\<close>)\<close>

datatype message_format = XML | JSON | GEO_JSON | PROTO

datatype sapient_version = VERSION6 | BSI_FLEX_335_V1_0 | BSI_FLEX_335_V2_0

definition LATEST :: sapient_version where "LATEST = BSI_FLEX_335_V2_0"
definition OLDEST :: sapient_version where "OLDEST = VERSION6"
definition LOWEST_PROTO :: sapient_version where "LOWEST_PROTO = BSI_FLEX_335_V1_0"

fun version_value :: "sapient_version \<Rightarrow> int" where
  "version_value VERSION6 = 1"
| "version_value BSI_FLEX_335_V1_0 = 2"
| "version_value BSI_FLEX_335_V2_0 = 3"

text \<open>\<open>SapientVersion(n)\<close>.\<close>

definition version_of :: "int \<Rightarrow> sapient_version res" where
  "version_of n = (if n = 1 then Inr VERSION6 else if n = 2 then Inr BSI_FLEX_335_V1_0
     else if n = 3 then Inr BSI_FLEX_335_V2_0
     else Inl (value_error (show_int n @ '' is not a valid SapientVersion'')))"

fun protocol_name :: "sapient_version \<Rightarrow> string" where
  "protocol_name VERSION6 = ''Version6''"
| "protocol_name BSI_FLEX_335_V1_0 = ''BSI Flex 335 v1.0''"
| "protocol_name BSI_FLEX_335_V2_0 = ''BSI Flex 335 v2.0''"

datatype error_severity = UNSTORED | SILENT | NOISY | FATAL

record error_record =
  err_severity :: error_severity
  description :: string

definition UnstoredError :: "string \<Rightarrow> error_record" where
  "UnstoredError d = \<lparr>err_severity = UNSTORED, description = d\<rparr>"
definition SilentError :: "string \<Rightarrow> error_record" where
  "SilentError d = \<lparr>err_severity = SILENT, description = d\<rparr>"
definition NoisyError :: "string \<Rightarrow> error_record" where
  "NoisyError d = \<lparr>err_severity = NOISY, description = d\<rparr>"
definition FatalError :: "string \<Rightarrow> error_record" where
  "FatalError d = \<lparr>err_severity = FATAL, description = d\<rparr>"

section \<open>Messages\<close>

record received_data =
  rd_connection :: nat
  rd_message :: nat
  rd_timestamp :: int
  data_bytes :: bytes

record ('p, 'x) parsed_record =
  message_type :: "string option"
  pr_node_id :: "string option"
  internal_sensor_id :: "int option"
  destination_node_id :: "string option"
  message_timestamp :: int
  detection_confidence :: "flt option"
  parsed_proto :: "'p option"
  parsed_xml :: "'x option"

record status_record =
  system :: "string option"
  is_unchanged :: bool

text \<open>\<open>MessageRecord\<close>; \<open>RegistrationRecord\<close> is its node name.\<close>

record ('p, 'x) message_record =
  received :: received_data
  data_decoded_xml :: string
  data_binary_proto :: "bytes option"
  forwarded_count :: nat
  parsed :: "('p, 'x) parsed_record option"
  registered :: "string option"
  status_report :: "status_record option"
  error :: "error_record option"
  updated_data_bytes :: "bytes option"
  version :: sapient_version

text \<open>\<open>Union[Message, ET.Element, MessageRecord]\<close>.\<close>

datatype ('p, 'x) outgoing = Proto 'p | Elem 'x | Record "('p, 'x) message_record"

section \<open>What the libraries and the translators do\<close>

record ('p, 'x) lib =
  serialise_partial :: "'p \<Rightarrow> bytes"
  xml_bytes :: "'x \<Rightarrow> bytes"
  translate_v1_to_v2 :: "'p \<Rightarrow> 'p res"
  translate_v2_to_v1 :: "'p \<Rightarrow> 'p res"
  is_v1 :: "'p \<Rightarrow> bool"
  v1_to_xml :: "'p \<Rightarrow> 'x res"
  with_time :: "int \<Rightarrow> 'p \<Rightarrow> 'p"
  serialise :: "'p \<Rightarrow> bytes res"
  xml_with_time :: "int \<Rightarrow> 'x \<Rightarrow> 'x res"
  insert_sensor_id :: "'x \<Rightarrow> int \<Rightarrow> 'x res"
  registration_ack :: "int \<Rightarrow> string \<Rightarrow> string \<Rightarrow> 'p"
  registration_ack_xml :: "int \<Rightarrow> int \<Rightarrow> 'x"
  error_message :: "int \<Rightarrow> string \<Rightarrow> string option \<Rightarrow> bytes \<Rightarrow> string \<Rightarrow> 'p"
  error_xml :: "int \<Rightarrow> string \<Rightarrow> string \<Rightarrow> 'x"

section \<open>Writing a message (\<open>message_io.py\<close>)\<close>

definition not_implemented :: "string \<Rightarrow> exn" where
  "not_implemented m = PyExc ''NotImplementedError'' m"

definition assertion_error :: exn where
  "assertion_error = PyExc ''AssertionError'' []"

definition get_schema_mutater :: "('p, 'x) lib \<Rightarrow> sapient_version \<Rightarrow> bool \<Rightarrow> 'p \<Rightarrow> 'p res" where
  "get_schema_mutater lib v upgrade m =
     (if upgrade then (case v of VERSION6 \<Rightarrow> Inr m | BSI_FLEX_335_V1_0 \<Rightarrow> Inl (not_implemented [])
                       | BSI_FLEX_335_V2_0 \<Rightarrow> translate_v1_to_v2 lib m)
      else (case v of BSI_FLEX_335_V2_0 \<Rightarrow> Inr m | BSI_FLEX_335_V1_0 \<Rightarrow> translate_v2_to_v1 lib m
            | VERSION6 \<Rightarrow> Inl (not_implemented [])))"

text \<open>The loop of \<open>to_version\<close>; it need not end for arbitrary arguments, so it is partial.\<close>

partial_function (option) version_loop ::
  "('p, 'x) lib \<Rightarrow> bool \<Rightarrow> sapient_version \<Rightarrow> sapient_version \<Rightarrow> 'p \<Rightarrow> 'p res option" where
  "version_loop lib upgrade v final m =
     (if v = final then Some (Inr m)
      else case version_of (version_value v + (if upgrade then 1 else - 1)) of
             Inl e \<Rightarrow> Some (Inl e)
           | Inr v1 \<Rightarrow> (case get_schema_mutater lib v1 upgrade m of
               Inl e \<Rightarrow> Some (Inl e)
             | Inr m1 \<Rightarrow> version_loop lib upgrade v1 final m1))"

definition proto_version :: "sapient_version \<Rightarrow> sapient_version" where
  "proto_version v = (if v = VERSION6 then BSI_FLEX_335_V1_0 else v)"

definition to_version :: "('p, 'x) lib \<Rightarrow> 'p \<Rightarrow> sapient_version \<Rightarrow> sapient_version \<Rightarrow> 'p res option" where
  "to_version lib m v final =
     version_loop lib (version_value (proto_version v) < version_value (proto_version final))
       (proto_version v) (proto_version final) m"

text \<open>\<open>change_schema\<close> counts up in either direction.\<close>

partial_function (option) schema_loop ::
  "('p, 'x) lib \<Rightarrow> bool \<Rightarrow> sapient_version \<Rightarrow> sapient_version \<Rightarrow> 'p \<Rightarrow> 'p res option" where
  "schema_loop lib upgrade v final m =
     (if v = final then Some (Inr m)
      else case version_of (version_value v + 1) of
             Inl e \<Rightarrow> Some (Inl e)
           | Inr v1 \<Rightarrow> (case get_schema_mutater lib v1 upgrade m of
               Inl e \<Rightarrow> Some (Inl e)
             | Inr m1 \<Rightarrow> schema_loop lib upgrade v1 final m1))"

definition change_schema :: "('p, 'x) lib \<Rightarrow> 'p \<Rightarrow> sapient_version \<Rightarrow> sapient_version \<Rightarrow> 'p res option" where
  "change_schema lib m v final = schema_loop lib (version_value v < version_value final) v final m"

definition pick_message_record_component ::
  "('p, 'x) message_record \<Rightarrow> message_format \<Rightarrow> sapient_version \<Rightarrow> ('p, 'x) outgoing res" where
  "pick_message_record_component msg encoding out =
     (case parsed msg of
        None \<Rightarrow> Inl assertion_error
      | Some p \<Rightarrow>
          if encoding = XML then
            (if out = BSI_FLEX_335_V2_0
             then Inl (PyExc ''RuntimeError'' (''No conversion to XML implemented for version '' @ show_int (version_value out)))
             else case parsed_xml p of None \<Rightarrow> Inl assertion_error | Some x \<Rightarrow> Inr (Elem x))
          else (case parsed_proto p of None \<Rightarrow> Inl assertion_error | Some m \<Rightarrow> Inr (Proto m)))"

definition encode_xml :: "('p, 'x) lib \<Rightarrow> 'x \<Rightarrow> bytes" where
  "encode_xml lib x = xml_bytes lib x @ [0]"

definition encode_binary :: "('p, 'x) lib \<Rightarrow> 'p \<Rightarrow> bytes res" where
  "encode_binary lib m = encode (serialise_partial lib m)"

text \<open>\<open>encode\<close>. What the translator to XML adds to the identifiers is not followed: no writer reaches
  that case, see \<open>finish\<close>.\<close>

fun encode_message :: "('p, 'x) lib \<Rightarrow> ('p, 'x) outgoing \<Rightarrow> message_format \<Rightarrow> bytes res" where
  "encode_message lib (Elem x) f = Inr (encode_xml lib x)"
| "encode_message lib (Proto m) PROTO = encode_binary lib m"
| "encode_message lib (Proto m) XML =
     (if is_v1 lib m then bindE (v1_to_xml lib m) (\<lambda>x. Inr (encode_xml lib x)) else Inl assertion_error)"
| "encode_message lib (Proto m) JSON = Inl (not_implemented ''Format JSON has not yet been implemented.'')"
| "encode_message lib (Proto m) GEO_JSON = Inl (not_implemented ''Format GEO_JSON has not yet been implemented.'')"
| "encode_message lib (Record r) f = Inl assertion_error"

definition synonymous :: exn where
  "synonymous = not_implemented ''XML and ET.Element should be synonymous''"

definition version6_only :: exn where
  "version6_only = not_implemented ''XML is only implemented for version 6''"

text \<open>The outer \<open>None\<close> would be a version loop that does not end.\<close>

definition finish ::
  "('p, 'x) lib \<Rightarrow> ('p, 'x) outgoing \<Rightarrow> message_format \<Rightarrow> sapient_version \<Rightarrow> sapient_version \<Rightarrow> bytes res option" where
  "finish lib m encoding v out =
     (case m of
        Elem x \<Rightarrow> if encoding \<noteq> XML then Some (Inl synonymous)
                  else if out \<noteq> VERSION6 then Some (Inl version6_only)
                  else Some (encode_message lib (Elem x) encoding)
      | Proto p \<Rightarrow> if encoding = XML then Some (Inl synonymous)
                   else if out = VERSION6 then Some (Inl version6_only)
                   else map_option (\<lambda>r. bindE r (\<lambda>q. encode_message lib (Proto q) encoding)) (to_version lib p v out)
      | Record r \<Rightarrow> Some (Inl assertion_error))"

definition message_to_bytes ::
  "('p, 'x) lib \<Rightarrow> ('p, 'x) outgoing \<Rightarrow> message_format \<Rightarrow> sapient_version \<Rightarrow> sapient_version \<Rightarrow> bytes res option" where
  "message_to_bytes lib m encoding v out =
     (if encoding = XML \<and> out \<noteq> VERSION6 then Some (Inl version6_only)
      else case m of
        Record r \<Rightarrow> (case pick_message_record_component r encoding out of
            Inl e \<Rightarrow> Some (Inl e) | Inr c \<Rightarrow> finish lib c encoding v out)
      | _ \<Rightarrow> finish lib m encoding v out)"

section \<open>The configuration of a connection (\<open>apex_server.py\<close>)\<close>

definition format_of_name :: "string \<Rightarrow> message_format res" where
  "format_of_name n =
     (if n = ''XML'' then Inr XML else if n = ''JSON'' then Inr JSON else if n = ''GEO_JSON'' then Inr GEO_JSON
      else if n = ''PROTO'' \<or> n = ''DEFAULT'' then Inr PROTO else Inl (PyExc ''KeyError'' (repr_str n)))"

definition version_of_name :: "string \<Rightarrow> sapient_version res" where
  "version_of_name n =
     (if n = ''VERSION6'' \<or> n = ''OLDEST'' then Inr VERSION6
      else if n = ''BSI_FLEX_335_V1_0'' \<or> n = ''LOWEST_PROTO'' then Inr BSI_FLEX_335_V1_0
      else if n = ''BSI_FLEX_335_V2_0'' \<or> n = ''LATEST'' then Inr BSI_FLEX_335_V2_0
      else Inl (PyExc ''KeyError'' (repr_str n)))"

text \<open>\<open>.upper().replace(" ", "_").replace(".", "_")\<close> of an ASCII text.\<close>

definition version_key :: "string \<Rightarrow> string" where
  "version_key s = map (\<lambda>c. if c = CHR '' '' \<or> c = CHR ''.'' then CHR ''_'' else upper_char c) s"

record conn_config =
  cc_type :: string
  cc_format :: message_format
  cc_version :: sapient_version
  cc_forward_all :: pyval

definition normalize_connection_config ::
  "string option \<Rightarrow> string option \<Rightarrow> bool \<Rightarrow> (message_format \<times> sapient_version) res" where
  "normalize_connection_config fmt icd conversion =
     bindE (if conversion then format_of_name (case fmt of None \<Rightarrow> ''XML'' | Some f \<Rightarrow> f) else Inr PROTO) (\<lambda>f.
     bindE (case icd of None \<Rightarrow> Inr (if f = XML then VERSION6 else LATEST) | Some v \<Rightarrow> version_of_name (version_key v)) (\<lambda>v.
       Inr (f, v)))"

section \<open>Lemmas\<close>

lemma version_loop_same [simp]: "version_loop lib up v v m = Some (Inr m)"
  by (subst version_loop.simps) simp

lemma version_loop_up [simp]:
  "version_loop lib True BSI_FLEX_335_V1_0 BSI_FLEX_335_V2_0 m = Some (translate_v1_to_v2 lib m)"
  by (subst version_loop.simps) (simp add: version_of_def get_schema_mutater_def split: sum.split)

lemma version_loop_down [simp]:
  "version_loop lib False BSI_FLEX_335_V2_0 BSI_FLEX_335_V1_0 m = Some (translate_v2_to_v1 lib m)"
  by (subst version_loop.simps) (simp add: version_of_def get_schema_mutater_def split: sum.split)

text \<open>The version loop ends for every pair of versions.\<close>

lemma to_version_cases:
  "to_version lib m v final = Some
     (if proto_version v = proto_version final then Inr m
      else if proto_version v = BSI_FLEX_335_V1_0 then translate_v1_to_v2 lib m else translate_v2_to_v1 lib m)"
  by (cases v; cases final) (simp_all add: to_version_def proto_version_def)

lemma message_to_bytes_some: "\<exists>r. message_to_bytes lib m f v out = Some r"
  by (auto simp: message_to_bytes_def finish_def to_version_cases split: outgoing.split sum.split)

text \<open>C29. Version conversion ends. The loop of \<open>to_version\<close> returns for every pair of versions, and is
  the one translator between the two protobuf versions or the identity; so every writer returns
  bytes or an exception. The loop of \<open>change_schema\<close> returns as well, but counts up even when it
  should go down: it converts only version 1.0 to 2.0, and raises for every downgrade.\<close>

theorem conversion_terminates:
  "to_version lib m v final = Some
     (if proto_version v = proto_version final then Inr m
      else if proto_version v = BSI_FLEX_335_V1_0 then translate_v1_to_v2 lib m else translate_v2_to_v1 lib m)
   \<and> (\<exists>r. message_to_bytes lib x f v out = Some r)
   \<and> change_schema lib m v final = Some
     (if v = final then Inr m
      else if v = BSI_FLEX_335_V1_0 \<and> final = BSI_FLEX_335_V2_0 then translate_v1_to_v2 lib m
      else if v = VERSION6 then Inl (not_implemented [])
      else Inl (value_error (''4 is not a valid SapientVersion'')))"
proof -
  have 4: "show_int 4 = ''4''" by code_simp
  have "change_schema lib m v final = Some
     (if v = final then Inr m
      else if v = BSI_FLEX_335_V1_0 \<and> final = BSI_FLEX_335_V2_0 then translate_v1_to_v2 lib m
      else if v = VERSION6 then Inl (not_implemented [])
      else Inl (value_error (''4 is not a valid SapientVersion'')))"
    unfolding change_schema_def
    by (cases v; cases final;
        simp add: schema_loop.simps version_of_def get_schema_mutater_def 4 split: sum.split)
  then show ?thesis using to_version_cases message_to_bytes_some by metis
qed

end
