(* ===== verification/ApexConn.thy ===== *)
theory ApexConn
  imports ApexIo
begin

text \<open>
  The connections of the Apex middleware (\<open>sapient_apex_server/connection.py\<close>): what each kind of
  connection does with a message, whom it forwards to, and what it registers in the shared data.
  \<open>ParentConnection.handle_message\<close> is modelled twice, as vendored and as the build leaves it
  (\<open>services/apex/patches/route_parent_to_child.py\<close>).

  The source shares mutable message records: a sensor's entry refers to the messages that a later
  connection is sent. Here an entry holds the identifier of a message, and \<open>store\<close> maps it to the
  record in its last state. Operations return an exception or \<open>()\<close> together with the state reached,
  since an exception keeps what was done before it. A writer is identified by the number of its
  connection; \<open>sent\<close> is what has been handed to the writers, in order. Logging is left out.
\<close>

section \<open>Shared data\<close>

record conn_writer =
  w_id :: nat
  w_encoding :: message_format
  w_version :: sapient_version

record parent_writer =
  pw_writer :: conn_writer
  pw_format :: message_format

record sensor_info =
  si_writer :: conn_writer
  si_registration :: nat
  dmm_msg_offset :: int
  si_format :: message_format
  recent_status_new :: "nat option"
  recent_status_unchanged :: "nat option"

text \<open>Whether what is written is a received message, by its number, or made by the middleware.\<close>

datatype kind = Forwarded nat | Generated

record ('p, 'x) shared =
  config :: pydict
  middleware_node_id :: string
  registered_sensors :: "(string, sensor_info) odict"
  dmm_msg_format :: message_format
  dmm_writers :: "conn_writer list"
  parent_high_level_writers :: "parent_writer list"
  parent_all_writers :: "parent_writer list"
  parent_message_format :: message_format
  generator :: id_generator
  store :: "nat \<Rightarrow> ('p, 'x) message_record option"
  sent :: "(conn_writer \<times> kind \<times> bytes) list"
  utcnow :: int

fun kind_of :: "('p, 'x) outgoing \<Rightarrow> kind" where
  "kind_of (Record m) = Forwarded (rd_message (received m))"
| "kind_of _ = Generated"

text \<open>Calling a writer. The first case does not occur, see \<open>message_to_bytes_some\<close>.\<close>

definition write_msg :: "('p, 'x) lib \<Rightarrow> conn_writer \<Rightarrow> ('p, 'x) outgoing \<Rightarrow> sapient_version \<Rightarrow> ('p, 'x) shared \<Rightarrow> unit res \<times> ('p, 'x) shared" where
  "write_msg lib w m v s = (case message_to_bytes lib m (w_encoding w) v (w_version w) of
       None \<Rightarrow> (Inl assertion_error, s)
     | Some (Inl e) \<Rightarrow> (Inl e, s)
     | Some (Inr b) \<Rightarrow> (Inr (), s\<lparr>sent := sent s @ [(w, kind_of m, b)]\<rparr>))"

fun write_all :: "('p, 'x) lib \<Rightarrow> conn_writer list \<Rightarrow> ('p, 'x) message_record \<Rightarrow> ('p, 'x) shared \<Rightarrow> unit res \<times> ('p, 'x) shared" where
  "write_all lib [] m s = (Inr (), s)"
| "write_all lib (w # ws) m s = (case write_msg lib w (Record m) (version m) s of
     (Inl e, s1) \<Rightarrow> (Inl e, s1) | (Inr _, s1) \<Rightarrow> write_all lib ws m s1)"

text \<open>\<open>except_writer\<close>: nothing, a writer, or a \<open>ParentWriter\<close>. Only the last can equal an element of
  the two lists.\<close>

datatype excluded = NoWriter | Function conn_writer | ParentW parent_writer

fun parent_loop :: "('p, 'x) lib \<Rightarrow> excluded \<Rightarrow> parent_writer list \<Rightarrow> ('p, 'x) message_record \<Rightarrow> ('p, 'x) shared
    \<Rightarrow> unit res \<times> ('p, 'x) message_record \<times> ('p, 'x) shared" where
  "parent_loop lib ex [] m s = (Inr (), m, s)"
| "parent_loop lib ex (p # ps) m s =
     (if ex = ParentW p then parent_loop lib ex ps m s
      else case write_msg lib (pw_writer p) (Record m) (version m) s of
             (Inl e, s1) \<Rightarrow> (Inl e, m, s1)
           | (Inr _, s1) \<Rightarrow> parent_loop lib ex ps (m\<lparr>forwarded_count := forwarded_count m + 1\<rparr>) s1)"

definition send_to_parent :: "('p, 'x) lib \<Rightarrow> ('p, 'x) message_record \<Rightarrow> bool \<Rightarrow> excluded \<Rightarrow> ('p, 'x) shared
    \<Rightarrow> unit res \<times> ('p, 'x) message_record \<times> ('p, 'x) shared" where
  "send_to_parent lib m high_level ex s =
     (if error m \<noteq> None then (Inr (), m, s)
      else parent_loop lib ex (parent_all_writers s @ (if high_level then parent_high_level_writers s else [])) m s)"

definition send_registration_ack :: "('p, 'x) lib \<Rightarrow> conn_writer \<Rightarrow> string \<Rightarrow> message_format \<Rightarrow> ('p, 'x) shared \<Rightarrow> unit res \<times> ('p, 'x) shared" where
  "send_registration_ack lib w dest fmt s =
     (if fmt = PROTO then write_msg lib w (Proto (registration_ack lib (utcnow s) (middleware_node_id s) dest)) LATEST s
      else case map_of (node_id_map (generator s)) dest of
             None \<Rightarrow> (Inl (PyExc ''KeyError'' (repr_str dest)), s)
           | Some v \<Rightarrow> (case xml_id v of
                 Inl e \<Rightarrow> (Inl e, s)
               | Inr i \<Rightarrow> write_msg lib w (Elem (registration_ack_xml lib i (utcnow s))) VERSION6 s))"

definition send_error_reply_if_necessary ::
  "('p, 'x) lib \<Rightarrow> conn_writer \<Rightarrow> ('p, 'x) message_record \<Rightarrow> message_format \<Rightarrow> string option \<Rightarrow> ('p, 'x) shared \<Rightarrow> unit res \<times> ('p, 'x) shared" where
  "send_error_reply_if_necessary lib w m fmt dest s =
     (case error m of
        None \<Rightarrow> (Inr (), s)
      | Some e \<Rightarrow>
          if err_severity e \<noteq> NOISY then (Inr (), s)
          else if fmt = PROTO
          then write_msg lib w (Proto (error_message lib (utcnow s) (middleware_node_id s) dest (data_bytes (received m)) (description e))) LATEST s
          else write_msg lib w (Elem (error_xml lib (utcnow s) (data_decoded_xml m) (description e))) VERSION6 s)"

section \<open>Timestamps\<close>

text \<open>\<open>datetime + timedelta\<close>, between the years 1 and 9999.\<close>

definition add_time :: "int \<Rightarrow> int \<Rightarrow> int res" where
  "add_time t d =
     (if - 62135596800000000 \<le> t + d \<and> t + d \<le> 253402300799999999 then Inr (t + d)
      else Inl (PyExc ''OverflowError'' ''date value out of range''))"

definition no_attribute :: "string \<Rightarrow> exn" where
  "no_attribute k = PyExc ''AttributeError'' (CHR 0x27 # ''NoneType'' @ CHR 0x27 # '' object has no attribute '' @ CHR 0x27 # k @ [CHR 0x27])"

definition apply_timestamp_offset ::
  "('p, 'x) lib \<Rightarrow> pydict \<Rightarrow> int option \<Rightarrow> message_format \<Rightarrow> ('p, 'x) message_record \<Rightarrow> unit res \<times> ('p, 'x) message_record" where
  "apply_timestamp_offset lib cfg offset fmt m =
     (case map_of cfg ''enableTimeSyncAdjustment'' of
        None \<Rightarrow> (Inl (PyExc ''KeyError'' (repr_str ''enableTimeSyncAdjustment'')), m)
      | Some v \<Rightarrow>
          if \<not> truthy v
          then (Inr (), m\<lparr>updated_data_bytes := (if fmt = XML then Some (data_bytes (received m)) else data_binary_proto m)\<rparr>)
          else (case parsed m of
            None \<Rightarrow> (Inl (no_attribute ''message_timestamp''), m)
          | Some p \<Rightarrow>
              (case (case offset of None \<Rightarrow> Inl (type_error ''unsupported operand type(s) for +='')
                     | Some d \<Rightarrow> add_time (message_timestamp p) d) of
                 Inl e \<Rightarrow> (Inl e, m)
               | Inr t \<Rightarrow>
                   let p1 = p\<lparr>message_timestamp := t\<rparr>; m1 = m\<lparr>parsed := Some p1\<rparr>
                   in if fmt = PROTO
                      then (case parsed_proto p of
                              None \<Rightarrow> (Inl (no_attribute ''timestamp''), m1)
                            | Some q \<Rightarrow>
                                let m2 = m1\<lparr>parsed := Some (p1\<lparr>parsed_proto := Some (with_time lib t q)\<rparr>)\<rparr>
                                in (case serialise lib (with_time lib t q) of
                                      Inl e \<Rightarrow> (Inl e, m2) | Inr b \<Rightarrow> (Inr (), m2\<lparr>updated_data_bytes := Some b\<rparr>)))
                      else (case parsed_xml p of
                              None \<Rightarrow> (Inl (no_attribute ''find''), m1)
                            | Some x \<Rightarrow> (case xml_with_time lib t x of
                                Inl e \<Rightarrow> (Inl e, m1)
                              | Inr y \<Rightarrow> (Inr (), m1\<lparr>parsed := Some (p1\<lparr>parsed_xml := Some y\<rparr>)\<rparr>))))))"

section \<open>Children\<close>

record child =
  ch_writer :: conn_writer
  ch_registration :: "nat option"
  ch_node_id :: "string option"
  ch_sensor_id :: "int option"
  ch_format :: message_format
  last_status_report_system :: "string option"
  time_offset :: "int option"
  confidence_threshold :: "pyval option"
  filter_severity :: error_severity

fun number :: "pyval \<Rightarrow> flt res" where
  "number (PInt i) = Inr (Fin (of_int i))"
| "number (PBool b) = Inr (Fin (if b then 1 else 0))"
| "number (PFloat f) = Inr f"
| "number _ = Inl (type_error ''not supported between these instances'')"

fun flt_ge :: "flt \<Rightarrow> flt \<Rightarrow> bool" where
  "flt_ge NaN y = False"
| "flt_ge x NaN = False"
| "flt_ge (Fin a) (Fin b) = (b \<le> a)"
| "flt_ge (Inf neg) (Inf neg') = (\<not> neg \<or> neg')"
| "flt_ge (Inf neg) (Fin b) = (\<not> neg)"
| "flt_ge (Fin a) (Inf neg) = neg"

definition child_new :: "pydict \<Rightarrow> conn_writer \<Rightarrow> message_format \<Rightarrow> child res" where
  "child_new cfg w fmt =
     (let c = \<lparr>ch_writer = w, ch_registration = None, ch_node_id = None, ch_sensor_id = None, ch_format = fmt,
               last_status_report_system = None, time_offset = None, confidence_threshold = None,
               filter_severity = UNSTORED\<rparr>
      in case dget_or cfg ''detectionConfidenceFiltering'' (PDict []) of
           PDict d \<Rightarrow>
             if truthy (dget d ''enable'')
             then let th = dget_or d ''threshold'' (PInt 0)
                  in bindE (number th) (\<lambda>_. Inr (c\<lparr>confidence_threshold := Some th,
                       filter_severity := (if truthy (dget d ''storeInDatabase'') then SILENT else UNSTORED)\<rparr>))
             else Inr c
         | _ \<Rightarrow> Inl (PyExc ''AttributeError'' ''object has no attribute get''))"

text \<open>\<open>_filter_detection\<close>; \<open>fl\<close> is how Python prints a float.\<close>

definition filter_detection :: "(flt \<Rightarrow> string) \<Rightarrow> child \<Rightarrow> ('p, 'x) message_record \<Rightarrow> unit res \<times> ('p, 'x) message_record" where
  "filter_detection fl c m =
     (case confidence_threshold c of
        None \<Rightarrow> (Inr (), m)
      | Some th \<Rightarrow>
          (case Option.bind (parsed m) detection_confidence of
             None \<Rightarrow> (Inr (), m)
           | Some x \<Rightarrow>
               (case number th of
                  Inl e \<Rightarrow> (Inl e, m)
                | Inr y \<Rightarrow>
                    if flt_ge x y then (Inr (), m)
                    else (Inr (), m\<lparr>error := Some \<lparr>err_severity = filter_severity c,
                            description = ''Detection confidence '' @ fl x @ '' less than filter threshold '' @ py_str fl th\<rparr>\<rparr>))))"

definition with_error :: "error_record \<Rightarrow> ('p, 'x) message_record \<Rightarrow> ('p, 'x) message_record" where
  "with_error e m = m\<lparr>error := Some e\<rparr>"

definition opt_str :: "string option \<Rightarrow> string" where
  "opt_str x = (case x of None \<Rightarrow> ''None'' | Some t \<Rightarrow> t)"

definition converts :: "pydict \<Rightarrow> bool" where
  "converts cfg \<longleftrightarrow> truthy (dget_or cfg ''enableMessageConversion'' (PBool True))"

definition sends_ack :: "pydict \<Rightarrow> bool" where
  "sends_ack cfg \<longleftrightarrow> truthy (dget_or cfg ''sendRegistrationAck'' (PBool True))"

text \<open>The assignment of a sensor identifier, where parsing has not set one.\<close>

definition assign_sensor_id ::
  "('p, 'x) lib \<Rightarrow> ('p, 'x) message_record \<Rightarrow> ('p, 'x) shared \<Rightarrow> unit res \<times> ('p, 'x) message_record \<times> ('p, 'x) shared" where
  "assign_sensor_id lib m s =
     (case parsed m of
        None \<Rightarrow> (Inl (no_attribute ''internal_sensor_id''), m, s)
      | Some p \<Rightarrow>
          if internal_sensor_id p = None \<and> converts (config s)
          then (case get_next_id (generator s) of (i, g) \<Rightarrow>
                  let s1 = s\<lparr>generator := g\<rparr>; p1 = p\<lparr>internal_sensor_id := Some i\<rparr>; m1 = m\<lparr>parsed := Some p1\<rparr>
                  in (case parsed_xml p of
                        None \<Rightarrow> (Inl (no_attribute ''find''), m1, s1)
                      | Some x \<Rightarrow> (case insert_sensor_id lib x i of
                          Inl e \<Rightarrow> (Inl e, m1, s1)
                        | Inr y \<Rightarrow> (Inr (), m1\<lparr>parsed := Some (p1\<lparr>parsed_xml := Some y\<rparr>)\<rparr>, s1))))
          else (Inr (), m, s))"

definition forward_to_peers ::
  "('p, 'x) lib \<Rightarrow> ('p, 'x) message_record \<Rightarrow> ('p, 'x) shared \<Rightarrow> unit res \<times> ('p, 'x) message_record \<times> ('p, 'x) shared" where
  "forward_to_peers lib m s = (case write_all lib (dmm_writers s) m s of
     (Inl e, s1) \<Rightarrow> (Inl e, m, s1)
   | (Inr _, s1) \<Rightarrow> (Inr (), m\<lparr>forwarded_count := length (dmm_writers s)\<rparr>, s1))"

type_synonym ('p, 'x, 'c) outcome = "unit res \<times> 'c \<times> ('p, 'x) message_record \<times> ('p, 'x) shared"

definition child_registration ::
  "('p, 'x) lib \<Rightarrow> child \<Rightarrow> ('p, 'x) message_record \<Rightarrow> ('p, 'x) shared \<Rightarrow> ('p, 'x, child) outcome" where
  "child_registration lib c m s =
     (if error m \<noteq> None then (Inr (), c, m, s)
      else if registered m = None then (Inr (), c, with_error (SilentError ''Registration message expected'') m, s)
      else case parsed m of
        None \<Rightarrow> (Inl (no_attribute ''node_id''), c, m, s)
      | Some p \<Rightarrow>
          (case pr_node_id p of
             None \<Rightarrow> (Inr (), c, with_error (FatalError ''Child sent registration message with no ID'') m, s)
           | Some node \<Rightarrow>
               let offset = rd_timestamp (received m) - message_timestamp p;
                   c1 = c\<lparr>time_offset := Some (offset - 100000)\<rparr>
               in (case apply_timestamp_offset lib (config s) (time_offset c1) (dmm_msg_format s) m of
                     (Inl e, m1) \<Rightarrow> (Inl e, c1, m1, s)
                   | (Inr _, m1) \<Rightarrow>
                       (case assign_sensor_id lib m1 s of
                          (Inl e, m2, s2) \<Rightarrow> (Inl e, c1, m2, s2)
                        | (Inr _, m2, s2) \<Rightarrow>
                            let sid = (case Option.bind (parsed m2) internal_sensor_id of
                                         Some i \<Rightarrow> if i = 0 then None else Some i | None \<Rightarrow> None);
                                c2 = c1\<lparr>ch_node_id := Some node, ch_sensor_id := sid,
                                        ch_registration := Some (rd_message (received m))\<rparr>;
                                info = \<lparr>si_writer = ch_writer c, si_registration = rd_message (received m),
                                        dmm_msg_offset = - offset, si_format = ch_format c,
                                        recent_status_new = None, recent_status_unchanged = None\<rparr>;
                                s3 = s2\<lparr>registered_sensors := AList.update node info (registered_sensors s2)\<rparr>
                            in (case forward_to_peers lib m2 s3 of
                                  (Inl e, m3, s4) \<Rightarrow> (Inl e, c2, m3, s4)
                                | (Inr _, m3, s4) \<Rightarrow>
                                    if sends_ack (config s)
                                    then (case send_registration_ack lib (ch_writer c) node (ch_format c) s4 of
                                            (r, s5) \<Rightarrow> (r, c2, m3, s5))
                                    else (Inr (), c2, m3, s4))))))"

text \<open>\<open>_handle_other\<close>: the part for a repeated registration, the part for a status report, and the
  whole. An entry of the dictionary is updated in place.\<close>

definition set_info :: "string \<Rightarrow> sensor_info \<Rightarrow> ('p, 'x) shared \<Rightarrow> ('p, 'x) shared" where
  "set_info node info s = s\<lparr>registered_sensors := AList.update node info (registered_sensors s)\<rparr>"

definition register_again ::
  "('p, 'x) lib \<Rightarrow> string \<Rightarrow> sensor_info \<Rightarrow> child \<Rightarrow> ('p, 'x) message_record \<Rightarrow> ('p, 'x) shared
     \<Rightarrow> unit res \<times> sensor_info \<times> child \<times> ('p, 'x) shared" where
  "register_again lib node info c m s =
     (if registered m = None then (Inr (), info, c, s)
      else let i = rd_message (received m);
               c1 = c\<lparr>ch_registration := Some i, last_status_report_system := None\<rparr>;
               info1 = info\<lparr>si_registration := i, recent_status_new := None, recent_status_unchanged := None\<rparr>;
               s1 = set_info node info1 s
           in if sends_ack (config s)
              then (case send_registration_ack lib (ch_writer c) node (ch_format c) s1 of (r, s2) \<Rightarrow> (r, info1, c1, s2))
              else (Inr (), info1, c1, s1))"

definition note_status ::
  "string \<Rightarrow> sensor_info \<Rightarrow> child \<Rightarrow> ('p, 'x) message_record \<Rightarrow> ('p, 'x) shared \<Rightarrow> child \<times> ('p, 'x) message_record \<times> ('p, 'x) shared" where
  "note_status node info c m s =
     (case status_report m of
        None \<Rightarrow> (c, m, s)
      | Some r \<Rightarrow>
          let i = rd_message (received m)
          in if is_unchanged r
             then (case last_status_report_system c of
                     None \<Rightarrow> (c, with_error (NoisyError ''Status report \"Unchanged\" received before \"New\"'') m, s)
                   | Some sys \<Rightarrow>
                       if Some sys \<noteq> system r
                       then (c, with_error (NoisyError (''Status report \"Unchanged\" has system \"'' @ opt_str (system r) @
                               ''\" different from last \"New\" system \"'' @ sys @ ''\"'')) m, s)
                       else (c, m, set_info node (info\<lparr>recent_status_unchanged := Some i\<rparr>) s))
             else (c\<lparr>last_status_report_system := system r\<rparr>, m,
                   set_info node (info\<lparr>recent_status_new := Some i, recent_status_unchanged := None\<rparr>) s))"

definition child_other ::
  "('p, 'x) lib \<Rightarrow> (flt \<Rightarrow> string) \<Rightarrow> child \<Rightarrow> ('p, 'x) message_record \<Rightarrow> ('p, 'x) shared \<Rightarrow> ('p, 'x, child) outcome" where
  "child_other lib fl c m s =
     (if error m \<noteq> None then (Inr (), c, m, s)
      else case parsed m of
        None \<Rightarrow> (Inl (no_attribute ''node_id''), c, m, s)
      | Some p \<Rightarrow>
          if pr_node_id p \<noteq> ch_node_id c
          then (Inr (), c, with_error (NoisyError (''Expected node ID '' @ opt_str (ch_node_id c) @ '', got node ID '' @ opt_str (pr_node_id p))) m, s)
          else (case Option.bind (ch_node_id c) (\<lambda>node. map_option (Pair node) (map_of (registered_sensors s) node)) of
             None \<Rightarrow> (Inr (), c, with_error (SilentError (''Node ID '' @ opt_str (ch_node_id c) @ '' hijacked by another connection'')) m, s)
           | Some (node, info) \<Rightarrow>
               if si_writer info \<noteq> ch_writer c
               then (Inr (), c, with_error (SilentError (''Node ID '' @ node @ '' hijacked by another connection'')) m, s)
               else (case apply_timestamp_offset lib (config s) (time_offset c) (dmm_msg_format s) m of
                  (Inl e, m1) \<Rightarrow> (Inl e, c, m1, s)
                | (Inr _, m1) \<Rightarrow>
                    (case register_again lib node info c m1 s of
                       (Inl e, _, c1, s1) \<Rightarrow> (Inl e, c1, m1, s1)
                     | (Inr _, info1, c1, s1) \<Rightarrow>
                         (case note_status node info1 c1 m1 s1 of
                            (c2, m2, s2) \<Rightarrow>
                              if error m2 \<noteq> None then (Inr (), c2, m2, s2)
                              else (case filter_detection fl c2 m2 of
                                 (Inl e, m3) \<Rightarrow> (Inl e, c2, m3, s2)
                               | (Inr _, m3) \<Rightarrow>
                                   if error m3 \<noteq> None then (Inr (), c2, m3, s2)
                                   else (case forward_to_peers lib m3 s2 of (r, m4, s3) \<Rightarrow> (r, c2, m4, s3)))))))
   )"

text \<open>\<open>f"{type(e).__name__}: {e}"\<close>\<close>

fun exn_text :: "exn \<Rightarrow> string" where
  "exn_text (PyExc c m) = c @ '': '' @ m"
| "exn_text (HttpExc n m) = ''HTTPException: '' @ m"

text \<open>\<open>handle_message\<close>: the exceptions of the body become a fatal error of the message; those of the
  error reply pass.\<close>

definition child_handle ::
  "('p, 'x) lib \<Rightarrow> (flt \<Rightarrow> string) \<Rightarrow> child \<Rightarrow> ('p, 'x) message_record \<Rightarrow> ('p, 'x) shared \<Rightarrow> ('p, 'x, child) outcome" where
  "child_handle lib fl c m s =
     (case (case (if ch_registration c = None then child_registration lib c m s else child_other lib fl c m s) of
              (Inl e, c1, m1, s1) \<Rightarrow> (Inl e, c1, m1, s1)
            | (Inr _, c1, m1, s1) \<Rightarrow> (case send_to_parent lib m1 False NoWriter s1 of (r, m2, s2) \<Rightarrow> (r, c1, m2, s2))) of
        (r, c1, m1, s1) \<Rightarrow>
          let m2 = (case r of Inl e \<Rightarrow> with_error (FatalError (exn_text e)) m1 | Inr _ \<Rightarrow> m1)
          in (case send_error_reply_if_necessary lib (ch_writer c) m2 (ch_format c) (ch_node_id c1) s1 of
                (r2, s2) \<Rightarrow> (r2, c1, m2, s2)))"

definition child_closed :: "child \<Rightarrow> ('p, 'x) shared \<Rightarrow> ('p, 'x) shared" where
  "child_closed c s =
     (case Option.bind (ch_node_id c) (\<lambda>node. map_option (Pair node) (map_of (registered_sensors s) node)) of
        None \<Rightarrow> s
      | Some (node, info) \<Rightarrow>
          if si_writer info = ch_writer c then s\<lparr>registered_sensors := AList.delete node (registered_sensors s)\<rparr> else s)"

section \<open>Peers\<close>

text \<open>A new connection is told about the sensors that registered before it.\<close>

definition write_stored :: "('p, 'x) lib \<Rightarrow> conn_writer \<Rightarrow> nat option \<Rightarrow> ('p, 'x) shared \<Rightarrow> unit res \<times> ('p, 'x) shared" where
  "write_stored lib w ref s = (case ref of
       None \<Rightarrow> (Inr (), s)
     | Some i \<Rightarrow> (case store s i of
         None \<Rightarrow> (Inl assertion_error, s) | Some m \<Rightarrow> write_msg lib w (Record m) (version m) s))"

fun write_refs :: "('p, 'x) lib \<Rightarrow> conn_writer \<Rightarrow> nat option list \<Rightarrow> ('p, 'x) shared \<Rightarrow> unit res \<times> ('p, 'x) shared" where
  "write_refs lib w [] s = (Inr (), s)"
| "write_refs lib w (r # rs) s = (case write_stored lib w r s of
     (Inl e, s1) \<Rightarrow> (Inl e, s1) | (Inr _, s1) \<Rightarrow> write_refs lib w rs s1)"

definition info_refs :: "sensor_info \<Rightarrow> nat option list" where
  "info_refs i = [Some (si_registration i), recent_status_new i, recent_status_unchanged i]"

definition replay :: "('p, 'x) lib \<Rightarrow> conn_writer \<Rightarrow> ('p, 'x) shared \<Rightarrow> unit res \<times> ('p, 'x) shared" where
  "replay lib w s = write_refs lib w (concat (map (info_refs \<circ> snd) (registered_sensors s))) s"

record peer =
  pe_writer :: conn_writer
  dmm_id :: "string option"
  pe_format :: message_format

definition peer_new :: "('p, 'x) lib \<Rightarrow> conn_writer \<Rightarrow> message_format \<Rightarrow> ('p, 'x) shared \<Rightarrow> peer res \<times> ('p, 'x) shared" where
  "peer_new lib w fmt s = (case replay lib w (s\<lparr>dmm_writers := dmm_writers s @ [w]\<rparr>) of
     (r, s1) \<Rightarrow> (bindE r (\<lambda>_. Inr \<lparr>pe_writer = w, dmm_id = None, pe_format = fmt\<rparr>), s1))"

definition peer_registration ::
  "('p, 'x) lib \<Rightarrow> peer \<Rightarrow> ('p, 'x) message_record \<Rightarrow> ('p, 'x) shared \<Rightarrow> ('p, 'x, peer) outcome" where
  "peer_registration lib c m s =
     (if \<not> truthy (dget (config s) ''allowPeerRegistration'')
      then (Inr (), c, with_error (NoisyError ''Peer should not send registration'') m, s)
      else case parsed m of
        None \<Rightarrow> (Inl (no_attribute ''node_id''), c, m, s)
      | Some p \<Rightarrow>
          (case pr_node_id p of
             None \<Rightarrow> (Inr (), c, with_error (FatalError ''Peer sent registration message with no ID'') m, s)
           | Some node \<Rightarrow>
               if dmm_id c \<noteq> None \<and> dmm_id c \<noteq> Some node
               then (Inr (), c, with_error (FatalError (''Peer sent registration with inconsistent ID ('' @
                       opt_str (dmm_id c) @ '' -> '' @ node)) m, s)
               else (case send_registration_ack lib (pe_writer c) node (pe_format c) s of
                       (r, s1) \<Rightarrow> (r, c\<lparr>dmm_id := Some node\<rparr>, m, s1))))"

text \<open>\<open>_handle_message_inner\<close>, after a registration has been handled.\<close>

definition peer_forward ::
  "('p, 'x) lib \<Rightarrow> peer \<Rightarrow> ('p, 'x) message_record \<Rightarrow> ('p, 'x) shared \<Rightarrow> ('p, 'x, peer) outcome" where
  "peer_forward lib c m s =
     (case parsed m of
        None \<Rightarrow> (Inl (no_attribute (if dmm_id c = None then ''destination_node_id'' else ''node_id'')), c, m, s)
      | Some p \<Rightarrow>
          if dmm_id c \<noteq> None \<and> pr_node_id p \<noteq> dmm_id c
          then (Inr (), c, with_error (NoisyError (''Expected node ID '' @ opt_str (dmm_id c) @ '', got node ID '' @ opt_str (pr_node_id p))) m, s)
          else (case destination_node_id p of
             None \<Rightarrow> (case send_to_parent lib m True NoWriter s of (r, m1, s1) \<Rightarrow> (r, c, m1, s1))
           | Some dest \<Rightarrow>
               (case map_of (registered_sensors s) dest of
                  None \<Rightarrow> (Inr (), c, with_error (NoisyError (''Unknown node ID '' @ dest)) m, s)
                | Some info \<Rightarrow>
                    (case apply_timestamp_offset lib (config s) (Some (dmm_msg_offset info)) (si_format info) m of
                       (Inl e, m1) \<Rightarrow> (Inl e, c, m1, s)
                     | (Inr _, m1) \<Rightarrow>
                         (case write_msg lib (si_writer info) (Record m1) (version m1) s of
                            (Inl e, s1) \<Rightarrow> (Inl e, c, m1, s1)
                          | (Inr _, s1) \<Rightarrow>
                              (case send_to_parent lib (m1\<lparr>forwarded_count := 1\<rparr>) False NoWriter s1 of
                                 (r, m2, s2) \<Rightarrow> (r, c, m2, s2)))))))"

definition peer_inner ::
  "('p, 'x) lib \<Rightarrow> peer \<Rightarrow> ('p, 'x) message_record \<Rightarrow> ('p, 'x) shared \<Rightarrow> ('p, 'x, peer) outcome" where
  "peer_inner lib c m s =
     (if error m \<noteq> None then (Inr (), c, m, s)
      else if registered m = None then peer_forward lib c m s
      else (case peer_registration lib c m s of
              (Inl e, c1, m1, s1) \<Rightarrow> (Inl e, c1, m1, s1)
            | (Inr _, c1, m1, s1) \<Rightarrow> if error m1 \<noteq> None then (Inr (), c1, m1, s1) else peer_forward lib c1 m1 s1))"

definition peer_handle ::
  "('p, 'x) lib \<Rightarrow> peer \<Rightarrow> ('p, 'x) message_record \<Rightarrow> ('p, 'x) shared \<Rightarrow> ('p, 'x, peer) outcome" where
  "peer_handle lib c m s = (case peer_inner lib c m s of
     (r, c1, m1, s1) \<Rightarrow>
       let m2 = (case r of Inl e \<Rightarrow> with_error (FatalError (exn_text e)) m1 | Inr _ \<Rightarrow> m1)
       in (case send_error_reply_if_necessary lib (pe_writer c) m2 (pe_format c) (dmm_id c1) s1 of
             (r2, s2) \<Rightarrow> (r2, c1, m2, s2)))"

text \<open>\<open>list.remove\<close> raises for an element that is not there.\<close>

definition py_remove :: "'a \<Rightarrow> 'a list \<Rightarrow> 'a list res" where
  "py_remove x xs = (if x \<in> set xs then Inr (remove1 x xs) else Inl (value_error ''list.remove(x): x not in list''))"

definition peer_closed :: "peer \<Rightarrow> ('p, 'x) shared \<Rightarrow> unit res \<times> ('p, 'x) shared" where
  "peer_closed c s = (case py_remove (pe_writer c) (dmm_writers s) of
     Inl e \<Rightarrow> (Inl e, s) | Inr ws \<Rightarrow> (Inr (), s\<lparr>dmm_writers := ws\<rparr>))"

section \<open>Parents and recorders\<close>

record parent =
  pa_writer :: conn_writer
  pa_format :: message_format
  forward_all :: bool

definition own_parent_writer :: "parent \<Rightarrow> parent_writer" where
  "own_parent_writer c = \<lparr>pw_writer = pa_writer c, pw_format = pa_format c\<rparr>"

definition parent_new ::
  "('p, 'x) lib \<Rightarrow> conn_writer \<Rightarrow> bool \<Rightarrow> message_format \<Rightarrow> ('p, 'x) shared \<Rightarrow> parent res \<times> ('p, 'x) shared" where
  "parent_new lib w fwd fmt s =
     (let c = \<lparr>pa_writer = w, pa_format = fmt, forward_all = fwd\<rparr>; pw = own_parent_writer c
      in if fwd
         then (case replay lib w (s\<lparr>parent_all_writers := parent_all_writers s @ [pw]\<rparr>) of
                 (r, s1) \<Rightarrow> (bindE r (\<lambda>_. Inr c), s1))
         else (Inr c, s\<lparr>parent_high_level_writers := parent_high_level_writers s @ [pw]\<rparr>))"

text \<open>The tail that both versions of \<open>handle_message\<close> share; nothing is caught here.\<close>

definition parent_reply ::
  "('p, 'x) lib \<Rightarrow> parent \<Rightarrow> unit res \<times> ('p, 'x) message_record \<times> ('p, 'x) shared \<Rightarrow> ('p, 'x, parent) outcome" where
  "parent_reply lib c rms = (case rms of
       (Inl e, m, s) \<Rightarrow> (Inl e, c, m, s)
     | (Inr _, m, s) \<Rightarrow> (case send_error_reply_if_necessary lib (pa_writer c) m (pa_format c) None s of
         (r, s1) \<Rightarrow> (r, c, m, s1)))"

text \<open>As vendored: \<open>except_writer\<close> is the writer itself.\<close>

definition parent_handle_vendored ::
  "('p, 'x) lib \<Rightarrow> parent \<Rightarrow> ('p, 'x) message_record \<Rightarrow> ('p, 'x) shared \<Rightarrow> ('p, 'x, parent) outcome" where
  "parent_handle_vendored lib c m0 s =
     (let m = m0\<lparr>updated_data_bytes := Some (data_bytes (received m0))\<rparr>
      in parent_reply lib c
           (if error m \<noteq> None then (Inr (), m, s)
            else (case forward_to_peers lib m s of
                    (Inl e, m1, s1) \<Rightarrow> (Inl e, m1, s1)
                  | (Inr _, m1, s1) \<Rightarrow> send_to_parent lib m1 False (Function (pa_writer c)) s1)))"

text \<open>As patched: the addressed child first, then the peers, then the other parents.\<close>

definition parent_to_child ::
  "('p, 'x) lib \<Rightarrow> ('p, 'x) message_record \<Rightarrow> ('p, 'x) shared \<Rightarrow> unit res \<times> ('p, 'x) message_record \<times> ('p, 'x) shared" where
  "parent_to_child lib m s =
     (case parsed m of
        None \<Rightarrow> (Inl (no_attribute ''destination_node_id''), m, s)
      | Some p \<Rightarrow>
          (case Option.bind (destination_node_id p) (map_of (registered_sensors s)) of
             None \<Rightarrow> (Inr (), m, s)
           | Some info \<Rightarrow>
               (case write_msg lib (si_writer info) (Record m) (version m) s of
                  (Inl e, s1) \<Rightarrow> (Inl e, m, s1)
                | (Inr _, s1) \<Rightarrow> (Inr (), m\<lparr>forwarded_count := forwarded_count m + 1\<rparr>, s1))))"

definition parent_handle ::
  "('p, 'x) lib \<Rightarrow> parent \<Rightarrow> ('p, 'x) message_record \<Rightarrow> ('p, 'x) shared \<Rightarrow> ('p, 'x, parent) outcome" where
  "parent_handle lib c m0 s =
     (let m = m0\<lparr>updated_data_bytes := Some (data_bytes (received m0))\<rparr>
      in parent_reply lib c
           (if error m \<noteq> None then (Inr (), m, s)
            else (case parent_to_child lib (m\<lparr>forwarded_count := 0\<rparr>) s of
                    (Inl e, m1, s1) \<Rightarrow> (Inl e, m1, s1)
                  | (Inr _, m1, s1) \<Rightarrow>
                      (case write_all lib (dmm_writers s1) m1 s1 of
                         (Inl e, s2) \<Rightarrow> (Inl e, m1, s2)
                       | (Inr _, s2) \<Rightarrow>
                           send_to_parent lib (m1\<lparr>forwarded_count := forwarded_count m1 + length (dmm_writers s2)\<rparr>) False
                             (ParentW (own_parent_writer c)) s2))))"

definition parent_closed :: "parent \<Rightarrow> ('p, 'x) shared \<Rightarrow> unit res \<times> ('p, 'x) shared" where
  "parent_closed c s =
     (if forward_all c
      then (case py_remove (own_parent_writer c) (parent_all_writers s) of
              Inl e \<Rightarrow> (Inl e, s) | Inr ws \<Rightarrow> (Inr (), s\<lparr>parent_all_writers := ws\<rparr>))
      else (case py_remove (own_parent_writer c) (parent_high_level_writers s) of
              Inl e \<Rightarrow> (Inl e, s) | Inr ws \<Rightarrow> (Inr (), s\<lparr>parent_high_level_writers := ws\<rparr>)))"

definition recorder_handle ::
  "('p, 'x) lib \<Rightarrow> ('p, 'x) message_record \<Rightarrow> ('p, 'x) shared \<Rightarrow> unit res \<times> ('p, 'x) message_record \<times> ('p, 'x) shared" where
  "recorder_handle lib m s =
     send_to_parent lib (m\<lparr>updated_data_bytes := Some (data_bytes (received m))\<rparr>) False NoWriter s"

section \<open>Connections\<close>

datatype connection = Child child | Peer peer | Parent parent | Recorder

definition handle_message ::
  "('p, 'x) lib \<Rightarrow> (flt \<Rightarrow> string) \<Rightarrow> connection \<Rightarrow> ('p, 'x) message_record \<Rightarrow> ('p, 'x) shared \<Rightarrow> ('p, 'x, connection) outcome" where
  "handle_message lib fl c m s = (case c of
     Child ch \<Rightarrow> (case child_handle lib fl ch m s of (r, c1, m1, s1) \<Rightarrow> (r, Child c1, m1, s1))
   | Peer pe \<Rightarrow> (case peer_handle lib pe m s of (r, c1, m1, s1) \<Rightarrow> (r, Peer c1, m1, s1))
   | Parent pa \<Rightarrow> (case parent_handle lib pa m s of (r, c1, m1, s1) \<Rightarrow> (r, Parent c1, m1, s1))
   | Recorder \<Rightarrow> (case recorder_handle lib m s of (r, m1, s1) \<Rightarrow> (r, Recorder, m1, s1)))"

definition handle_closed :: "connection \<Rightarrow> ('p, 'x) shared \<Rightarrow> unit res \<times> ('p, 'x) shared" where
  "handle_closed c s = (case c of
     Child ch \<Rightarrow> (Inr (), child_closed ch s) | Peer pe \<Rightarrow> peer_closed pe s | Parent pa \<Rightarrow> parent_closed pa s
   | Recorder \<Rightarrow> (Inr (), s))"

text \<open>\<open>ConnectionCreator.create\<close>, for the writer of the new connection.\<close>

definition create_connection ::
  "('p, 'x) lib \<Rightarrow> conn_config \<Rightarrow> conn_writer \<Rightarrow> ('p, 'x) shared \<Rightarrow> connection res \<times> ('p, 'x) shared" where
  "create_connection lib cc w s =
     (if cc_type cc = ''Peer'' then (case peer_new lib w (cc_format cc) s of (r, s1) \<Rightarrow> (bindE r (\<lambda>c. Inr (Peer c)), s1))
      else if cc_type cc = ''Child'' then (bindE (child_new (config s) w (cc_format cc)) (\<lambda>c. Inr (Child c)), s)
      else if cc_type cc = ''Parent''
      then (case parent_new lib w (truthy (cc_forward_all cc)) (cc_format cc) s of (r, s1) \<Rightarrow> (bindE r (\<lambda>c. Inr (Parent c)), s1))
      else if cc_type cc = ''Recorder'' then (Inr Recorder, s)
      else (Inl (PyExc ''KeyError'' (repr_str (cc_type cc))), s))"

text \<open>\<open>ConnectionCreator.__init__\<close>: the formats of the last peer and the last parent configured.\<close>

definition last_format :: "string \<Rightarrow> string \<Rightarrow> (string \<times> string option) list \<Rightarrow> message_format res" where
  "last_format kind missing conns =
     bindE (mapE (\<lambda>(_, f). format_of_name (case f of None \<Rightarrow> missing | Some n \<Rightarrow> n)) (filter (\<lambda>(t, _). t = kind) conns))
       (\<lambda>fs. Inr (if fs = [] then PROTO else last fs))"

definition new_shared ::
  "pydict \<Rightarrow> (string \<times> string option) list \<Rightarrow> string \<Rightarrow> id_generator \<Rightarrow> int \<Rightarrow> ('p, 'x) shared res" where
  "new_shared cfg conns middleware g t =
     bindE (if converts cfg then last_format ''Peer'' ''XML'' conns else Inr PROTO) (\<lambda>df.
     bindE (if converts cfg then last_format ''Parent'' ''PROTO'' conns else Inr PROTO) (\<lambda>pf.
       Inr \<lparr>config = cfg, middleware_node_id = middleware, registered_sensors = [], dmm_msg_format = df, dmm_writers = [],
            parent_high_level_writers = [], parent_all_writers = [], parent_message_format = pf, generator = g,
            store = (\<lambda>_. None), sent = [], utcnow = t\<rparr>))"

section \<open>What the operations leave alone\<close>

text \<open>\<open>s'\<close> differs from \<open>s\<close> only in what has been handed to writers, and each addition satisfies
  \<open>P\<close>.\<close>

definition adds :: "(conn_writer \<Rightarrow> kind \<Rightarrow> bool) \<Rightarrow> ('p, 'x) shared \<Rightarrow> ('p, 'x) shared \<Rightarrow> bool" where
  "adds P s s' \<longleftrightarrow> (\<exists>es. s' = s\<lparr>sent := sent s @ es\<rparr> \<and> (\<forall>(w, k, b)\<in>set es. P w k))"

lemma adds_refl [simp]: "adds P s s"
  by (auto simp: adds_def intro: exI [of _ "[]"])

lemma adds_one: "P w k \<Longrightarrow> adds P s (s\<lparr>sent := sent s @ [(w, k, b)]\<rparr>)"
  by (auto simp: adds_def)

lemma adds_trans: "adds P s1 s2 \<Longrightarrow> adds P s2 s3 \<Longrightarrow> adds P s1 s3"
  unfolding adds_def by (elim exE conjE) (rule_tac x = "es @ esa" in exI, auto)

lemma adds_mono: "adds P s s' \<Longrightarrow> (\<And>w k. P w k \<Longrightarrow> Q w k) \<Longrightarrow> adds Q s s'"
  unfolding adds_def by fast

lemma adds_fields:
  assumes "adds P s s'"
  shows "config s' = config s" "middleware_node_id s' = middleware_node_id s"
    "registered_sensors s' = registered_sensors s" "dmm_msg_format s' = dmm_msg_format s" "dmm_writers s' = dmm_writers s"
    "parent_high_level_writers s' = parent_high_level_writers s" "parent_all_writers s' = parent_all_writers s"
    "generator s' = generator s" "store s' = store s" "utcnow s' = utcnow s"
  using assms by (auto simp: adds_def)

lemma write_msg_adds: "write_msg lib w m v s = (r, s') \<Longrightarrow> P w (kind_of m) \<Longrightarrow> adds P s s'"
  by (auto simp: write_msg_def adds_one split: option.splits sum.splits)

lemma write_all_adds:
  "write_all lib ws m s = (r, s') \<Longrightarrow> (\<And>w. w \<in> set ws \<Longrightarrow> P w (Forwarded (rd_message (received m)))) \<Longrightarrow> adds P s s'"
proof (induction ws arbitrary: s)
  case (Cons w ws)
  from Cons.prems(1) obtain r1 s1 where w: "write_msg lib w (Record m) (version m) s = (r1, s1)"
    by (auto split: prod.splits)
  have "adds P s s1" by (rule write_msg_adds [OF w]) (simp add: Cons.prems)
  moreover have "adds P s1 s'"
    using Cons w by (cases r1) auto
  ultimately show ?case by (rule adds_trans)
qed simp

lemma parent_loop_adds:
  "parent_loop lib ex ps m s = (r, m', s') \<Longrightarrow>
   (\<And>p. p \<in> set ps \<Longrightarrow> ex \<noteq> ParentW p \<Longrightarrow> P (pw_writer p) (Forwarded (rd_message (received m)))) \<Longrightarrow>
   adds P s s' \<and> (\<exists>n. m' = m\<lparr>forwarded_count := n\<rparr>)"
proof (induction ps arbitrary: m s)
  case Nil
  then show ?case by (auto intro: exI [of _ "forwarded_count m"])
next
  case (Cons p ps)
  show ?case
  proof (cases "ex = ParentW p")
    case True
    with Cons show ?thesis by simp
  next
    case False
    obtain r1 s1 where w: "write_msg lib (pw_writer p) (Record m) (version m) s = (r1, s1)"
      by (metis surj_pair)
    have a: "adds P s s1" by (rule write_msg_adds [OF w]) (simp add: Cons.prems False)
    show ?thesis
    proof (cases r1)
      case (Inl e)
      with Cons.prems(1) False w a show ?thesis by (auto intro: exI [of _ "forwarded_count m"])
    next
      case (Inr u)
      with Cons.prems(1) False w
      have l: "parent_loop lib ex ps (m\<lparr>forwarded_count := forwarded_count m + 1\<rparr>) s1 = (r, m', s')" by simp
      from Cons.IH [OF l] Cons.prems(2) have "adds P s1 s' \<and> (\<exists>n. m' = m\<lparr>forwarded_count := n\<rparr>)"
        by force
      with a show ?thesis by (auto intro: adds_trans)
    qed
  qed
qed

lemma send_to_parent_adds:
  assumes "send_to_parent lib m high ex s = (r, m', s')"
    and "\<And>p. p \<in> set (parent_all_writers s) \<or> high \<and> p \<in> set (parent_high_level_writers s) \<Longrightarrow>
           ex \<noteq> ParentW p \<Longrightarrow> P (pw_writer p) (Forwarded (rd_message (received m)))"
  shows "adds P s s' \<and> (\<exists>n. m' = m\<lparr>forwarded_count := n\<rparr>)"
proof (cases "error m = None")
  case True
  with assms show ?thesis
    by (auto simp: send_to_parent_def split: if_splits intro!: parent_loop_adds)
next
  case False
  with assms(1) show ?thesis by (auto simp: send_to_parent_def intro: exI [of _ "forwarded_count m"])
qed

lemma ack_adds: "send_registration_ack lib w dest fmt s = (r, s') \<Longrightarrow> P w Generated \<Longrightarrow> adds P s s'"
  by (auto simp: send_registration_ack_def split: if_splits option.splits sum.splits intro: write_msg_adds)

lemma error_reply_adds: "send_error_reply_if_necessary lib w m fmt dest s = (r, s') \<Longrightarrow> P w Generated \<Longrightarrow> adds P s s'"
  by (auto simp: send_error_reply_if_necessary_def split: if_splits option.splits intro: write_msg_adds)

lemma forward_adds:
  assumes "forward_to_peers lib m s = (r, m', s')" "\<And>w. w \<in> set (dmm_writers s) \<Longrightarrow> P w (Forwarded (rd_message (received m)))"
  shows "adds P s s' \<and> (\<exists>n. m' = m\<lparr>forwarded_count := n\<rparr>)"
proof -
  obtain r1 s1 where w: "write_all lib (dmm_writers s) m s = (r1, s1)" by (metis surj_pair)
  from write_all_adds [OF w, of P] assms w show ?thesis
    by (cases r1) (auto simp: forward_to_peers_def intro: exI [of _ "forwarded_count m"] exI [of _ "length (dmm_writers s)"])
qed

lemma write_refs_adds:
  "write_refs lib w rs s = (r, s') \<Longrightarrow> (\<And>i m. Some i \<in> set rs \<Longrightarrow> store s i = Some m \<Longrightarrow> P w (Forwarded (rd_message (received m)))) \<Longrightarrow> adds P s s'"
proof (induction rs arbitrary: s)
  case (Cons x rs)
  obtain r1 s1 where w: "write_stored lib w x s = (r1, s1)" by (metis surj_pair)
  have a: "adds P s s1"
  proof (cases x)
    case (Some i)
    show ?thesis
    proof (cases "store s i")
      case (Some m)
      with w \<open>x = Some i\<close> have "write_msg lib w (Record m) (version m) s = (r1, s1)" by (simp add: write_stored_def)
      then show ?thesis by (rule write_msg_adds) (use Cons.prems(2) [of i m] \<open>x = Some i\<close> Some in simp)
    qed (use w Some in \<open>simp add: write_stored_def\<close>)
  qed (use w in \<open>simp add: write_stored_def\<close>)
  have "adds P s1 s'" if "r1 = Inr u" for u
    using Cons.IH [of s1] Cons.prems w that adds_fields(9) [OF a] by auto
  with a Cons.prems(1) w show ?case by (cases r1) (auto intro: adds_trans)
qed simp

text \<open>Adjusting the timestamp and assigning an identifier keep what was received and the error.\<close>

definition same_message :: "('p, 'x) message_record \<Rightarrow> ('p, 'x) message_record \<Rightarrow> bool" where
  "same_message m m' \<longleftrightarrow> received m' = received m \<and> error m' = error m \<and> registered m' = registered m
     \<and> status_report m' = status_report m \<and> version m' = version m
     \<and> map_option destination_node_id (parsed m') = map_option destination_node_id (parsed m)
     \<and> map_option pr_node_id (parsed m') = map_option pr_node_id (parsed m)"

lemma same_message_refl [simp]: "same_message m m" by (simp add: same_message_def)

lemma same_message_trans: "same_message a b \<Longrightarrow> same_message b c \<Longrightarrow> same_message a c"
  by (simp add: same_message_def)

lemma apply_offset_same: "apply_timestamp_offset lib cfg off fmt m = (r, m') \<Longrightarrow> same_message m m'"
  by (auto simp: apply_timestamp_offset_def same_message_def Let_def split: option.splits if_splits sum.splits)

lemma assign_same:
  "assign_sensor_id lib m s = (r, m', s') \<Longrightarrow> same_message m m' \<and> (\<exists>g. s' = s\<lparr>generator := g\<rparr>)"
  by (auto simp: assign_sensor_id_def same_message_def Let_def get_next_id_def split: option.splits if_splits sum.splits
      intro: exI [of _ "generator s"])

section \<open>What a child's message changes\<close>

definition to_peers_or_reply :: "child \<Rightarrow> ('p, 'x) message_record \<Rightarrow> ('p, 'x) shared \<Rightarrow> conn_writer \<Rightarrow> kind \<Rightarrow> bool" where
  "to_peers_or_reply c m s w k \<longleftrightarrow>
     k = Forwarded (rd_message (received m)) \<and> w \<in> set (dmm_writers s) \<or> k = Generated \<and> w = ch_writer c"

text \<open>The sensors afterwards: as before, or with one entry that belongs to this connection.\<close>

definition own_entry :: "child \<Rightarrow> nat \<Rightarrow> child \<Rightarrow> ('p, 'x) shared \<Rightarrow> ('p, 'x) shared \<Rightarrow> bool" where
  "own_entry c i c' s s' \<longleftrightarrow>
     ch_writer c' = ch_writer c \<and> ch_format c' = ch_format c
     \<and> (registered_sensors s' = registered_sensors s \<and> (ch_node_id c' = ch_node_id c) \<and> (ch_registration c' = ch_registration c)
        \<or> (\<exists>node info. registered_sensors s' = AList.update node info (registered_sensors s) \<and> si_writer info = ch_writer c
             \<and> ch_node_id c' = Some node \<and> ch_registration c' \<noteq> None
             \<and> (ch_registration c \<noteq> None \<longrightarrow> ch_node_id c = Some node)
             \<and> (\<forall>x\<in>set (info_refs info). x = None \<or> x = Some i
                  \<or> (\<exists>old. map_of (registered_sensors s) node = Some old \<and> x \<in> set (info_refs old)))))"

definition evolves :: "(conn_writer \<Rightarrow> kind \<Rightarrow> bool) \<Rightarrow> ('p, 'x) shared \<Rightarrow> ('p, 'x) shared \<Rightarrow> bool" where
  "evolves P s s' \<longleftrightarrow> (\<exists>g rs. adds P (s\<lparr>generator := g, registered_sensors := rs\<rparr>) s')"

lemma evolves_adds: "adds P s s' \<Longrightarrow> evolves P s s'"
  unfolding evolves_def by (intro exI [of _ "generator s"] exI [of _ "registered_sensors s"]) simp

lemma evolves_fields:
  assumes "evolves P s s'"
  shows "config s' = config s" "dmm_writers s' = dmm_writers s" "parent_high_level_writers s' = parent_high_level_writers s"
    "parent_all_writers s' = parent_all_writers s" "store s' = store s"
    "\<exists>es. sent s' = sent s @ es \<and> (\<forall>(w, k, b)\<in>set es. P w k)"
  using assms by (auto simp: evolves_def adds_def)

lemma evolves_trans: "evolves P s1 s2 \<Longrightarrow> evolves P s2 s3 \<Longrightarrow> evolves P s1 s3"
  unfolding evolves_def adds_def
  by (elim exE conjE) (rule_tac x = ga in exI, rule_tac x = rsa in exI, rule_tac x = "es @ esa" in exI, auto)

lemma evolves_mono: "evolves P s s' \<Longrightarrow> (\<And>w k. P w k \<Longrightarrow> Q w k) \<Longrightarrow> evolves Q s s'"
  unfolding evolves_def using adds_mono by blast

lemma child_registration_facts:
  assumes "child_registration lib c m s = (r, c', m', s')" "ch_registration c = None"
  shows "evolves (to_peers_or_reply c m s) s s' \<and> own_entry c (rd_message (received m)) c' s s' \<and> received m' = received m"
proof -
  have same: ?thesis if "s' = s" "received m' = received m" "ch_writer c' = ch_writer c" "ch_format c' = ch_format c"
    "ch_node_id c' = ch_node_id c" "ch_registration c' = ch_registration c"
    using that by (simp add: own_entry_def evolves_adds)
  show ?thesis
  proof (cases "error m \<noteq> None \<or> registered m = None \<or> Option.bind (parsed m) pr_node_id = None")
    case True
    with assms(1) show ?thesis
      by (intro same) (auto simp: child_registration_def with_error_def split: if_splits option.splits)
  next
    case False
    then obtain p node where p: "parsed m = Some p" "pr_node_id p = Some node" and e: "error m = None" "registered m \<noteq> None"
      by (auto simp: bind_eq_Some_conv)
    define off where "off = rd_timestamp (received m) - message_timestamp p"
    define c1 where "c1 = c\<lparr>time_offset := Some (off - 100000)\<rparr>"
    obtain r1 m1 where ap: "apply_timestamp_offset lib (config s) (time_offset c1) (dmm_msg_format s) m = (r1, m1)" by (metis surj_pair)
    note same1 = apply_offset_same [OF ap]
    note unf = assms(1) [unfolded child_registration_def Let_def p option.case, folded off_def, folded c1_def]
    show ?thesis
    proof (cases r1)
      case (Inl x)
      with unf ap p e same1 show ?thesis by (intro same) (auto simp: c1_def same_message_def)
    next
      case (Inr u)
      obtain r2 m2 s2 where as: "assign_sensor_id lib m1 s = (r2, m2, s2)" by (metis surj_pair)
      from assign_same [OF as] obtain g where same2: "same_message m1 m2" and s2: "s2 = s\<lparr>generator := g\<rparr>" by blast
      have rec2: "received m2 = received m" using same1 same2 by (simp add: same_message_def)
      show ?thesis
      proof (cases r2)
        case (Inl x)
        with unf ap as p e Inr rec2 have "s' = s2" "c' = c1" "m' = m2" by auto
        moreover have "evolves (to_peers_or_reply c m s) s s2"
          unfolding evolves_def s2 by (intro exI [of _ g] exI [of _ "registered_sensors s"]) simp
        ultimately show ?thesis by (simp add: own_entry_def c1_def rec2 s2)
      next
        case Inr2: (Inr v)
        define c2 where "c2 = c1\<lparr>ch_node_id := Some node, ch_sensor_id :=
            (case Option.bind (parsed m2) internal_sensor_id of Some i \<Rightarrow> if i = 0 then None else Some i | None \<Rightarrow> None),
            ch_registration := Some (rd_message (received m))\<rparr>"
        define info where "info = \<lparr>si_writer = ch_writer c, si_registration = rd_message (received m),
            dmm_msg_offset = - off, si_format = ch_format c, recent_status_new = None, recent_status_unchanged = None\<rparr>"
        define s3 where "s3 = s2\<lparr>registered_sensors := AList.update node info (registered_sensors s2)\<rparr>"
        obtain r3 m3 s4 where fw: "forward_to_peers lib m2 s3 = (r3, m3, s4)" by (metis surj_pair)
        have a4: "adds (to_peers_or_reply c m s) s3 s4 \<and> (\<exists>n. m3 = m2\<lparr>forwarded_count := n\<rparr>)"
          by (rule forward_adds [OF fw]) (simp add: to_peers_or_reply_def s3_def s2 rec2)
        note unf2 = unf [unfolded ap as prod.case Inr Inr2 sum.case, folded info_def c2_def, folded s3_def, unfolded fw prod.case]
        have end_: "adds (to_peers_or_reply c m s) s4 s' \<and> c' = c2 \<and> m' = m3"
        proof (cases r3)
          case (Inl x)
          with unf2 e p show ?thesis by (auto split: if_splits)
        next
          case (Inr w)
          with unf2 e p show ?thesis
            by (auto simp: to_peers_or_reply_def split: if_splits prod.splits intro: ack_adds)
        qed
        with a4 have "adds (to_peers_or_reply c m s) s3 s'" by (auto intro: adds_trans)
        then have "evolves (to_peers_or_reply c m s) s s'"
          unfolding evolves_def s3_def s2
          by (intro exI [of _ g] exI [of _ "AList.update node info (registered_sensors s)"]) simp
        moreover have "registered_sensors s' = AList.update node info (registered_sensors s)"
          using adds_fields(3) [OF conjunct1 [OF end_]] adds_fields(3) [OF conjunct1 [OF a4]] by (simp add: s3_def s2)
        ultimately show ?thesis using end_ a4 rec2 assms(2)
          by (auto simp: own_entry_def c2_def c1_def info_def info_refs_def)
      qed
    qed
  qed
qed

text \<open>The entry of a registered child while one of its messages is handled.\<close>

definition entry_kept :: "child \<Rightarrow> nat \<Rightarrow> string \<Rightarrow> sensor_info \<Rightarrow> ('p, 'x) shared \<Rightarrow> sensor_info \<Rightarrow> child \<Rightarrow> ('p, 'x) shared \<Rightarrow> bool" where
  "entry_kept c i node old s info c' s' \<longleftrightarrow>
     ch_writer c' = ch_writer c \<and> ch_format c' = ch_format c \<and> ch_node_id c' = Some node \<and> ch_registration c' \<noteq> None
     \<and> si_writer info = ch_writer c \<and> (\<forall>x\<in>set (info_refs info). x = None \<or> x = Some i \<or> x \<in> set (info_refs old))
     \<and> (registered_sensors s' = registered_sensors s \<and> ch_registration c' = ch_registration c
        \<or> registered_sensors s' = AList.update node info (registered_sensors s))"

lemma entry_kept_own:
  assumes "entry_kept c i node old s info c' s'" "ch_node_id c = Some node" "map_of (registered_sensors s) node = Some old"
  shows "own_entry c i c' s s'"
  using assms unfolding entry_kept_def own_entry_def by auto

lemma set_info_evolves: "evolves P s (set_info node info s)"
  unfolding evolves_def set_info_def
  by (intro exI [of _ "generator s"] exI [of _ "AList.update node info (registered_sensors s)"]) simp

lemma register_again_facts:
  assumes "register_again lib node info c m s = (r, info', c', s')" "ch_node_id c = Some node" "ch_registration c \<noteq> None"
    "si_writer info = ch_writer c"
  shows "evolves (\<lambda>w k. w = ch_writer c \<and> k = Generated) s s' \<and> entry_kept c (rd_message (received m)) node info s info' c' s'"
proof (cases "registered m = None")
  case True
  with assms show ?thesis by (auto simp: register_again_def entry_kept_def evolves_adds)
next
  case False
  define i where "i = rd_message (received m)"
  define info1 where "info1 = info\<lparr>si_registration := i, recent_status_new := None, recent_status_unchanged := None\<rparr>"
  define c1 where "c1 = c\<lparr>ch_registration := Some i, last_status_report_system := None\<rparr>"
  note unf = assms(1) [unfolded register_again_def Let_def, folded i_def, folded info1_def c1_def]
  have a: "adds (\<lambda>w k. w = ch_writer c \<and> k = Generated) (set_info node info1 s) s' \<and> info' = info1 \<and> c' = c1"
    using unf False by (auto split: if_splits prod.splits intro: ack_adds)
  then have "registered_sensors s' = AList.update node info1 (registered_sensors s)"
    using adds_fields(3) [OF conjunct1 [OF a]] by (simp add: set_info_def)
  moreover have "evolves (\<lambda>w k. w = ch_writer c \<and> k = Generated) s s'"
    using evolves_trans [OF set_info_evolves evolves_adds [OF conjunct1 [OF a]]] .
  ultimately show ?thesis using a assms
    by (auto simp: entry_kept_def info1_def c1_def info_refs_def i_def)
qed

lemma note_status_facts:
  assumes "note_status node info c1 m s1 = (c', m', s')" "entry_kept c (rd_message (received m)) node old s info c1 s1"
  shows "evolves P s1 s' \<and> (\<exists>info'. entry_kept c (rd_message (received m)) node old s info' c' s')
    \<and> received m' = received m"
proof -
  define i where "i = rd_message (received m)"
  have upd: "entry_kept c i node old s info' c' (set_info node info' s1)"
    if "ch_writer c' = ch_writer c1" "ch_format c' = ch_format c1" "ch_node_id c' = ch_node_id c1" "ch_registration c' = ch_registration c1"
      "si_writer info' = si_writer info" "set (info_refs info') \<subseteq> {None, Some i} \<union> set (info_refs info)" for info'
    using assms(2) that by (auto simp: entry_kept_def i_def [symmetric] set_info_def update_last)
  consider "s' = s1" "c' = c1" "received m' = received m"
    | info' where "s' = set_info node info' s1" "received m' = received m" "ch_writer c' = ch_writer c1" "ch_format c' = ch_format c1"
        "ch_node_id c' = ch_node_id c1" "ch_registration c' = ch_registration c1" "si_writer info' = si_writer info"
        "set (info_refs info') \<subseteq> {None, Some i} \<union> set (info_refs info)"
  proof (cases "status_report m")
    case None
    with assms(1) that(1) show ?thesis by (simp add: note_status_def)
  next
    case (Some r)
    show ?thesis
    proof (cases "is_unchanged r")
      case False
      with assms(1) Some show ?thesis
        by (intro that(2) [of "info\<lparr>recent_status_new := Some i, recent_status_unchanged := None\<rparr>"])
           (auto simp: note_status_def i_def info_refs_def Let_def)
    next
      case True
      show ?thesis
      proof (cases "last_status_report_system c1 = system r \<and> system r \<noteq> None")
        case False
        with assms(1) Some True that(1) show ?thesis
          by (auto simp: note_status_def with_error_def Let_def split: option.splits)
      next
        case t: True
        with assms(1) Some True show ?thesis
          by (intro that(2) [of "info\<lparr>recent_status_unchanged := Some i\<rparr>"])
             (auto simp: note_status_def i_def info_refs_def Let_def)
      qed
    qed
  qed
  then show ?thesis
  proof cases
    case 1
    with assms(2) show ?thesis by (auto simp: evolves_adds)
  next
    case 2
    with upd [of info'] show ?thesis by (auto simp: set_info_evolves i_def)
  qed
qed

lemma filter_detection_received: "filter_detection fl c m = (r, m') \<Longrightarrow> received m' = received m"
  by (auto simp: filter_detection_def split: option.splits sum.splits if_splits)

lemma child_other_facts:
  assumes "child_other lib fl c m s = (r, c', m', s')" "ch_registration c \<noteq> None"
  shows "evolves (to_peers_or_reply c m s) s s' \<and> own_entry c (rd_message (received m)) c' s s' \<and> received m' = received m"
proof -
  have same: ?thesis if "s' = s" "received m' = received m" "c' = c"
    using that by (simp add: own_entry_def evolves_adds)
  show ?thesis
  proof (cases "error m = None \<and> (\<exists>p node info. parsed m = Some p \<and> pr_node_id p = Some node \<and> ch_node_id c = Some node
      \<and> map_of (registered_sensors s) node = Some info \<and> si_writer info = ch_writer c)")
    case False
    have "s' = s \<and> received m' = received m \<and> c' = c"
    proof (cases "error m = None")
      case True
      with False assms(1) show ?thesis
        by (cases "parsed m"; cases "ch_node_id c")
           (auto simp: child_other_def with_error_def split: if_splits option.splits)
    qed (use assms(1) in \<open>simp add: child_other_def\<close>)
    then show ?thesis by (intro same) auto
  next
    case True
    then obtain p node info where p: "error m = None" "parsed m = Some p" "pr_node_id p = Some node" "ch_node_id c = Some node"
      "map_of (registered_sensors s) node = Some info" "si_writer info = ch_writer c" by blast
    obtain r1 m1 where ap: "apply_timestamp_offset lib (config s) (time_offset c) (dmm_msg_format s) m = (r1, m1)" by (metis surj_pair)
    have rec1: "received m1 = received m" using apply_offset_same [OF ap] by (simp add: same_message_def)
    have unf: "(r, c', m', s') = (case r1 of Inl e \<Rightarrow> (Inl e, c, m1, s)
      | Inr _ \<Rightarrow> (case register_again lib node info c m1 s of
           (Inl e, _, c1, s1) \<Rightarrow> (Inl e, c1, m1, s1)
         | (Inr _, info1, c1, s1) \<Rightarrow>
             (case note_status node info1 c1 m1 s1 of
                (c2, m2, s2) \<Rightarrow>
                  if error m2 \<noteq> None then (Inr (), c2, m2, s2)
                  else (case filter_detection fl c2 m2 of
                     (Inl e, m3) \<Rightarrow> (Inl e, c2, m3, s2)
                   | (Inr _, m3) \<Rightarrow>
                       if error m3 \<noteq> None then (Inr (), c2, m3, s2)
                       else (case forward_to_peers lib m3 s2 of (r, m4, s3) \<Rightarrow> (r, c2, m4, s3))))))"
      unfolding assms(1) [symmetric] by (simp add: child_other_def p ap)
    show ?thesis
    proof (cases r1)
      case (Inl e)
      with unf rec1 show ?thesis by (intro same) auto
    next
      case (Inr u)
      obtain r2 info1 c1 s1 where ra: "register_again lib node info c m1 s = (r2, info1, c1, s1)" by (metis surj_pair)
      from register_again_facts [OF ra p(4) assms(2) p(6)]
      have ev1: "evolves (to_peers_or_reply c m s) s s1" and k1: "entry_kept c (rd_message (received m)) node info s info1 c1 s1"
        by (auto simp: to_peers_or_reply_def rec1 elim: evolves_mono)
      show ?thesis
      proof (cases r2)
        case (Inl e)
        with unf Inr ra have "s' = s1" "c' = c1" "m' = m1" by auto
        with ev1 entry_kept_own [OF k1 p(4,5)] rec1 show ?thesis by simp
      next
        case Inr2: (Inr v)
        obtain c2 m2 s2 where ns: "note_status node info1 c1 m1 s1 = (c2, m2, s2)" by (metis surj_pair)
        from note_status_facts [OF ns, of c info s "to_peers_or_reply c m s"] k1 rec1
        obtain info2 where ev2: "evolves (to_peers_or_reply c m s) s1 s2"
          and k2: "entry_kept c (rd_message (received m)) node info s info2 c2 s2" and rec2: "received m2 = received m" by auto
        note ev12 = evolves_trans [OF ev1 ev2]
        have tail: "c' = c2 \<and> adds (to_peers_or_reply c m s) s2 s' \<and> received m' = received m"
        proof (cases "error m2 = None")
          case False
          with unf Inr Inr2 ra ns rec2 show ?thesis by auto
        next
          case e2: True
          obtain r3 m3 where fd: "filter_detection fl c2 m2 = (r3, m3)" by (metis surj_pair)
          have rec3: "received m3 = received m" using filter_detection_received [OF fd] rec2 by simp
          show ?thesis
          proof (cases "r3 = Inr () \<and> error m3 = None")
            case False
            with unf Inr Inr2 ra ns e2 fd rec3 show ?thesis by (cases r3) (auto split: if_splits)
          next
            case t: True
            obtain r4 m4 s4 where fw: "forward_to_peers lib m3 s2 = (r4, m4, s4)" by (metis surj_pair)
            have "adds (to_peers_or_reply c m s) s2 s4 \<and> (\<exists>n. m4 = m3\<lparr>forwarded_count := n\<rparr>)"
              by (rule forward_adds [OF fw]) (use evolves_fields(2) [OF ev12] in \<open>simp add: to_peers_or_reply_def rec3\<close>)
            with unf Inr Inr2 ra ns e2 fd t fw rec3 show ?thesis by auto
          qed
        qed
        then have "registered_sensors s' = registered_sensors s2" using adds_fields(3) by blast
        with k2 tail have "entry_kept c (rd_message (received m)) node info s info2 c' s'" by (simp add: entry_kept_def)
        with tail evolves_trans [OF ev12 evolves_adds] entry_kept_own [OF _ p(4,5)] show ?thesis by blast
      qed
    qed
  qed
qed

section \<open>Who gets a message\<close>

definition addressed :: "('p, 'x) message_record \<Rightarrow> ('p, 'x) shared \<Rightarrow> conn_writer \<Rightarrow> bool" where
  "addressed m s w \<longleftrightarrow> (\<exists>dest info. Option.bind (parsed m) destination_node_id = Some dest
     \<and> map_of (registered_sensors s) dest = Some info \<and> w = si_writer info)"

fun forward_targets :: "connection \<Rightarrow> ('p, 'x) message_record \<Rightarrow> ('p, 'x) shared \<Rightarrow> conn_writer \<Rightarrow> bool" where
  "forward_targets (Child c) m s w \<longleftrightarrow> w \<in> set (dmm_writers s) \<or> w \<in> pw_writer ` set (parent_all_writers s)"
| "forward_targets (Peer c) m s w \<longleftrightarrow> addressed m s w \<or> w \<in> pw_writer ` set (parent_all_writers s)
     \<or> Option.bind (parsed m) destination_node_id = None \<and> w \<in> pw_writer ` set (parent_high_level_writers s)"
| "forward_targets (Parent c) m s w \<longleftrightarrow> addressed m s w \<or> w \<in> set (dmm_writers s)
     \<or> w \<in> pw_writer ` (set (parent_all_writers s) - {own_parent_writer c})"
| "forward_targets Recorder m s w \<longleftrightarrow> w \<in> pw_writer ` set (parent_all_writers s)"

fun own_writer :: "connection \<Rightarrow> conn_writer option" where
  "own_writer (Child c) = Some (ch_writer c)"
| "own_writer (Peer c) = Some (pe_writer c)"
| "own_writer (Parent c) = Some (pa_writer c)"
| "own_writer Recorder = None"

definition targets :: "connection \<Rightarrow> ('p, 'x) message_record \<Rightarrow> ('p, 'x) shared \<Rightarrow> conn_writer \<Rightarrow> kind \<Rightarrow> bool" where
  "targets c m s w k \<longleftrightarrow> k = Forwarded (rd_message (received m)) \<and> forward_targets c m s w
     \<or> k = Generated \<and> own_writer c = Some w"

lemma received_with_error [simp]: "received (with_error e m) = received m" "parsed (with_error e m) = parsed m"
  by (simp_all add: with_error_def)

lemma child_handle_facts:
  assumes "child_handle lib fl c m s = (r, c', m', s')"
  shows "evolves (targets (Child c) m s) s s' \<and> own_entry c (rd_message (received m)) c' s s' \<and> received m' = received m"
proof -
  obtain r1 c1 m1 s1 where h: "(if ch_registration c = None then child_registration lib c m s else child_other lib fl c m s) = (r1, c1, m1, s1)"
    by (metis prod_cases4)
  then have f: "evolves (to_peers_or_reply c m s) s s1" "own_entry c (rd_message (received m)) c1 s s1" "received m1 = received m"
    using child_registration_facts child_other_facts by (fastforce split: if_splits)+
  have ev1: "evolves (targets (Child c) m s) s s1"
    by (rule evolves_mono [OF f(1)]) (auto simp: to_peers_or_reply_def targets_def)
  obtain r2 m2 s2 where p: "(case r1 of Inl e \<Rightarrow> (Inl e, m1, s1) | Inr _ \<Rightarrow> send_to_parent lib m1 False NoWriter s1) = (r2, m2, s2)"
    by (metis prod_cases3)
  have a2: "adds (targets (Child c) m s) s1 s2 \<and> received m2 = received m"
  proof (cases r1)
    case (Inr u)
    with p have st: "send_to_parent lib m1 False NoWriter s1 = (r2, m2, s2)" by simp
    have "adds (targets (Child c) m s) s1 s2 \<and> (\<exists>n. m2 = m1\<lparr>forwarded_count := n\<rparr>)"
      by (rule send_to_parent_adds [OF st]) (use evolves_fields(4) [OF ev1] f(3) in \<open>auto simp: targets_def\<close>)
    then show ?thesis using f(3) by auto
  qed (use p f(3) in auto)
  define m3 where "m3 = (case r2 of Inl e \<Rightarrow> with_error (FatalError (exn_text e)) m2 | Inr _ \<Rightarrow> m2)"
  have "(case send_error_reply_if_necessary lib (ch_writer c) m3 (ch_format c) (ch_node_id c1) s2 of (r3, s3) \<Rightarrow> (r3, c1, m3, s3)) = (r, c', m', s')"
    using assms h p by (cases r1) (auto simp: child_handle_def m3_def Let_def split: prod.splits)
  then obtain r3 where e: "send_error_reply_if_necessary lib (ch_writer c) m3 (ch_format c) (ch_node_id c1) s2 = (r3, s')" "c' = c1" "m' = m3"
    by (auto split: prod.splits)
  have a3: "adds (targets (Child c) m s) s2 s'" by (rule error_reply_adds [OF e(1)]) (simp add: targets_def)
  have a: "adds (targets (Child c) m s) s1 s'" using adds_trans [OF conjunct1 [OF a2] a3] .
  have "own_entry c (rd_message (received m)) c' s s'"
    using f(2) adds_fields(3) [OF a] by (simp add: own_entry_def e(2))
  moreover have "received m3 = received m" using a2 by (simp add: m3_def split: sum.split)
  ultimately show ?thesis using evolves_trans [OF ev1 evolves_adds [OF a]] e by simp
qed

text \<open>A peer's message.\<close>

lemma peer_registration_facts:
  assumes "peer_registration lib c m s = (r, c', m', s')"
  shows "adds (targets (Peer c) m s) s s' \<and> pe_writer c' = pe_writer c \<and> pe_format c' = pe_format c
    \<and> received m' = received m \<and> parsed m' = parsed m"
  using assms by (auto simp: peer_registration_def targets_def split: if_splits option.splits prod.splits intro: ack_adds)

lemma peer_forward_facts:
  assumes "peer_forward lib c m s = (r, c', m', s')"
  shows "adds (targets (Peer c) m s) s s' \<and> c' = c \<and> received m' = received m"
proof -
  have same: ?thesis if "s' = s" "c' = c" "received m' = received m" using that by simp
  consider "parsed m = None" | p where "parsed m = Some p" "dmm_id c \<noteq> None" "pr_node_id p \<noteq> dmm_id c"
    | p where "parsed m = Some p" "dmm_id c = None \<or> pr_node_id p = dmm_id c" "destination_node_id p = None"
    | p dest where "parsed m = Some p" "dmm_id c = None \<or> pr_node_id p = dmm_id c" "destination_node_id p = Some dest"
        "map_of (registered_sensors s) dest = None"
    | p dest info where "parsed m = Some p" "dmm_id c = None \<or> pr_node_id p = dmm_id c" "destination_node_id p = Some dest"
        "map_of (registered_sensors s) dest = Some info"
    by (metis not_None_eq)
  then show ?thesis
  proof cases
    case (3 p)
    then obtain r1 m1 s1 where st: "send_to_parent lib m True NoWriter s = (r1, m1, s1)" and eqs: "s' = s1" "m' = m1" "c' = c"
      using assms by (auto simp: peer_forward_def split: if_splits prod.splits)
    have "adds (targets (Peer c) m s) s s1 \<and> (\<exists>n. m1 = m\<lparr>forwarded_count := n\<rparr>)"
      by (rule send_to_parent_adds [OF st]) (use 3 in \<open>auto simp: targets_def\<close>)
    then show ?thesis unfolding eqs by auto
  next
    case (5 p dest info)
    obtain r1 m1 where ap: "apply_timestamp_offset lib (config s) (Some (dmm_msg_offset info)) (si_format info) m = (r1, m1)" by (metis surj_pair)
    have rec1: "received m1 = received m" using apply_offset_same [OF ap] by (simp add: same_message_def)
    have unf: "(r, c', m', s') = (case r1 of Inl e \<Rightarrow> (Inl e, c, m1, s)
        | Inr _ \<Rightarrow> (case write_msg lib (si_writer info) (Record m1) (version m1) s of
            (Inl e, s1) \<Rightarrow> (Inl e, c, m1, s1)
          | (Inr _, s1) \<Rightarrow> (case send_to_parent lib (m1\<lparr>forwarded_count := 1\<rparr>) False NoWriter s1 of
              (r, m2, s2) \<Rightarrow> (r, c, m2, s2))))"
      unfolding assms [symmetric] using 5(2) by (auto simp: peer_forward_def 5(1,3,4) ap)
    show ?thesis
    proof (cases r1)
      case (Inl e)
      with unf rec1 show ?thesis by (intro same) auto
    next
      case (Inr u)
      obtain r2 s1 where w: "write_msg lib (si_writer info) (Record m1) (version m1) s = (r2, s1)" by (metis surj_pair)
      have a1: "adds (targets (Peer c) m s) s s1"
        by (rule write_msg_adds [OF w]) (use 5 in \<open>auto simp: targets_def rec1 addressed_def\<close>)
      show ?thesis
      proof (cases r2)
        case (Inl e)
        with unf Inr w a1 rec1 show ?thesis by auto
      next
        case Inr2: (Inr v)
        obtain r3 m2 s2 where st: "send_to_parent lib (m1\<lparr>forwarded_count := 1\<rparr>) False NoWriter s1 = (r3, m2, s2)" by (metis prod_cases3)
        have "adds (targets (Peer c) m s) s1 s2 \<and> (\<exists>n. m2 = m1\<lparr>forwarded_count := 1, forwarded_count := n\<rparr>)"
          by (rule send_to_parent_adds [OF st]) (use adds_fields(7) [OF a1] rec1 in \<open>auto simp: targets_def\<close>)
        with a1 unf Inr Inr2 w st rec1 show ?thesis by (auto intro: adds_trans)
      qed
    qed
  qed (use assms in \<open>auto simp: peer_forward_def\<close>)
qed

lemma peer_handle_facts:
  assumes "peer_handle lib c m s = (r, c', m', s')"
  shows "adds (targets (Peer c) m s) s s' \<and> pe_writer c' = pe_writer c \<and> pe_format c' = pe_format c \<and> received m' = received m"
proof -
  obtain r1 c1 m1 s1 where h: "peer_inner lib c m s = (r1, c1, m1, s1)" by (metis prod_cases4)
  have f: "adds (targets (Peer c) m s) s s1 \<and> pe_writer c1 = pe_writer c \<and> pe_format c1 = pe_format c \<and> received m1 = received m"
  proof (cases "error m = None \<and> registered m \<noteq> None")
    case False
    with h show ?thesis by (auto simp: peer_inner_def dest: peer_forward_facts split: if_splits)
  next
    case True
    obtain r2 c2 m2 s2 where g: "peer_registration lib c m s = (r2, c2, m2, s2)" by (metis prod_cases4)
    note gf = peer_registration_facts [OF g]
    show ?thesis
    proof (cases "\<exists>u. r2 = Inr u \<and> error m2 = None")
      case False
      with h True g gf show ?thesis by (auto simp: peer_inner_def split: sum.splits if_splits)
    next
      case t: True
      with h True g have pf: "peer_forward lib c2 m2 s2 = (r1, c1, m1, s1)" by (auto simp: peer_inner_def)
      have "addressed m2 s2 w = addressed m s w" for w
        using gf adds_fields(3) by (fastforce simp: addressed_def)
      then have "adds (targets (Peer c) m s) s2 s1"
        using peer_forward_facts [OF pf] gf adds_fields(6,7) [OF conjunct1 [OF gf]]
        by (auto simp: targets_def elim!: adds_mono)
      with gf peer_forward_facts [OF pf] show ?thesis by (auto intro: adds_trans)
    qed
  qed
  define m3 where "m3 = (case r1 of Inl e \<Rightarrow> with_error (FatalError (exn_text e)) m1 | Inr _ \<Rightarrow> m1)"
  from assms h obtain r3 where e: "send_error_reply_if_necessary lib (pe_writer c) m3 (pe_format c) (dmm_id c1) s1 = (r3, s')" "c' = c1" "m' = m3"
    by (auto simp: peer_handle_def m3_def Let_def split: prod.splits)
  have "adds (targets (Peer c) m s) s1 s'" by (rule error_reply_adds [OF e(1)]) (simp add: targets_def)
  moreover have "received m3 = received m" using f by (simp add: m3_def split: sum.split)
  ultimately show ?thesis using f e by (auto intro: adds_trans)
qed

text \<open>A parent's message, with the patch; the sender is skipped.\<close>

lemma parent_to_child_facts:
  assumes "parent_to_child lib m s = (r, m', s')" and "\<And>w. addressed m s w \<Longrightarrow> P w (Forwarded (rd_message (received m)))"
  shows "adds P s s' \<and> (\<exists>n. m' = m\<lparr>forwarded_count := n\<rparr>)"
proof (cases "\<exists>dest info. Option.bind (parsed m) destination_node_id = Some dest \<and> map_of (registered_sensors s) dest = Some info")
  case False
  with assms(1) show ?thesis
    by (auto simp: parent_to_child_def bind_eq_Some_conv split: option.splits intro: exI [of _ "forwarded_count m"])
next
  case True
  then obtain p dest info where p: "parsed m = Some p" "destination_node_id p = Some dest" "map_of (registered_sensors s) dest = Some info"
    by (auto simp: bind_eq_Some_conv)
  obtain r1 s1 where w: "write_msg lib (si_writer info) (Record m) (version m) s = (r1, s1)" by (metis surj_pair)
  have "adds P s s1" by (rule write_msg_adds [OF w]) (use assms(2) [of "si_writer info"] p in \<open>simp add: addressed_def\<close>)
  with assms(1) p w show ?thesis
    by (cases r1) (auto simp: parent_to_child_def intro: exI [of _ "forwarded_count m"] exI [of _ "forwarded_count m + 1"])
qed

lemma parent_handle_facts:
  assumes "parent_handle lib c m s = (r, c', m', s')"
  shows "adds (targets (Parent c) m s) s s' \<and> c' = c \<and> received m' = received m"
proof -
  let ?P = "targets (Parent c) m s"
  define m0 where "m0 = m\<lparr>updated_data_bytes := Some (data_bytes (received m))\<rparr>"
  define body where "body = (if error m0 \<noteq> None then (Inr (), m0, s)
            else (case parent_to_child lib (m0\<lparr>forwarded_count := 0\<rparr>) s of
                    (Inl e, m1, s1) \<Rightarrow> (Inl e, m1, s1)
                  | (Inr _, m1, s1) \<Rightarrow>
                      (case write_all lib (dmm_writers s1) m1 s1 of
                         (Inl e, s2) \<Rightarrow> (Inl e, m1, s2)
                       | (Inr _, s2) \<Rightarrow>
                           send_to_parent lib (m1\<lparr>forwarded_count := forwarded_count m1 + length (dmm_writers s2)\<rparr>) False
                             (ParentW (own_parent_writer c)) s2)))"
  obtain r1 m1 s1 where b: "body = (r1, m1, s1)" by (metis prod_cases3)
  have main: "adds ?P s s1 \<and> received m1 = received m"
  proof (cases "error m = None")
    case False
    with b show ?thesis by (auto simp: body_def m0_def)
  next
    case True
    obtain ra ma sa where pc: "parent_to_child lib (m0\<lparr>forwarded_count := 0\<rparr>) s = (ra, ma, sa)" by (metis prod_cases3)
    have a: "adds ?P s sa \<and> (\<exists>n. ma = m0\<lparr>forwarded_count := 0, forwarded_count := n\<rparr>)"
      by (rule parent_to_child_facts [OF pc]) (simp add: addressed_def targets_def m0_def)
    then have reca: "received ma = received m" by (auto simp: m0_def)
    show ?thesis
    proof (cases ra)
      case (Inl e)
      with b True pc a reca show ?thesis by (auto simp: body_def m0_def)
    next
      case (Inr u)
      obtain rb sb where wa: "write_all lib (dmm_writers sa) ma sa = (rb, sb)" by (metis surj_pair)
      have ab: "adds ?P sa sb"
        by (rule write_all_adds [OF wa]) (use adds_fields(5) [OF conjunct1 [OF a]] reca in \<open>simp add: targets_def\<close>)
      show ?thesis
      proof (cases rb)
        case (Inl e)
        with b True pc Inr wa a ab reca show ?thesis by (auto simp: body_def m0_def intro: adds_trans)
      next
        case Inr2: (Inr v)
        define mb where "mb = ma\<lparr>forwarded_count := forwarded_count ma + length (dmm_writers sb)\<rparr>"
        have st: "send_to_parent lib mb False (ParentW (own_parent_writer c)) sb = (r1, m1, s1)"
          using b True pc Inr wa Inr2 by (simp add: body_def m0_def mb_def)
        have "adds ?P sb s1 \<and> (\<exists>n. m1 = mb\<lparr>forwarded_count := n\<rparr>)"
          by (rule send_to_parent_adds [OF st])
             (use adds_fields(7) [OF adds_trans [OF conjunct1 [OF a] ab]] reca in \<open>auto simp: targets_def mb_def\<close>)
        with a ab reca show ?thesis by (auto simp: mb_def intro: adds_trans)
      qed
    qed
  qed
  have "parent_reply lib c body = (r, c', m', s')"
    using assms unfolding parent_handle_def Let_def body_def m0_def .
  then have "adds ?P s1 s' \<and> c' = c \<and> m' = m1"
    by (auto simp: parent_reply_def b targets_def split: sum.splits prod.splits intro: error_reply_adds)
  with main show ?thesis by (auto intro: adds_trans)
qed

lemma recorder_handle_facts:
  assumes "recorder_handle lib m s = (r, m', s')"
  shows "adds (targets Recorder m s) s s' \<and> received m' = received m"
proof -
  have "adds (targets Recorder m s) s s' \<and> (\<exists>n. m' = m\<lparr>updated_data_bytes := Some (data_bytes (received m)), forwarded_count := n\<rparr>)"
    by (rule send_to_parent_adds [OF assms [unfolded recorder_handle_def]]) (auto simp: targets_def)
  then show ?thesis by auto
qed

text \<open>Every kind of connection: who is written to, and which connection and sensors result.\<close>

definition conn_after :: "connection \<Rightarrow> nat \<Rightarrow> connection \<Rightarrow> ('p, 'x) shared \<Rightarrow> ('p, 'x) shared \<Rightarrow> bool" where
  "conn_after c i c' s s' \<longleftrightarrow> (case c of
     Child ch \<Rightarrow> (\<exists>ch'. c' = Child ch' \<and> own_entry ch i ch' s s')
   | Peer pe \<Rightarrow> registered_sensors s' = registered_sensors s \<and> (\<exists>pe'. c' = Peer pe' \<and> pe_writer pe' = pe_writer pe)
   | _ \<Rightarrow> registered_sensors s' = registered_sensors s \<and> c' = c)"

lemma handle_message_facts:
  assumes "handle_message lib fl c m s = (r, c', m', s')"
  shows "evolves (targets c m s) s s' \<and> conn_after c (rd_message (received m)) c' s s' \<and> received m' = received m"
proof (cases c)
  case (Child ch)
  with assms show ?thesis
    by (auto simp: handle_message_def conn_after_def dest: child_handle_facts split: prod.splits)
next
  case (Peer pe)
  with assms obtain pe' where "peer_handle lib pe m s = (r, pe', m', s')" "c' = Peer pe'"
    by (auto simp: handle_message_def split: prod.splits)
  with peer_handle_facts [of lib pe m s] Peer show ?thesis
    by (auto simp: conn_after_def evolves_adds dest: adds_fields(3))
next
  case (Parent pa)
  with assms obtain pa' where "parent_handle lib pa m s = (r, pa', m', s')" "c' = Parent pa'"
    by (auto simp: handle_message_def split: prod.splits)
  with parent_handle_facts [of lib pa m s] Parent show ?thesis
    by (auto simp: conn_after_def evolves_adds dest: adds_fields(3))
next
  case Recorder
  with assms recorder_handle_facts [of lib m s r m' s'] show ?thesis
    by (auto simp: handle_message_def conn_after_def evolves_adds dest: adds_fields(3) split: prod.splits)
qed

section \<open>New connections\<close>

lemma replay_adds: "replay lib w s = (r, s') \<Longrightarrow> adds (\<lambda>w' k. w' = w \<and> k \<noteq> Generated) s s'"
  unfolding replay_def by (rule write_refs_adds) auto

lemma peer_new_facts:
  assumes "peer_new lib w fmt s = (r, s')"
  shows "adds (\<lambda>w' k. w' = w \<and> k \<noteq> Generated) (s\<lparr>dmm_writers := dmm_writers s @ [w]\<rparr>) s'
    \<and> (\<forall>c. r = Inr c \<longrightarrow> pe_writer c = w)"
  using assms by (auto simp: peer_new_def bindE_def split: prod.splits sum.splits dest: replay_adds)

lemma child_new_facts:
  assumes "child_new cfg w fmt = Inr c"
  shows "ch_writer c = w \<and> ch_node_id c = None \<and> ch_registration c = None"
  using assms by (auto simp: child_new_def Let_def bindE_def split: pyval.splits if_splits sum.splits)

lemma parent_new_facts:
  assumes "parent_new lib w fwd fmt s = (r, s')"
  shows "let c = \<lparr>pa_writer = w, pa_format = fmt, forward_all = fwd\<rparr> in
    (\<forall>c'. r = Inr c' \<longrightarrow> c' = c)
    \<and> adds (\<lambda>w' k. w' = w \<and> k \<noteq> Generated)
        (if fwd then s\<lparr>parent_all_writers := parent_all_writers s @ [own_parent_writer c]\<rparr>
         else s\<lparr>parent_high_level_writers := parent_high_level_writers s @ [own_parent_writer c]\<rparr>) s'"
  using assms by (auto simp: parent_new_def Let_def bindE_def split: prod.splits sum.splits if_splits dest: replay_adds)

end
