(* ===== verification/ApexServer.thy ===== *)
theory ApexServer
  imports ApexConn
begin

text \<open>
  The server of the Apex middleware (\<open>sapient_apex_server/apex_server.py\<close>): opening a connection,
  the queue of received messages of each connection, the handling of the next one, and closing.

  The tasks of the server interleave: a step of \<open>server_step\<close> is what one of them does between two points
  at which it may be suspended. Parsing (\<open>parse_proto\<close>, \<open>parse_xml\<close>) is an argument; it may add
  identifiers to the generator. The transport appears as the data that arrives and as connections
  that end.
\<close>

section \<open>State\<close>

datatype parser = ParseProto bool sapient_version | ParseXml bool

definition get_parser :: "message_format \<Rightarrow> bool \<Rightarrow> bool \<Rightarrow> sapient_version \<Rightarrow> parser res" where
  "get_parser fmt conversion auto v =
     (if \<not> conversion then Inr (ParseProto False v)
      else if fmt = PROTO then Inr (ParseProto True v)
      else if fmt = XML then Inr (ParseXml auto)
      else Inl (not_implemented ''unknown parser''))"

record open_conn =
  oc_connection :: connection
  oc_parser :: parser
  oc_queue :: "received_data list"
  oc_detection :: "int option"

record ('p, 'x) server =
  shared :: "('p, 'x) shared"
  conns :: "nat \<Rightarrow> open_conn option"
  previous_connection_id :: nat
  previous_message_id :: nat
  crashed :: bool
  saved :: "nat list"
  connect_log :: "nat list"
  disconnect_log :: "nat list"

type_synonym ('p, 'x) parse_fun = "parser \<Rightarrow> received_data \<Rightarrow> int option \<times> id_generator
     \<Rightarrow> ('p, 'x) message_record res \<times> int option \<times> id_generator"

definition new_server :: "('p, 'x) shared \<Rightarrow> ('p, 'x) server" where
  "new_server s = \<lparr>shared = s, conns = (\<lambda>_. None), previous_connection_id = 0, previous_message_id = 0,
     crashed = False, saved = [], connect_log = [], disconnect_log = []\<rparr>"

section \<open>Operations\<close>

text \<open>The start of \<open>serve\<close>. An exception here is not caught: it ends the server.\<close>

record conn_entry =
  ce_type :: string
  ce_format :: "string option"
  ce_icd_version :: "string option"
  ce_forward_all :: pyval

definition sensor_id_auto :: "pydict \<Rightarrow> bool res" where
  "sensor_id_auto cfg = (case dget_or cfg ''autoAssignSensorIDInRegistration'' (PDict []) of
     PDict d \<Rightarrow> Inr (truthy (dget_or d ''enable'' (PBool True)))
   | _ \<Rightarrow> Inl (PyExc ''AttributeError'' ''object has no attribute get''))"

definition open_connection :: "('p, 'x) lib \<Rightarrow> conn_entry \<Rightarrow> ('p, 'x) server \<Rightarrow> ('p, 'x) server" where
  "open_connection lib ce srv =
     (let s = shared srv; i = previous_connection_id srv + 1; crash = srv\<lparr>crashed := True\<rparr>
      in case map_of (config s) ''enableMessageConversion'' of
           None \<Rightarrow> crash
         | Some conv \<Rightarrow>
             if \<not> has_key (config s) ''messageMaxSizeKb'' then crash else
             (case normalize_connection_config (ce_format ce) (ce_icd_version ce) (truthy conv) of
                Inl e \<Rightarrow> crash
              | Inr (fmt, v) \<Rightarrow>
                  let w = \<lparr>w_id = i, w_encoding = fmt, w_version = v\<rparr>;
                      cc = \<lparr>cc_type = ce_type ce, cc_format = fmt, cc_version = v, cc_forward_all = ce_forward_all ce\<rparr>
                  in (case create_connection lib cc w s of
                        (Inl e, s1) \<Rightarrow> crash\<lparr>shared := s1, previous_connection_id := i\<rparr>
                      | (Inr c, s1) \<Rightarrow>
                          (case bindE (sensor_id_auto (config s)) (\<lambda>auto. get_parser fmt (converts (config s)) auto v) of
                             Inl e \<Rightarrow> crash\<lparr>shared := s1, previous_connection_id := i, connect_log := connect_log srv @ [i]\<rparr>
                           | Inr p \<Rightarrow>
                               srv\<lparr>shared := s1, previous_connection_id := i, connect_log := connect_log srv @ [i],
                                   conns := (conns srv)(i \<mapsto> \<lparr>oc_connection = c, oc_parser = p, oc_queue = [], oc_detection = None\<rparr>)\<rparr>))))"

text \<open>\<open>read_to_channel\<close>: one more message of connection \<open>i\<close>.\<close>

definition receive_data :: "nat \<Rightarrow> bytes \<Rightarrow> ('p, 'x) server \<Rightarrow> ('p, 'x) server" where
  "receive_data i data srv = (case conns srv i of
       None \<Rightarrow> srv
     | Some oc \<Rightarrow>
         let n = previous_message_id srv + 1;
             raw = \<lparr>rd_connection = i, rd_message = n, rd_timestamp = utcnow (shared srv), data_bytes = data\<rparr>
         in srv\<lparr>previous_message_id := n, conns := (conns srv)(i \<mapsto> oc\<lparr>oc_queue := oc_queue oc @ [raw]\<rparr>)\<rparr>)"

text \<open>The \<open>finally\<close> block of \<open>serve\<close>. An exception of \<open>handle_closed\<close> ends the server.\<close>

definition close_connection :: "nat \<Rightarrow> ('p, 'x) server \<Rightarrow> ('p, 'x) server" where
  "close_connection i srv = (case conns srv i of
       None \<Rightarrow> srv
     | Some oc \<Rightarrow> (case handle_closed (oc_connection oc) (shared srv) of
         (Inl e, s1) \<Rightarrow> srv\<lparr>shared := s1, crashed := True\<rparr>
       | (Inr _, s1) \<Rightarrow> srv\<lparr>shared := s1, conns := (conns srv)(i := None), disconnect_log := disconnect_log srv @ [i]\<rparr>))"

definition must_store :: "error_record option \<Rightarrow> bool" where
  "must_store e \<longleftrightarrow> (case e of None \<Rightarrow> True | Some x \<Rightarrow> err_severity x \<noteq> UNSTORED)"

definition is_fatal :: "error_record option \<Rightarrow> bool" where
  "is_fatal e \<longleftrightarrow> (case e of None \<Rightarrow> False | Some x \<Rightarrow> err_severity x = FATAL)"

text \<open>\<open>read_from_channel\<close>: the next message of connection \<open>i\<close> is parsed and handled. An exception of
  parsing or of the handler, and a fatal error, end the connection.\<close>

definition handle_next ::
  "('p, 'x) lib \<Rightarrow> (flt \<Rightarrow> string) \<Rightarrow> ('p, 'x) parse_fun \<Rightarrow> nat \<Rightarrow> ('p, 'x) server \<Rightarrow> ('p, 'x) server" where
  "handle_next lib fl parse i srv = (case conns srv i of
       None \<Rightarrow> srv
     | Some oc \<Rightarrow>
         (case oc_queue oc of
            [] \<Rightarrow> srv
          | raw # rest \<Rightarrow>
              (case parse (oc_parser oc) raw (oc_detection oc, generator (shared srv)) of
                 (Inl e, v, g) \<Rightarrow> close_connection i (srv\<lparr>shared := (shared srv)\<lparr>generator := g\<rparr>\<rparr>)
               | (Inr m, v, g) \<Rightarrow>
                   (case handle_message lib fl (oc_connection oc) m ((shared srv)\<lparr>generator := g\<rparr>) of
                      (r, c1, m1, s1) \<Rightarrow>
                        let srv1 = srv\<lparr>shared := s1\<lparr>store := (store s1)(rd_message raw \<mapsto> m1)\<rparr>,
                                       conns := (conns srv)(i \<mapsto> oc\<lparr>oc_connection := c1, oc_queue := rest, oc_detection := v\<rparr>)\<rparr>
                        in (case r of
                              Inl e \<Rightarrow> close_connection i srv1
                            | Inr _ \<Rightarrow>
                                let srv2 = (if must_store (error m1) then srv1\<lparr>saved := saved srv1 @ [rd_message raw]\<rparr> else srv1)
                                in if is_fatal (error m1) then close_connection i srv2 else srv2)))))"

section \<open>Steps\<close>

inductive server_step :: "('p, 'x) lib \<Rightarrow> (flt \<Rightarrow> string) \<Rightarrow> ('p, 'x) parse_fun \<Rightarrow> ('p, 'x) server \<Rightarrow> ('p, 'x) server \<Rightarrow> bool"
  for lib fl parse where
  tick: "\<not> crashed srv \<Longrightarrow> server_step lib fl parse srv (srv\<lparr>shared := (shared srv)\<lparr>utcnow := t\<rparr>\<rparr>)"
| connect: "\<not> crashed srv \<Longrightarrow> server_step lib fl parse srv (open_connection lib ce srv)"
| arrive: "\<not> crashed srv \<Longrightarrow> conns srv i \<noteq> None \<Longrightarrow> server_step lib fl parse srv (receive_data i data srv)"
| handle: "\<not> crashed srv \<Longrightarrow> conns srv i = Some oc \<Longrightarrow> oc_queue oc \<noteq> [] \<Longrightarrow> server_step lib fl parse srv (handle_next lib fl parse i srv)"
| leave: "\<not> crashed srv \<Longrightarrow> conns srv i \<noteq> None \<Longrightarrow> server_step lib fl parse srv (close_connection i srv)"

inductive_cases server_stepE: "server_step lib fl parse srv srv'"

inductive reachable :: "('p, 'x) lib \<Rightarrow> (flt \<Rightarrow> string) \<Rightarrow> ('p, 'x) parse_fun \<Rightarrow> ('p, 'x) server \<Rightarrow> bool"
  for lib fl parse where
  start: "new_shared cfg cs middleware g t = Inr s \<Longrightarrow> reachable lib fl parse (new_server s)"
| more: "reachable lib fl parse srv \<Longrightarrow> server_step lib fl parse srv srv' \<Longrightarrow> reachable lib fl parse srv'"

section \<open>The wiring invariant\<close>

text \<open>A list that holds, once each, what the open connections contribute to it.\<close>

definition lists :: "(connection \<Rightarrow> 'w option) \<Rightarrow> (nat \<Rightarrow> connection option) \<Rightarrow> 'w list \<Rightarrow> bool" where
  "lists f cs l \<longleftrightarrow> distinct l \<and> set l = {w. \<exists>i c. cs i = Some c \<and> f c = Some w}"

lemma lists_none [simp]: "lists f (\<lambda>_. None) []"
  by (simp add: lists_def)

lemma lists_add:
  "lists f cs l \<Longrightarrow> cs i = None \<Longrightarrow> f c = Some w \<Longrightarrow> w \<notin> set l \<Longrightarrow> lists f (cs(i \<mapsto> c)) (l @ [w])"
  by (auto simp: lists_def) (metis option.distinct(1))

lemma lists_open: "lists f cs l \<Longrightarrow> cs i = None \<Longrightarrow> f c = None \<Longrightarrow> lists f (cs(i \<mapsto> c)) l"
  by (auto simp: lists_def) (metis option.distinct(1))

lemma lists_replace: "lists f cs l \<Longrightarrow> cs i = Some d \<Longrightarrow> f c = f d \<Longrightarrow> lists f (cs(i \<mapsto> c)) l"
  by (auto simp: lists_def) (metis option.inject)+

lemma lists_drop: "lists f cs l \<Longrightarrow> cs i = Some c \<Longrightarrow> f c = None \<Longrightarrow> lists f (cs(i := None)) l"
  by (auto simp: lists_def) (metis option.inject option.distinct(1))

lemma lists_remove:
  assumes "lists f cs l" "cs i = Some c" "f c = Some w" "\<And>j d. cs j = Some d \<Longrightarrow> f d = Some w \<Longrightarrow> j = i"
  shows "py_remove w l = Inr (remove1 w l)" "lists f (cs(i := None)) (remove1 w l)"
proof -
  have w: "w \<in> set l" using assms by (auto simp: lists_def)
  then show "py_remove w l = Inr (remove1 w l)" by (simp add: py_remove_def)
  have "(\<exists>j d. (cs(i := None)) j = Some d \<and> f d = Some v) \<longleftrightarrow> (\<exists>j d. cs j = Some d \<and> f d = Some v) \<and> v \<noteq> w" for v
    using assms(2-4) by (metis fun_upd_apply option.distinct(1) option.inject)
  then show "lists f (cs(i := None)) (remove1 w l)"
    using assms(1) w by (auto simp: lists_def)
qed

fun peer_entry :: "connection \<Rightarrow> conn_writer option" where
  "peer_entry (Peer p) = Some (pe_writer p)"
| "peer_entry _ = None"

fun all_entry :: "connection \<Rightarrow> parent_writer option" where
  "all_entry (Parent p) = (if forward_all p then Some (own_parent_writer p) else None)"
| "all_entry _ = None"

fun high_entry :: "connection \<Rightarrow> parent_writer option" where
  "high_entry (Parent p) = (if forward_all p then None else Some (own_parent_writer p))"
| "high_entry _ = None"

lemma entry_own:
  "peer_entry d = Some w \<Longrightarrow> own_writer d = Some w"
  "all_entry d = Some pw \<Longrightarrow> own_writer d = Some (pw_writer pw)"
  "high_entry d = Some pw \<Longrightarrow> own_writer d = Some (pw_writer pw)"
  by (cases d; auto simp: own_parent_writer_def split: if_splits)+

definition numbered :: "(nat \<Rightarrow> connection option) \<Rightarrow> bool" where
  "numbered cs \<longleftrightarrow> (\<forall>i c w. cs i = Some c \<longrightarrow> own_writer c = Some w \<longrightarrow> w_id w = i)"

text \<open>An entry of the sensors belongs to an open child that is registered under that node, and
  what it refers to is stored.\<close>

definition sensors_ok :: "(nat \<Rightarrow> connection option) \<Rightarrow> ('p, 'x) shared \<Rightarrow> bool" where
  "sensors_ok cs s \<longleftrightarrow> (\<forall>node info. map_of (registered_sensors s) node = Some info \<longrightarrow>
     (\<exists>i c. cs i = Some (Child c) \<and> ch_writer c = si_writer info \<and> ch_node_id c = Some node \<and> ch_registration c \<noteq> None)
   \<and> (\<forall>x. Some x \<in> set (info_refs info) \<longrightarrow> store s x \<noteq> None))"

definition wired :: "(nat \<Rightarrow> connection option) \<Rightarrow> ('p, 'x) shared \<Rightarrow> bool" where
  "wired cs s \<longleftrightarrow> numbered cs \<and> lists peer_entry cs (dmm_writers s) \<and> lists all_entry cs (parent_all_writers s)
     \<and> lists high_entry cs (parent_high_level_writers s) \<and> sensors_ok cs s"

lemma wired_new: "new_shared cfg conf middleware g t = Inr s \<Longrightarrow> wired (\<lambda>_. None) s"
  by (auto simp: new_shared_def wired_def numbered_def sensors_ok_def bindE_def split: sum.splits if_splits)

lemma wired_irrelevant [simp]:
  "wired cs (s\<lparr>utcnow := t\<rparr>) = wired cs s" "wired cs (s\<lparr>generator := g\<rparr>) = wired cs s"
  by (simp_all add: wired_def sensors_ok_def)

lemma numbered_unique:
  "numbered cs \<Longrightarrow> cs i = Some c \<Longrightarrow> cs j = Some d \<Longrightarrow> own_writer c = Some w \<Longrightarrow> own_writer d = Some w \<Longrightarrow> j = i"
  by (simp add: numbered_def) metis

lemma numbered_drop: "numbered cs \<Longrightarrow> numbered (cs(i := None))"
  by (simp add: numbered_def)

text \<open>Closing a connection of a wired server cannot fail.\<close>

lemma sensors_ok_drop:
  assumes "sensors_ok cs s" "cs i = Some c" "\<forall>d. c \<noteq> Child d" "registered_sensors s1 = registered_sensors s" "store s1 = store s"
  shows "sensors_ok (cs(i := None)) s1"
  using assms unfolding sensors_ok_def by (metis fun_upd_apply option.inject)

lemma wired_close:
  assumes "wired cs s" "cs i = Some c"
  shows "\<exists>s1. handle_closed c s = (Inr (), s1) \<and> wired (cs(i := None)) s1"
proof -
  have n: "numbered cs" and ls: "lists peer_entry cs (dmm_writers s)" "lists all_entry cs (parent_all_writers s)"
    "lists high_entry cs (parent_high_level_writers s)" and so: "sensors_ok cs s"
    using assms(1) by (simp_all add: wired_def)
  note uniq = numbered_unique [OF n assms(2)]
  show ?thesis
  proof (cases c)
    case (Child ch)
    let ?s1 = "child_closed ch s"
    have same: "dmm_writers ?s1 = dmm_writers s" "parent_all_writers ?s1 = parent_all_writers s"
      "parent_high_level_writers ?s1 = parent_high_level_writers s" "store ?s1 = store s"
      by (auto simp: child_closed_def split: option.splits)
    have "sensors_ok (cs(i := None)) ?s1"
      unfolding sensors_ok_def
    proof (intro allI impI)
      fix node info
      assume a: "map_of (registered_sensors ?s1) node = Some info"
      then have b: "map_of (registered_sensors s) node = Some info"
        by (auto simp: child_closed_def delete_conv' split: option.splits if_splits)
      with so obtain j d where d: "cs j = Some (Child d)" "ch_writer d = si_writer info" "ch_node_id d = Some node" "ch_registration d \<noteq> None"
        and refs: "\<forall>x. Some x \<in> set (info_refs info) \<longrightarrow> store s x \<noteq> None" unfolding sensors_ok_def by blast
      have "j \<noteq> i"
      proof
        assume "j = i"
        with d assms(2) Child have "ch_node_id ch = Some node" "ch_writer ch = si_writer info" by auto
        with a b show False by (simp add: child_closed_def delete_conv')
      qed
      with d refs same(4)
      show "(\<exists>j d. (cs(i := None)) j = Some (Child d) \<and> ch_writer d = si_writer info \<and> ch_node_id d = Some node \<and> ch_registration d \<noteq> None)
        \<and> (\<forall>x. Some x \<in> set (info_refs info) \<longrightarrow> store ?s1 x \<noteq> None)" by auto
    qed
    then have "wired (cs(i := None)) ?s1"
      using ls n assms(2) Child by (auto simp: wired_def same intro: lists_drop numbered_drop)
    then show ?thesis using Child by (simp add: handle_closed_def)
  next
    case (Peer pe)
    have "peer_entry c = Some (pe_writer pe)" by (simp add: Peer)
    from lists_remove [OF ls(1) assms(2) this] uniq entry_own(1) Peer
    have r: "py_remove (pe_writer pe) (dmm_writers s) = Inr (remove1 (pe_writer pe) (dmm_writers s))"
      "lists peer_entry (cs(i := None)) (remove1 (pe_writer pe) (dmm_writers s))" by auto
    have "wired (cs(i := None)) (s\<lparr>dmm_writers := remove1 (pe_writer pe) (dmm_writers s)\<rparr>)"
      using ls n so assms(2) Peer r(2)
      by (auto simp: wired_def intro: lists_drop numbered_drop sensors_ok_drop)
    then show ?thesis using Peer r(1) by (simp add: handle_closed_def peer_closed_def)
  next
    case (Parent pa)
    let ?w = "own_parent_writer pa"
    have w: "pw_writer ?w = pa_writer pa" by (simp add: own_parent_writer_def)
    show ?thesis
    proof (cases "forward_all pa")
      case True
      then have "all_entry c = Some ?w" by (simp add: Parent)
      from lists_remove [OF ls(2) assms(2) this] uniq entry_own(2) Parent w
      have r: "py_remove ?w (parent_all_writers s) = Inr (remove1 ?w (parent_all_writers s))"
        "lists all_entry (cs(i := None)) (remove1 ?w (parent_all_writers s))" by auto
      have "wired (cs(i := None)) (s\<lparr>parent_all_writers := remove1 ?w (parent_all_writers s)\<rparr>)"
        using ls n so assms(2) Parent True r(2)
        by (auto simp: wired_def intro: lists_drop numbered_drop sensors_ok_drop)
      then show ?thesis using Parent True r(1) by (simp add: handle_closed_def parent_closed_def)
    next
      case False
      then have "high_entry c = Some ?w" by (simp add: Parent)
      from lists_remove [OF ls(3) assms(2) this] uniq entry_own(3) Parent w
      have r: "py_remove ?w (parent_high_level_writers s) = Inr (remove1 ?w (parent_high_level_writers s))"
        "lists high_entry (cs(i := None)) (remove1 ?w (parent_high_level_writers s))" by auto
      have "wired (cs(i := None)) (s\<lparr>parent_high_level_writers := remove1 ?w (parent_high_level_writers s)\<rparr>)"
        using ls n so assms(2) Parent False r(2)
        by (auto simp: wired_def intro: lists_drop numbered_drop sensors_ok_drop)
      then show ?thesis using Parent False r(1) by (simp add: handle_closed_def parent_closed_def)
    qed
  next
    case Recorder
    have "wired (cs(i := None)) s"
      using ls n so assms(2) Recorder by (auto simp: wired_def intro: lists_drop numbered_drop sensors_ok_drop)
    then show ?thesis using Recorder by (simp add: handle_closed_def)
  qed
qed


lemma entries_after:
  assumes "conn_after c i c' s s'"
  shows "own_writer c' = own_writer c" "peer_entry c' = peer_entry c" "all_entry c' = all_entry c" "high_entry c' = high_entry c"
  using assms by (cases c; auto simp: conn_after_def own_entry_def)+

lemma numbered_replace: "numbered cs \<Longrightarrow> cs i = Some c \<Longrightarrow> own_writer c' = own_writer c \<Longrightarrow> numbered (cs(i \<mapsto> c'))"
  by (simp add: numbered_def)

text \<open>One entry of the sensors: its owner and its references.\<close>

definition owned :: "(nat \<Rightarrow> connection option) \<Rightarrow> string \<Rightarrow> sensor_info \<Rightarrow> bool" where
  "owned cs node info \<longleftrightarrow>
     (\<exists>i c. cs i = Some (Child c) \<and> ch_writer c = si_writer info \<and> ch_node_id c = Some node \<and> ch_registration c \<noteq> None)"

definition refs_in :: "(nat \<Rightarrow> ('p, 'x) message_record option) \<Rightarrow> sensor_info \<Rightarrow> bool" where
  "refs_in st info \<longleftrightarrow> (\<forall>x. Some x \<in> set (info_refs info) \<longrightarrow> st x \<noteq> None)"

lemma sensors_ok_alt:
  "sensors_ok cs s \<longleftrightarrow> (\<forall>node info. map_of (registered_sensors s) node = Some info \<longrightarrow> owned cs node info \<and> refs_in (store s) info)"
  by (auto simp: sensors_ok_def owned_def refs_in_def)

lemma refs_in_upd: "refs_in st info \<Longrightarrow> refs_in (st(n \<mapsto> m)) info"
  by (simp add: refs_in_def)

lemma owned_other:
  assumes "owned cs node info" "cs i = Some c" "\<forall>ch. c = Child ch \<longrightarrow> (\<exists>ch'. c' = Child ch' \<and> ch_writer ch' = ch_writer ch
    \<and> (ch_registration ch \<noteq> None \<longrightarrow> ch_node_id ch' = ch_node_id ch \<and> ch_registration ch' \<noteq> None))"
  shows "owned (cs(i \<mapsto> c')) node info"
proof -
  obtain j d where d: "cs j = Some (Child d)" "ch_writer d = si_writer info" "ch_node_id d = Some node" "ch_registration d \<noteq> None"
    using assms(1) by (auto simp: owned_def)
  show ?thesis
  proof (cases "j = i")
    case False
    with d show ?thesis unfolding owned_def by (intro exI [of _ j] exI [of _ d]) simp
  next
    case True
    with assms(2,3) d obtain d' where "c' = Child d'" "ch_writer d' = si_writer info" "ch_node_id d' = Some node" "ch_registration d' \<noteq> None" by auto
    then show ?thesis unfolding owned_def by (intro exI [of _ i] exI [of _ d']) simp
  qed
qed

lemma sensors_ok_after:
  assumes "sensors_ok cs s" "cs i = Some c" "conn_after c n c' s s'" "store s' = store s"
  shows "sensors_ok (cs(i \<mapsto> c')) (s'\<lparr>store := (store s')(n \<mapsto> m)\<rparr>)"
proof -
  have old: "owned (cs(i \<mapsto> c')) node info \<and> refs_in ((store s')(n \<mapsto> m)) info"
    if "map_of (registered_sensors s) node = Some info" for node info
  proof
    show "owned (cs(i \<mapsto> c')) node info"
      by (rule owned_other [where cs = cs and i = i, OF _ assms(2)])
         (use that assms(1,3) in \<open>auto simp: sensors_ok_alt conn_after_def own_entry_def split: connection.splits\<close>)
  qed (use that assms(1,4) in \<open>auto simp: sensors_ok_alt refs_in_upd\<close>)
  show ?thesis
    unfolding sensors_ok_alt
  proof (intro allI impI)
    fix node info
    assume "map_of (registered_sensors (s'\<lparr>store := (store s')(n \<mapsto> m)\<rparr>)) node = Some info"
    then have a: "map_of (registered_sensors s') node = Some info" by simp
    have "owned (cs(i \<mapsto> c')) node info \<and> refs_in ((store s')(n \<mapsto> m)) info"
    proof (cases "map_of (registered_sensors s) node = Some info")
      case True
      then show ?thesis by (rule old)
    next
      case False
      with assms(3) a obtain ch ch' where c: "c = Child ch" "c' = Child ch'" and own: "own_entry ch n ch' s s'"
        by (auto simp: conn_after_def split: connection.splits)
      from a False have "registered_sensors s' \<noteq> registered_sensors s" by auto
      with own obtain node' info' where u: "registered_sensors s' = AList.update node' info' (registered_sensors s)"
        and e': "si_writer info' = ch_writer ch" "ch_node_id ch' = Some node'" "ch_registration ch' \<noteq> None"
          "\<forall>x\<in>set (info_refs info'). x = None \<or> x = Some n \<or> (\<exists>old. map_of (registered_sensors s) node' = Some old \<and> x \<in> set (info_refs old))"
        unfolding own_entry_def by blast
      have "node' = node \<and> info' = info" using a False unfolding u by (simp add: update_conv' split: if_splits)
      with e' have e: "si_writer info = ch_writer ch" "ch_node_id ch' = Some node" "ch_registration ch' \<noteq> None"
          "\<forall>x\<in>set (info_refs info). x = None \<or> x = Some n \<or> (\<exists>old. map_of (registered_sensors s) node = Some old \<and> x \<in> set (info_refs old))"
        by blast+
      have "owned (cs(i \<mapsto> c')) node info"
        unfolding owned_def using e own c by (intro exI [of _ i] exI [of _ ch']) (auto simp: own_entry_def)
      moreover have "refs_in ((store s')(n \<mapsto> m)) info"
        unfolding refs_in_def
      proof (intro allI impI)
        fix x assume "Some x \<in> set (info_refs info)"
        with e(4) have "x = n \<or> (\<exists>old. map_of (registered_sensors s) node = Some old \<and> Some x \<in> set (info_refs old))" by blast
        with assms(1,4) show "((store s')(n \<mapsto> m)) x \<noteq> None" by (auto simp: refs_in_def sensors_ok_alt)
      qed
      ultimately show ?thesis ..
    qed
    then show "owned (cs(i \<mapsto> c')) node info \<and> refs_in (store (s'\<lparr>store := (store s')(n \<mapsto> m)\<rparr>)) info" by simp
  qed
qed

lemma wired_handle:
  assumes "wired cs s" "cs i = Some c" "handle_message lib fl c m s = (r, c', m', s')" "rd_message (received m) = n"
  shows "wired (cs(i \<mapsto> c')) (s'\<lparr>store := (store s')(n \<mapsto> x)\<rparr>)"
proof -
  from handle_message_facts [OF assms(3)] assms(4)
  have ev: "evolves (targets c m s) s s'" and ca: "conn_after c n c' s s'" by auto
  note same = evolves_fields [OF ev]
  have "sensors_ok (cs(i \<mapsto> c')) (s'\<lparr>store := (store s')(n \<mapsto> x)\<rparr>)"
    using assms(1) by (intro sensors_ok_after [where cs = cs and i = i, OF _ assms(2) ca same(5)]) (simp add: wired_def)
  then show ?thesis
    using assms(1,2) same(2-4)
    by (auto simp: wired_def entries_after [OF ca] intro: numbered_replace lists_replace)
qed

text \<open>A new connection.\<close>

lemma sensors_ok_open:
  assumes "sensors_ok cs s" "cs i = None" "registered_sensors s1 = registered_sensors s" "store s1 = store s"
  shows "sensors_ok (cs(i \<mapsto> c)) s1"
  using assms by (auto simp: sensors_ok_alt owned_def) (metis option.distinct(1))

lemma lists_fresh:
  assumes "lists f cs l" "numbered cs" "cs i = None" "\<And>d v. f d = Some v \<Longrightarrow> \<exists>w. own_writer d = Some w \<and> w_id w = key v"
    "key v = i"
  shows "v \<notin> set l"
proof
  assume "v \<in> set l"
  then obtain j d where d: "cs j = Some d" "f d = Some v" using assms(1) by (auto simp: lists_def)
  with assms(4) obtain w where "own_writer d = Some w" "w_id w = key v" by blast
  with assms(2,3,5) d(1) show False by (auto simp: numbered_def)
qed

lemma wired_open:
  assumes "wired cs s" "cs i = None" "create_connection lib cc w s = (Inr c, s1)" "w_id w = i"
  shows "wired (cs(i \<mapsto> c)) s1"
proof -
  have n: "numbered cs" and ls: "lists peer_entry cs (dmm_writers s)" "lists all_entry cs (parent_all_writers s)"
    "lists high_entry cs (parent_high_level_writers s)" and so: "sensors_ok cs s"
    using assms(1) by (simp_all add: wired_def)
  have num: "numbered (cs(i \<mapsto> c))" if "own_writer c = Some w \<or> own_writer c = None"
    using n that assms(4) by (auto simp: numbered_def)
  have new1: "w \<notin> set (dmm_writers s)"
    by (rule lists_fresh [where key = w_id, OF ls(1) n assms(2)]) (use assms(4) entry_own(1) in blast)+
  have new2: "\<lparr>pw_writer = w, pw_format = f\<rparr> \<notin> set (parent_all_writers s)" for f
    by (rule lists_fresh [where key = "\<lambda>v. w_id (pw_writer v)", OF ls(2) n assms(2)]) (use assms(4) entry_own(2) in force)+
  have new3: "\<lparr>pw_writer = w, pw_format = f\<rparr> \<notin> set (parent_high_level_writers s)" for f
    by (rule lists_fresh [where key = "\<lambda>v. w_id (pw_writer v)", OF ls(3) n assms(2)]) (use assms(4) entry_own(3) in force)+
  consider (pe) p where "c = Peer p" "peer_new lib w (cc_format cc) s = (Inr p, s1)"
    | (ch) ch where "c = Child ch" "child_new (config s) w (cc_format cc) = Inr ch" "s1 = s"
    | (pa) p where "c = Parent p" "parent_new lib w (truthy (cc_forward_all cc)) (cc_format cc) s = (Inr p, s1)"
    | (re) "c = Recorder" "s1 = s"
  proof -
    have "cc_type cc = ''Peer'' \<Longrightarrow> \<exists>p. c = Peer p \<and> peer_new lib w (cc_format cc) s = (Inr p, s1)"
      using assms(3) unfolding create_connection_def bindE_def
      by (cases "peer_new lib w (cc_format cc) s"; cases "fst (peer_new lib w (cc_format cc) s)") auto
    moreover have "cc_type cc = ''Child'' \<Longrightarrow> \<exists>ch. c = Child ch \<and> child_new (config s) w (cc_format cc) = Inr ch \<and> s1 = s"
      using assms(3) unfolding create_connection_def bindE_def
      by (cases "child_new (config s) w (cc_format cc)") auto
    moreover have "cc_type cc = ''Parent'' \<Longrightarrow> \<exists>p. c = Parent p \<and> parent_new lib w (truthy (cc_forward_all cc)) (cc_format cc) s = (Inr p, s1)"
      using assms(3) unfolding create_connection_def bindE_def
      by (cases "parent_new lib w (truthy (cc_forward_all cc)) (cc_format cc) s";
          cases "fst (parent_new lib w (truthy (cc_forward_all cc)) (cc_format cc) s)") auto
    moreover have "cc_type cc \<noteq> ''Peer'' \<Longrightarrow> cc_type cc \<noteq> ''Child'' \<Longrightarrow> cc_type cc \<noteq> ''Parent'' \<Longrightarrow> c = Recorder \<and> s1 = s"
      using assms(3) by (simp add: create_connection_def split: if_splits)
    ultimately show ?thesis using pe ch pa re by blast
  qed
  then show ?thesis
  proof cases
    case pe
    from peer_new_facts [OF pe(2)]
    have a: "adds (\<lambda>w' k. w' = w \<and> k \<noteq> Generated) (s\<lparr>dmm_writers := dmm_writers s @ [w]\<rparr>) s1" and p: "pe_writer p = w" by auto
    show ?thesis
      using lists_add [OF ls(1) assms(2) _ new1, of c] lists_open [OF ls(2) assms(2), of c] lists_open [OF ls(3) assms(2), of c]
        sensors_ok_open [OF so assms(2), of s1 c] num pe(1) p adds_fields [OF a]
      by (simp add: wired_def)
  next
    case ch
    from child_new_facts [OF ch(2)] show ?thesis
      using lists_open [OF ls(1) assms(2), of c] lists_open [OF ls(2) assms(2), of c] lists_open [OF ls(3) assms(2), of c]
        sensors_ok_open [OF so assms(2), of s1 c] num ch(1,3)
      by (simp add: wired_def)
  next
    case pa
    show ?thesis
    proof (cases "truthy (cc_forward_all cc)")
      case True
      from parent_new_facts [OF pa(2)] True
      have p: "p = \<lparr>pa_writer = w, pa_format = cc_format cc, forward_all = True\<rparr>"
        and a: "adds (\<lambda>w' k. w' = w \<and> k \<noteq> Generated) (s\<lparr>parent_all_writers := parent_all_writers s @ [own_parent_writer p]\<rparr>) s1"
        by (auto simp: Let_def)
      show ?thesis
        using lists_open [OF ls(1) assms(2), of c] lists_add [OF ls(2) assms(2) _ new2, of c] lists_open [OF ls(3) assms(2), of c]
          sensors_ok_open [OF so assms(2), of s1 c] num pa(1) p adds_fields [OF a]
        by (simp add: wired_def own_parent_writer_def)
    next
      case False
      from parent_new_facts [OF pa(2)] False
      have p: "p = \<lparr>pa_writer = w, pa_format = cc_format cc, forward_all = False\<rparr>"
        and a: "adds (\<lambda>w' k. w' = w \<and> k \<noteq> Generated) (s\<lparr>parent_high_level_writers := parent_high_level_writers s @ [own_parent_writer p]\<rparr>) s1"
        by (auto simp: Let_def)
      show ?thesis
        using lists_open [OF ls(1) assms(2), of c] lists_open [OF ls(2) assms(2), of c] lists_add [OF ls(3) assms(2) _ new3, of c]
          sensors_ok_open [OF so assms(2), of s1 c] num pa(1) p adds_fields [OF a]
        by (simp add: wired_def own_parent_writer_def)
    qed
  next
    case re
    then show ?thesis
      using lists_open [OF ls(1) assms(2), of c] lists_open [OF ls(2) assms(2), of c] lists_open [OF ls(3) assms(2), of c]
        sensors_ok_open [OF so assms(2), of s1 c] num
      by (simp add: wired_def)
  qed
qed

section \<open>Reachable servers\<close>

definition conn_map :: "(nat \<Rightarrow> open_conn option) \<Rightarrow> nat \<Rightarrow> connection option" where
  "conn_map cs = (\<lambda>i. map_option oc_connection (cs i))"

lemma conn_map_upd [simp]: "conn_map (cs(i := x)) = (conn_map cs)(i := map_option oc_connection x)"
  by (auto simp: conn_map_def)

lemma conn_map_none [simp]: "conn_map (\<lambda>_. None) = (\<lambda>_. None)"
  by (simp add: conn_map_def)

definition server_ok :: "('p, 'x) server \<Rightarrow> bool" where
  "server_ok srv \<longleftrightarrow> wired (conn_map (conns srv)) (shared srv) \<and> (\<forall>i. conns srv i \<noteq> None \<longrightarrow> i \<le> previous_connection_id srv)"

text \<open>What parsing may return: the message belongs to the data it was given.\<close>

definition parse_ok :: "('p, 'x) parse_fun \<Rightarrow> bool" where
  "parse_ok parse \<longleftrightarrow> (\<forall>p raw g m g'. parse p raw g = (Inr m, g') \<longrightarrow> received m = raw)"

lemma close_ok:
  assumes "server_ok srv" "conns srv i = Some oc"
  shows "\<exists>s1. close_connection i srv =
      srv\<lparr>shared := s1, conns := (conns srv)(i := None), disconnect_log := disconnect_log srv @ [i]\<rparr>
    \<and> server_ok (close_connection i srv)"
proof -
  have "conn_map (conns srv) i = Some (oc_connection oc)" using assms(2) by (simp add: conn_map_def)
  with wired_close assms(1) obtain s1 where s1: "handle_closed (oc_connection oc) (shared srv) = (Inr (), s1)"
    "wired ((conn_map (conns srv))(i := None)) s1" unfolding server_ok_def by blast
  have "close_connection i srv = srv\<lparr>shared := s1, conns := (conns srv)(i := None), disconnect_log := disconnect_log srv @ [i]\<rparr>"
    by (simp add: close_connection_def assms(2) s1(1))
  moreover have "server_ok (srv\<lparr>shared := s1, conns := (conns srv)(i := None), disconnect_log := disconnect_log srv @ [i]\<rparr>)"
    using assms s1(2) by (simp add: server_ok_def)
  ultimately show ?thesis by auto
qed

lemma open_ok:
  assumes "server_ok srv" "\<not> crashed (open_connection lib ce srv)"
  shows "server_ok (open_connection lib ce srv)"
proof -
  let ?i = "previous_connection_id srv + 1"
  have none: "conns srv ?i = None" using assms(1) unfolding server_ok_def by (metis add.commute not_less_eq_eq order_refl plus_1_eq_Suc)
  obtain fmt v c s1 p where c: "create_connection lib \<lparr>cc_type = ce_type ce, cc_format = fmt, cc_version = v, cc_forward_all = ce_forward_all ce\<rparr>
      \<lparr>w_id = ?i, w_encoding = fmt, w_version = v\<rparr> (shared srv) = (Inr c, s1)"
    and o: "open_connection lib ce srv = srv\<lparr>shared := s1, previous_connection_id := ?i, connect_log := connect_log srv @ [?i],
              conns := (conns srv)(?i \<mapsto> \<lparr>oc_connection = c, oc_parser = p, oc_queue = [], oc_detection = None\<rparr>)\<rparr>"
    using assms(2) unfolding open_connection_def Let_def
    by (auto split: option.splits if_splits sum.splits prod.splits)
  have "wired (conn_map (conns srv)) (shared srv)" "conn_map (conns srv) ?i = None"
    using assms(1) none by (simp_all add: server_ok_def conn_map_def)
  from wired_open [OF this c] have "wired ((conn_map (conns srv))(?i \<mapsto> c)) s1" by simp
  with assms(1) show ?thesis unfolding o by (auto simp: server_ok_def le_SucI)
qed

lemma conn_map_same: "conns srv i = Some oc \<Longrightarrow> oc_connection oc' = oc_connection oc \<Longrightarrow> conn_map ((conns srv)(i \<mapsto> oc')) = conn_map (conns srv)"
  by (auto simp: conn_map_def)

lemma receive_ok:
  assumes "server_ok srv"
  shows "server_ok (receive_data i data srv)"
proof (cases "conns srv i")
  case (Some oc)
  with assms show ?thesis
    by (auto simp: receive_data_def server_ok_def Let_def conn_map_same [OF Some] simp del: conn_map_upd)
qed (use assms in \<open>simp add: receive_data_def\<close>)

text \<open>What handling the next message gives: the state after the handler, and whether the connection
  ends.\<close>

lemma handle_next_cases:
  assumes "conns srv i = Some oc" "oc_queue oc = raw # rest"
  obtains (unparsed) e v g where "parse (oc_parser oc) raw (oc_detection oc, generator (shared srv)) = (Inl e, v, g)"
      "handle_next lib fl parse i srv = close_connection i (srv\<lparr>shared := (shared srv)\<lparr>generator := g\<rparr>\<rparr>)"
    | (handled) m v g r c1 m1 s1 l ends where "parse (oc_parser oc) raw (oc_detection oc, generator (shared srv)) = (Inr m, v, g)"
      "handle_message lib fl (oc_connection oc) m ((shared srv)\<lparr>generator := g\<rparr>) = (r, c1, m1, s1)"
      "handle_next lib fl parse i srv =
         (if ends then close_connection i else id)
           (srv\<lparr>shared := s1\<lparr>store := (store s1)(rd_message raw \<mapsto> m1)\<rparr>,
                conns := (conns srv)(i \<mapsto> oc\<lparr>oc_connection := c1, oc_queue := rest, oc_detection := v\<rparr>), saved := saved srv @ l\<rparr>)"
      "ends = ((\<exists>e. r = Inl e) \<or> is_fatal (error m1))"
      "l = (if (\<exists>u. r = Inr u) \<and> must_store (error m1) then [rd_message raw] else [])"
proof -
  obtain x v g where p: "parse (oc_parser oc) raw (oc_detection oc, generator (shared srv)) = (x, v, g)" by (metis prod_cases3)
  show ?thesis
  proof (cases x)
    case (Inl e)
    with p assms show ?thesis by (intro unparsed) (simp_all add: handle_next_def)
  next
    case (Inr m)
    obtain r c1 m1 s1 where h: "handle_message lib fl (oc_connection oc) m ((shared srv)\<lparr>generator := g\<rparr>) = (r, c1, m1, s1)"
      by (metis prod_cases4)
    show ?thesis
      by (rule handled [OF p [unfolded Inr] h _ refl refl])
         (use assms p Inr h in \<open>cases r; simp add: handle_next_def Let_def\<close>)
  qed
qed

lemma handle_ok:
  assumes "server_ok srv" "parse_ok parse" "conns srv i = Some oc" "oc_queue oc = raw # rest"
  shows "server_ok (handle_next lib fl parse i srv) \<and> crashed (handle_next lib fl parse i srv) = crashed srv"
  using assms(3,4)
proof (cases rule: handle_next_cases [where lib = lib and fl = fl and parse = parse])
  case (unparsed e v g)
  have "server_ok (srv\<lparr>shared := (shared srv)\<lparr>generator := g\<rparr>\<rparr>)" using assms(1) by (simp add: server_ok_def)
  from close_ok [OF this, of i] assms(3) show ?thesis unfolding unparsed(2) by auto
next
  case (handled m v g r c1 m1 s1 l ends)
  let ?srv = "srv\<lparr>shared := s1\<lparr>store := (store s1)(rd_message raw \<mapsto> m1)\<rparr>,
                conns := (conns srv)(i \<mapsto> oc\<lparr>oc_connection := c1, oc_queue := rest, oc_detection := v\<rparr>), saved := saved srv @ l\<rparr>"
  have w: "wired (conn_map (conns srv)) ((shared srv)\<lparr>generator := g\<rparr>)" "conn_map (conns srv) i = Some (oc_connection oc)"
    using assms(1,3) by (simp_all add: server_ok_def conn_map_def)
  have "received m = raw" using assms(2) handled(1) unfolding parse_ok_def by blast
  from wired_handle [OF w handled(2), of "rd_message raw" m1] this
  have ok: "server_ok ?srv" using assms(1,3) by (auto simp: server_ok_def)
  then show ?thesis
  proof (cases ends)
    case True
    with handled(3) close_ok [OF ok, of i] show ?thesis by auto
  qed (use handled(3) in simp)
qed

lemma reachable_ok: "reachable lib fl parse srv \<Longrightarrow> parse_ok parse \<Longrightarrow> \<not> crashed srv \<Longrightarrow> server_ok srv"
proof (induction rule: reachable.induct)
  case (start cfg cs middleware g t s)
  then show ?case by (auto simp: server_ok_def new_server_def dest: wired_new)
next
  case (more srv srv')
  from more(2) have "\<not> crashed srv" by (auto elim: server_step.cases)
  with more have ok: "server_ok srv" by blast
  from more(2) show ?case
  proof cases
    case (tick t)
    with ok show ?thesis by (simp add: server_ok_def)
  next
    case (connect ce)
    with open_ok [OF ok] more.prems show ?thesis by simp
  next
    case (arrive i data)
    with receive_ok [OF ok] show ?thesis by simp
  next
    case (handle i oc)
    then obtain raw rest where "oc_queue oc = raw # rest" by (cases "oc_queue oc") auto
    with handle handle_ok [OF ok more.prems(1)] show ?thesis by blast
  next
    case (leave i)
    with close_ok [OF ok] show ?thesis by auto
  qed
qed

section \<open>Routing\<close>

lemma handle_closed_sent: "handle_closed c s = (r, s') \<Longrightarrow> sent s' = sent s"
  by (auto simp: handle_closed_def child_closed_def peer_closed_def parent_closed_def split: connection.splits option.splits sum.splits if_splits)

lemma close_sent: "sent (shared (close_connection i srv)) = sent (shared srv)"
  by (auto simp: close_connection_def split: option.splits prod.splits sum.splits dest: handle_closed_sent)

lemma handle_next_sent:
  assumes "parse_ok parse" "conns srv i = Some oc" "oc_queue oc = raw # rest" "parse (oc_parser oc) raw (oc_detection oc, generator (shared srv)) = (Inr m, v, g)"
  shows "\<exists>es. sent (shared (handle_next lib fl parse i srv)) = sent (shared srv) @ es
    \<and> (\<forall>(w, k, b)\<in>set es. targets (oc_connection oc) m (shared srv) w k)"
  using assms(2,3)
proof (cases rule: handle_next_cases [where lib = lib and fl = fl and parse = parse])
  case (unparsed e v' g')
  with assms(4) show ?thesis by simp
next
  case (handled m' v' g' r c1 m1 s1 l ends)
  with assms(4) have eqs: "m' = m" "g' = g" by auto
  from handle_message_facts [OF handled(2)]
  obtain es where "sent s1 = sent (shared srv) @ es" "\<forall>(w, k, b)\<in>set es. targets (oc_connection oc) m ((shared srv)\<lparr>generator := g\<rparr>) w k"
    using evolves_fields(6) unfolding eqs by fastforce
  moreover have "targets (oc_connection oc) m ((shared srv)\<lparr>generator := g\<rparr>) w k = targets (oc_connection oc) m (shared srv) w k" for w k
    by (cases "oc_connection oc") (simp_all add: targets_def addressed_def)
  ultimately show ?thesis unfolding handled(3) by (intro exI [of _ es]) (auto simp: close_sent)
qed

text \<open>In a wired server a writer of the lists belongs to the connection of its number.\<close>

lemma lists_at:
  assumes "lists f cs l" "numbered cs" "v \<in> set l" "\<And>d. f d = Some v \<Longrightarrow> own_writer d = Some w"
  shows "\<exists>c. cs (w_id w) = Some c \<and> f c = Some v"
proof -
  obtain j d where d: "cs j = Some d" "f d = Some v" using assms(1,3) by (auto simp: lists_def)
  with assms(2,4) have "w_id w = j" unfolding numbered_def by blast
  with d show ?thesis by auto
qed

lemma entry_cases:
  "peer_entry c = Some w \<Longrightarrow> \<exists>p. c = Peer p \<and> pe_writer p = w"
  "all_entry c = Some pw \<Longrightarrow> \<exists>p. c = Parent p \<and> forward_all p \<and> own_parent_writer p = pw"
  "high_entry c = Some pw \<Longrightarrow> \<exists>p. c = Parent p \<and> \<not> forward_all p \<and> own_parent_writer p = pw"
  by (cases c; auto split: if_splits)+

lemma wired_peer: "wired cs s \<Longrightarrow> w \<in> set (dmm_writers s) \<Longrightarrow> \<exists>p. cs (w_id w) = Some (Peer p) \<and> pe_writer p = w"
  using lists_at [of peer_entry cs "dmm_writers s" w w] entry_own(1) entry_cases(1) unfolding wired_def by metis

lemma wired_all: "wired cs s \<Longrightarrow> pw \<in> set (parent_all_writers s) \<Longrightarrow>
    \<exists>p. cs (w_id (pw_writer pw)) = Some (Parent p) \<and> forward_all p \<and> own_parent_writer p = pw"
  using lists_at [of all_entry cs "parent_all_writers s" pw "pw_writer pw"] entry_own(2) entry_cases(2) unfolding wired_def by metis

lemma wired_high: "wired cs s \<Longrightarrow> pw \<in> set (parent_high_level_writers s) \<Longrightarrow>
    \<exists>p. cs (w_id (pw_writer pw)) = Some (Parent p) \<and> \<not> forward_all p \<and> own_parent_writer p = pw"
  using lists_at [of high_entry cs "parent_high_level_writers s" pw "pw_writer pw"] entry_own(3) entry_cases(3) unfolding wired_def by metis

lemma wired_sensor: "wired cs s \<Longrightarrow> map_of (registered_sensors s) node = Some info \<Longrightarrow>
    \<exists>c. cs (w_id (si_writer info)) = Some (Child c) \<and> ch_writer c = si_writer info \<and> ch_node_id c = Some node"
  unfolding wired_def sensors_ok_def numbered_def by (metis own_writer.simps(1))

text \<open>Which connection may receive a message of \<open>c\<close>.\<close>

fun may_receive :: "connection \<Rightarrow> ('p, 'x) message_record \<Rightarrow> connection \<Rightarrow> bool" where
  "may_receive c m (Child d) \<longleftrightarrow> (\<forall>ch. c \<noteq> Child ch) \<and> c \<noteq> Recorder
     \<and> ch_node_id d \<noteq> None \<and> Option.bind (parsed m) destination_node_id = ch_node_id d"
| "may_receive c m (Peer d) \<longleftrightarrow> (\<exists>ch. c = Child ch) \<or> (\<exists>pa. c = Parent pa)"
| "may_receive c m (Parent d) \<longleftrightarrow> forward_all d \<or> (\<exists>pe. c = Peer pe) \<and> Option.bind (parsed m) destination_node_id = None"
| "may_receive c m Recorder \<longleftrightarrow> False"

lemma addressed_wired:
  assumes "wired cs s" "addressed m s w"
  shows "\<exists>d. cs (w_id w) = Some (Child d) \<and> ch_node_id d \<noteq> None \<and> Option.bind (parsed m) destination_node_id = ch_node_id d"
proof -
  obtain dest info where "Option.bind (parsed m) destination_node_id = Some dest" "map_of (registered_sensors s) dest = Some info" "w = si_writer info"
    using assms(2) by (auto simp: addressed_def)
  with wired_sensor [OF assms(1)] show ?thesis by fastforce
qed

lemma targets_wired:
  assumes "wired cs s" "cs i = Some c" "forward_targets c m s w"
  shows "w_id w \<noteq> i \<and> (\<exists>d. cs (w_id w) = Some d \<and> may_receive c m d)"
proof (cases c)
  case (Child ch)
  with assms wired_peer wired_all show ?thesis by fastforce
next
  case (Peer pe)
  with assms wired_all wired_high addressed_wired show ?thesis by fastforce
next
  case (Parent pa)
  from assms(3) Parent consider "addressed m s w" | "w \<in> set (dmm_writers s)"
    | pw where "pw \<in> set (parent_all_writers s)" "pw \<noteq> own_parent_writer pa" "w = pw_writer pw" by auto
  then show ?thesis
  proof cases
    case 1
    with assms Parent addressed_wired show ?thesis by fastforce
  next
    case 2
    with assms Parent wired_peer show ?thesis by fastforce
  next
    case 3
    with wired_all [OF assms(1) 3(1)] assms(2) Parent show ?thesis by force
  qed
next
  case Recorder
  with assms wired_all show ?thesis by fastforce
qed

text \<open>C8. Routing. Whatever one message of a connection causes to be written: what the middleware
  generates goes to the sender only; the message itself never goes back to its sender, and goes
  only to open connections, namely to a child only if the message names that child's node as its
  destination and comes from a peer or a parent, to a peer only from a child or a parent, to a
  parent that does not forward all only from a peer and without destination, and never to a
  recorder.\<close>

theorem apex_routing:
  assumes "reachable lib fl parse srv" "parse_ok parse" "\<not> crashed srv"
    and "conns srv i = Some oc" "oc_queue oc = raw # rest"
    and "parse (oc_parser oc) raw (oc_detection oc, generator (shared srv)) = (Inr m, v, g)"
  shows "\<exists>es. sent (shared (handle_next lib fl parse i srv)) = sent (shared srv) @ es
    \<and> (\<forall>(w, k, b)\<in>set es. k = Generated \<and> w_id w = i
         \<or> k = Forwarded (rd_message raw) \<and> w_id w \<noteq> i
           \<and> (\<exists>d. conns srv (w_id w) = Some d \<and> may_receive (oc_connection oc) m (oc_connection d)))"
proof -
  from reachable_ok [OF assms(1-3)] have w: "wired (conn_map (conns srv)) (shared srv)" by (simp add: server_ok_def)
  have c: "conn_map (conns srv) i = Some (oc_connection oc)" using assms(4) by (simp add: conn_map_def)
  have raw: "received m = raw" using assms(2,6) unfolding parse_ok_def by blast
  from handle_next_sent [OF assms(2,4-6), of lib fl]
  obtain es where es: "sent (shared (handle_next lib fl parse i srv)) = sent (shared srv) @ es"
    and t: "\<forall>(w, k, b)\<in>set es. targets (oc_connection oc) m (shared srv) w k" by blast
  have "k = Generated \<and> w_id w' = i \<or> k = Forwarded (rd_message raw) \<and> w_id w' \<noteq> i
           \<and> (\<exists>d. conns srv (w_id w') = Some d \<and> may_receive (oc_connection oc) m (oc_connection d))"
    if "targets (oc_connection oc) m (shared srv) w' k" for w' k
  proof -
    from that consider "k = Generated" "own_writer (oc_connection oc) = Some w'"
      | "k = Forwarded (rd_message raw)" "forward_targets (oc_connection oc) m (shared srv) w'"
      by (auto simp: targets_def raw)
    then show ?thesis
    proof cases
      case 1
      with w c show ?thesis unfolding wired_def numbered_def by blast
    next
      case 2
      with targets_wired [OF w c 2(2)] show ?thesis by (auto simp: conn_map_def)
    qed
  qed
  with es t show ?thesis by blast
qed


section \<open>A small server\<close>

definition demo_lib :: "(nat, nat) lib" where
  "demo_lib = \<lparr>serialise_partial = (\<lambda>m. [of_nat m]), xml_bytes = (\<lambda>x. [of_nat x]), translate_v1_to_v2 = Inr,
     translate_v2_to_v1 = Inr, is_v1 = (\<lambda>_. False), v1_to_xml = Inr, with_time = (\<lambda>t m. m), serialise = (\<lambda>m. Inr [of_nat m]),
     xml_with_time = (\<lambda>t x. Inr x), insert_sensor_id = (\<lambda>x i. Inr x), registration_ack = (\<lambda>t a b. 100),
     registration_ack_xml = (\<lambda>i t. 101), error_message = (\<lambda>t a d p e. 102), error_xml = (\<lambda>t p e. 103)\<rparr>"

text \<open>The data \<open>[0]\<close> is the registration of node \<open>n\<close>; anything else is a message to \<open>n\<close>.\<close>

definition demo_parse :: "(nat, nat) parse_fun" where
  "demo_parse p raw g =
     (Inr \<lparr>received = raw, data_decoded_xml = [], data_binary_proto = Some (data_bytes raw), forwarded_count = 0,
           parsed = Some \<lparr>message_type = None, pr_node_id = Some (if data_bytes raw = [0] then ''n'' else ''d''),
             internal_sensor_id = Some 1, destination_node_id = (if data_bytes raw = [0] then None else Some ''n''),
             message_timestamp = 0, detection_confidence = None, parsed_proto = Some 7, parsed_xml = None\<rparr>,
           registered = (if data_bytes raw = [0] then Some ''sensor'' else None), status_report = None, error = None,
           updated_data_bytes = None, version = LATEST\<rparr>, g)"

definition demo_config :: pydict where
  "demo_config = [(''enableMessageConversion'', PBool True), (''messageMaxSizeKb'', PInt 1024), (''enableTimeSyncAdjustment'', PBool False)]"

definition demo_shared :: "(nat, nat) shared" where
  "demo_shared = projr (new_shared demo_config [] ''apex'' (new_generator [] False 1) 0)"

definition demo_entry :: "string \<Rightarrow> conn_entry" where
  "demo_entry kind = \<lparr>ce_type = kind, ce_format = Some ''PROTO'', ce_icd_version = Some ''BSI Flex 335 v2.0'', ce_forward_all = PBool True\<rparr>"

text \<open>A child that has registered and a peer with one message waiting.\<close>

definition demo1 :: "(nat, nat) server" where "demo1 = open_connection demo_lib (demo_entry ''Child'') (new_server demo_shared)"
definition demo2 :: "(nat, nat) server" where "demo2 = open_connection demo_lib (demo_entry ''Peer'') demo1"
definition demo3 :: "(nat, nat) server" where "demo3 = receive_data 1 [0] demo2"
definition demo4 :: "(nat, nat) server" where "demo4 = handle_next demo_lib (\<lambda>_. []) demo_parse 1 demo3"
definition demo_server :: "(nat, nat) server" where "demo_server = receive_data 2 [9] demo4"

lemma demo_parse_ok: "parse_ok demo_parse"
  by (simp add: parse_ok_def demo_parse_def)

lemma demo_shared_eq: "demo_shared = \<lparr>config = demo_config, middleware_node_id = ''apex'', registered_sensors = [],
    dmm_msg_format = PROTO, dmm_writers = [], parent_high_level_writers = [], parent_all_writers = [],
    parent_message_format = PROTO, generator = new_generator [] False 1, store = (\<lambda>_. None), sent = [], utcnow = 0\<rparr>"
  by (simp add: demo_shared_def new_shared_def bindE_def last_format_def demo_config_def converts_def dget_or_def)

lemma demo_new: "new_shared demo_config [] ''apex'' (new_generator [] False 1) 0 = Inr demo_shared"
  by (simp add: demo_shared_def new_shared_def bindE_def last_format_def demo_config_def converts_def dget_or_def)

definition demo_writer :: "nat \<Rightarrow> conn_writer" where
  "demo_writer i = \<lparr>w_id = i, w_encoding = PROTO, w_version = LATEST\<rparr>"

lemma demo_normal: "normalize_connection_config (Some ''PROTO'') (Some ''BSI Flex 335 v2.0'') True = Inr (PROTO, LATEST)"
  by code_simp

definition demo_child :: child where
  "demo_child = projr (child_new demo_config (demo_writer 1) PROTO)"

lemma demo1_eq: "demo1 = (new_server demo_shared)\<lparr>previous_connection_id := 1, connect_log := [1],
    conns := (\<lambda>_. None)(1 \<mapsto> \<lparr>oc_connection = Child demo_child, oc_parser = ParseProto True LATEST, oc_queue = [], oc_detection = None\<rparr>)\<rparr>"
  by (simp add: demo1_def open_connection_def new_server_def Let_def demo_entry_def demo_shared_eq demo_config_def has_key_def
      demo_normal create_connection_def child_new_def bindE_def dget_or_def sensor_id_auto_def get_parser_def converts_def
      demo_child_def demo_writer_def del: One_nat_def)

definition demo_peer :: peer where
  "demo_peer = \<lparr>pe_writer = demo_writer 2, dmm_id = None, pe_format = PROTO\<rparr>"

lemma demo2_eq: "demo2 = demo1\<lparr>shared := demo_shared\<lparr>dmm_writers := [demo_writer 2]\<rparr>, previous_connection_id := 2, connect_log := [1, 2],
    conns := (conns demo1)(2 \<mapsto> \<lparr>oc_connection = Peer demo_peer, oc_parser = ParseProto True LATEST, oc_queue = [], oc_detection = None\<rparr>)\<rparr>"
  by (simp add: demo2_def demo1_eq open_connection_def new_server_def Let_def demo_entry_def demo_shared_eq demo_config_def has_key_def
      demo_normal create_connection_def peer_new_def replay_def bindE_def dget_or_def sensor_id_auto_def get_parser_def converts_def
      demo_peer_def demo_writer_def del: One_nat_def)

definition demo_raw :: "nat \<Rightarrow> nat \<Rightarrow> bytes \<Rightarrow> received_data" where
  "demo_raw i n d = \<lparr>rd_connection = i, rd_message = n, rd_timestamp = 0, data_bytes = d\<rparr>"

lemma demo3_eq: "demo3 = demo2\<lparr>previous_message_id := 1,
    conns := (conns demo2)(1 \<mapsto> \<lparr>oc_connection = Child demo_child, oc_parser = ParseProto True LATEST, oc_queue = [demo_raw 1 1 [0]], oc_detection = None\<rparr>)\<rparr>"
  by (simp add: demo3_def demo2_eq demo1_eq receive_data_def Let_def demo_raw_def demo_shared_eq new_server_def del: One_nat_def)

definition demo_child' :: child where
  "demo_child' = demo_child\<lparr>time_offset := Some (- 100000), ch_node_id := Some ''n'', ch_sensor_id := Some 1, ch_registration := Some 1\<rparr>"

definition demo_info :: sensor_info where
  "demo_info = \<lparr>si_writer = demo_writer 1, si_registration = 1, dmm_msg_offset = 0, si_format = PROTO,
     recent_status_new = None, recent_status_unchanged = None\<rparr>"

definition demo_sent :: "(conn_writer \<times> kind \<times> bytes) list" where
  "demo_sent = [(demo_writer 2, Forwarded 1, [1, 0, 0, 0, 7]), (demo_writer 1, Generated, [1, 0, 0, 0, 100])]"

lemma demo_child_eq: "demo_child = \<lparr>ch_writer = demo_writer 1, ch_registration = None, ch_node_id = None, ch_sensor_id = None,
    ch_format = PROTO, last_status_report_system = None, time_offset = None, confidence_threshold = None, filter_severity = UNSTORED\<rparr>"
  by (simp add: demo_child_def child_new_def demo_config_def dget_or_def dget_def Let_def del: One_nat_def)

lemma demo_write: "w_encoding w = PROTO \<Longrightarrow> w_version w = LATEST \<Longrightarrow>
   (case m of Proto q \<Rightarrow> True | Record r \<Rightarrow> Option.bind (parsed r) parsed_proto \<noteq> None | _ \<Rightarrow> False) \<Longrightarrow>
   write_msg demo_lib w m LATEST s = (Inr (), s\<lparr>sent := sent s @ [(w, kind_of m, [1, 0, 0, 0,
      of_nat (case m of Proto q \<Rightarrow> q | Record r \<Rightarrow> the (Option.bind (parsed r) parsed_proto) | _ \<Rightarrow> 0)])]\<rparr>)"
  by (auto simp: write_msg_def message_to_bytes_def finish_def to_version_cases pick_message_record_component_def bindE_def
      encode_binary_def encode_def pack_le32_def demo_lib_def LATEST_def bind_eq_Some_conv split: outgoing.splits option.splits)

definition demo_message :: "(nat, nat) message_record" where
  "demo_message = projr (fst (demo_parse (ParseProto True LATEST) (demo_raw 1 1 [0]) (None, new_generator [] False 1)))"

lemma demo_message_fields: "demo_parse (ParseProto True LATEST) (demo_raw 1 1 [0]) g = (Inr demo_message, g)"
  "received demo_message = demo_raw 1 1 [0]" "error demo_message = None" "registered demo_message = Some ''sensor''"
  "version demo_message = LATEST" "map_option pr_node_id (parsed demo_message) = Some (Some ''n'')"
  "map_option internal_sensor_id (parsed demo_message) = Some (Some 1)" "map_option message_timestamp (parsed demo_message) = Some 0"
  "map_option parsed_proto (parsed demo_message) = Some (Some 7)" "map_option destination_node_id (parsed demo_message) = Some None"
  by (simp_all add: demo_message_def demo_parse_def demo_raw_def)

lemma demo_ack: "registration_ack demo_lib = (\<lambda>t a b. 100)" by (simp add: demo_lib_def)

lemma demo_registration:
  "\<exists>m'. child_registration demo_lib demo_child demo_message (demo_shared\<lparr>dmm_writers := [demo_writer 2], generator := g\<rparr>)
    = (Inr (), demo_child', m', demo_shared\<lparr>dmm_writers := [demo_writer 2], generator := g, registered_sensors := [(''n'', demo_info)], sent := demo_sent\<rparr>)
      \<and> error m' = None"
proof -
  from demo_message_fields obtain p where p: "parsed demo_message = Some p" "pr_node_id p = Some ''n''" "internal_sensor_id p = Some 1"
    "message_timestamp p = 0" "parsed_proto p = Some 7" by auto
  show ?thesis
    by (simp add: child_registration_def demo_message_fields p Let_def demo_shared_eq demo_config_def apply_timestamp_offset_def
        assign_sensor_id_def forward_to_peers_def send_registration_ack_def sends_ack_def dget_or_def demo_raw_def demo_child_eq
        demo_child'_def demo_info_def demo_sent_def demo_write demo_ack demo_writer_def del: One_nat_def)
qed

lemma demo_rd: "rd_message (demo_raw i n d) = n" by (simp add: demo_raw_def)

lemma demo4_eq: "\<exists>st g. demo4 = demo3\<lparr>shared := (shared demo3)\<lparr>registered_sensors := [(''n'', demo_info)], sent := demo_sent,
      store := st, generator := g\<rparr>,
    conns := (conns demo3)(1 \<mapsto> \<lparr>oc_connection = Child demo_child', oc_parser = ParseProto True LATEST, oc_queue = [], oc_detection = None\<rparr>), saved := [1]\<rparr>"
proof -
  let ?g = "new_generator [] False 1"
  let ?s = "demo_shared\<lparr>dmm_writers := [demo_writer 2], generator := ?g\<rparr>"
  obtain m' where reg: "child_registration demo_lib demo_child demo_message ?s = (Inr (), demo_child', m', ?s\<lparr>registered_sensors := [(''n'', demo_info)], sent := demo_sent\<rparr>)"
    and e: "error m' = None" using demo_registration by blast
  have "child_handle demo_lib (\<lambda>_. []) demo_child demo_message ?s = (Inr (), demo_child', m', ?s\<lparr>registered_sensors := [(''n'', demo_info)], sent := demo_sent\<rparr>)"
    using reg e by (simp add: child_handle_def demo_child_eq send_to_parent_def send_error_reply_if_necessary_def demo_shared_eq)
  moreover have "shared demo3 = ?s" "generator demo_shared = ?g"
    by (simp_all add: demo3_eq demo2_eq demo1_eq new_server_def demo_shared_eq)
  ultimately show ?thesis
    unfolding demo4_def
    by (simp add: handle_next_def demo3_eq demo2_eq demo1_eq demo_message_fields handle_message_def new_server_def Let_def e
        must_store_def is_fatal_def demo_shared_eq demo_rd del: One_nat_def)
qed

lemma demo_server_parts:
  "conns demo_server 2 = Some \<lparr>oc_connection = Peer demo_peer, oc_parser = ParseProto True LATEST, oc_queue = [demo_raw 2 2 [9]], oc_detection = None\<rparr>
   \<and> conns demo_server 1 = Some \<lparr>oc_connection = Child demo_child', oc_parser = ParseProto True LATEST, oc_queue = [], oc_detection = None\<rparr>
   \<and> registered_sensors (shared demo_server) = [(''n'', demo_info)] \<and> dmm_writers (shared demo_server) = [demo_writer 2]
   \<and> sent (shared demo_server) = demo_sent \<and> \<not> crashed demo_server \<and> config (shared demo_server) = demo_config
   \<and> parent_all_writers (shared demo_server) = []"
proof -
  obtain st g where d4: "demo4 = demo3\<lparr>shared := (shared demo3)\<lparr>registered_sensors := [(''n'', demo_info)], sent := demo_sent,
      store := st, generator := g\<rparr>,
    conns := (conns demo3)(1 \<mapsto> \<lparr>oc_connection = Child demo_child', oc_parser = ParseProto True LATEST, oc_queue = [], oc_detection = None\<rparr>), saved := [1]\<rparr>"
    using demo4_eq by blast
  show ?thesis
    by (simp add: demo_server_def receive_data_def d4 demo3_eq demo2_eq demo1_eq new_server_def demo_shared_eq Let_def demo_raw_def
        del: One_nat_def)
qed

lemmas demo_server_facts = demo_server_parts [THEN conjunct1] demo_server_parts [THEN conjunct2, THEN conjunct1]
  demo_server_parts [THEN conjunct2, THEN conjunct2, THEN conjunct1]
  demo_server_parts [THEN conjunct2, THEN conjunct2, THEN conjunct2, THEN conjunct1]
  demo_server_parts [THEN conjunct2, THEN conjunct2, THEN conjunct2, THEN conjunct2, THEN conjunct1]
  demo_server_parts [THEN conjunct2, THEN conjunct2, THEN conjunct2, THEN conjunct2, THEN conjunct2, THEN conjunct1]

lemma demo_reachable: "reachable demo_lib (\<lambda>_. []) demo_parse demo_server"
proof -
  obtain st g where d4: "demo4 = demo3\<lparr>shared := (shared demo3)\<lparr>registered_sensors := [(''n'', demo_info)], sent := demo_sent,
      store := st, generator := g\<rparr>,
    conns := (conns demo3)(1 \<mapsto> \<lparr>oc_connection = Child demo_child', oc_parser = ParseProto True LATEST, oc_queue = [], oc_detection = None\<rparr>), saved := [1]\<rparr>"
    using demo4_eq by blast
  note eqs = demo3_eq demo2_eq demo1_eq new_server_def demo_shared_eq
  have r0: "reachable demo_lib (\<lambda>_. []) demo_parse (new_server demo_shared)" by (rule reachable.start [OF demo_new])
  have "\<not> crashed (new_server demo_shared)" by (simp add: new_server_def)
  note r1 = reachable.more [OF r0 server_step.connect [OF this], of "demo_entry ''Child''", folded demo1_def]
  have "\<not> crashed demo1" by (simp add: eqs)
  note r2 = reachable.more [OF r1 server_step.connect [OF this], of "demo_entry ''Peer''", folded demo2_def]
  have "\<not> crashed demo2" "conns demo2 1 \<noteq> None" by (simp_all add: eqs del: One_nat_def)
  note r3 = reachable.more [OF r2 server_step.arrive [OF this], of "[0]", folded demo3_def]
  have "\<not> crashed demo3" "conns demo3 1 = Some \<lparr>oc_connection = Child demo_child, oc_parser = ParseProto True LATEST, oc_queue = [demo_raw 1 1 [0]], oc_detection = None\<rparr>"
    by (simp_all add: eqs del: One_nat_def)
  then have "server_step demo_lib (\<lambda>_. []) demo_parse demo3 demo4"
    unfolding demo4_def by (rule server_step.handle) simp
  note r4 = reachable.more [OF r3 this]
  have "\<not> crashed demo4" "conns demo4 2 \<noteq> None" by (simp_all add: d4 eqs del: One_nat_def)
  note r5 = reachable.more [OF r4 server_step.arrive [OF this], of "[9]", folded demo_server_def]
  then show ?thesis .
qed

lemma apex_routing_witness:
  "\<exists>es. sent (shared (handle_next demo_lib (\<lambda>_. []) demo_parse 2 demo_server)) = demo_sent @ es
     \<and> (\<forall>(w, k, b)\<in>set es. k = Generated \<and> w_id w = 2 \<or> k = Forwarded 2 \<and> w_id w \<noteq> 2)"
proof -
  obtain m where m: "demo_parse (ParseProto True LATEST) (demo_raw 2 2 [9]) (None, generator (shared demo_server)) = (Inr m, None, generator (shared demo_server))"
    by (simp add: demo_parse_def)
  from apex_routing [OF demo_reachable demo_parse_ok demo_server_facts(6,1), of "demo_raw 2 2 [9]" "[]" m] m
  show ?thesis by (simp add: demo_rd demo_server_facts) fast
qed


section \<open>The patch of the parent connection\<close>

text \<open>Every one of the writers can write the message.\<close>

definition forward_writers :: "('p, 'x) shared \<Rightarrow> conn_writer set" where
  "forward_writers s = set (dmm_writers s) \<union> pw_writer ` set (parent_all_writers s) \<union> si_writer ` ran (map_of (registered_sensors s))"

definition can_write :: "('p, 'x) lib \<Rightarrow> conn_writer set \<Rightarrow> ('p, 'x) message_record \<Rightarrow> bool" where
  "can_write lib W m \<longleftrightarrow> (\<forall>w\<in>W. \<forall>r :: ('p, 'x) message_record. parsed r = parsed m \<and> version r = version m \<longrightarrow>
     (\<exists>b. message_to_bytes lib (Record r) (w_encoding w) (version m) (w_version w) = Some (Inr b)))"

lemma write_ok:
  assumes "can_write lib W m" "parsed r = parsed m" "version r = version m" "w \<in> W"
  shows "\<exists>b. write_msg lib w (Record r) (version r) s =
    (Inr (), s\<lparr>sent := sent s @ [(w, Forwarded (rd_message (received r)), b)]\<rparr>)"
proof -
  obtain b where "message_to_bytes lib (Record r) (w_encoding w) (version m) (w_version w) = Some (Inr b)"
    using assms unfolding can_write_def by metis
  then show ?thesis by (intro exI [of _ b]) (simp add: write_msg_def assms(3))
qed

lemma write_all_ok:
  assumes "can_write lib W m" "parsed r = parsed m" "version r = version m" "set ws \<subseteq> W"
  shows "\<exists>es. write_all lib ws r s = (Inr (), s\<lparr>sent := sent s @ es\<rparr>)
    \<and> map (\<lambda>(w, k, b). (w, k)) es = map (\<lambda>w. (w, Forwarded (rd_message (received r)))) ws"
  using assms(4)
proof (induction ws arbitrary: s)
  case Nil
  then show ?case by (intro exI [of _ "[]"]) simp
next
  case (Cons w ws)
  obtain b where w: "write_msg lib w (Record r) (version r) s = (Inr (), s\<lparr>sent := sent s @ [(w, Forwarded (rd_message (received r)), b)]\<rparr>)"
    using write_ok [OF assms(1-3), of w] Cons.prems by auto
  obtain es where es: "write_all lib ws r (s\<lparr>sent := sent s @ [(w, Forwarded (rd_message (received r)), b)]\<rparr>)
      = (Inr (), s\<lparr>sent := sent s @ [(w, Forwarded (rd_message (received r)), b)] @ es\<rparr>)"
    "map (\<lambda>(w, k, b). (w, k)) es = map (\<lambda>w. (w, Forwarded (rd_message (received r)))) ws"
    using Cons.IH [of "s\<lparr>sent := sent s @ [(w, Forwarded (rd_message (received r)), b)]\<rparr>"] Cons.prems by auto
  show ?case by (rule exI [of _ "(w, Forwarded (rd_message (received r)), b) # es"]) (simp add: w es)
qed

lemma parent_loop_ok:
  assumes "can_write lib W m" "parsed r = parsed m" "version r = version m" "pw_writer ` set ps \<subseteq> W"
  shows "\<exists>es n. parent_loop lib ex ps r s = (Inr (), r\<lparr>forwarded_count := n\<rparr>, s\<lparr>sent := sent s @ es\<rparr>)
    \<and> map (\<lambda>(w, k, b). (w, k)) es =
        map (\<lambda>p. (pw_writer p, Forwarded (rd_message (received r)))) (filter (\<lambda>p. ex \<noteq> ParentW p) ps)"
  using assms(2-4)
proof (induction ps arbitrary: s r)
  case Nil
  show ?case by (intro exI [of _ "[]"] exI [of _ "forwarded_count r"]) simp
next
  case (Cons p ps)
  show ?case
  proof (cases "ex = ParentW p")
    case True
    with Cons show ?thesis by simp
  next
    case False
    let ?k = "Forwarded (rd_message (received r))"
    have "pw_writer p \<in> W" using Cons.prems(3) by simp
    then obtain b where w: "write_msg lib (pw_writer p) (Record r) (version r) s = (Inr (), s\<lparr>sent := sent s @ [(pw_writer p, ?k, b)]\<rparr>)"
      using write_ok [OF assms(1) Cons.prems(1,2)] by blast
    obtain es n where es: "parent_loop lib ex ps (r\<lparr>forwarded_count := forwarded_count r + 1\<rparr>) (s\<lparr>sent := sent s @ [(pw_writer p, ?k, b)]\<rparr>)
        = (Inr (), r\<lparr>forwarded_count := n\<rparr>, s\<lparr>sent := sent s @ [(pw_writer p, ?k, b)] @ es\<rparr>)"
      "map (\<lambda>(w, k, b). (w, k)) es = map (\<lambda>p. (pw_writer p, ?k)) (filter (\<lambda>p. ex \<noteq> ParentW p) ps)"
      using Cons.IH [of "r\<lparr>forwarded_count := forwarded_count r + 1\<rparr>" "s\<lparr>sent := sent s @ [(pw_writer p, ?k, b)]\<rparr>"] Cons.prems
      by auto
    show ?thesis
      by (rule exI [of _ "(pw_writer p, ?k, b) # es"], rule exI [of _ n]) (use False w es in simp)
  qed
qed

text \<open>Who the two versions of \<open>handle_message\<close> write to, in order.\<close>

lemma parent_handle_vendored_sends:
  assumes "can_write lib (forward_writers s) m" "error m = None"
  shows "\<exists>es. sent (snd (snd (snd (parent_handle_vendored lib c m s)))) = sent s @ es
    \<and> map (\<lambda>(w, k, b). (w, k)) es = map (\<lambda>w. (w, Forwarded (rd_message (received m)))) (dmm_writers s @ map pw_writer (parent_all_writers s))"
proof -
  let ?m = "m\<lparr>updated_data_bytes := Some (data_bytes (received m))\<rparr>"
  let ?k = "Forwarded (rd_message (received m))"
  obtain es1 where a: "write_all lib (dmm_writers s) ?m s = (Inr (), s\<lparr>sent := sent s @ es1\<rparr>)"
    "map (\<lambda>(w, k, b). (w, k)) es1 = map (\<lambda>w. (w, ?k)) (dmm_writers s)"
    using write_all_ok [OF assms(1), of ?m "dmm_writers s" s] by (auto simp: forward_writers_def)
  obtain es2 n where b: "parent_loop lib (Function (pa_writer c)) (parent_all_writers s) (?m\<lparr>forwarded_count := length (dmm_writers s)\<rparr>)
      (s\<lparr>sent := sent s @ es1\<rparr>) = (Inr (), ?m\<lparr>forwarded_count := n\<rparr>, s\<lparr>sent := sent s @ es1 @ es2\<rparr>)"
    "map (\<lambda>(w, k, b). (w, k)) es2 = map (\<lambda>p. (pw_writer p, ?k)) (parent_all_writers s)"
    using parent_loop_ok [OF assms(1), of "?m\<lparr>forwarded_count := length (dmm_writers s)\<rparr>" "parent_all_writers s" "Function (pa_writer c)" "s\<lparr>sent := sent s @ es1\<rparr>"]
    by (auto simp: forward_writers_def)
  show ?thesis
    by (rule exI [of _ "es1 @ es2"])
       (simp add: parent_handle_vendored_def parent_reply_def forward_to_peers_def send_to_parent_def send_error_reply_if_necessary_def
          Let_def assms(2) a b)
qed

lemma parent_handle_sends:
  assumes "can_write lib (forward_writers s) m" "error m = None" "parsed m = Some p"
  shows "\<exists>es. sent (snd (snd (snd (parent_handle lib c m s)))) = sent s @ es
    \<and> map (\<lambda>(w, k, b). (w, k)) es = map (\<lambda>w. (w, Forwarded (rd_message (received m))))
        ((case Option.bind (destination_node_id p) (map_of (registered_sensors s)) of None \<Rightarrow> [] | Some info \<Rightarrow> [si_writer info])
         @ dmm_writers s @ map pw_writer (filter (\<lambda>pw. pw \<noteq> own_parent_writer c) (parent_all_writers s)))"
proof -
  let ?m = "m\<lparr>updated_data_bytes := Some (data_bytes (received m))\<rparr>"
  let ?k = "Forwarded (rd_message (received m))"
  let ?dest = "case Option.bind (destination_node_id p) (map_of (registered_sensors s)) of None \<Rightarrow> [] | Some info \<Rightarrow> [si_writer info]"
  obtain es0 n0 where z: "parent_to_child lib (?m\<lparr>forwarded_count := 0\<rparr>) s = (Inr (), ?m\<lparr>forwarded_count := n0\<rparr>, s\<lparr>sent := sent s @ es0\<rparr>)"
    "map (\<lambda>(w, k, b). (w, k)) es0 = map (\<lambda>w. (w, ?k)) ?dest"
  proof (cases "Option.bind (destination_node_id p) (map_of (registered_sensors s))")
    case None
    then show ?thesis by (intro that [of 0 "[]"]) (simp_all add: parent_to_child_def assms(3))
  next
    case (Some info)
    have member: "si_writer info \<in> forward_writers s"
      using Some by (auto simp: forward_writers_def ran_def bind_eq_Some_conv)
    obtain b where "write_msg lib (si_writer info) (Record (?m\<lparr>forwarded_count := 0\<rparr>)) (version m) s = (Inr (), s\<lparr>sent := sent s @ [(si_writer info, ?k, b)]\<rparr>)"
      using write_ok [OF assms(1) _ _ member, of "?m\<lparr>forwarded_count := 0\<rparr>" s] by auto
    then show ?thesis
      by (intro that [of 1 "[(si_writer info, ?k, b)]"]) (simp_all add: parent_to_child_def assms(3) Some)
  qed
  let ?m1 = "?m\<lparr>forwarded_count := n0\<rparr>" and ?s1 = "s\<lparr>sent := sent s @ es0\<rparr>"
  obtain es1 where a: "write_all lib (dmm_writers s) ?m1 ?s1 = (Inr (), s\<lparr>sent := sent s @ es0 @ es1\<rparr>)"
    "map (\<lambda>(w, k, b). (w, k)) es1 = map (\<lambda>w. (w, ?k)) (dmm_writers s)"
    using write_all_ok [OF assms(1), of ?m1 "dmm_writers s" ?s1] by (auto simp: forward_writers_def)
  let ?ex = "ParentW (own_parent_writer c)"
  obtain es2 n where b: "parent_loop lib ?ex (parent_all_writers s) (?m\<lparr>forwarded_count := n0 + length (dmm_writers s)\<rparr>)
      (s\<lparr>sent := sent s @ es0 @ es1\<rparr>) = (Inr (), ?m\<lparr>forwarded_count := n\<rparr>, s\<lparr>sent := sent s @ es0 @ es1 @ es2\<rparr>)"
    "map (\<lambda>(w, k, b). (w, k)) es2 = map (\<lambda>p. (pw_writer p, ?k)) (filter (\<lambda>pw. pw \<noteq> own_parent_writer c) (parent_all_writers s))"
    using parent_loop_ok [OF assms(1), of "?m\<lparr>forwarded_count := n0 + length (dmm_writers s)\<rparr>" "parent_all_writers s" ?ex "s\<lparr>sent := sent s @ es0 @ es1\<rparr>"]
    by (auto simp: eq_commute forward_writers_def)
  show ?thesis
    by (rule exI [of _ "es0 @ es1 @ es2"])
       (simp add: parent_handle_def parent_reply_def send_to_parent_def send_error_reply_if_necessary_def Let_def assms(2) z a b)
qed

text \<open>C23. The patch, on a running server. A message that arrives on a parent connection and that every
  writer can write is sent by the vendored code back to that very connection when it forwards all;
  the patched code sends it to the child it is addressed to, then to every peer, then to every
  other parent that forwards all, each once and in this order, and never back.\<close>

theorem parent_patch:
  assumes "reachable lib fl parse srv" "parse_ok parse" "\<not> crashed srv"
    and "conns srv i = Some oc" "oc_connection oc = Parent c" "forward_all c"
    and "can_write lib (forward_writers (shared srv)) m" "error m = None" "parsed m = Some p"
  shows "(\<exists>es b. sent (snd (snd (snd (parent_handle_vendored lib c m (shared srv))))) = sent (shared srv) @ es
           \<and> (pa_writer c, Forwarded (rd_message (received m)), b) \<in> set es)
    \<and> (\<exists>es. sent (snd (snd (snd (parent_handle lib c m (shared srv))))) = sent (shared srv) @ es
           \<and> map (\<lambda>(w, k, b). (w, k)) es = map (\<lambda>w. (w, Forwarded (rd_message (received m))))
               ((case Option.bind (destination_node_id p) (map_of (registered_sensors (shared srv))) of
                   None \<Rightarrow> [] | Some info \<Rightarrow> [si_writer info])
                @ dmm_writers (shared srv)
                @ map pw_writer (filter (\<lambda>pw. pw \<noteq> own_parent_writer c) (parent_all_writers (shared srv))))
           \<and> (\<forall>(w, k, b)\<in>set es. w_id w \<noteq> i))"
proof -
  let ?s = "shared srv" and ?k = "Forwarded (rd_message (received m))"
  from reachable_ok [OF assms(1-3)] have w: "wired (conn_map (conns srv)) ?s" by (simp add: server_ok_def)
  have c: "conn_map (conns srv) i = Some (Parent c)" using assms(4,5) by (simp add: conn_map_def)
  have in_all: "own_parent_writer c \<in> set (parent_all_writers ?s)"
    using w c assms(6) unfolding wired_def lists_def by force
  obtain es where es: "sent (snd (snd (snd (parent_handle_vendored lib c m ?s)))) = sent ?s @ es"
    "map (\<lambda>(w, k, b). (w, k)) es = map (\<lambda>w. (w, ?k)) (dmm_writers ?s @ map pw_writer (parent_all_writers ?s))"
    using parent_handle_vendored_sends [OF assms(7,8)] by blast
  have "(pa_writer c, ?k) \<in> set (map (\<lambda>(w, k, b). (w, k)) es)"
    unfolding es(2) using in_all by (force simp: own_parent_writer_def)
  with es(1) have vendored: "\<exists>es b. sent (snd (snd (snd (parent_handle_vendored lib c m ?s)))) = sent ?s @ es
      \<and> (pa_writer c, ?k, b) \<in> set es" by auto
  let ?to = "(case Option.bind (destination_node_id p) (map_of (registered_sensors ?s)) of None \<Rightarrow> [] | Some info \<Rightarrow> [si_writer info])
      @ dmm_writers ?s @ map pw_writer (filter (\<lambda>pw. pw \<noteq> own_parent_writer c) (parent_all_writers ?s))"
  obtain es' where es': "sent (snd (snd (snd (parent_handle lib c m ?s)))) = sent ?s @ es'"
    "map (\<lambda>(w, k, b). (w, k)) es' = map (\<lambda>w. (w, ?k)) ?to"
    using parent_handle_sends [OF assms(7-9)] by blast
  have "w_id v \<noteq> i" if "v \<in> set ?to" for v
  proof -
    have "forward_targets (Parent c) m ?s v"
    proof (cases "Option.bind (destination_node_id p) (map_of (registered_sensors ?s))")
      case None
      with that show ?thesis by auto
    next
      case (Some info)
      with that assms(9) show ?thesis by (auto simp: addressed_def bind_eq_Some_conv)
    qed
    from targets_wired [OF w c this] show ?thesis by blast
  qed
  moreover have "v \<in> set ?to" if "(v, k, b) \<in> set es'" for v k b
  proof -
    have "(v, k) \<in> set (map (\<lambda>(w, k, b). (w, k)) es')" using that by force
    then show ?thesis unfolding es'(2) by auto
  qed
  ultimately have "\<forall>(v, k, b)\<in>set es'. w_id v \<noteq> i" by blast
  with vendored es' show ?thesis by blast
qed

text \<open>A server with one parent that forwards all.\<close>

definition demo_parent_server :: "(nat, nat) server" where
  "demo_parent_server = open_connection demo_lib (demo_entry ''Parent'') (new_server demo_shared)"

definition demo_parent :: parent where
  "demo_parent = \<lparr>pa_writer = demo_writer 1, pa_format = PROTO, forward_all = True\<rparr>"

lemma demo_parent_eq: "demo_parent_server = (new_server demo_shared)\<lparr>shared := demo_shared\<lparr>parent_all_writers := [own_parent_writer demo_parent]\<rparr>,
    previous_connection_id := 1, connect_log := [1],
    conns := (\<lambda>_. None)(1 \<mapsto> \<lparr>oc_connection = Parent demo_parent, oc_parser = ParseProto True LATEST, oc_queue = [], oc_detection = None\<rparr>)\<rparr>"
  by (simp add: demo_parent_server_def open_connection_def new_server_def Let_def demo_entry_def demo_shared_eq demo_config_def has_key_def
      demo_normal create_connection_def parent_new_def replay_def own_parent_writer_def bindE_def dget_or_def sensor_id_auto_def
      get_parser_def converts_def demo_parent_def demo_writer_def del: One_nat_def)

lemma parent_patch_witness:
  "(\<exists>es b. sent (snd (snd (snd (parent_handle_vendored demo_lib demo_parent demo_message (shared demo_parent_server))))) = es
      \<and> (demo_writer 1, Forwarded 1, b) \<in> set es)
   \<and> sent (snd (snd (snd (parent_handle demo_lib demo_parent demo_message (shared demo_parent_server))))) = []"
proof -
  have "\<not> crashed (new_server demo_shared)" by (simp add: new_server_def)
  note r = reachable.more [OF reachable.start [OF demo_new] server_step.connect [OF this], of demo_lib "\<lambda>_. []" demo_parse "demo_entry ''Parent''",
      folded demo_parent_server_def]
  obtain p where p: "parsed demo_message = Some p" using demo_message_fields by auto
  have w: "forward_writers (shared demo_parent_server) = {demo_writer 1}"
    by (simp add: forward_writers_def demo_parent_eq own_parent_writer_def demo_parent_def new_server_def demo_shared_eq)
  have "can_write demo_lib {demo_writer 1} demo_message"
    using demo_message_fields
    by (auto simp: can_write_def demo_writer_def message_to_bytes_def finish_def to_version_cases pick_message_record_component_def
        bindE_def encode_binary_def encode_def demo_lib_def LATEST_def proto_version_def)
  with parent_patch [OF r demo_parse_ok, of 1 _ demo_parent demo_message p] demo_message_fields p w
  show ?thesis by (simp add: demo_parent_eq new_server_def demo_shared_eq demo_rd demo_parent_def own_parent_writer_def)
qed

section \<open>The queue of a connection\<close>

lemma close_store: "store (shared (close_connection i srv)) = store (shared srv)"
proof -
  have "store (snd (handle_closed c s)) = store s" for c and s :: "('a, 'b) shared"
    by (auto simp: handle_closed_def child_closed_def peer_closed_def parent_closed_def split: connection.splits option.splits sum.splits)
  then show ?thesis
    by (auto simp: close_connection_def split: option.splits prod.splits sum.splits) (metis snd_conv)+
qed

lemma handle_next_progress:
  assumes "server_ok srv" "parse_ok parse" "conns srv i = Some oc" "oc_queue oc = raw # rest"
  shows "(conns (handle_next lib fl parse i srv) i = None
      \<or> (\<exists>oc'. conns (handle_next lib fl parse i srv) i = Some oc' \<and> oc_queue oc' = rest
           \<and> store (shared (handle_next lib fl parse i srv)) (rd_message raw) \<noteq> None))
    \<and> (\<forall>j. j \<noteq> i \<longrightarrow> conns (handle_next lib fl parse i srv) j = conns srv j)
    \<and> (\<forall>n. store (shared srv) n \<noteq> None \<longrightarrow> store (shared (handle_next lib fl parse i srv)) n \<noteq> None)"
  using assms(3,4)
proof (cases rule: handle_next_cases [where lib = lib and fl = fl and parse = parse])
  case (unparsed e v g)
  have "server_ok (srv\<lparr>shared := (shared srv)\<lparr>generator := g\<rparr>\<rparr>)" using assms(1) by (simp add: server_ok_def)
  from close_ok [OF this, of i] assms(3) close_store [of i "srv\<lparr>shared := (shared srv)\<lparr>generator := g\<rparr>\<rparr>"]
  show ?thesis unfolding unparsed(2) by auto
next
  case (handled m v g r c1 m1 s1 l ends)
  let ?srv = "srv\<lparr>shared := s1\<lparr>store := (store s1)(rd_message raw \<mapsto> m1)\<rparr>,
                conns := (conns srv)(i \<mapsto> oc\<lparr>oc_connection := c1, oc_queue := rest, oc_detection := v\<rparr>), saved := saved srv @ l\<rparr>"
  have st: "store s1 = store (shared srv)" using evolves_fields(5) [OF conjunct1 [OF handle_message_facts [OF handled(2)]]] by simp
  have w: "wired (conn_map (conns srv)) ((shared srv)\<lparr>generator := g\<rparr>)" "conn_map (conns srv) i = Some (oc_connection oc)"
    using assms(1,3) by (simp_all add: server_ok_def conn_map_def)
  have "received m = raw" using assms(2) handled(1) unfolding parse_ok_def by blast
  from wired_handle [OF w handled(2), of "rd_message raw" m1] this
  have ok: "server_ok ?srv" using assms(1,3) by (auto simp: server_ok_def)
  show ?thesis
  proof (cases ends)
    case True
    with handled(3) close_ok [OF ok, of i] close_store [of i ?srv] st show ?thesis by auto
  qed (use handled(3) st in auto)
qed



section \<open>The interface of a parser\<close>

text \<open>What the server relies on, and what it gives for every parser that keeps the law: it keeps
  running whatever the data, and data that is not parsed costs its sender the connection only.\<close>

locale message_parser =
  fixes parse :: "('p, 'x) parse_fun"
  assumes keeps_data: "parse p raw st = (Inr m, st') \<Longrightarrow> received m = raw"
begin

lemma accepted: "parse_ok parse"
  using keeps_data unfolding parse_ok_def by blast

lemma running_ok: "reachable lib fl parse srv \<Longrightarrow> \<not> crashed srv \<Longrightarrow> server_ok srv"
  by (rule reachable_ok [OF _ accepted])

lemma keeps_running:
  assumes "reachable lib fl parse srv" "\<not> crashed srv" "conns srv i = Some oc" "oc_queue oc \<noteq> []"
  shows "\<not> crashed (handle_next lib fl parse i srv) \<and> reachable lib fl parse (handle_next lib fl parse i srv)"
proof -
  obtain raw rest where "oc_queue oc = raw # rest" using assms(4) by (cases "oc_queue oc") auto
  with handle_ok [OF running_ok [OF assms(1,2)] accepted assms(3)] assms(2)
    reachable.more [OF assms(1) server_step.handle [OF assms(2,3,4)]]
  show ?thesis by simp
qed

lemma unparsed_ends:
  assumes "reachable lib fl parse srv" "\<not> crashed srv" "conns srv i = Some oc" "oc_queue oc = raw # rest"
    and "parse (oc_parser oc) raw (oc_detection oc, generator (shared srv)) = (Inl e, v, g)"
  shows "\<exists>s1. handle_next lib fl parse i srv = srv\<lparr>shared := s1, conns := (conns srv)(i := None),
           disconnect_log := disconnect_log srv @ [i]\<rparr> \<and> sent s1 = sent (shared srv) \<and> store s1 = store (shared srv)"
proof -
  let ?srv = "srv\<lparr>shared := (shared srv)\<lparr>generator := g\<rparr>\<rparr>"
  have eq: "handle_next lib fl parse i srv = close_connection i ?srv" using assms(3-5) by (simp add: handle_next_def)
  have "server_ok ?srv" using running_ok [OF assms(1,2)] by (simp add: server_ok_def)
  with close_ok [OF this, of i oc] assms(3) close_sent [of i ?srv] close_store [of i ?srv]
  show ?thesis unfolding eq by auto
qed

end

end
