(* ===== verification/ApexTranslate.thy ===== *)
theory ApexTranslate
  imports ApexIo
begin

text \<open>
  The translators between the two protobuf versions of SAPIENT
  (\<open>sapient_apex_server/translator/proto_to_proto_translator.py\<close>). They rewrite the JSON form of a
  message: \<open>MessageToDict\<close>, \<open>ParseDict\<close> and the empty messages are arguments, the rewriting in
  between is modelled on dynamic values.

  A handler changes its dictionary in place; here it returns the changed one. An exception of a
  handler is caught, and what it had changed until then is never looked at. A value where the
  schema has an object or a list is refused here at once; the source may let it through to
  \<open>ParseDict\<close>, which refuses it. Letters are those of ASCII.
\<close>

section \<open>Texts\<close>

definition attribute_error :: exn where
  "attribute_error = PyExc ''AttributeError'' ''object has no such attribute''"

text \<open>\<open>s.replace(p, q)\<close> for a non-empty \<open>p\<close>; the number is how much of a match is still to be skipped.\<close>

fun replace_go :: "string \<Rightarrow> string \<Rightarrow> nat \<Rightarrow> string \<Rightarrow> string" where
  "replace_go p q n [] = []"
| "replace_go p q (Suc n) (c # s) = replace_go p q n s"
| "replace_go p q 0 (c # s) =
     (if starts_with p (c # s) then q @ replace_go p q (length p - 1) s else c # replace_go p q 0 s)"

definition replace_text :: "string \<Rightarrow> string \<Rightarrow> string \<Rightarrow> string" where
  "replace_text p q s = replace_go p q 0 s"

definition is_upper :: "char \<Rightarrow> bool" where
  "is_upper c \<longleftrightarrow> (let n = of_char c :: nat in 65 \<le> n \<and> n \<le> 90)"

definition is_lower :: "char \<Rightarrow> bool" where
  "is_lower c \<longleftrightarrow> (let n = of_char c :: nat in 97 \<le> n \<and> n \<le> 122)"

text \<open>\<open>s.isupper()\<close>\<close>

definition text_isupper :: "string \<Rightarrow> bool" where
  "text_isupper s \<longleftrightarrow> list_ex is_upper s \<and> \<not> list_ex is_lower s"

fun capitalise :: "string \<Rightarrow> string" where
  "capitalise [] = []"
| "capitalise (c # s) = upper_char c # map lower_char s"

text \<open>\<open>string.capwords(s, sep="_").replace("_", "")\<close>\<close>

definition camel :: "string \<Rightarrow> string" where
  "camel s = concat (map capitalise (split_on (CHR ''_'') s))"

text \<open>The loop of \<open>_convert_string_to_enum\<close> over the elements of its value, after the element \<open>prev\<close>.\<close>

fun snake_go :: "string \<Rightarrow> string list \<Rightarrow> string" where
  "snake_go prev [] = []"
| "snake_go prev (c # cs) =
     (if text_isupper c \<and> \<not> text_isupper prev then ''_'' else []) @ c @ snake_go c cs"

fun snake :: "string list \<Rightarrow> string" where
  "snake [] = []"
| "snake (c # cs) = c @ snake_go c cs"

text \<open>What \<open>enumerate\<close> gives for the value, if every element is a text. A dictionary is enumerated
  by its keys, but has no element \<open>char_index - 1\<close>.\<close>

definition text_of :: "pyval \<Rightarrow> string res" where
  "text_of v = (case v of PStr s \<Rightarrow> Inr s | _ \<Rightarrow> Inl attribute_error)"

fun elements :: "pyval \<Rightarrow> string list res" where
  "elements (PStr s) = Inr (map (\<lambda>c. [c]) s)"
| "elements (PList l) = mapE text_of l"
| "elements (PDict d) =
     (if list_ex text_isupper (tl (map fst d)) then Inl (PyExc ''KeyError'' ''index'') else Inr (map fst d))"
| "elements _ = Inl (type_error ''object is not iterable'')"

section \<open>Fields\<close>

definition convert_single_to_repeated :: "string \<Rightarrow> pydict \<Rightarrow> pydict" where
  "convert_single_to_repeated k d = (if truthy (dget d k) then AList.update k (PList [dget d k]) d else d)"

text \<open>\<open>",".join(v)\<close> and \<open>v[0]\<close>.\<close>

fun comma_joined :: "pyval \<Rightarrow> pyval res" where
  "comma_joined (PList l) = bindE (mapE text_of l) (\<lambda>ws. Inr (PStr (join_with '','' ws)))"
| "comma_joined (PStr s) = Inr (PStr (join_with '','' (map (\<lambda>c. [c]) s)))"
| "comma_joined _ = Inl (type_error ''can only join an iterable'')"

fun first_element :: "pyval \<Rightarrow> pyval res" where
  "first_element (PList (x # _)) = Inr x"
| "first_element (PStr (c # _)) = Inr (PStr [c])"
| "first_element (PDict _) = Inl (PyExc ''KeyError'' ''0'')"
| "first_element _ = Inl (type_error ''object is not subscriptable'')"

definition single_item :: "pyval \<Rightarrow> pyval res" where
  "single_item v = bindE (first_element v) (\<lambda>x. case x of PStr _ \<Rightarrow> comma_joined v | _ \<Rightarrow> Inr x)"

definition convert_repeated_to_single :: "string \<Rightarrow> pydict \<Rightarrow> pydict res" where
  "convert_repeated_to_single k d =
     (let v = dget_or d k (PList [])
      in if truthy v then bindE (single_item v) (\<lambda>x. Inr (AList.update k x d)) else Inr d)"

definition convert_string_to_enum :: "string \<Rightarrow> string \<Rightarrow> pydict \<Rightarrow> pydict res" where
  "convert_string_to_enum k prefix d =
     (let v = dget_or d k (PStr [])
      in if truthy v
         then bindE (elements v) (\<lambda>cs. Inr (AList.update k (PStr (prefix @ map upper_char (snake cs))) d))
         else Inr d)"

text \<open>The value of \<open>_convert_enum_to_string\<close>; with \<open>replace_value\<close> it is stored when it was found.\<close>

definition enum_to_string :: "string \<Rightarrow> string \<Rightarrow> string" where
  "enum_to_string prefix s =
     (let t = replace_text prefix [] s in if t = ''OK'' then t else camel t)"

definition enum_value :: "string \<Rightarrow> string \<Rightarrow> pydict \<Rightarrow> pyval res" where
  "enum_value k prefix d =
     (let v = dget_or d k (PStr [])
      in if truthy v then bindE (text_of v) (\<lambda>s. Inr (PStr (enum_to_string prefix s))) else Inr v)"

definition convert_enum_to_string :: "string \<Rightarrow> string \<Rightarrow> pydict \<Rightarrow> pydict res" where
  "convert_enum_to_string k prefix d =
     (if truthy (dget_or d k (PStr [])) then bindE (enum_value k prefix d) (\<lambda>v. Inr (AList.update k v d)) else Inr d)"

definition remove_fields :: "string list \<Rightarrow> pydict \<Rightarrow> pydict" where
  "remove_fields ks d = fold AList.delete ks d"

text \<open>A loop \<open>for x in d.get(k, [])\<close> that changes each object \<open>x\<close>.\<close>

definition on_object :: "(pydict \<Rightarrow> pydict res) \<Rightarrow> pyval \<Rightarrow> pyval res" where
  "on_object f v = (case v of PDict d \<Rightarrow> bindE (f d) (\<lambda>d'. Inr (PDict d')) | _ \<Rightarrow> Inl attribute_error)"

fun for_objects :: "(pydict \<Rightarrow> pydict res) \<Rightarrow> pyval \<Rightarrow> pyval res" where
  "for_objects f (PList l) = bindE (mapE (on_object f) l) (\<lambda>l'. Inr (PList l'))"
| "for_objects f (PStr s) = (if s = [] then Inr (PStr s) else Inl attribute_error)"
| "for_objects f (PDict d) = (if d = [] then Inr (PDict d) else Inl attribute_error)"
| "for_objects f _ = Inl (type_error ''object is not iterable'')"

definition for_each :: "string \<Rightarrow> (pydict \<Rightarrow> pydict res) \<Rightarrow> pydict \<Rightarrow> pydict res" where
  "for_each k f d = (case map_of d k of
      None \<Rightarrow> Inr d
    | Some v \<Rightarrow> bindE (for_objects f v) (\<lambda>v'. Inr (AList.update k v' d)))"

text \<open>An object at \<open>k\<close> that is changed if it is there and not empty.\<close>

definition if_object :: "string \<Rightarrow> (pydict \<Rightarrow> pydict res) \<Rightarrow> pydict \<Rightarrow> pydict res" where
  "if_object k f d =
     (if truthy (dget d k) then bindE (on_object f (dget d k)) (\<lambda>v. Inr (AList.update k v d)) else Inr d)"

section \<open>Contents\<close>

definition registration_up_mode :: "pydict \<Rightarrow> pydict res" where
  "registration_up_mode m =
     bindE (convert_repeated_to_single ''task'' (convert_single_to_repeated ''detection_definition'' m))
       (if_object ''task'' (for_each ''command'' (\<lambda>c. Inr (AList.delete ''name'' c))))"

definition registration_up :: "pydict \<Rightarrow> pydict res" where
  "registration_up r =
     for_each ''mode_definition'' registration_up_mode
       (AList.update ''config_data'' (PList [PDict [(''manufacturer'', PStr ''manufacturer''), (''model'', PStr ''model'')]])
         (AList.update ''icd_version'' (PStr ''BSI Flex 335 v2.0'') r))"

definition command_down :: "pydict \<Rightarrow> pydict res" where
  "command_down c =
     (if has_key c ''type''
      then bindE (enum_value ''type'' ''COMMAND_TYPE_'' c) (\<lambda>n. Inr (if truthy n then AList.update ''name'' n c else c))
      else Inr c)"

definition registration_down_mode :: "pydict \<Rightarrow> pydict res" where
  "registration_down_mode m =
     bindE (convert_repeated_to_single ''detection_definition'' m) (\<lambda>m1.
       for_each ''task'' (for_each ''command'' command_down) (convert_single_to_repeated ''task'' m1))"

definition registration_down :: "pydict \<Rightarrow> pydict res" where
  "registration_down r =
     for_each ''mode_definition'' registration_down_mode
       (remove_fields [''dependent_nodes'', ''reporting_region'', ''config_data'']
         (AList.update ''icd_version'' (PStr ''BSI Flex 335 v1.0'') r))"

text \<open>The comparison in the loop over \<open>status\<close> has no effect (\<open>==\<close> is written for \<open>=\<close>).\<close>

definition power_up :: "pydict \<Rightarrow> pydict res" where
  "power_up p = bindE (convert_string_to_enum ''source'' ''POWERSOURCE_'' p) (convert_string_to_enum ''status'' ''POWERSTATUS_'')"

definition status_report_up :: "pydict \<Rightarrow> pydict res" where
  "status_report_up s =
     bindE (if_object ''power'' power_up (convert_single_to_repeated ''coverage'' s))
       (for_each ''status'' (convert_string_to_enum ''status_type'' ''STATUS_TYPE_''))"

definition power_down :: "pydict \<Rightarrow> pydict res" where
  "power_down p = bindE (convert_enum_to_string ''source'' ''POWERSOURCE_'' p) (convert_enum_to_string ''status'' ''POWERSTATUS_'')"

definition status_report_down :: "pydict \<Rightarrow> pydict res" where
  "status_report_down s =
     bindE (convert_repeated_to_single ''coverage'' s) (\<lambda>s1.
     bindE (if_object ''power'' power_down s1)
       (for_each ''status'' (convert_enum_to_string ''status_type'' ''STATUS_TYPE_'')))"

definition task_up :: "pydict \<Rightarrow> pydict res" where
  "task_up t = Inr (if dget t ''control'' = PStr ''CONTROL_DEFAULT''
     then AList.update ''control'' (PStr ''CONTROL_UNSPECIFIED'') t else t)"

definition task_down :: "pydict \<Rightarrow> pydict res" where
  "task_down t = Inr t"

text \<open>\<open>d[new] = d.pop(old).replace(p, q)\<close> if \<open>old\<close> is there.\<close>

definition rename_status :: "string \<Rightarrow> string \<Rightarrow> string \<Rightarrow> string \<Rightarrow> pydict \<Rightarrow> pydict res" where
  "rename_status old new p q d = (case map_of d old of
      None \<Rightarrow> Inr d
    | Some v \<Rightarrow> bindE (text_of v) (\<lambda>s. Inr (AList.update new (PStr (replace_text p q s)) (AList.delete old d))))"

definition alert_ack_up :: "pydict \<Rightarrow> pydict res" where
  "alert_ack_up a =
     rename_status ''alert_status'' ''alert_ack_status'' ''ALERT_STATUS_'' ''ALERT_ACK_STATUS_''
       (convert_single_to_repeated ''reason'' a)"

definition alert_ack_down :: "pydict \<Rightarrow> pydict res" where
  "alert_ack_down a =
     bindE (convert_repeated_to_single ''reason'' a)
       (rename_status ''alert_ack_status'' ''alert_status'' ''ALERT_ACK_STATUS_'' ''ALERT_STATUS_'')"

definition registration_ack_up :: "pydict \<Rightarrow> pydict res" where
  "registration_ack_up a = Inr (convert_single_to_repeated ''ack_response_reason'' a)"

definition registration_ack_down :: "pydict \<Rightarrow> pydict res" where
  "registration_ack_down = convert_repeated_to_single ''ack_response_reason''"

definition task_ack_up :: "pydict \<Rightarrow> pydict res" where
  "task_ack_up a = Inr (convert_single_to_repeated ''reason'' a)"

definition task_ack_down :: "pydict \<Rightarrow> pydict res" where
  "task_ack_down = convert_repeated_to_single ''reason''"

definition error_up :: "pydict \<Rightarrow> pydict res" where
  "error_up e = Inr (convert_single_to_repeated ''error_message'' e)"

definition error_down :: "pydict \<Rightarrow> pydict res" where
  "error_down = convert_repeated_to_single ''error_message''"

section \<open>Messages\<close>

text \<open>One handler: the content under its name is changed, or \<open>False\<close> is returned for an empty one.\<close>

definition on_content :: "string \<Rightarrow> (pydict \<Rightarrow> pydict res) \<Rightarrow> pydict \<Rightarrow> (bool \<times> pydict) res" where
  "on_content k f d =
     (let v = dget_or d k (PDict [])
      in if truthy v then bindE (on_object f v) (\<lambda>v'. Inr (True, AList.update k v' d)) else Inr (False, d))"

fun dispatch :: "(string \<times> (pydict \<Rightarrow> pydict res)) list \<Rightarrow> pydict \<Rightarrow> (bool \<times> pydict) res" where
  "dispatch [] d = Inr (True, d)"
| "dispatch ((k, f) # hs) d = (if has_key d k then on_content k f d else dispatch hs d)"

definition up_handlers :: "(string \<times> (pydict \<Rightarrow> pydict res)) list" where
  "up_handlers = [(''registration'', registration_up), (''registration_ack'', registration_ack_up),
     (''status_report'', status_report_up), (''task'', task_up), (''task_ack'', task_ack_up),
     (''alert_ack'', alert_ack_up), (''error'', error_up)]"

definition down_handlers :: "(string \<times> (pydict \<Rightarrow> pydict res)) list" where
  "down_handlers = [(''registration'', registration_down), (''registration_ack'', registration_ack_down),
     (''status_report'', status_report_down), (''task'', task_down), (''task_ack'', task_ack_down),
     (''alert_ack'', alert_ack_down), (''error'', error_down)]"

text \<open>\<open>ParseDict(d, m)\<close> fills the message \<open>m\<close> in place; when it raises, \<open>m\<close> keeps what was filled in.\<close>

record 'p json_format =
  message_to_dict :: "'p \<Rightarrow> pydict res"
  parse_dict :: "pydict \<Rightarrow> 'p \<Rightarrow> exn option \<times> 'p"
  empty_v1 :: 'p
  empty_v2 :: 'p

definition empty_sapient_message :: "'p json_format \<Rightarrow> sapient_version \<Rightarrow> 'p res" where
  "empty_sapient_message j v = (case v of
      VERSION6 \<Rightarrow> Inl (value_error ''Sapient Version 6 is not protobuf'')
    | BSI_FLEX_335_V1_0 \<Rightarrow> Inr (empty_v1 j) | BSI_FLEX_335_V2_0 \<Rightarrow> Inr (empty_v2 j))"

definition translated :: "'p json_format \<Rightarrow> (string \<times> (pydict \<Rightarrow> pydict res)) list \<Rightarrow> 'p \<Rightarrow> 'p \<Rightarrow> 'p res" where
  "translated j handlers target m =
     bindE (message_to_dict j m) (\<lambda>d. Inr (case dispatch handlers d of
        Inr (True, d') \<Rightarrow> snd (parse_dict j d' target)
      | _ \<Rightarrow> target))"

definition v1_to_v2 :: "'p json_format \<Rightarrow> 'p \<Rightarrow> 'p res" where
  "v1_to_v2 j m = bindE (empty_sapient_message j BSI_FLEX_335_V2_0) (\<lambda>e. translated j up_handlers e m)"

definition v2_to_v1 :: "'p json_format \<Rightarrow> 'p \<Rightarrow> 'p res" where
  "v2_to_v1 j m = bindE (empty_sapient_message j BSI_FLEX_335_V1_0) (\<lambda>e. translated j down_handlers e m)"

text \<open>The middleware with these translators.\<close>

definition with_translators :: "'p json_format \<Rightarrow> ('p, 'x) lib \<Rightarrow> ('p, 'x) lib" where
  "with_translators j lib = lib\<lparr>translate_v1_to_v2 := v1_to_v2 j, translate_v2_to_v1 := v2_to_v1 j\<rparr>"

section \<open>Names of enumeration values\<close>

lemma upper_lower [simp]:
  "is_lower c \<Longrightarrow> lower_char (upper_char c) = c" "is_lower c \<Longrightarrow> is_upper (upper_char c)"
  "is_lower c \<Longrightarrow> \<not> is_lower (upper_char c)" "is_lower c \<Longrightarrow> \<not> is_upper c" "is_upper c \<Longrightarrow> upper_char c = c"
  "is_digit c \<Longrightarrow> upper_char c = c" "is_digit c \<Longrightarrow> lower_char c = c" "is_digit c \<Longrightarrow> \<not> is_upper c"
  by (auto simp: is_lower_def is_upper_def is_digit_def upper_char_def lower_char_def Let_def)

lemma upper_idem [simp]: "upper_char (upper_char c) = upper_char c"
  by (auto simp: upper_char_def Let_def)

lemma upper_not_underscore: "is_lower c \<or> is_digit c \<Longrightarrow> upper_char c \<noteq> CHR ''_''"
proof
  assume c: "is_lower c \<or> is_digit c" and u: "upper_char c = CHR ''_''"
  have "(of_char (CHR ''_'') :: nat) = 95" by simp
  with c u [symmetric] show False by (auto simp: is_lower_def is_digit_def upper_char_def Let_def split: if_splits)
qed

lemma text_isupper_char [simp]: "text_isupper [c] \<longleftrightarrow> is_upper c"
  by (auto simp: text_isupper_def is_upper_def is_lower_def Let_def)

text \<open>A word: a small letter, then small letters and digits.\<close>

definition plain_word :: "string \<Rightarrow> bool" where
  "plain_word w \<longleftrightarrow> w \<noteq> [] \<and> is_lower (hd w) \<and> list_all (\<lambda>c. is_lower c \<or> is_digit c) w"

text \<open>Words that can be told apart when written together: only the last may be a single letter.\<close>

definition plain_words :: "string list \<Rightarrow> bool" where
  "plain_words ws \<longleftrightarrow> ws \<noteq> [] \<and> list_all plain_word ws \<and> list_all (\<lambda>w. 2 \<le> length w) (butlast ws)"

definition camel_case :: "string list \<Rightarrow> string" where
  "camel_case ws = concat (map capitalise ws)"

definition upper_case :: "string list \<Rightarrow> string" where
  "upper_case ws = join_with ''_'' (map (map upper_char) ws)"

lemma small_letters:
  assumes "list_all (\<lambda>c. is_lower c \<or> is_digit c) w"
  shows "map (\<lambda>c. lower_char (upper_char c)) w = w" "map lower_char w = w"
proof -
  have "lower_char c = c" if "is_lower c" for c using that by (simp add: is_lower_def lower_char_def Let_def)
  then show "map (\<lambda>c. lower_char (upper_char c)) w = w" "map lower_char w = w"
    using assms by (induction w) auto
qed

lemma capitalise_upper: "plain_word w \<Longrightarrow> capitalise (map upper_char w) = capitalise w"
proof (cases w)
  case (Cons c v)
  assume "plain_word w"
  with Cons have v: "list_all (\<lambda>c. is_lower c \<or> is_digit c) v" by (simp add: plain_word_def)
  with Cons small_letters [OF v] show ?thesis by (simp add: comp_def)
qed simp

lemma camel_upper_case:
  assumes "ws \<noteq> []" "list_all plain_word ws"
  shows "camel (upper_case ws) = camel_case ws"
proof -
  have clean: "\<forall>w\<in>set (map (map upper_char) ws). CHR ''_'' \<notin> set w"
  proof
    fix u assume "u \<in> set (map (map upper_char) ws)"
    then obtain w where "w \<in> set ws" "u = map upper_char w" by auto
    with assms(2) show "CHR ''_'' \<notin> set u"
      using upper_not_underscore by (fastforce simp: plain_word_def list_all_iff)
  qed
  have sp: "split_on (CHR ''_'') (upper_case ws) = map (map upper_char) ws"
    unfolding upper_case_def by (rule split_join) (use assms(1) clean in auto)
  have "map capitalise (map (map upper_char) ws) = map capitalise ws"
    using assms(2) by (auto simp: list_all_iff capitalise_upper)
  then show ?thesis by (simp only: camel_def camel_case_def sp)
qed

lemma snake_go_lower:
  assumes "list_all (\<lambda>c. is_lower c \<or> is_digit c) v"
  shows "snake_go p (map (\<lambda>c. [c]) (v @ r)) = v @ snake_go (if v = [] then p else [last v]) (map (\<lambda>c. [c]) r)"
  using assms by (induction v arbitrary: p) (auto simp: is_lower_def is_upper_def is_digit_def Let_def)

lemma capitalise_word: "plain_word w \<Longrightarrow> capitalise w = upper_char (hd w) # tl w"
proof (cases w)
  case (Cons c v)
  assume "plain_word w"
  with Cons have "list_all (\<lambda>c. is_lower c \<or> is_digit c) v" by (simp add: plain_word_def)
  with Cons small_letters(2) show ?thesis by simp
qed (simp add: plain_word_def)

lemma snake_go_words:
  assumes "list_all plain_word ws" "list_all (\<lambda>w. 2 \<le> length w) (butlast ws)" "\<not> is_upper (last p)" "ws \<noteq> []" "length p = 1"
  shows "map upper_char (snake_go p (map (\<lambda>c. [c]) (camel_case ws))) = concat (map (\<lambda>w. ''_'' @ map upper_char w) ws)"
  using assms
proof (induction ws arbitrary: p)
  case (Cons w ws)
  then obtain c v where w: "w = c # v" by (cases w) (auto simp: plain_word_def)
  with Cons.prems(1) have cv: "is_lower c" "list_all (\<lambda>c. is_lower c \<or> is_digit c) v" by (auto simp: plain_word_def)
  obtain x where p: "p = [x]" using Cons.prems(5) by (cases p) auto
  have cap: "capitalise w = upper_char c # v" using capitalise_word [of w] Cons.prems(1) w by simp
  have tail: "map upper_char (snake_go [upper_char c] (map (\<lambda>c. [c]) (v @ camel_case ws)))
      = map upper_char v @ concat (map (\<lambda>w. ''_'' @ map upper_char w) ws)"
  proof (cases "ws = []")
    case True
    with snake_go_lower [OF cv(2), of "[upper_char c]" "[]"] show ?thesis by (simp add: camel_case_def)
  next
    case False
    with Cons.prems(2) w have "v \<noteq> []" by (cases v) auto
    then have "\<not> is_upper (last [last v])" using cv(2) by (auto simp: list_all_iff dest: bspec [OF _ last_in_set])
    from Cons.IH [OF _ _ this False] Cons.prems(1,2) False
    have "map upper_char (snake_go [last v] (map (\<lambda>c. [c]) (camel_case ws))) = concat (map (\<lambda>w. ''_'' @ map upper_char w) ws)" by simp
    with snake_go_lower [OF cv(2), of "[upper_char c]" "camel_case ws"] \<open>v \<noteq> []\<close> show ?thesis by simp
  qed
  have "upper_char CHR ''_'' = CHR ''_''" by code_simp
  with tail Cons.prems(3) cv(1) p show ?case by (simp add: camel_case_def cap [unfolded w] w del: capitalise.simps)
qed simp

lemma join_underscore: "join_with ''_'' (w # ws) = w @ concat (map (\<lambda>v. ''_'' @ v) ws)"
  by (induction ws arbitrary: w) auto

lemma snake_camel_case:
  assumes "plain_words ws"
  shows "map upper_char (snake (map (\<lambda>c. [c]) (camel_case ws))) = upper_case ws"
proof -
  obtain w us where ws: "ws = w # us" using assms by (cases ws) (auto simp: plain_words_def)
  with assms obtain c v where w: "w = c # v" by (cases w) (auto simp: plain_words_def plain_word_def)
  have wd: "plain_word w" "is_lower c" "list_all (\<lambda>c. is_lower c \<or> is_digit c) v"
    using assms ws w by (auto simp: plain_words_def plain_word_def)
  have cap: "capitalise w = upper_char c # v" using capitalise_word [OF wd(1)] w by simp
  have "map upper_char (snake_go [upper_char c] (map (\<lambda>c. [c]) (v @ camel_case us)))
      = map upper_char v @ concat (map (\<lambda>w. ''_'' @ map upper_char w) us)"
  proof (cases "us = []")
    case True
    with snake_go_lower [OF wd(3), of "[upper_char c]" "[]"] show ?thesis by (simp add: camel_case_def)
  next
    case False
    with assms ws w have "v \<noteq> []" by (cases v) (auto simp: plain_words_def)
    then have "\<not> is_upper (last [last v])" using wd(3) by (auto simp: list_all_iff dest: bspec [OF _ last_in_set])
    from snake_go_words [OF _ _ this False] assms ws False
    have "map upper_char (snake_go [last v] (map (\<lambda>c. [c]) (camel_case us))) = concat (map (\<lambda>w. ''_'' @ map upper_char w) us)"
      by (simp add: plain_words_def)
    with snake_go_lower [OF wd(3), of "[upper_char c]" "camel_case us"] \<open>v \<noteq> []\<close> show ?thesis by simp
  qed
  then show ?thesis by (simp add: camel_case_def ws cap [unfolded w] upper_case_def w join_underscore comp_def del: capitalise.simps)
qed

lemma replace_go_skip: "replace_go p q (length r) (r @ s) = replace_go p q 0 s"
  by (induction r) simp_all

lemma replace_front:
  assumes "p \<noteq> []"
  shows "replace_text p q (p @ r) = q @ replace_text p q r"
proof -
  obtain c t where p: "p = c # t" using assms by (cases p) auto
  have "starts_with p (c # t @ r)" by (simp add: p starts_with_def)
  with replace_go_skip [of p q t r] show ?thesis by (simp add: p replace_text_def)
qed

lemma replace_absent: "find_sub p s = None \<Longrightarrow> replace_text p q s = s"
  by (induction s) (auto simp: replace_text_def split: if_splits)

lemma upper_case_nonempty: "plain_words ws \<Longrightarrow> upper_case ws \<noteq> [] \<and> camel_case ws \<noteq> []"
proof -
  assume "plain_words ws"
  then obtain w us c v where "ws = w # us" "w = c # v"
    by (cases ws; cases "hd ws") (auto simp: plain_words_def plain_word_def)
  then show ?thesis by (cases us) (simp_all add: upper_case_def camel_case_def)
qed

lemma enum_to_string_upper_case:
  assumes "plain_words ws" "p \<noteq> []" "find_sub p (upper_case ws) = None" "upper_case ws \<noteq> ''OK''"
  shows "enum_to_string p (p @ upper_case ws) = camel_case ws"
  using assms camel_upper_case [of ws]
  by (simp add: enum_to_string_def replace_front replace_absent Let_def plain_words_def)

lemma update_same: "map_of d k = Some v \<Longrightarrow> AList.update k v d = d"
  by (induction d) (auto split: if_splits)

lemma update_twice [simp]: "AList.update k v (AList.update k u d) = AList.update k v d"
  by (induction d) auto

section \<open>Properties\<close>

text \<open>Enumeration names. The upgrade turns a name in camel case into the enumeration value with the
  prefix, and the downgrade turns that value back into the name; both ways round the dictionary is
  the same again. The words must be separable (only the last may be one letter), the prefix must not
  occur in the value a second time, and the value must not be \<open>OK\<close>, which is left in capitals.\<close>

theorem enum_names_round_trip:
  assumes "plain_words ws" "p \<noteq> []" "find_sub p (upper_case ws) = None" "upper_case ws \<noteq> ''OK''"
    and "map_of d k = Some (PStr (camel_case ws))" "map_of e k = Some (PStr (p @ upper_case ws))"
  shows "\<exists>d' e'. convert_string_to_enum k p d = Inr d' \<and> dget d' k = PStr (p @ upper_case ws) \<and> convert_enum_to_string k p d' = Inr d
    \<and> convert_enum_to_string k p e = Inr e' \<and> dget e' k = PStr (camel_case ws) \<and> convert_string_to_enum k p e' = Inr e"
proof -
  note ne = upper_case_nonempty [OF assms(1)]
  have up: "convert_string_to_enum k p x = Inr (AList.update k (PStr (p @ upper_case ws)) x)"
    if "dget_or x k (PStr []) = PStr (camel_case ws)" for x
    using that ne snake_camel_case [OF assms(1)] by (simp add: convert_string_to_enum_def Let_def)
  have down: "convert_enum_to_string k p x = Inr (AList.update k (PStr (camel_case ws)) x)"
    if "dget_or x k (PStr []) = PStr (p @ upper_case ws)" for x
    using that ne enum_to_string_upper_case [OF assms(1-4)]
    by (simp add: convert_enum_to_string_def enum_value_def text_of_def Let_def)
  have "convert_string_to_enum k p d = Inr (AList.update k (PStr (p @ upper_case ws)) d)"
    by (rule up) (simp add: dget_or_def assms(5))
  moreover have "convert_enum_to_string k p (AList.update k (PStr (p @ upper_case ws)) d) = Inr d"
    using down [of "AList.update k (PStr (p @ upper_case ws)) d"] assms(5) by (simp add: dget_or_def update_conv' update_same)
  moreover have "convert_enum_to_string k p e = Inr (AList.update k (PStr (camel_case ws)) e)"
    by (rule down) (simp add: dget_or_def assms(6))
  moreover have "convert_string_to_enum k p (AList.update k (PStr (camel_case ws)) e) = Inr e"
    using up [of "AList.update k (PStr (camel_case ws)) e"] assms(6) by (simp add: dget_or_def update_conv' update_same)
  ultimately show ?thesis by (simp add: dict_simps)
qed

lemma enum_names_round_trip_witness:
  "\<exists>d' e'. convert_string_to_enum ''type'' ''COMMAND_TYPE_'' [(''type'', PStr ''LookAt'')] = Inr d'
     \<and> dget d' ''type'' = PStr ''COMMAND_TYPE_LOOK_AT'' \<and> convert_enum_to_string ''type'' ''COMMAND_TYPE_'' d' = Inr [(''type'', PStr ''LookAt'')]
     \<and> convert_enum_to_string ''type'' ''COMMAND_TYPE_'' [(''type'', PStr ''COMMAND_TYPE_LOOK_AT'')] = Inr e' \<and> dget e' ''type'' = PStr ''LookAt''"
proof -
  have ws: "plain_words [''look'', ''at'']" by code_simp
  have u: "upper_case [''look'', ''at''] = ''LOOK_AT''" and c: "camel_case [''look'', ''at''] = ''LookAt''" by code_simp+
  have f: "find_sub ''COMMAND_TYPE_'' ''LOOK_AT'' = None" by code_simp
  from enum_names_round_trip [OF ws, of "''COMMAND_TYPE_''" "[(''type'', PStr ''LookAt'')]" "''type''" "[(''type'', PStr ''COMMAND_TYPE_LOOK_AT'')]"]
  show ?thesis unfolding u c using f by auto
qed

lemma single_of_repeated:
  assumes "map_of c f = None \<or> (\<exists>s. s \<noteq> [] \<and> map_of c f = Some (PStr s))"
  shows "convert_repeated_to_single f (convert_single_to_repeated f c) = Inr c"
  using assms
  by (auto simp: convert_single_to_repeated_def convert_repeated_to_single_def dget_def dget_or_def single_item_def
      text_of_def update_conv' update_same)

definition contents :: "string list" where
  "contents = map fst up_handlers"

lemma dispatch_content:
  assumes "(k, f) \<in> set hs" "distinct (map fst hs)" "\<forall>k' \<in> set (map fst hs). has_key d k' \<longrightarrow> k' = k"
    and "map_of d k = Some (PDict c)" "c \<noteq> []" "f c = Inr c'"
  shows "dispatch hs d = Inr (True, AList.update k (PDict c') d)"
  using assms
proof (induction hs)
  case (Cons h hs)
  obtain k0 f0 where h: "h = (k0, f0)" by (cases h)
  show ?case
  proof (cases "k0 = k")
    case True
    with Cons.prems(2) h have "(k, f) \<notin> set hs" by (auto simp: image_iff)
    with Cons.prems(1) h have "f0 = f" by simp
    with True Cons.prems(4-6) h show ?thesis by (simp add: has_key_def on_content_def dget_or_def on_object_def)
  next
    case False
    with Cons.prems(3) h have n: "\<not> has_key d k0" by auto
    have "dispatch hs d = Inr (True, AList.update k (PDict c') d)"
      by (rule Cons.IH) (use Cons.prems False h in simp_all)
    with n show ?thesis by (simp add: h)
  qed
qed simp

text \<open>What the version 1 content of an acknowledgement or an error must be like for the round trip:
  a reason that is not the empty text, and the status of an alert acknowledgement with its prefix.\<close>

definition ack_reason :: "string \<Rightarrow> string" where
  "ack_reason k = (if k = ''registration_ack'' then ''ack_response_reason'' else if k = ''error'' then ''error_message'' else ''reason'')"

definition plain_status :: "pydict \<Rightarrow> bool" where
  "plain_status c \<longleftrightarrow> map_of c ''alert_ack_status'' = None
     \<and> (case map_of c ''alert_status'' of None \<Rightarrow> True
        | Some v \<Rightarrow> (\<exists>t. v = PStr (''ALERT_STATUS_'' @ t) \<and> find_sub ''ALERT_STATUS_'' t = None
                         \<and> find_sub ''ALERT_ACK_STATUS_'' t = None))"

lemma repeated_to_single_simps [simp]:
  "map_of x k = None \<Longrightarrow> convert_repeated_to_single k x = Inr x"
  "map_of x k = Some (PList [PStr s]) \<Longrightarrow> convert_repeated_to_single k x = Inr (AList.update k (PStr s) x)"
  by (simp_all add: convert_repeated_to_single_def dget_or_def single_item_def text_of_def)

lemma rename_status_map:
  assumes "map_of x old = Some (PStr (p @ t))" "p \<noteq> []" "find_sub p t = None"
  shows "\<exists>y. rename_status old new p q x = Inr y \<and> y \<noteq> [] \<and> map_of y = ((map_of x)(old := None))(new \<mapsto> PStr (q @ t))"
proof -
  have "AList.update new (PStr (q @ t)) (AList.delete old x) \<noteq> []" by (cases "AList.delete old x") auto
  with assms show ?thesis
    by (auto simp: rename_status_def text_of_def replace_front replace_absent update_conv' delete_conv')
qed

lemma alert_ack_back:
  assumes "c \<noteq> []" "plain_status c"
    and "map_of c ''reason'' = None \<or> (\<exists>s. s \<noteq> [] \<and> map_of c ''reason'' = Some (PStr s))"
  shows "\<exists>c1 c2. alert_ack_up c = Inr c1 \<and> c1 \<noteq> [] \<and> alert_ack_down c1 = Inr c2 \<and> map_of c2 = map_of c"
proof -
  let ?r = "convert_single_to_repeated ''reason'' c"
  have ne: "?r \<noteq> []" using assms(1) by (cases c) (auto simp: convert_single_to_repeated_def)
  have r: "map_of ?r = (map_of c)(''reason'' := map_option (\<lambda>v. PList [v]) (map_of c ''reason''))"
    using assms(3) by (auto simp: convert_single_to_repeated_def dget_def update_conv' fun_eq_iff)
  have undo: "\<exists>y. convert_repeated_to_single ''reason'' x = Inr y \<and> map_of y = (map_of x)(''reason'' := map_of c ''reason'')"
    if "map_of x ''reason'' = map_option (\<lambda>v. PList [v]) (map_of c ''reason'')" for x
    using that assms(3) by (auto simp: update_conv' fun_eq_iff)
  have same: "map_of c ''alert_ack_status'' = None" using assms(2) by (simp add: plain_status_def)
  show ?thesis
  proof (cases "map_of c ''alert_status''")
    case None
    have up: "alert_ack_up c = Inr ?r" using None r by (simp add: alert_ack_up_def rename_status_def)
    from undo [of ?r] r obtain y where y: "convert_repeated_to_single ''reason'' ?r = Inr y" "map_of y = map_of c"
      by (auto simp: fun_eq_iff)
    have "alert_ack_down ?r = Inr y" using y same by (simp add: alert_ack_down_def rename_status_def)
    with up ne y(2) show ?thesis by blast
  next
    case (Some v)
    with assms(2) obtain t where v: "v = PStr (''ALERT_STATUS_'' @ t)" "find_sub ''ALERT_STATUS_'' t = None"
      "find_sub ''ALERT_ACK_STATUS_'' t = None" by (auto simp: plain_status_def)
    have "map_of ?r ''alert_status'' = Some (PStr (''ALERT_STATUS_'' @ t))" using r Some v(1) by simp
    from rename_status_map [OF this _ v(2), of "''alert_ack_status''" "''ALERT_ACK_STATUS_''"] obtain x
      where x: "alert_ack_up c = Inr x" "x \<noteq> []"
        "map_of x = ((map_of ?r)(''alert_status'' := None))(''alert_ack_status'' \<mapsto> PStr (''ALERT_ACK_STATUS_'' @ t))"
      by (auto simp: alert_ack_up_def)
    from undo [of x] x(3) r obtain y where y: "convert_repeated_to_single ''reason'' x = Inr y"
      "map_of y = (map_of x)(''reason'' := map_of c ''reason'')" by auto
    have "map_of y ''alert_ack_status'' = Some (PStr (''ALERT_ACK_STATUS_'' @ t))" using y(2) x(3) by simp
    from rename_status_map [OF this _ v(3), of "''alert_status''" "''ALERT_STATUS_''"] obtain z where z: "alert_ack_down x = Inr z" "map_of z = ((map_of y)(''alert_ack_status'' := None))(''alert_status'' \<mapsto> PStr (''ALERT_STATUS_'' @ t))"
      using y(1) by (auto simp: alert_ack_down_def)
    have "map_of z = map_of c" using z(2) y(2) x(3) r same Some v(1) by (auto simp: fun_eq_iff)
    with x z(1) show ?thesis by blast
  qed
qed



lemma translators_raise:
  "v1_to_v2 j m = Inl e \<longleftrightarrow> message_to_dict j m = Inl e" "v2_to_v1 j m = Inl e \<longleftrightarrow> message_to_dict j m = Inl e"
  by (simp_all add: v1_to_v2_def v2_to_v1_def empty_sapient_message_def translated_def res_simps)

text \<open>A version 2 status report with a power source that the schema does not know, which the JSON
  form gives as a number, is not refused when it is written to a version 1 connection: the handler
  raises, the exception is caught, and what is written is the frame of a message without content.\<close>

theorem unknown_enum_writes_empty_message:
  assumes "parsed r = Some p" "parsed_proto p = Some m" "message_to_dict j m = Inr d"
    and "\<not> has_key d ''registration''" "\<not> has_key d ''registration_ack''" "map_of d ''status_report'' = Some (PDict s)"
    and "dget s ''power'' = PDict pw" "dget pw ''source'' = PInt n" "n \<noteq> 0"
  shows "message_to_bytes (with_translators j lib) (Record r) PROTO BSI_FLEX_335_V2_0 BSI_FLEX_335_V1_0
    = Some (encode (serialise_partial lib (empty_v1 j)))"
proof -
  have ps: "pw \<noteq> []" "s \<noteq> []" using assms(7-9) by (auto simp: dget_def)
  have src: "dget_or pw ''source'' (PStr []) = PInt n" using assms(8) by (simp add: dget_or_def dget_def split: option.splits)
  have pd: "\<exists>e. power_down pw = Inl e"
    using src assms(9) by (simp add: power_down_def convert_enum_to_string_def enum_value_def text_of_def)
  have keep: "dget s1 ''power'' = dget s ''power''" if "convert_repeated_to_single ''coverage'' s = Inr s1" for s1
    using that by (auto simp: convert_repeated_to_single_def Let_def res_simps dict_simps split: if_splits)
  have "\<exists>e. status_report_down s = Inl e"
  proof (cases "convert_repeated_to_single ''coverage'' s")
    case (Inr s1)
    with keep [OF Inr] pd assms(7) ps(1) show ?thesis by (auto simp: status_report_down_def if_object_def on_object_def)
  qed (simp add: status_report_down_def)
  then obtain e where "status_report_down s = Inl e" by blast
  then have "dispatch down_handlers d = Inl e"
    using assms(4-6) ps(2) by (simp add: down_handlers_def has_key_def on_content_def dget_or_def on_object_def)
  then have "v2_to_v1 j m = Inr (empty_v1 j)"
    by (simp add: v2_to_v1_def empty_sapient_message_def translated_def assms(3))
  then show ?thesis
    using assms(1,2)
    by (simp add: message_to_bytes_def pick_message_record_component_def finish_def to_version_cases proto_version_def
        with_translators_def encode_binary_def)
qed

definition demo_format :: "nat json_format" where
  "demo_format = \<lparr>message_to_dict = (\<lambda>_. Inr [(''status_report'', PDict [(''power'', PDict [(''source'', PInt 9)])])]),
     parse_dict = (\<lambda>d m. (None, m)), empty_v1 = 0, empty_v2 = 1\<rparr>"

definition demo_parsed :: "(nat, nat) parsed_record" where
  "demo_parsed = \<lparr>message_type = Some ''status_report'', pr_node_id = None, internal_sensor_id = None, destination_node_id = None,
     message_timestamp = 0, detection_confidence = None, parsed_proto = Some 7, parsed_xml = None\<rparr>"

definition demo_status :: "(nat, nat) message_record" where
  "demo_status = \<lparr>received = \<lparr>rd_connection = 1, rd_message = 1, rd_timestamp = 0, data_bytes = []\<rparr>, data_decoded_xml = [],
     data_binary_proto = None, forwarded_count = 0, parsed = Some demo_parsed, registered = None, status_report = None,
     error = None, updated_data_bytes = None, version = BSI_FLEX_335_V2_0\<rparr>"

lemma unknown_enum_writes_empty_message_witness:
  "\<forall>lib. message_to_bytes (with_translators demo_format lib) (Record demo_status) PROTO BSI_FLEX_335_V2_0 BSI_FLEX_335_V1_0
     = Some (encode (serialise_partial lib 0))"
proof
  fix lib :: "(nat, nat) lib"
  have "parsed demo_status = Some demo_parsed" "parsed_proto demo_parsed = Some 7" "empty_v1 demo_format = 0"
    by (simp_all add: demo_status_def demo_parsed_def demo_format_def)
  with unknown_enum_writes_empty_message [of demo_status demo_parsed 7 demo_format
      "[(''status_report'', PDict [(''power'', PDict [(''source'', PInt 9)])])]" "[(''power'', PDict [(''source'', PInt 9)])]"
      "[(''source'', PInt 9)]" 9 lib]
  show "message_to_bytes (with_translators demo_format lib) (Record demo_status) PROTO BSI_FLEX_335_V2_0 BSI_FLEX_335_V1_0
     = Some (encode (serialise_partial lib 0))"
    by (simp add: demo_format_def has_key_def dget_def)
qed

end
