(* ===== verification/ApexValidate.thy ===== *)
theory ApexValidate
  imports Ids PyTime
begin

text \<open>
  The message validator of the Apex middleware (\<open>sapient_apex_server/validate_proto.py\<close>).

  A protobuf message is seen through reflection, as a tree: its unknown fields, its \<open>oneof\<close> groups and
  its fields in the order of the descriptor, each with the options the validator reads and with its
  value. \<open>ListFields\<close> lists the fields that are set: what it leaves out has the value \<open>Absent\<close>. Times
  are microseconds.
\<close>

section \<open>Options\<close>

datatype validation_type =
    MANDATORY_FIELDS_PRESENT | MANDATORY_ONEOF_PRESENT | MANDATORY_REPEATED_PRESENT | NO_UNKNOWN_FIELDS
  | NO_UNKNOWN_ENUM_VALUES | ID_FORMAT_VALID | MESSAGE_TIMESTAMP_REASONABLE | DETECTION_TIMESTAMP_REASONABLE
  | SUPPORTED_ICD_VERSION

fun type_name :: "validation_type \<Rightarrow> string" where
  "type_name MANDATORY_FIELDS_PRESENT = ''MANDATORY_FIELDS_PRESENT''"
| "type_name MANDATORY_ONEOF_PRESENT = ''MANDATORY_ONEOF_PRESENT''"
| "type_name MANDATORY_REPEATED_PRESENT = ''MANDATORY_REPEATED_PRESENT''"
| "type_name NO_UNKNOWN_FIELDS = ''NO_UNKNOWN_FIELDS''"
| "type_name NO_UNKNOWN_ENUM_VALUES = ''NO_UNKNOWN_ENUM_VALUES''"
| "type_name ID_FORMAT_VALID = ''ID_FORMAT_VALID''"
| "type_name MESSAGE_TIMESTAMP_REASONABLE = ''MESSAGE_TIMESTAMP_REASONABLE''"
| "type_name DETECTION_TIMESTAMP_REASONABLE = ''DETECTION_TIMESTAMP_REASONABLE''"
| "type_name SUPPORTED_ICD_VERSION = ''SUPPORTED_ICD_VERSION''"

definition all_types :: "validation_type list" where
  "all_types = [MANDATORY_FIELDS_PRESENT, MANDATORY_ONEOF_PRESENT, MANDATORY_REPEATED_PRESENT, NO_UNKNOWN_FIELDS,
     NO_UNKNOWN_ENUM_VALUES, ID_FORMAT_VALID, MESSAGE_TIMESTAMP_REASONABLE, DETECTION_TIMESTAMP_REASONABLE,
     SUPPORTED_ICD_VERSION]"

record validation_options =
  types :: "validation_type list"
  strict_id_format :: bool
  timestamp_range :: "int \<times> int"
  detection_gap :: int
  supported_icd_versions :: pyval

definition default_options :: validation_options where
  "default_options = \<lparr>types = [], strict_id_format = True, timestamp_range = (- 900000, 100000), detection_gap = 80000,
     supported_icd_versions = PList []\<rparr>"

definition runtime_error :: "string \<Rightarrow> exn" where
  "runtime_error m = PyExc ''RuntimeError'' m"

text \<open>\<open>ValidationType[str(t).upper()]\<close>\<close>

definition type_of_config :: "(flt \<Rightarrow> string) \<Rightarrow> pyval \<Rightarrow> validation_type res" where
  "type_of_config fl v = (let k = map upper_char (py_str fl v)
     in case List.find (\<lambda>t. type_name t = k) all_types of Some t \<Rightarrow> Inr t
        | None \<Rightarrow> Inl (runtime_error (''Invalid validation type provided: '' @ repr_str k)))"

text \<open>A number, \<open>isinstance(x, Real)\<close>.\<close>

fun real_of :: "pyval \<Rightarrow> flt option" where
  "real_of (PBool b) = Some (Fin (if b then 1 else 0))"
| "real_of (PInt i) = Some (Fin (of_int i))"
| "real_of (PFloat f) = Some f"
| "real_of _ = None"

definition range_of_config :: "pyval \<Rightarrow> (int \<times> int) res" where
  "range_of_config v = (case v of
      PList [a, b] \<Rightarrow> (case (real_of a, real_of b) of
          (Some x, Some y) \<Rightarrow> bindE (timedelta_seconds x) (\<lambda>l. bindE (timedelta_seconds y) (\<lambda>u. Inr (l, u)))
        | _ \<Rightarrow> Inl (runtime_error ''Values in messageTimestampRange must be numbers''))
    | _ \<Rightarrow> Inl (runtime_error ''Validation messageTimestampRange config must have two items''))"

definition gap_of_config :: "pyval \<Rightarrow> int res" where
  "gap_of_config v = (case real_of v of Some x \<Rightarrow> timedelta_seconds x
    | None \<Rightarrow> Inl (type_error ''unsupported type for timedelta seconds component''))"

definition strict_of_config :: "pyval \<Rightarrow> bool res" where
  "strict_of_config v = (case v of PBool b \<Rightarrow> Inr b
    | _ \<Rightarrow> Inl (runtime_error ''strictIdFormat validation config must be Boolean''))"

definition configured :: "pydict \<Rightarrow> string \<Rightarrow> (pyval \<Rightarrow> 'a res) \<Rightarrow> 'a \<Rightarrow> 'a res" where
  "configured d k f x = (case map_of d k of None \<Rightarrow> Inr x | Some v \<Rightarrow> f v)"

definition from_config_dict :: "(flt \<Rightarrow> string) \<Rightarrow> pydict \<Rightarrow> validation_options res" where
  "from_config_dict fl d =
     bindE (py_iter (dget_or d ''validationTypes'' (PList []))) (\<lambda>ts.
     bindE (mapE (type_of_config fl) ts) (\<lambda>types.
     bindE (configured d ''strictIdFormat'' strict_of_config (strict_id_format default_options)) (\<lambda>strict.
     bindE (configured d ''messageTimestampRange'' range_of_config (timestamp_range default_options)) (\<lambda>range.
     bindE (configured d ''detectionMinimumGap'' gap_of_config (detection_gap default_options)) (\<lambda>gap.
       Inr \<lparr>types = types, strict_id_format = strict, timestamp_range = range, detection_gap = gap,
            supported_icd_versions = dget_or d ''supportedIcdVersions'' (PList [])\<rparr>)))))"

section \<open>Messages through reflection\<close>

datatype unknown_data = Varint nat | I64 nat | Len "nat list" | Group "nat list" | I32 nat

datatype field_type = TString | TEnum "int list" | TMessage bool | TOther

record field_desc =
  fd_name :: string
  fd_type :: field_type
  fd_repeated :: bool
  fd_mandatory :: bool
  fd_ulid :: bool
  fd_uuid :: bool

text \<open>\<open>TMessage b\<close>: whether the full name of its type starts with \<open>sapient_msg.\<close>. A \<open>oneof\<close> has its name,
  whether it is mandatory and whether one of its fields is set. \<open>Other\<close> is any other scalar and any
  list of scalars.\<close>

datatype pb_msg = Pb "(nat \<times> unknown_data) list" "(string \<times> bool \<times> bool) list" "pb_field list"
  and pb_field = Field field_desc pb_value
  and pb_value = Absent | Text string | Number int | Message pb_msg | Messages "pb_msg list" | Other

section \<open>Errors\<close>

record validation_error =
  ve_type :: validation_type
  ve_message :: string
  ve_path :: "string list"

definition low_char :: "char \<Rightarrow> char" where
  "low_char c = (if c = CHR ''_'' then CHR '' '' else lower_char c)"

definition full_str :: "validation_error \<Rightarrow> string" where
  "full_str e =
     (if ve_path e = [] then ''(root)'' else join_with ''.'' (ve_path e))
     @ '' ('' @ map low_char (type_name (ve_type e)) @ ''): '' @ ve_message e"

definition td_str :: "int \<Rightarrow> string" where
  "td_str td = (if td < 0 then ''-'' @ timedelta_text (- td) else timedelta_text td)"

text \<open>\<open>str\<close> of the double and of the float with a given bit pattern is an argument.\<close>

record float_bits =
  f64_text :: "nat \<Rightarrow> string"
  f32_text :: "nat \<Rightarrow> string"

definition zigzag :: "nat \<Rightarrow> int" where
  "zigzag n = (if even n then int n div 2 else - (int n - 1) div 2)"

definition signed_text :: "nat \<Rightarrow> nat \<Rightarrow> string" where
  "signed_text w n = show_nat n @ (if 2 ^ (w - 1) \<le> n then '' or '' @ show_int (int n - 2 ^ w) else [])"

definition hex_digit :: "nat \<Rightarrow> char" where
  "hex_digit n = (if n < 10 then digit_char n else char_of (87 + n))"

definition hex_byte :: "nat \<Rightarrow> string" where
  "hex_byte b = [hex_digit (b div 16), hex_digit (b mod 16)]"

definition ascii_byte :: "nat \<Rightarrow> char" where
  "ascii_byte b = (if 32 \<le> b \<and> b < 128 then char_of b else CHR ''_'')"

fun format_data :: "float_bits \<Rightarrow> unknown_data \<Rightarrow> nat \<times> string \<times> string" where
  "format_data fb (Varint n) = (0, ''varint'', signed_text 64 n @ '' or zigzag '' @ show_int (zigzag n) @ '')'')"
| "format_data fb (I64 n) = (1, ''i64'', signed_text 64 n @ '' or float '' @ f64_text fb n)"
| "format_data fb (I32 n) = (5, ''i32'', signed_text 32 n @ '' or float '' @ f32_text fb n)"
| "format_data fb (Len bs) = (2, ''len'',
     ''('' @ show_nat (length bs) @ '' bytes) '' @ join_with '' '' (map hex_byte (take 20 bs))
     @ (if 20 < length bs then '' ...'' else []) @ ''; ascii '' @ [CHR 0x22] @ map ascii_byte (take 20 bs) @ [CHR 0x22]
     @ (if 20 < length bs then '' ...'' else []))"
| "format_data fb (Group ns) =
     (let numbers = take 20 (map show_nat ns)
      in (4, ''group'', show_nat (length ns) @ '' fields (field numbers: '' @ join_with '', '' numbers
          @ (if 20 < length numbers then '', ...'' else []) @ '')''))"

definition format_unknown_field :: "float_bits \<Rightarrow> nat \<times> unknown_data \<Rightarrow> string" where
  "format_unknown_field fb f = (case f of (number, data) \<Rightarrow> (case format_data fb data of (wire, type, value) \<Rightarrow>
     ''number: '' @ show_nat number @ '', type: '' @ show_nat wire @ '' ('' @ type @ ''), data: '' @ value))"

section \<open>Checks\<close>

definition verr :: "validation_type \<Rightarrow> string list \<Rightarrow> string \<Rightarrow> validation_error list" where
  "verr t path m = [\<lparr>ve_type = t, ve_message = m, ve_path = path\<rparr>]"

definition enabled :: "validation_options \<Rightarrow> validation_type \<Rightarrow> bool" where
  "enabled opts t \<longleftrightarrow> t \<in> set (types opts)"

definition ulid_ok :: "validation_options \<Rightarrow> string \<Rightarrow> bool" where
  "ulid_ok opts s \<longleftrightarrow> ulid_chars (if strict_id_format opts then s else map upper_char s)"

definition small_hex :: "char \<Rightarrow> bool" where
  "small_hex c \<longleftrightarrow> c \<in> set ''0123456789abcdef''"

text \<open>\<open>[0-9a-f]{8}-[0-9a-f]{4}-4[0-9a-f]{3}-[89ab][0-9a-f]{3}-[0-9a-f]{12}\<close>\<close>

definition uuid4_shape :: "string \<Rightarrow> bool" where
  "uuid4_shape s \<longleftrightarrow> length s = 36
     \<and> list_all (\<lambda>i. if i \<in> {8, 13, 18, 23} then s ! i = CHR ''-'' else if i = 14 then s ! i = CHR ''4''
          else if i = 19 then s ! i \<in> set ''89ab'' else small_hex (s ! i)) [0..<36]"

definition uuid_ok :: "validation_options \<Rightarrow> string \<Rightarrow> bool" where
  "uuid_ok opts s \<longleftrightarrow> (if strict_id_format opts then uuid4_shape s else is_valid_uuid s)"

definition check_ulid_format_valid :: "validation_options \<Rightarrow> pb_value \<Rightarrow> string list \<Rightarrow> validation_error list" where
  "check_ulid_format_valid opts v path = (case v of
      Text s \<Rightarrow> if ulid_ok opts s then [] else verr ID_FORMAT_VALID path (''Invalid ULID: '' @ s) | _ \<Rightarrow> [])"

definition check_uuid_format_valid :: "validation_options \<Rightarrow> pb_value \<Rightarrow> string list \<Rightarrow> validation_error list" where
  "check_uuid_format_valid opts v path = (case v of
      Text s \<Rightarrow> if uuid_ok opts s then [] else verr ID_FORMAT_VALID path (''Invalid UUID: '' @ s) | _ \<Rightarrow> [])"

definition check_enum_values_known :: "field_desc \<Rightarrow> pb_value \<Rightarrow> string list \<Rightarrow> validation_error list" where
  "check_enum_values_known d v path = (case (fd_type d, v) of
      (TEnum known, Number n) \<Rightarrow>
        if n \<in> set known then [] else verr NO_UNKNOWN_ENUM_VALUES path (''Unknown enum value: '' @ show_int n)
    | _ \<Rightarrow> [])"

definition check_mandatory_oneof_fields :: "(string \<times> bool \<times> bool) list \<Rightarrow> string list \<Rightarrow> validation_error list" where
  "check_mandatory_oneof_fields oneofs path = concat (map (\<lambda>(name, mandatory, present).
     if mandatory \<and> \<not> present then verr MANDATORY_ONEOF_PRESENT path (''Missing mandatory OneOf field: '' @ name) else []) oneofs)"

definition check_no_unknown_fields :: "float_bits \<Rightarrow> (nat \<times> unknown_data) list \<Rightarrow> string list \<Rightarrow> validation_error list" where
  "check_no_unknown_fields fb unknown path =
     concat (map (\<lambda>f. verr NO_UNKNOWN_FIELDS path (''Unknown field '' @ format_unknown_field fb f)) unknown)"

text \<open>\<open>x in c\<close> for a text \<open>x\<close>.\<close>

fun contains :: "pyval \<Rightarrow> string \<Rightarrow> bool res" where
  "contains (PList l) s = Inr (PStr s \<in> set l)"
| "contains (PStr t) s = Inr (find_sub s t \<noteq> None)"
| "contains (PDict d) s = Inr (s \<in> fst ` set d)"
| "contains _ s = Inl (type_error ''argument is not iterable'')"

definition check_icd_version :: "validation_options \<Rightarrow> field_desc \<Rightarrow> pb_value \<Rightarrow> string list \<Rightarrow> validation_error list res" where
  "check_icd_version opts d v path = (case v of
      Text s \<Rightarrow> bindE (contains (supported_icd_versions opts) (map (\<lambda>c. if c = CHR ''_'' then CHR '' '' else c) s))
        (\<lambda>ok. Inr (if ok then [] else verr SUPPORTED_ICD_VERSION path (''Unsupported ICD version: '' @ fd_name d @ '': '' @ s)))
    | _ \<Rightarrow> Inl (PyExc ''AttributeError'' ''object has no attribute replace''))"

definition missing :: "validation_type \<Rightarrow> string \<Rightarrow> pb_value \<Rightarrow> string list \<Rightarrow> validation_error list" where
  "missing t m v path = (if v = Absent then verr t path m else [])"

text \<open>\<open>validate_field\<close> up to the nested message.\<close>

definition field_checks ::
  "validation_options \<Rightarrow> field_desc \<Rightarrow> pb_value \<Rightarrow> string list \<Rightarrow> validation_error list res" where
  "field_checks opts d v path =
     bindE (if enabled opts SUPPORTED_ICD_VERSION \<and> fd_type d = TString \<and> find_sub ''icd_version'' (fd_name d) \<noteq> None
            then check_icd_version opts d v path else Inr []) (\<lambda>icd. Inr (
       (if enabled opts MANDATORY_FIELDS_PRESENT \<and> fd_mandatory d \<and> \<not> fd_repeated d
        then missing MANDATORY_FIELDS_PRESENT (''Missing mandatory field: '' @ fd_name d) v path else [])
       @ icd
       @ (if enabled opts MANDATORY_REPEATED_PRESENT \<and> fd_mandatory d \<and> fd_repeated d
          then missing MANDATORY_REPEATED_PRESENT (''Missing mandatory repeated field: '' @ fd_name d) v path else [])
       @ (if enabled opts ID_FORMAT_VALID \<and> fd_ulid d then check_ulid_format_valid opts v path else [])
       @ (if enabled opts ID_FORMAT_VALID \<and> fd_uuid d then check_uuid_format_valid opts v path else [])
       @ (if enabled opts NO_UNKNOWN_ENUM_VALUES then check_enum_values_known d v path else [])))"

definition nested :: "field_desc \<Rightarrow> bool" where
  "nested d \<longleftrightarrow> fd_type d = TMessage True"

fun validate_message :: "float_bits \<Rightarrow> validation_options \<Rightarrow> string list \<Rightarrow> pb_msg \<Rightarrow> validation_error list res"
  and validate_fields :: "float_bits \<Rightarrow> validation_options \<Rightarrow> string list \<Rightarrow> pb_field list \<Rightarrow> validation_error list res"
  and validate_field :: "float_bits \<Rightarrow> validation_options \<Rightarrow> string list \<Rightarrow> pb_field \<Rightarrow> validation_error list res"
  and validate_value :: "float_bits \<Rightarrow> validation_options \<Rightarrow> string list \<Rightarrow> pb_value \<Rightarrow> validation_error list res"
  and validate_messages :: "float_bits \<Rightarrow> validation_options \<Rightarrow> string list \<Rightarrow> nat \<Rightarrow> pb_msg list \<Rightarrow> validation_error list res" where
  "validate_message fb opts path (Pb unknown oneofs fs) =
     bindE (validate_fields fb opts path fs) (\<lambda>es. Inr (
       (if enabled opts NO_UNKNOWN_FIELDS then check_no_unknown_fields fb unknown path else [])
       @ (if enabled opts MANDATORY_ONEOF_PRESENT then check_mandatory_oneof_fields oneofs path else [])
       @ es))"
| "validate_fields fb opts path [] = Inr []"
| "validate_fields fb opts path (f # fs) =
     bindE (validate_field fb opts path f) (\<lambda>es. bindE (validate_fields fb opts path fs) (\<lambda>es'. Inr (es @ es')))"
| "validate_field fb opts path (Field d v) =
     bindE (field_checks opts d v (path @ [fd_name d])) (\<lambda>es.
     bindE (if nested d then validate_value fb opts (path @ [fd_name d]) v else Inr []) (\<lambda>es'. Inr (es @ es')))"
| "validate_value fb opts path (Message m) = validate_message fb opts path m"
| "validate_value fb opts path (Messages ms) = validate_messages fb opts path 0 ms"
| "validate_value fb opts path Absent = Inr []"
| "validate_value fb opts path (Text s) = Inr []"
| "validate_value fb opts path (Number n) = Inr []"
| "validate_value fb opts path Other = Inr []"
| "validate_messages fb opts path i [] = Inr []"
| "validate_messages fb opts path i (m # ms) =
     bindE (validate_message fb opts (path @ [show_nat i]) m) (\<lambda>es.
     bindE (validate_messages fb opts path (i + 1) ms) (\<lambda>es'. Inr (es @ es')))"

section \<open>A whole message\<close>

definition check_message_timestamp_reasonable :: "validation_options \<Rightarrow> int \<Rightarrow> int \<Rightarrow> validation_error list" where
  "check_message_timestamp_reasonable opts time received =
     (let d = time - received; (lo, hi) = timestamp_range opts
      in (if d < lo then verr MESSAGE_TIMESTAMP_REASONABLE [] (''Timestamp delta '' @ td_str d @ '' < '' @ td_str lo) else [])
         @ (if hi < d then verr MESSAGE_TIMESTAMP_REASONABLE [] (''Timestamp delta '' @ td_str d @ '' > '' @ td_str hi) else []))"

definition check_detection_timestamp_reasonable ::
  "validation_options \<Rightarrow> int option \<Rightarrow> int \<Rightarrow> validation_error list" where
  "check_detection_timestamp_reasonable opts previous time = (case previous of None \<Rightarrow> []
     | Some p \<Rightarrow> let d = time - p
        in (if 0 < d \<and> d < detection_gap opts
            then verr DETECTION_TIMESTAMP_REASONABLE [] (''Detection time delta '' @ timedelta_text d @ '' too small'') else [])
           @ (if d < 0
              then verr DETECTION_TIMESTAMP_REASONABLE []
                (''Detection time '' @ datetime_text time @ '' earlier than previous '' @ datetime_text p) else []))"

text \<open>What is validated: the tree, \<open>timestamp.ToDatetime()\<close>, which may raise, and whether the content is
  a detection report. The time of the last detection is the state of a validator.\<close>

record checked_message =
  cm_tree :: pb_msg
  cm_time :: "int res"
  cm_detection :: bool

definition validate_sapient_message ::
  "float_bits \<Rightarrow> validation_options \<Rightarrow> checked_message \<Rightarrow> int \<Rightarrow> bool \<Rightarrow> int option \<Rightarrow> validation_error list res \<times> int option" where
  "validate_sapient_message fb opts m received deep previous =
     (case (if enabled opts MESSAGE_TIMESTAMP_REASONABLE
            then bindE (cm_time m) (\<lambda>t. Inr (check_message_timestamp_reasonable opts t received)) else Inr []) of
        Inl e \<Rightarrow> (Inl e, previous)
      | Inr es1 \<Rightarrow>
          (case (if enabled opts DETECTION_TIMESTAMP_REASONABLE \<and> cm_detection m
                 then bindE (cm_time m) (\<lambda>t. Inr (check_detection_timestamp_reasonable opts previous t, Some t))
                 else Inr ([], previous)) of
             Inl e \<Rightarrow> (Inl e, previous)
           | Inr (es2, previous') \<Rightarrow>
               (bindE (if deep then validate_message fb opts [] (cm_tree m) else Inr []) (\<lambda>es3. Inr (es1 @ es2 @ es3)), previous')))"

definition is_validation_required :: "validation_options \<Rightarrow> bool" where
  "is_validation_required opts \<longleftrightarrow> types opts \<noteq> []"

section \<open>What it takes for a message to pass\<close>

definition field_ok :: "validation_options \<Rightarrow> field_desc \<Rightarrow> pb_value \<Rightarrow> bool" where
  "field_ok opts d v \<longleftrightarrow>
     (enabled opts MANDATORY_FIELDS_PRESENT \<and> fd_mandatory d \<and> \<not> fd_repeated d \<longrightarrow> v \<noteq> Absent)
   \<and> (enabled opts MANDATORY_REPEATED_PRESENT \<and> fd_mandatory d \<and> fd_repeated d \<longrightarrow> v \<noteq> Absent)
   \<and> (enabled opts SUPPORTED_ICD_VERSION \<and> fd_type d = TString \<and> find_sub ''icd_version'' (fd_name d) \<noteq> None
       \<longrightarrow> (\<exists>s. v = Text s \<and> contains (supported_icd_versions opts) (map (\<lambda>c. if c = CHR ''_'' then CHR '' '' else c) s) = Inr True))
   \<and> (enabled opts ID_FORMAT_VALID \<and> fd_ulid d \<longrightarrow> (\<forall>s. v = Text s \<longrightarrow> ulid_ok opts s))
   \<and> (enabled opts ID_FORMAT_VALID \<and> fd_uuid d \<longrightarrow> (\<forall>s. v = Text s \<longrightarrow> uuid_ok opts s))
   \<and> (enabled opts NO_UNKNOWN_ENUM_VALUES \<longrightarrow> (\<forall>known n. fd_type d = TEnum known \<and> v = Number n \<longrightarrow> n \<in> set known))"

fun message_ok :: "validation_options \<Rightarrow> pb_msg \<Rightarrow> bool" where
  "message_ok opts (Pb unknown oneofs fs) \<longleftrightarrow>
     (enabled opts NO_UNKNOWN_FIELDS \<longrightarrow> unknown = [])
   \<and> (enabled opts MANDATORY_ONEOF_PRESENT \<longrightarrow> list_all (\<lambda>(name, mandatory, present). mandatory \<longrightarrow> present) oneofs)
   \<and> (\<forall>d v. Field d v \<in> set fs \<longrightarrow> field_ok opts d v)"

fun submessages :: "pb_value \<Rightarrow> pb_msg list" where
  "submessages (Message m) = [m]"
| "submessages (Messages ms) = ms"
| "submessages _ = []"

text \<open>The messages that occur in a message, itself included, through fields whose type is a SAPIENT one.\<close>

inductive part :: "pb_msg \<Rightarrow> pb_msg \<Rightarrow> bool" where
  itself: "part m m"
| inside: "Field d v \<in> set fs \<Longrightarrow> nested d \<Longrightarrow> m \<in> set (submessages v) \<Longrightarrow> part m m' \<Longrightarrow> part (Pb unknown oneofs fs) m'"

inductive_cases partE: "part (Pb unknown oneofs fs) m'"

definition all_parts_ok :: "validation_options \<Rightarrow> pb_msg \<Rightarrow> bool" where
  "all_parts_ok opts m \<longleftrightarrow> (\<forall>m'. part m m' \<longrightarrow> message_ok opts m')"

definition field_parts_ok :: "validation_options \<Rightarrow> pb_field \<Rightarrow> bool" where
  "field_parts_ok opts f \<longleftrightarrow> (case f of Field d v \<Rightarrow> field_ok opts d v \<and> (nested d \<longrightarrow> (\<forall>m\<in>set (submessages v). all_parts_ok opts m)))"

lemma all_parts_ok_Pb:
  "all_parts_ok opts (Pb unknown oneofs fs) \<longleftrightarrow>
     (enabled opts NO_UNKNOWN_FIELDS \<longrightarrow> unknown = [])
   \<and> (enabled opts MANDATORY_ONEOF_PRESENT \<longrightarrow> list_all (\<lambda>(name, mandatory, present). mandatory \<longrightarrow> present) oneofs)
   \<and> (\<forall>f\<in>set fs. field_parts_ok opts f)"
proof -
  have split: "all_parts_ok opts (Pb unknown oneofs fs) \<longleftrightarrow> message_ok opts (Pb unknown oneofs fs)
      \<and> (\<forall>d v. Field d v \<in> set fs \<and> nested d \<longrightarrow> (\<forall>m\<in>set (submessages v). all_parts_ok opts m))" (is "?L \<longleftrightarrow> ?R")
  proof
    assume ?L
    then show ?R unfolding all_parts_ok_def using part.intros by blast
  next
    assume ?R
    then show ?L unfolding all_parts_ok_def by (blast elim: partE)
  qed
  have "(\<forall>f\<in>set fs. field_parts_ok opts f) \<longleftrightarrow> (\<forall>d v. Field d v \<in> set fs \<longrightarrow> field_parts_ok opts (Field d v))"
    by (metis pb_field.exhaust)
  then show ?thesis unfolding split by (simp add: field_parts_ok_def) blast
qed

lemma concat_Nil_iff [simp]: "concat (map f xs) = [] \<longleftrightarrow> (\<forall>x\<in>set xs. f x = [])"
  by auto

lemma verr_nonempty [simp]: "verr t path m \<noteq> []"
  by (simp add: verr_def)

lemma check_lists [simp]:
  "check_no_unknown_fields fb unknown path = [] \<longleftrightarrow> unknown = []"
  "check_mandatory_oneof_fields oneofs path = [] \<longleftrightarrow> list_all (\<lambda>(name, mandatory, present). mandatory \<longrightarrow> present) oneofs"
  by (cases unknown; simp add: check_no_unknown_fields_def)
     (induction oneofs; auto simp: check_mandatory_oneof_fields_def split: if_splits)

lemma if_Nil [simp]: "(if c then xs else []) = [] \<longleftrightarrow> (c \<longrightarrow> xs = [])"
  by simp

lemma bindE_append_Nil [simp]:
  "bindE r (\<lambda>x. Inr (a @ x @ b)) = Inr [] \<longleftrightarrow> r = Inr [] \<and> a = [] \<and> b = []"
  "bindE r (\<lambda>x. bindE r' (\<lambda>y. Inr (x @ y))) = Inr [] \<longleftrightarrow> r = Inr [] \<and> r' = Inr []"
  "bindE r (\<lambda>y. Inr (a @ b @ y)) = Inr [] \<longleftrightarrow> r = Inr [] \<and> a = [] \<and> b = []"
  by (cases r; cases r'; auto)+

lemma if_Inr_Nil [simp]: "(if c then r else Inr []) = Inr [] \<longleftrightarrow> (c \<longrightarrow> r = Inr [])"
  by simp

lemma field_checks_iff: "field_checks opts d v path = Inr [] \<longleftrightarrow> field_ok opts d v"
proof -
  have icd: "check_icd_version opts d v path = Inr [] \<longleftrightarrow>
      (\<exists>s. v = Text s \<and> contains (supported_icd_versions opts) (map (\<lambda>c. if c = CHR ''_'' then CHR '' '' else c) s) = Inr True)"
    by (cases v) (auto simp: check_icd_version_def res_simps split: if_splits)
  have ids: "check_ulid_format_valid opts v path = [] \<longleftrightarrow> (\<forall>s. v = Text s \<longrightarrow> ulid_ok opts s)"
    "check_uuid_format_valid opts v path = [] \<longleftrightarrow> (\<forall>s. v = Text s \<longrightarrow> uuid_ok opts s)"
    by (cases v; simp add: check_ulid_format_valid_def check_uuid_format_valid_def)+
  have enum: "check_enum_values_known d v path = [] \<longleftrightarrow> (\<forall>known n. fd_type d = TEnum known \<and> v = Number n \<longrightarrow> n \<in> set known)"
    by (cases v; cases "fd_type d") (simp_all add: check_enum_values_known_def)
  show ?thesis
    unfolding field_checks_def field_ok_def missing_def
    by (simp add: icd ids enum del: if_split_asm split del: if_split) blast
qed

lemma validate_iff:
  "validate_message fb opts path m = Inr [] \<longleftrightarrow> all_parts_ok opts m"
  "validate_fields fb opts path fs = Inr [] \<longleftrightarrow> (\<forall>f\<in>set fs. field_parts_ok opts f)"
  "validate_field fb opts path f = Inr [] \<longleftrightarrow> field_parts_ok opts f"
  "validate_value fb opts path v = Inr [] \<longleftrightarrow> (\<forall>m\<in>set (submessages v). all_parts_ok opts m)"
  "validate_messages fb opts path i ms = Inr [] \<longleftrightarrow> (\<forall>m\<in>set ms. all_parts_ok opts m)"
proof (induction fb opts path m and fb opts path fs and fb opts path f and fb opts path v and fb opts path i ms
    rule: validate_message_validate_fields_validate_field_validate_value_validate_messages.induct)
  case (1 fb opts path unknown oneofs fs)
  then show ?case by (simp add: all_parts_ok_Pb del: if_split_asm split del: if_split) blast
next
  case (4 fb opts path d v)
  then show ?case by (simp add: field_parts_ok_def field_checks_iff split del: if_split)
qed simp_all

text \<open>Only the enabled checks report.\<close>

definition only_enabled :: "validation_options \<Rightarrow> validation_error list \<Rightarrow> bool" where
  "only_enabled opts es \<longleftrightarrow> list_all (\<lambda>e. enabled opts (ve_type e)) es"

lemma only_enabled_simps [simp]:
  "only_enabled opts []" "only_enabled opts (es @ es') \<longleftrightarrow> only_enabled opts es \<and> only_enabled opts es'"
  "only_enabled opts (verr t path m) \<longleftrightarrow> enabled opts t"
  "only_enabled opts (if c then es else []) \<longleftrightarrow> (c \<longrightarrow> only_enabled opts es)"
  by (simp_all add: only_enabled_def verr_def)

lemma only_enabled_concat: "(\<And>x. x \<in> set xs \<Longrightarrow> only_enabled opts (f x)) \<Longrightarrow> only_enabled opts (concat (map f xs))"
  by (induction xs) simp_all

lemma checks_enabled:
  "enabled opts SUPPORTED_ICD_VERSION \<Longrightarrow> check_icd_version opts d v path = Inr es \<Longrightarrow> only_enabled opts es"
  "enabled opts ID_FORMAT_VALID \<Longrightarrow> only_enabled opts (check_ulid_format_valid opts v path)"
  "enabled opts ID_FORMAT_VALID \<Longrightarrow> only_enabled opts (check_uuid_format_valid opts v path)"
  "enabled opts NO_UNKNOWN_ENUM_VALUES \<Longrightarrow> only_enabled opts (check_enum_values_known d v path)"
  "enabled opts t \<Longrightarrow> only_enabled opts (missing t m v path)"
  by (cases v; cases "fd_type d"; auto simp: check_icd_version_def res_simps check_ulid_format_valid_def
      check_uuid_format_valid_def check_enum_values_known_def missing_def)+

lemma field_checks_enabled:
  assumes "field_checks opts d v path = Inr es"
  shows "only_enabled opts es"
proof -
  let ?c = "enabled opts SUPPORTED_ICD_VERSION \<and> fd_type d = TString \<and> find_sub ''icd_version'' (fd_name d) \<noteq> None"
  obtain icd where icd: "(if ?c then check_icd_version opts d v path else Inr []) = Inr icd"
    using assms unfolding field_checks_def bindE_Inr_iff by blast
  have "only_enabled opts icd"
  proof (cases ?c)
    case True
    with icd have "check_icd_version opts d v path = Inr icd" by simp
    with True show ?thesis using checks_enabled(1) by blast
  next
    case False
    with icd have "icd = []" by (simp split: if_splits)
    then show ?thesis by simp
  qed
  with assms[unfolded field_checks_def icd] show ?thesis
    by (auto simp: checks_enabled split del: if_split)
qed

lemma validate_enabled:
  "validate_message fb opts path m = Inr es \<Longrightarrow> only_enabled opts es"
  "validate_fields fb opts path fs = Inr es \<Longrightarrow> only_enabled opts es"
  "validate_field fb opts path f = Inr es \<Longrightarrow> only_enabled opts es"
  "validate_value fb opts path v = Inr es \<Longrightarrow> only_enabled opts es"
  "validate_messages fb opts path i ms = Inr es \<Longrightarrow> only_enabled opts es"
proof (induction fb opts path m and fb opts path fs and fb opts path f and fb opts path v and fb opts path i ms
    arbitrary: es and es and es and es and es
    rule: validate_message_validate_fields_validate_field_validate_value_validate_messages.induct)
  case (1 fb opts path unknown oneofs fs)
  then show ?case
    by (auto simp: res_simps check_no_unknown_fields_def check_mandatory_oneof_fields_def intro!: only_enabled_concat)
next
  case (4 fb opts path d v)
  then show ?case by (auto simp: res_simps dest: field_checks_enabled split: if_splits)
qed (auto simp: res_simps)

lemma timestamps_iff:
  "check_message_timestamp_reasonable opts t received = [] \<longleftrightarrow>
     fst (timestamp_range opts) \<le> t - received \<and> t - received \<le> snd (timestamp_range opts)"
  "check_detection_timestamp_reasonable opts previous t = [] \<longleftrightarrow>
     (\<forall>p. previous = Some p \<longrightarrow> t = p \<or> p < t \<and> p + detection_gap opts \<le> t)"
  by (auto simp: check_message_timestamp_reasonable_def check_detection_timestamp_reasonable_def Let_def
      split: prod.splits option.splits)

section \<open>Properties\<close>

text \<open>C11. The validator of the middleware, for a message whose time can be read. It reports nothing
  exactly when the times are reasonable and every SAPIENT message inside, at any depth, passes the
  enabled checks: mandatory fields and groups set, no unknown field or enumeration value,
  identifiers well formed, the version supported; and what it reports is of an enabled type.\<close>

theorem middleware_validator_sound_complete:
  assumes "cm_time m = Inr t"
  shows "(fst (validate_sapient_message fb opts m received True previous) = Inr [] \<longleftrightarrow>
      (enabled opts MESSAGE_TIMESTAMP_REASONABLE \<longrightarrow>
         fst (timestamp_range opts) \<le> t - received \<and> t - received \<le> snd (timestamp_range opts))
    \<and> (enabled opts DETECTION_TIMESTAMP_REASONABLE \<and> cm_detection m \<longrightarrow>
         (\<forall>p. previous = Some p \<longrightarrow> t = p \<or> p < t \<and> p + detection_gap opts \<le> t))
    \<and> (\<forall>m'. part (cm_tree m) m' \<longrightarrow> message_ok opts m'))
    \<and> (\<forall>es. fst (validate_sapient_message fb opts m received True previous) = Inr es \<longrightarrow>
         (\<forall>e\<in>set es. enabled opts (ve_type e)))"
proof -
  define es1 where "es1 = (if enabled opts MESSAGE_TIMESTAMP_REASONABLE then check_message_timestamp_reasonable opts t received else [])"
  define es2 where "es2 = (if enabled opts DETECTION_TIMESTAMP_REASONABLE \<and> cm_detection m
    then check_detection_timestamp_reasonable opts previous t else [])"
  have eq: "fst (validate_sapient_message fb opts m received True previous) =
      bindE (validate_message fb opts [] (cm_tree m)) (\<lambda>es3. Inr (es1 @ es2 @ es3))"
    by (simp add: validate_sapient_message_def assms es1_def es2_def)
  have "only_enabled opts es1" "only_enabled opts es2"
    by (auto simp: es1_def es2_def check_message_timestamp_reasonable_def check_detection_timestamp_reasonable_def Let_def
        split: prod.split option.split)
  then have en: "only_enabled opts es" if "fst (validate_sapient_message fb opts m received True previous) = Inr es" for es
    using that validate_enabled(1) unfolding eq by (auto simp: res_simps)
  then have "\<forall>es. fst (validate_sapient_message fb opts m received True previous) = Inr es \<longrightarrow> (\<forall>e\<in>set es. enabled opts (ve_type e))"
    by (simp add: only_enabled_def list_all_iff)
  moreover have "fst (validate_sapient_message fb opts m received True previous) = Inr [] \<longleftrightarrow>
      es1 = [] \<and> es2 = [] \<and> all_parts_ok opts (cm_tree m)"
    unfolding eq validate_iff(1) [of fb opts "[]" "cm_tree m", symmetric] by auto
  ultimately show ?thesis
    by (simp add: es1_def es2_def timestamps_iff all_parts_ok_def)
qed

text \<open>A detection report with an identifier that is no ULID, nested below a repeated field.\<close>

definition id_field :: field_desc where
  "id_field = \<lparr>fd_name = ''report_id'', fd_type = TString, fd_repeated = False, fd_mandatory = True, fd_ulid = True, fd_uuid = False\<rparr>"

definition list_field :: field_desc where
  "list_field = \<lparr>fd_name = ''parts'', fd_type = TMessage True, fd_repeated = True, fd_mandatory = True, fd_ulid = False, fd_uuid = False\<rparr>"

definition demo_tree :: "string \<Rightarrow> pb_msg" where
  "demo_tree s = Pb [] [(''content'', True, True)] [Field list_field (Messages [Pb [] [] [Field id_field (Text s)]])]"

lemma middleware_validator_sound_complete_witness:
  "fst (validate_sapient_message \<lparr>f64_text = (\<lambda>_. []), f32_text = (\<lambda>_. [])\<rparr> (default_options\<lparr>types := [ID_FORMAT_VALID]\<rparr>)
     \<lparr>cm_tree = demo_tree ''x'', cm_time = Inr 5, cm_detection = True\<rparr> 0 True None) \<noteq> Inr []"
proof -
  have "part (demo_tree ''x'') (Pb [] [] [Field id_field (Text ''x'')])"
    unfolding demo_tree_def by (rule part.inside [of list_field]) (auto simp: nested_def list_field_def intro: part.itself)
  moreover have "\<not> message_ok (default_options\<lparr>types := [ID_FORMAT_VALID]\<rparr>) (Pb [] [] [Field id_field (Text ''x'')])"
    by (auto simp: field_ok_def id_field_def enabled_def ulid_ok_def ulid_chars_def default_options_def)
  ultimately show ?thesis
    using middleware_validator_sound_complete [of "\<lparr>cm_tree = demo_tree ''x'', cm_time = Inr 5, cm_detection = True\<rparr>" 5] by auto
qed

text \<open>A field for the version that is not set makes the check of supported versions raise.\<close>

lemma missing_icd_version_raises:
  assumes "enabled opts SUPPORTED_ICD_VERSION" "fd_type d = TString" "find_sub ''icd_version'' (fd_name d) \<noteq> None"
    and "Field d Absent \<in> set fs"
  shows "\<exists>e. validate_message fb opts path (Pb unknown oneofs fs) = Inl e"
proof -
  have "\<exists>e. validate_field fb opts path (Field d Absent) = Inl e"
    using assms(1-3) by (simp add: field_checks_def check_icd_version_def)
  with assms(4) have "\<exists>e. validate_fields fb opts path fs = Inl e"
    by (induction fs) (auto simp: bindE_def split: sum.split)
  then show ?thesis by auto
qed

text \<open>The number shown for an odd varint is one more than what zigzag encoding stands for.\<close>

definition zigzag_encode :: "int \<Rightarrow> nat" where
  "zigzag_encode i = (if 0 \<le> i then nat (2 * i) else nat (- 2 * i - 1))"

lemma zigzag_off_by_one: "zigzag (zigzag_encode i) = (if 0 \<le> i then i else i + 1)"
  by (auto simp: zigzag_def zigzag_encode_def even_nat_iff)

end
