(* ===== verification/ApexParse.thy ===== *)
theory ApexParse
  imports XmlTree ApexServer ApexTranslate ApexValidate "HOL-Library.List_Lexorder" "HOL-Library.Char_ord"
begin

text \<open>
  The parsers of the Apex middleware (\<open>sapient_apex_server/parse_proto.py\<close>, \<open>parse_xml.py\<close>): from the
  bytes of a message to its record. With them the server of \<open>ApexServer\<close> is closed up to what protobuf,
  \<open>ElementTree\<close> and the translators between XML and protobuf do, which is the argument \<open>env\<close>.

  Every exception inside the \<open>try\<close> block of \<open>parse_xml\<close> becomes an error of the record, which keeps what
  was filled in before; an exception elsewhere leaves the parser.
\<close>

section \<open>Adding an identifier\<close>

text \<open>\<open>insert_sensor_id\<close>: the new elements go behind the first \<open>timestamp\<close>.\<close>

fun insert_after_timestamp :: "string option \<Rightarrow> int \<Rightarrow> element list \<Rightarrow> element list option" where
  "insert_after_timestamp prev i [] = None"
| "insert_after_timestamp prev i (e # es) =
     (if tag e = Some ''timestamp''
      then Some (set_tail prev e # Element (Some ''sensorID'') [] (Some (show_int i)) None []
                 # Element None [] (Some ''Added by Apex'') (tail e) [] # es)
      else map_option (Cons e) (insert_after_timestamp (tail e) i es))"

definition insert_id :: "element \<Rightarrow> int \<Rightarrow> element res" where
  "insert_id elem i = (case insert_after_timestamp (etext elem) i (kids elem) of
      Some es \<Rightarrow> Inr (Element (tag elem) (attrs elem) (etext elem) (tail elem) es)
    | None \<Rightarrow> Inl (runtime_error ''timestamp element not found''))"

section \<open>What the libraries do\<close>

text \<open>\<open>empty_message\<close>, \<open>parse_into\<close> and \<open>to_json\<close> are protobuf's, \<open>view\<close> and the fields below it read a
  message; an \<open>error_message\<close> is a text in version 1 and a list of texts in version 2. \<open>to_xml\<close> and
  \<open>to_proto\<close> are the translators, which may add identifiers to the generator.\<close>

record 'p parse_env =
  json_of :: "'p json_format"
  parse_into :: "'p \<Rightarrow> bytes \<Rightarrow> 'p res"
  to_json :: "'p \<Rightarrow> string res"
  serialise_to_string :: "'p \<Rightarrow> bytes res"
  view :: "'p \<Rightarrow> checked_message"
  node_id_of :: "'p \<Rightarrow> string"
  destination_of :: "'p \<Rightarrow> string"
  content_of :: "'p \<Rightarrow> string option"
  short_name_of :: "'p \<Rightarrow> string"
  info_of :: "'p \<Rightarrow> int"
  system_of :: "'p \<Rightarrow> int"
  error_message_of :: "'p \<Rightarrow> pyval"
  confidence_of :: "'p \<Rightarrow> flt"
  versions :: "('p, element) lib"
  to_xml :: "'p \<Rightarrow> id_generator \<Rightarrow> element res \<times> id_generator"
  to_proto :: "element \<Rightarrow> id_generator \<Rightarrow> ('p \<times> string list) res \<times> id_generator"
  from_text :: "string \<Rightarrow> element res"
  to_text :: "element \<Rightarrow> string"
  decode_utf8 :: "bytes \<Rightarrow> string res"
  new_ulid :: "received_data \<Rightarrow> string"
  bits :: float_bits
  options :: validation_options

section \<open>Protobuf messages (\<open>parse_proto.py\<close>)\<close>

text \<open>The rest of the middleware, with the operations modelled here and in \<open>ApexTranslate\<close>.\<close>

definition apex_lib :: "'p parse_env \<Rightarrow> ('p, element) lib" where
  "apex_lib env = with_translators (json_of env) ((versions env)\<lparr>insert_sensor_id := insert_id\<rparr>)"

definition system_name :: "int \<Rightarrow> string res" where
  "system_name n = (case map_of [(0, ''SYSTEM_UNSPECIFIED''), (1, ''SYSTEM_OK''), (2, ''SYSTEM_WARNING''), (3, ''SYSTEM_ERROR''),
       (5, ''SYSTEM_GOODBYE'')] n of
      Some s \<Rightarrow> Inr s | None \<Rightarrow> Inl (value_error (''Enum System has no name defined for value '' @ show_int n)))"

definition INFO_NEW :: int where "INFO_NEW = 1"
definition INFO_UNCHANGED :: int where "INFO_UNCHANGED = 2"

definition fresh_record :: "received_data \<Rightarrow> bytes option \<Rightarrow> sapient_version \<Rightarrow> ('p, element) message_record" where
  "fresh_record raw binary v =
     \<lparr>received = raw, data_decoded_xml = [], data_binary_proto = binary, forwarded_count = 0, parsed = None,
      registered = None, status_report = None, error = None, updated_data_bytes = None, version = v\<rparr>"

definition noisy :: "string \<Rightarrow> ('p, 'x) message_record \<Rightarrow> ('p, 'x) message_record" where
  "noisy s r = r\<lparr>error := Some (NoisyError s)\<rparr>"

lemma error_noisy [simp]: "error (noisy t r) = Some (NoisyError t)" "received (noisy t r) = received r"
  by (simp_all add: noisy_def)

definition validation_text :: "validation_error list \<Rightarrow> string" where
  "validation_text es = ''Validation '' @ show_nat (length es) @ '' errors:'' @ [CHR 0x0A] @ join_with [CHR 0x0A] (map full_str es)"

definition is_decode_error :: "exn \<Rightarrow> bool" where
  "is_decode_error e \<longleftrightarrow> (case e of PyExc c m \<Rightarrow> c = ''DecodeError'' | HttpExc n m \<Rightarrow> False)"

definition decode_message :: "'p parse_env \<Rightarrow> sapient_version \<Rightarrow> bytes \<Rightarrow> 'p res" where
  "decode_message env v data =
     bindE (empty_sapient_message (json_of env) v) (\<lambda>e. bindE (parse_into env e data) (\<lambda>m. bindE (to_json env m) (\<lambda>_. Inr m)))"

text \<open>The identifiers of the sender. \<open>Failed\<close> is an exception, \<open>Untranslatable\<close> one that is reported. The
  case \<open>None\<close> of \<open>to_version\<close> does not occur, see \<open>to_version_cases\<close>.\<close>

datatype sender = Failed exn | Untranslatable string | Sender string "int option" string

definition identify :: "'p parse_env \<Rightarrow> bool \<Rightarrow> sapient_version \<Rightarrow> 'p \<Rightarrow> received_data \<Rightarrow> id_generator \<Rightarrow> sender \<times> id_generator" where
  "identify env conversion v m raw g =
     (if \<not> conversion then (Sender (node_id_of env m) None [], g)
      else case to_version (apex_lib env) m v BSI_FLEX_335_V1_0 of
        None \<Rightarrow> (Failed assertion_error, g)
      | Some (Inl e) \<Rightarrow> (Untranslatable (''TranslationError: '' @ exn_str e), g)
      | Some (Inr m1) \<Rightarrow>
          (case to_xml env m1 g of
             (Inl e, g1) \<Rightarrow> (Untranslatable (''TranslationError: '' @ exn_str e), g1)
           | (Inr x, g1) \<Rightarrow>
               if node_id_of env m \<noteq> []
               then (case map_of (node_id_map g1) (node_id_of env m) of
                       None \<Rightarrow> (Failed (PyExc ''KeyError'' (repr_str (node_id_of env m))), g1)
                     | Some v \<Rightarrow> (case xml_id v of
                         Inl e \<Rightarrow> (Failed e, g1)
                       | Inr i \<Rightarrow> (Sender (node_id_of env m) (Some i) (to_text env x), g1)))
               else (case get_id_ulid_pair (new_ulid env raw) g1 of
                       ((u, i), g2) \<Rightarrow> (Sender u (Some i) (to_text env x), g2))))"

text \<open>The content: whether the record is returned as it is, and the record.\<close>

definition content_part :: "'p parse_env \<Rightarrow> 'p \<Rightarrow> string \<Rightarrow> ('p, element) message_record \<Rightarrow> (bool \<times> ('p, element) message_record) res" where
  "content_part env m ulid r =
     (if content_of env m = Some ''registration''
      then Inr (if ulid = [] then (True, noisy ''Registration missing node ID'' r)
                else (False, r\<lparr>registered := Some (short_name_of env m)\<rparr>))
      else if content_of env m = Some ''status_report''
      then (if info_of env m \<noteq> INFO_NEW \<and> info_of env m \<noteq> INFO_UNCHANGED
            then bindE (system_name (info_of env m)) (\<lambda>n. Inr (True, noisy (''Unknown status info: '' @ n) r))
            else bindE (system_name (system_of env m)) (\<lambda>n.
              Inr (False, r\<lparr>status_report := Some \<lparr>system = Some (drop 7 n), is_unchanged = (info_of env m = INFO_UNCHANGED)\<rparr>\<rparr>)))
      else if content_of env m = Some ''error''
      then bindE (comma_joined (error_message_of env m)) (\<lambda>t. case t of
             PStr s \<Rightarrow> Inr (False, r\<lparr>error := Some (SilentError s)\<rparr>) | _ \<Rightarrow> Inr (False, r))
      else Inr (False, r))"

definition none_if :: "bool \<Rightarrow> 'a \<Rightarrow> 'a option" where
  "none_if c x = (if c then None else Some x)"

definition parsed_part :: "'p parse_env \<Rightarrow> 'p \<Rightarrow> string \<Rightarrow> int option \<Rightarrow> string \<Rightarrow> ('p, element) message_record \<Rightarrow> ('p, element) message_record res" where
  "parsed_part env m ulid sensor xml r =
     bindE (cm_time (view env m)) (\<lambda>t.
     bindE (if xml = [] then Inr None else bindE (from_text env (strip xml)) (\<lambda>x. Inr (Some x))) (\<lambda>px.
       Inr (r\<lparr>parsed := Some \<lparr>message_type = content_of env m, pr_node_id = none_if (ulid = []) ulid,
          internal_sensor_id = Option.bind sensor (\<lambda>i. none_if (i = 0) i),
          destination_node_id = none_if (destination_of env m = []) (destination_of env m), message_timestamp = t,
          detection_confidence = none_if (confidence_of env m = Fin 0) (confidence_of env m),
          parsed_proto = Some m, parsed_xml = px\<rparr>\<rparr>)))"

definition validation_part :: "'p parse_env \<Rightarrow> 'p \<Rightarrow> received_data \<Rightarrow> int option \<Rightarrow> validation_error list res \<times> int option" where
  "validation_part env m raw prev =
     (if is_validation_required (options env)
      then validate_sapient_message (bits env) (options env) (view env m) (rd_timestamp raw) True prev
      else (Inr [], prev))"

definition parse_proto ::
  "'p parse_env \<Rightarrow> bool \<Rightarrow> sapient_version \<Rightarrow> received_data \<Rightarrow> int option \<times> id_generator
     \<Rightarrow> ('p, element) message_record res \<times> int option \<times> id_generator" where
  "parse_proto env conversion v raw st =
     (case st of (prev, g) \<Rightarrow>
        let r = fresh_record raw (Some (data_bytes raw)) v in
        case decode_message env v (data_bytes raw) of
          Inl e \<Rightarrow> (if is_decode_error e then Inr (noisy (''DecodeError: '' @ exn_str e) r) else Inl e, prev, g)
        | Inr m \<Rightarrow>
            (case validation_part env m raw prev of
               (Inl e, prev1) \<Rightarrow> (Inl e, prev1, g)
             | (Inr es, prev1) \<Rightarrow>
                 if es \<noteq> [] then (Inr (noisy (validation_text es) r), prev1, g)
                 else (case identify env conversion v m raw g of
                         (Failed e, g1) \<Rightarrow> (Inl e, prev1, g1)
                       | (Untranslatable t, g1) \<Rightarrow> (Inr (noisy t r), prev1, g1)
                       | (Sender ulid sensor xml, g1) \<Rightarrow>
                           (bindE (content_part env m ulid (r\<lparr>data_decoded_xml := xml\<rparr>)) (\<lambda>(stop, r1).
                              if stop then Inr r1 else parsed_part env m ulid sensor xml r1), prev1, g1))))"

section \<open>XML messages (\<open>parse_xml.py\<close>)\<close>

definition wanted :: "string option \<Rightarrow> bool \<Rightarrow> string list \<times> string list" where
  "wanted elem allow_missing =
     (let optional_id = allow_missing \<and> elem = Some ''SensorRegistration'' in
      (''timestamp'' # (if optional_id then [] else [''sensorID''])
       @ (if elem = Some ''StatusReport'' then [''system'', ''info'']
          else if elem = Some ''SensorRegistration'' then [''sensorType''] else []),
       (if optional_id then [''sensorID''] else [])
       @ (if elem = Some ''DetectionReport'' then [''detectionConfidence''] else [])))"

type_synonym children = "(string, string option) odict"

fun scan_children :: "string list \<Rightarrow> string list \<Rightarrow> children \<Rightarrow> element list \<Rightarrow> string list \<times> children" where
  "scan_children miss opt found [] = (miss, found)"
| "scan_children miss opt found (e # es) =
     (case tag e of
        None \<Rightarrow> scan_children miss opt found es
      | Some t0 \<Rightarrow>
          let t = (if t0 = ''sourceID'' then ''sensorID'' else t0);
              found' = (if t \<in> set miss \<or> t \<in> set opt then AList.update t (etext e) found else found);
              miss' = removeAll t miss; opt' = (if t \<in> set miss then opt else removeAll t opt)
          in if miss' = [] \<and> opt' = [] then ([], found') else scan_children miss' opt' found' es)"

definition tag_text :: "string option \<Rightarrow> string" where
  "tag_text t = (case t of None \<Rightarrow> [] | Some s \<Rightarrow> s)"

definition get_xml_children :: "element \<Rightarrow> bool \<Rightarrow> children res" where
  "get_xml_children elem allow_missing =
     (case wanted (tag elem) allow_missing of (miss, opt) \<Rightarrow>
        (case scan_children miss opt [] (kids elem) of (left, found) \<Rightarrow>
           if left = [] then Inr found
           else Inl (value_error (''Missing element(s) ['' @
             join_with '','' (sort (map (\<lambda>t. if t = ''sensorID'' then ''sensorID/sourceID'' else t) left))
             @ ''] in '' @ tag_text (tag elem)))))"

text \<open>\<open>int(s)\<close>, \<open>float(s)\<close>, \<open>str_to_datetime(s)\<close> and \<open>s.lower()\<close> of an element's text, which may be missing.\<close>

definition on_text :: "exn \<Rightarrow> (string \<Rightarrow> 'a res) \<Rightarrow> string option \<Rightarrow> 'a res" where
  "on_text e f t = (case t of None \<Rightarrow> Inl e | Some s \<Rightarrow> f s)"

definition int_text :: "string option \<Rightarrow> int res" where
  "int_text = on_text (type_error ''int() argument must be a string'') (\<lambda>s. case parse_int s of
     Some i \<Rightarrow> Inr i | None \<Rightarrow> Inl (value_error (''invalid literal for int() with base 10: '' @ repr_str s)))"

definition float_text :: "string option \<Rightarrow> flt res" where
  "float_text = on_text (type_error ''float() argument must be a string'') (\<lambda>s. case parse_float s of
     Some x \<Rightarrow> Inr x | None \<Rightarrow> Inl (value_error (''could not convert string to float: '' @ repr_str s)))"

definition when_present :: "string \<Rightarrow> (string option \<Rightarrow> 'a res) \<Rightarrow> children \<Rightarrow> 'a option res" where
  "when_present k f ch = (case map_of ch k of None \<Rightarrow> Inr None | Some t \<Rightarrow> bindE (f t) (\<lambda>x. Inr (Some x)))"

definition child_at :: "string \<Rightarrow> children \<Rightarrow> string option res" where
  "child_at k ch = (case map_of ch k of Some t \<Rightarrow> Inr t | None \<Rightarrow> Inl (PyExc ''KeyError'' (repr_str k)))"

definition parsed_of_children :: "element \<Rightarrow> children \<Rightarrow> ('p, element) parsed_record res" where
  "parsed_of_children elem ch =
     bindE (when_present ''sensorID'' int_text ch) (\<lambda>i.
     bindE (bindE (child_at ''timestamp'' ch) (on_text (no_attribute ''split'') str_to_datetime)) (\<lambda>t.
     bindE (when_present ''detectionConfidence'' float_text ch) (\<lambda>c.
       Inr \<lparr>message_type = None, pr_node_id = None, internal_sensor_id = i, destination_node_id = None,
            message_timestamp = t, detection_confidence = c, parsed_proto = None, parsed_xml = Some elem\<rparr>)))"

text \<open>The identifier that a registration without one is given.\<close>

definition assign_id :: "bool \<Rightarrow> element \<Rightarrow> children \<Rightarrow> id_generator \<Rightarrow> (element \<times> children) res \<times> id_generator" where
  "assign_id auto elem ch g =
     (if tag elem = Some ''SensorRegistration'' \<and> map_of ch ''sensorID'' = None \<and> auto
      then (case get_next_id g of (i, g1) \<Rightarrow>
              (bindE (insert_id elem i) (\<lambda>root1. Inr (root1, AList.update ''sensorID'' (Some (show_int i)) ch)), g1))
      else (Inr (elem, ch), g))"

text \<open>What follows the validation. A \<open>None\<close> node name of a registration is its text.\<close>

definition xml_content :: "element \<Rightarrow> children \<Rightarrow> ('p, element) message_record \<Rightarrow> ('p, element) message_record res" where
  "xml_content elem ch r =
     (if tag elem = Some ''SensorRegistration''
      then bindE (child_at ''sensorType'' ch) (\<lambda>t. Inr (r\<lparr>registered := Some (case t of None \<Rightarrow> ''None'' | Some s \<Rightarrow> s)\<rparr>))
      else if tag elem = Some ''StatusReport''
      then bindE (bindE (child_at ''info'' ch) (on_text (no_attribute ''lower'') (\<lambda>s. Inr (map lower_char s)))) (\<lambda>info.
           if info \<noteq> ''new'' \<and> info \<noteq> ''unchanged''
           then Inl (value_error ''Field \"info\" of StatusReport must be \"New\" or \"Unchanged\"'')
           else bindE (child_at ''system'' ch) (\<lambda>sys. Inr (r\<lparr>status_report := Some \<lparr>system = sys, is_unchanged = (info = ''unchanged'')\<rparr>\<rparr>)))
      else Inr r)"

text \<open>The stored JSON text is cut to its first character; it is not kept here.\<close>

definition finish_xml :: "'p parse_env \<Rightarrow> 'p \<Rightarrow> ('p, element) parsed_record \<Rightarrow> ('p, element) message_record \<Rightarrow> ('p, element) message_record" where
  "finish_xml env m p r = (case serialise_to_string env m of
      Inl e \<Rightarrow> noisy (exn_str e) r
    | Inr b \<Rightarrow>
        (case to_json env m of
           Inl e \<Rightarrow> noisy (exn_str e) (r\<lparr>data_binary_proto := Some b\<rparr>)
         | Inr j \<Rightarrow> if j = [] then noisy ''string index out of range'' (r\<lparr>data_binary_proto := Some b\<rparr>)
             else r\<lparr>data_binary_proto := Some b, parsed := Some (p\<lparr>pr_node_id := Some (node_id_of env m),
                    destination_node_id := none_if (destination_of env m = []) (destination_of env m)\<rparr>)\<rparr>))"

definition validated_xml ::
  "'p parse_env \<Rightarrow> element \<Rightarrow> children \<Rightarrow> 'p \<Rightarrow> ('p, element) parsed_record \<Rightarrow> int option \<Rightarrow> ('p, element) message_record
     \<Rightarrow> ('p, element) message_record \<times> int option" where
  "validated_xml env elem ch m p prev r =
     (case validate_sapient_message (bits env) (options env) (view env m) (rd_timestamp (received r)) False prev of
        (Inl e, prev1) \<Rightarrow> (noisy (exn_str e) r, prev1)
      | (Inr es, prev1) \<Rightarrow>
          (if es \<noteq> [] then noisy (validation_text es) r
           else case xml_content elem ch r of Inl e \<Rightarrow> noisy (exn_str e) r | Inr r1 \<Rightarrow> finish_xml env m p r1, prev1))"

definition translate_xml ::
  "'p parse_env \<Rightarrow> element \<Rightarrow> children \<Rightarrow> int option \<times> id_generator \<Rightarrow> ('p, element) message_record
     \<Rightarrow> ('p, element) message_record \<times> int option \<times> id_generator" where
  "translate_xml env elem ch st r =
     (case st of (prev, g) \<Rightarrow>
        (case parsed_of_children elem ch of
           Inl e \<Rightarrow> (noisy (exn_str e) r, prev, g)
         | Inr p \<Rightarrow>
             (case to_proto env elem g of
                (Inl e, g1) \<Rightarrow> (noisy (exn_str e) (r\<lparr>parsed := Some p\<rparr>), prev, g1)
              | (Inr (m, _), g1) \<Rightarrow>
                  let p1 = p\<lparr>parsed_proto := Some m, message_type := content_of env m\<rparr>
                  in (case validated_xml env elem ch m p1 prev (r\<lparr>parsed := Some p1\<rparr>) of (r1, prev1) \<Rightarrow> (r1, prev1, g1)))))"

definition parse_xml ::
  "'p parse_env \<Rightarrow> bool \<Rightarrow> received_data \<Rightarrow> int option \<times> id_generator
     \<Rightarrow> ('p, element) message_record res \<times> int option \<times> id_generator" where
  "parse_xml env auto raw st =
     (case st of (prev, g) \<Rightarrow>
        if data_bytes raw = [] \<or> last (data_bytes raw) \<noteq> 0 then (Inl assertion_error, prev, g)
        else let r0 = fresh_record raw None VERSION6 in
          case decode_utf8 env (butlast (data_bytes raw)) of
            Inl e \<Rightarrow> (Inr r0, prev, g)
          | Inr text \<Rightarrow>
              let r = r0\<lparr>data_decoded_xml := text\<rparr> in
              (case from_text env (strip text) of
                 Inl e \<Rightarrow> (Inr (noisy (exn_str e) r), prev, g)
               | Inr elem \<Rightarrow>
                   if tag elem = Some ''Error''
                   then (Inr (r\<lparr>error := Some (SilentError ''Received \"Error\" message'')\<rparr>), prev, g)
                   else (case get_xml_children elem auto of
                           Inl e \<Rightarrow> (Inr (noisy (exn_str e) r), prev, g)
                         | Inr ch \<Rightarrow>
                             (case assign_id auto elem ch g of
                                (Inl e, g1) \<Rightarrow> (Inr (noisy (exn_str e) r), prev, g1)
                              | (Inr (root1, ch1), g1) \<Rightarrow>
                                  (case translate_xml env root1 ch1 (prev, g1) r of (r1, st1) \<Rightarrow> (Inr r1, st1))))))"

text \<open>The parser that \<open>_get_parser\<close> chooses.\<close>

definition apex_parse :: "'p parse_env \<Rightarrow> ('p, element) parse_fun" where
  "apex_parse env p = (case p of ParseProto conversion v \<Rightarrow> parse_proto env conversion v | ParseXml auto \<Rightarrow> parse_xml env auto)"

section \<open>The parsers keep the data\<close>

lemma comma_joined_text: "comma_joined x = Inr t \<Longrightarrow> \<exists>s. t = PStr s"
  by (cases x) (auto simp: bindE_Inr_iff)

lemma content_part_cases:
  assumes "content_part env m ulid r = Inr (stop, r1)"
  obtains (anonymous) "content_of env m = Some ''registration''" "ulid = []" "stop" "r1 = noisy ''Registration missing node ID'' r"
    | (registration) "content_of env m = Some ''registration''" "ulid \<noteq> []" "\<not> stop" "r1 = r\<lparr>registered := Some (short_name_of env m)\<rparr>"
    | (bad_info) n where "content_of env m = Some ''status_report''" "stop" "r1 = noisy (''Unknown status info: '' @ n) r"
    | (status) n where "content_of env m = Some ''status_report''" "info_of env m = INFO_NEW \<or> info_of env m = INFO_UNCHANGED" "\<not> stop"
        "r1 = r\<lparr>status_report := Some \<lparr>system = Some n, is_unchanged = (info_of env m = INFO_UNCHANGED)\<rparr>\<rparr>"
    | (reported) t where "content_of env m = Some ''error''" "\<not> stop" "r1 = r\<lparr>error := Some (SilentError t)\<rparr>"
    | (other) "content_of env m \<notin> {Some ''registration'', Some ''status_report'', Some ''error''}" "\<not> stop" "r1 = r"
proof -
  consider "content_of env m = Some ''registration''" | "content_of env m = Some ''status_report''" | "content_of env m = Some ''error''"
    | "content_of env m \<notin> {Some ''registration'', Some ''status_report'', Some ''error''}" by blast
  then show ?thesis
  proof cases
    case 1
    with assms anonymous registration show ?thesis by (simp add: content_part_def split: if_splits)
  next
    case 2
    with assms bad_info status show ?thesis by (auto simp: content_part_def bindE_Inr_iff split: if_splits)
  next
    case 3
    then obtain t where "comma_joined (error_message_of env m) = Inr t"
      "(case t of PStr s \<Rightarrow> Inr (False, r\<lparr>error := Some (SilentError s)\<rparr>) | _ \<Rightarrow> Inr (False, r)) = (Inr (stop, r1) :: _ res)"
      using assms by (auto simp: content_part_def bindE_Inr_iff)
    with 3 comma_joined_text [of "error_message_of env m" t] reported show ?thesis by auto
  next
    case 4
    with assms other show ?thesis by (simp add: content_part_def)
  qed
qed

lemma content_part_keeps:
  assumes "content_part env m ulid r = Inr (b, r1)"
  shows "received r1 = received r"
  using assms by (cases rule: content_part_cases) (simp_all add: noisy_def)

lemma parsed_part_keeps: "parsed_part env m ulid i x r = Inr r1 \<Longrightarrow> received r1 = received r"
  by (auto simp: parsed_part_def bindE_Inr_iff)

lemma parse_proto_keeps: "parse_proto env conversion v raw st = (Inr m, st') \<Longrightarrow> received m = raw"
  by (auto simp: parse_proto_def Let_def fresh_record_def noisy_def bindE_Inr_iff
      split: prod.splits sum.splits if_splits sender.splits dest!: content_part_keeps parsed_part_keeps)

lemma xml_content_keeps: "xml_content e ch r = Inr r1 \<Longrightarrow> received r1 = received r \<and> error r1 = error r \<and> parsed r1 = parsed r"
  by (auto simp: xml_content_def bindE_Inr_iff split: if_splits)

lemma finish_xml_keeps: "received (finish_xml env m p r) = received r"
  by (simp add: finish_xml_def noisy_def split: sum.split)

lemma validated_xml_keeps: "validated_xml env e ch m p prev r = (r1, prev1) \<Longrightarrow> received r1 = received r"
  by (auto simp: validated_xml_def noisy_def finish_xml_keeps split: prod.splits sum.splits if_splits dest!: xml_content_keeps)

lemma translate_xml_keeps: "translate_xml env e ch st r = (r1, st1) \<Longrightarrow> received r1 = received r"
  by (auto simp: translate_xml_def noisy_def Let_def split: prod.splits sum.splits dest!: validated_xml_keeps)

lemma parse_xml_keeps: "parse_xml env auto raw st = (Inr m, st') \<Longrightarrow> received m = raw"
  by (auto simp: parse_xml_def Let_def fresh_record_def noisy_def
      split: prod.splits sum.splits if_splits dest!: translate_xml_keeps)

lemma apex_parse_keeps: "apex_parse env p raw st = (Inr m, st') \<Longrightarrow> received m = raw"
  by (auto simp: apex_parse_def parse_proto_keeps parse_xml_keeps split: parser.splits)

interpretation ap: message_parser "apex_parse env"
  by unfold_locales (rule apex_parse_keeps)

section \<open>Records without an error\<close>

lemma content_part_sound:
  assumes "content_part env m ulid r = Inr (stop, r1)" "error r = None" "error r1 = None"
  shows "\<not> stop \<and> content_of env m \<noteq> Some ''error'' \<and> parsed r1 = parsed r
    \<and> (content_of env m = Some ''registration'' \<longrightarrow> ulid \<noteq> [])
    \<and> (content_of env m = Some ''status_report'' \<longrightarrow> info_of env m = INFO_NEW \<or> info_of env m = INFO_UNCHANGED)
    \<and> (registered r = None \<longrightarrow> registered r1 = (if content_of env m = Some ''registration'' then Some (short_name_of env m) else None))
    \<and> (status_report r = None \<longrightarrow> (status_report r1 \<noteq> None) = (content_of env m = Some ''status_report''))"
  using assms by (cases rule: content_part_cases) (simp_all add: noisy_def)

lemma parsed_part_sound:
  assumes "parsed_part env m ulid i x r = Inr r1"
  shows "\<exists>p. r1 = r\<lparr>parsed := Some p\<rparr> \<and> parsed_proto p = Some m \<and> message_type p = content_of env m
    \<and> pr_node_id p = none_if (ulid = []) ulid \<and> internal_sensor_id p = Option.bind i (\<lambda>n. none_if (n = 0) n)
    \<and> destination_node_id p = none_if (destination_of env m = []) (destination_of env m)
    \<and> cm_time (view env m) = Inr (message_timestamp p) \<and> (parsed_xml p = None \<longleftrightarrow> x = [])"
  using assms by (auto simp: parsed_part_def bindE_Inr_iff split: if_splits)

text \<open>C10. What a message in protobuf is that the server goes on to handle. When the record carries no error,
  the bytes decoded, the validator (where it is switched on) had nothing to report, and the record holds the
  decoded message with its content, sender and destination; a registration names its node, a status report is
  new or unchanged, and a message of the kind error is never among them.\<close>

theorem accepted_proto_message:
  assumes "parse_proto env conversion v raw (prev, g) = (Inr r, st')" "error r = None"
  shows "\<exists>m p. decode_message env v (data_bytes raw) = Inr m \<and> parsed r = Some p \<and> parsed_proto p = Some m
    \<and> (is_validation_required (options env) \<longrightarrow>
         fst (validate_sapient_message (bits env) (options env) (view env m) (rd_timestamp raw) True prev) = Inr [])
    \<and> received r = raw \<and> data_binary_proto r = Some (data_bytes raw) \<and> version r = v
    \<and> message_type p = content_of env m \<and> content_of env m \<noteq> Some ''error''
    \<and> destination_node_id p = none_if (destination_of env m = []) (destination_of env m)
    \<and> (node_id_of env m \<noteq> [] \<longrightarrow> pr_node_id p = Some (node_id_of env m))
    \<and> registered r = (if content_of env m = Some ''registration'' then Some (short_name_of env m) else None)
    \<and> (content_of env m = Some ''registration'' \<longrightarrow> pr_node_id p \<noteq> None)
    \<and> (status_report r \<noteq> None \<longleftrightarrow> content_of env m = Some ''status_report'')
    \<and> (content_of env m = Some ''status_report'' \<longrightarrow> info_of env m \<in> {INFO_NEW, INFO_UNCHANGED})"
proof -
  let ?r = "fresh_record raw (Some (data_bytes raw)) v"
  obtain m where m: "decode_message env v (data_bytes raw) = Inr m"
    using assms by (cases "decode_message env v (data_bytes raw)") (auto simp: parse_proto_def Let_def split: if_splits)
  obtain prev1 where va: "validation_part env m raw prev = (Inr [], prev1)"
    using assms m by (auto simp: parse_proto_def Let_def split: prod.splits sum.splits if_splits)
  obtain ulid i x g1 where s: "identify env conversion v m raw g = (Sender ulid i x, g1)"
    using assms m va by (auto simp: parse_proto_def Let_def split: prod.splits sender.splits)
  have "bindE (content_part env m ulid (?r\<lparr>data_decoded_xml := x\<rparr>)) (\<lambda>(stop, r1).
      if stop then Inr r1 else parsed_part env m ulid i x r1) = Inr r"
    using assms(1) m va s by (simp add: parse_proto_def)
  then obtain stop r1 where c: "content_part env m ulid (?r\<lparr>data_decoded_xml := x\<rparr>) = Inr (stop, r1)"
    and f: "(if stop then Inr r1 else parsed_part env m ulid i x r1) = Inr r"
    by (auto simp: bindE_Inr_iff)
  have ns: "\<not> stop" using c f assms(2) by (cases rule: content_part_cases) (auto simp: noisy_def)
  with f obtain p where r: "r = r1\<lparr>parsed := Some p\<rparr>" and p: "parsed_proto p = Some m" "message_type p = content_of env m"
    "pr_node_id p = none_if (ulid = []) ulid"
    "destination_node_id p = none_if (destination_of env m = []) (destination_of env m)"
    using parsed_part_sound [of env m ulid i x r1 r] by auto
  have "error r1 = None" using assms(2) r by simp
  note sound = content_part_sound [OF c _ this]
  have ulid: "node_id_of env m \<noteq> [] \<longrightarrow> ulid = node_id_of env m"
    using s by (auto simp: identify_def split: if_splits option.splits sum.splits prod.splits)
  have "is_validation_required (options env) \<longrightarrow>
      fst (validate_sapient_message (bits env) (options env) (view env m) (rd_timestamp raw) True prev) = Inr []"
    using va by (auto simp: validation_part_def)
  moreover have "received r1 = raw \<and> data_binary_proto r1 = Some (data_bytes raw) \<and> version r1 = v"
    using c by (cases rule: content_part_cases) (simp_all add: noisy_def fresh_record_def)
  ultimately show ?thesis
    using m r p sound ulid by (auto simp: fresh_record_def none_if_def)
qed

section \<open>The children of an XML message\<close>

text \<open>The texts of the children by tag, the two spellings of the identifier being one tag.\<close>

definition kid_tag :: "string \<Rightarrow> string" where
  "kid_tag t = (if t = ''sourceID'' then ''sensorID'' else t)"

fun kid_texts :: "element list \<Rightarrow> (string \<times> string option) list" where
  "kid_texts [] = []"
| "kid_texts (e # es) = (case tag e of None \<Rightarrow> kid_texts es | Some t \<Rightarrow> (kid_tag t, etext e) # kid_texts es)"

definition taken :: "string set \<Rightarrow> children \<Rightarrow> element list \<Rightarrow> string \<Rightarrow> string option option" where
  "taken ts found es t = (if t \<in> ts then (case map_of (kid_texts es) t of None \<Rightarrow> map_of found t | Some x \<Rightarrow> Some x) else map_of found t)"

lemma scan_children_spec:
  assumes "scan_children miss opt found es = (left, found')" "set miss \<inter> set opt = {}"
  shows "set left = set miss - fst ` set (kid_texts es) \<and> map_of found' = taken (set miss \<union> set opt) found es"
  using assms
proof (induction miss opt found es rule: scan_children.induct)
  case (2 miss opt found e es)
  show ?case
  proof (cases "tag e")
    case None
    with 2 show ?thesis by (auto simp: taken_def fun_eq_iff)
  next
    case (Some t0)
    let ?t = "kid_tag t0"
    define f where "f = (if ?t \<in> set miss \<or> ?t \<in> set opt then AList.update ?t (etext e) found else found)"
    define m where "m = removeAll ?t miss"
    define p where "p = (if ?t \<in> set miss then opt else removeAll ?t opt)"
    have step: "(if m = [] \<and> p = [] then ([], f) else scan_children m p f es) = (left, found')"
      using "2.prems"(1) Some unfolding f_def m_def p_def kid_tag_def by (simp add: Let_def)
    have sets: "set m = set miss - {?t}" "set p = set opt - {?t}" using "2.prems"(2) by (auto simp: m_def p_def)
    have rest: "set left = set m - fst ` set (kid_texts es) \<and> map_of found' = taken (set m \<union> set p) f es"
    proof (cases "m = [] \<and> p = []")
      case True
      with step show ?thesis by (auto simp: taken_def)
    next
      case False
      show ?thesis
        by (rule "2.IH"(2) [OF Some refl refl refl refl, folded kid_tag_def, folded f_def m_def p_def, OF False])
           (use step False sets "2.prems"(2) in auto)
    qed
    have "set left = set miss - fst ` set (kid_texts (e # es))" using rest Some sets by auto
    moreover have "map_of found' t = taken (set miss \<union> set opt) found (e # es) t" for t
    proof (cases "t = ?t")
      case True
      have "?t \<notin> set m \<union> set p" using sets by auto
      with rest have "map_of found' ?t = map_of f ?t" by (simp add: taken_def)
      with True Some show ?thesis by (simp add: taken_def f_def update_conv)
    next
      case False
      then have "t \<in> set m \<union> set p \<longleftrightarrow> t \<in> set miss \<union> set opt" "map_of f t = map_of found t"
        using sets by (auto simp: f_def update_conv)
      moreover have "map_of (kid_texts (e # es)) t = map_of (kid_texts es) t" using False Some by simp
      ultimately show ?thesis using rest by (auto simp: taken_def split: option.split)
    qed
    ultimately show ?thesis by blast
  qed
qed (auto simp: taken_def)

lemma get_xml_children_spec:
  assumes "wanted (tag e) b = (miss, opt)"
  shows "get_xml_children e b = Inr ch \<Longrightarrow> set miss \<subseteq> fst ` set (kid_texts (kids e))
      \<and> map_of ch = taken (set miss \<union> set opt) [] (kids e)"
    "set miss \<subseteq> fst ` set (kid_texts (kids e)) \<Longrightarrow> \<exists>ch. get_xml_children e b = Inr ch"
proof -
  obtain left found where sc: "scan_children miss opt [] (kids e) = (left, found)" by (metis surj_pair)
  have "set miss \<inter> set opt = {}" using assms by (auto simp: wanted_def Let_def split: if_splits)
  note spec = scan_children_spec [OF sc this]
  have eq: "get_xml_children e b = (if left = [] then Inr found else
      Inl (value_error (''Missing element(s) ['' @
             join_with '','' (sort (map (\<lambda>t. if t = ''sensorID'' then ''sensorID/sourceID'' else t) left))
             @ ''] in '' @ tag_text (tag e))))"
    using assms sc by (simp add: get_xml_children_def)
  show "get_xml_children e b = Inr ch \<Longrightarrow> set miss \<subseteq> fst ` set (kid_texts (kids e)) \<and> map_of ch = taken (set miss \<union> set opt) [] (kids e)"
    using eq spec by (auto split: if_splits)
  have "left = [] \<longleftrightarrow> set left = {}" by simp
  also have "\<dots> \<longleftrightarrow> set miss \<subseteq> fst ` set (kid_texts (kids e))" using spec by (simp add: Diff_eq_empty_iff)
  finally show "set miss \<subseteq> fst ` set (kid_texts (kids e)) \<Longrightarrow> \<exists>ch. get_xml_children e b = Inr ch"
    using eq by simp
qed

lemma insert_after_timestamp_texts:
  "''timestamp'' \<in> fst ` set (kid_texts es) \<Longrightarrow> \<exists>es'. insert_after_timestamp prev i es = Some es'
     \<and> fst ` set (kid_texts es') = insert ''sensorID'' (fst ` set (kid_texts es))
     \<and> (''sensorID'' \<notin> fst ` set (kid_texts es) \<longrightarrow> map_of (kid_texts es') = (map_of (kid_texts es))(''sensorID'' \<mapsto> Some (show_int i)))"
proof (induction es arbitrary: prev)
  case (Cons e es)
  show ?case
  proof (cases "tag e = Some ''timestamp''")
    case True
    then show ?thesis by (auto simp:  kid_tag_def fun_eq_iff)
  next
    case False
    then have "''timestamp'' \<in> fst ` set (kid_texts es)"
      using Cons.prems by (cases "tag e") (auto simp: kid_tag_def split: if_splits)
    then obtain es' where "insert_after_timestamp (tail e) i es = Some es'"
      "fst ` set (kid_texts es') = insert ''sensorID'' (fst ` set (kid_texts es))"
      "''sensorID'' \<notin> fst ` set (kid_texts es) \<longrightarrow> map_of (kid_texts es') = (map_of (kid_texts es))(''sensorID'' \<mapsto> Some (show_int i))"
      using Cons.IH [of "tail e"] by metis
    note es' = this
    show ?thesis
    proof (cases "tag e")
      case None
      with False es' show ?thesis by (intro exI [of _ "e # es'"]) (simp add: fun_upd_def)
    next
      case (Some t)
      have "insert_after_timestamp prev i (e # es) = Some (e # es')" using False es'(1) by simp
      moreover have "fst ` set (kid_texts (e # es')) = insert ''sensorID'' (fst ` set (kid_texts (e # es)))"
        using Some es'(2) by (simp add: insert_commute)
      moreover have "map_of (kid_texts (e # es')) = (map_of (kid_texts (e # es)))(''sensorID'' \<mapsto> Some (show_int i))"
        if "''sensorID'' \<notin> fst ` set (kid_texts (e # es))"
        using that Some es'(3) by (simp add: fun_upd_twist)
      ultimately show ?thesis by blast
    qed
  qed
qed simp


definition demo_registration_xml :: element where
  "demo_registration_xml = Element (Some ''SensorRegistration'') [] None None
     [Element (Some ''timestamp'') [] (Some ''t'') None [], Element (Some ''sensorType'') [] (Some ''x'') None []]"


section \<open>Messages that cannot be read\<close>

lemma close_gone: "\<not> crashed (close_connection i srv) \<Longrightarrow> conns (close_connection i srv) i = None"
  by (auto simp: close_connection_def split: option.splits prod.splits sum.splits)

lemma empty_record_child:
  assumes "child_handle lib fl c m s = (r, c1, m1, s1)" "error m = None" "parsed m = None" "registered m = None"
  shows "sent s1 = sent s \<and> r = Inr () \<and> (is_fatal (error m1) \<longleftrightarrow> ch_registration c \<noteq> None)"
proof (cases "ch_registration c")
  case None
  then have "child_registration lib c m s = (Inr (), c, with_error (SilentError ''Registration message expected'') m, s)"
    using assms(2-4) by (simp add: child_registration_def)
  with assms(1) None show ?thesis
    by (auto simp: child_handle_def with_error_def SilentError_def send_to_parent_def send_error_reply_if_necessary_def is_fatal_def)
next
  case (Some n)
  have "child_other lib fl c m s = (Inl (no_attribute ''node_id''), c, m, s)" using assms(2,3) by (simp add: child_other_def)
  with assms(1) Some show ?thesis
    by (auto simp: child_handle_def with_error_def FatalError_def send_error_reply_if_necessary_def is_fatal_def)
qed

lemma empty_record_peer:
  assumes "peer_handle lib c m s = (r, c1, m1, s1)" "error m = None" "parsed m = None" "registered m = None"
  shows "sent s1 = sent s \<and> is_fatal (error m1)"
  using assms
  by (auto simp: peer_handle_def peer_inner_def peer_forward_def with_error_def FatalError_def send_error_reply_if_necessary_def is_fatal_def Let_def)

lemma empty_record_parent:
  assumes "parent_handle lib c m s = (r, c1, m1, s1)" "error m = None" "parsed m = None"
  shows "sent s1 = sent s \<and> (\<exists>e. r = Inl e)"
  using assms by (auto simp: parent_handle_def parent_reply_def parent_to_child_def Let_def)

text \<open>C15. Data of an XML connection that is not UTF-8. Parsing gives a record without error and without
  content, so the reply that a syntax error gets is never sent: a child that has not registered stays connected
  and unanswered, and a registered child, a peer and a parent are disconnected. The server keeps running.\<close>

theorem undecodable_xml_message:
  assumes "reachable lib fl (apex_parse env) srv" "\<not> crashed srv"
    and "conns srv i = Some oc" "oc_queue oc = raw # rest" "oc_parser oc = ParseXml auto"
    and "data_bytes raw \<noteq> []" "last (data_bytes raw) = 0" "decode_utf8 env (butlast (data_bytes raw)) = Inl e"
    and "oc_connection oc \<noteq> Recorder"
  shows "sent (shared (handle_next lib fl (apex_parse env) i srv)) = sent (shared srv)
    \<and> \<not> crashed (handle_next lib fl (apex_parse env) i srv)
    \<and> (conns (handle_next lib fl (apex_parse env) i srv) i \<noteq> None
       \<longleftrightarrow> (\<exists>c. oc_connection oc = Child c \<and> ch_registration c = None))"
proof -
  define m :: "('a, element) message_record" where "m = fresh_record raw None VERSION6"
  have p: "apex_parse env (oc_parser oc) raw (oc_detection oc, generator (shared srv)) = (Inr m, oc_detection oc, generator (shared srv))"
    using assms(5-8) by (simp add: apex_parse_def parse_xml_def m_def)
  have m: "error m = None" "parsed m = None" "registered m = None" by (simp_all add: m_def fresh_record_def)
  show ?thesis
    using assms(3,4)
  proof (cases rule: handle_next_cases [where lib = lib and fl = fl and parse = "apex_parse env"])
    case (unparsed e' v' g')
    with p show ?thesis by simp
  next
    case (handled m' v' g' r c1 m1 s1 l ends)
    have h: "handle_message lib fl (oc_connection oc) m ((shared srv)\<lparr>generator := g'\<rparr>) = (r, c1, m1, s1)" using handled(1,2) p by simp
    have fin: "sent s1 = sent (shared srv) \<and> (ends \<longleftrightarrow> (\<nexists>c. oc_connection oc = Child c \<and> ch_registration c = None))"
    proof (cases "oc_connection oc")
      case (Child c)
      obtain c2 where "child_handle lib fl c m ((shared srv)\<lparr>generator := g'\<rparr>) = (r, c2, m1, s1)"
        using h Child by (auto simp: handle_message_def split: prod.splits)
      from empty_record_child [OF this m] Child handled(4) show ?thesis by auto
    next
      case (Peer c)
      obtain c2 where "peer_handle lib c m ((shared srv)\<lparr>generator := g'\<rparr>) = (r, c2, m1, s1)"
        using h Peer by (auto simp: handle_message_def split: prod.splits)
      from empty_record_peer [OF this m] Peer handled(4) show ?thesis by auto
    next
      case (Parent c)
      obtain c2 where "parent_handle lib c m ((shared srv)\<lparr>generator := g'\<rparr>) = (r, c2, m1, s1)"
        using h Parent by (auto simp: handle_message_def split: prod.splits)
      from empty_record_parent [OF this m(1,2)] Parent handled(4) show ?thesis by auto
    qed (use assms(9) in simp)
    have run: "\<not> crashed (handle_next lib fl (apex_parse env) i srv)" using ap.keeps_running [OF assms(1-3)] assms(4) by simp
    show ?thesis
    proof (cases ends)
      case True
      with fin run handled(3) show ?thesis by (auto simp: close_sent close_gone)
    next
      case False
      with fin run handled(3) show ?thesis by auto
    qed
  qed
qed

lemma field_raises:
  assumes "Field d v \<in> set fs" "\<And>path. \<exists>e. validate_field fb opts path (Field d v) = Inl e"
  shows "\<exists>e. validate_message fb opts path (Pb unknown oneofs fs) = Inl e"
proof -
  have "\<exists>e. validate_fields fb opts path fs = Inl e"
    using assms(1) assms(2) [of path]
    by (induction fs) (auto simp: bindE_def simp del: validate_field.simps split: sum.split)
  then show ?thesis by auto
qed

lemma nested_raises:
  assumes "Field d (Message m) \<in> set fs" "nested d" "\<And>path. \<exists>e. validate_message fb opts path m = Inl e"
  shows "\<exists>e. validate_message fb opts path (Pb unknown oneofs fs) = Inl e"
proof (rule field_raises [OF assms(1)])
  fix path
  obtain e where "validate_message fb opts (path @ [fd_name d]) m = Inl e" using assms(3) by blast
  then show "\<exists>e. validate_field fb opts path (Field d (Message m)) = Inl e"
    using assms(2) by (cases "field_checks opts d (Message m) (path @ [fd_name d])") simp_all
qed

text \<open>C16. A registration without the version of its interface. When the validator checks the versions, the
  missing field makes it raise instead of reporting an error, and nothing catches that: the connection of the
  sender is closed, the message is neither stored nor answered nor forwarded, and the server keeps running.\<close>

theorem missing_version_disconnects:
  assumes "reachable lib fl (apex_parse env) srv" "\<not> crashed srv"
    and "conns srv i = Some oc" "oc_queue oc = raw # rest" "oc_parser oc = ParseProto conversion v"
    and "decode_message env v (data_bytes raw) = Inr m" "cm_time (view env m) = Inr t"
    and "enabled (options env) SUPPORTED_ICD_VERSION"
    and "cm_tree (view env m) = Pb u os fs" "Field d (Message (Pb u' os' fs')) \<in> set fs" "nested d"
    and "Field d' Absent \<in> set fs'" "fd_type d' = TString" "fd_name d' = ''icd_version''"
  shows "\<exists>s1. handle_next lib fl (apex_parse env) i srv = srv\<lparr>shared := s1, conns := (conns srv)(i := None),
           disconnect_log := disconnect_log srv @ [i]\<rparr> \<and> sent s1 = sent (shared srv) \<and> store s1 = store (shared srv)"
proof -
  have sub: "find_sub ''icd_version'' (fd_name d') \<noteq> None" unfolding assms(14) by code_simp
  have "\<exists>e. validate_message (bits env) (options env) [] (cm_tree (view env m)) = Inl e"
    unfolding assms(9) by (rule nested_raises [OF assms(10,11)]) (rule missing_icd_version_raises [OF assms(8,13) sub assms(12)])
  then obtain e where e: "validate_message (bits env) (options env) [] (cm_tree (view env m)) = Inl e" by blast
  let ?v = "validate_sapient_message (bits env) (options env) (view env m) (rd_timestamp raw) True (oc_detection oc)"
  have "fst ?v = Inl e" using e assms(7) by (simp add: validate_sapient_message_def)
  then obtain prev where "?v = (Inl e, prev)" by (metis prod.collapse)
  moreover have "is_validation_required (options env)" using assms(8) by (auto simp: is_validation_required_def enabled_def)
  ultimately have "apex_parse env (oc_parser oc) raw (oc_detection oc, generator (shared srv)) = (Inl e, prev, generator (shared srv))"
    using assms(5,6) by (simp add: apex_parse_def parse_proto_def validation_part_def)
  from ap.unparsed_ends [OF assms(1-4) this] show ?thesis .
qed

section \<open>A small server with these parsers\<close>

text \<open>Every message is the number 7, a registration whose version is missing; no byte is UTF-8.\<close>

definition version_field :: field_desc where
  "version_field = \<lparr>fd_name = ''icd_version'', fd_type = TString, fd_repeated = False, fd_mandatory = False,
     fd_ulid = False, fd_uuid = False\<rparr>"

definition registration_field :: field_desc where
  "registration_field = \<lparr>fd_name = ''registration'', fd_type = TMessage True, fd_repeated = False, fd_mandatory = False,
     fd_ulid = False, fd_uuid = False\<rparr>"

definition plain_element :: element where "plain_element = Element None [] None None []"

definition demo_versions :: "(nat, element) lib" where
  "demo_versions = \<lparr>serialise_partial = (\<lambda>m. []), xml_bytes = (\<lambda>x. []), translate_v1_to_v2 = Inr, translate_v2_to_v1 = Inr,
     is_v1 = (\<lambda>_. False), v1_to_xml = (\<lambda>_. Inr plain_element), with_time = (\<lambda>t m. m), serialise = (\<lambda>m. Inr []),
     xml_with_time = (\<lambda>t x. Inr x), insert_sensor_id = insert_id, registration_ack = (\<lambda>t a b. 100),
     registration_ack_xml = (\<lambda>i t. plain_element), error_message = (\<lambda>t a d p e. 102), error_xml = (\<lambda>t p e. plain_element)\<rparr>"

definition demo_env :: "validation_type list \<Rightarrow> nat parse_env" where
  "demo_env ts = \<lparr>json_of = demo_format, parse_into = (\<lambda>_ _. Inr 7), to_json = (\<lambda>_. Inr ''{}''), serialise_to_string = (\<lambda>_. Inr []),
     view = (\<lambda>_. \<lparr>cm_tree = Pb [] [] [Field registration_field (Message (Pb [] [] [Field version_field Absent]))], cm_time = Inr 0,
       cm_detection = False\<rparr>),
     node_id_of = (\<lambda>_. ''n''), destination_of = (\<lambda>_. []), content_of = (\<lambda>_. Some ''registration''), short_name_of = (\<lambda>_. ''s''),
     info_of = (\<lambda>_. 0), system_of = (\<lambda>_. 0), error_message_of = (\<lambda>_. PList []), confidence_of = (\<lambda>_. Fin 0),
     versions = demo_versions, to_xml = (\<lambda>_ g. (Inr plain_element, g)), to_proto = (\<lambda>_ g. (Inr (7, []), g)),
     from_text = (\<lambda>_. Inr plain_element), to_text = (\<lambda>_. []), decode_utf8 = (\<lambda>_. Inl (value_error ''invalid start byte'')),
     new_ulid = (\<lambda>_. ''u''), bits = \<lparr>f64_text = (\<lambda>_. []), f32_text = (\<lambda>_. [])\<rparr>, options = default_options\<lparr>types := ts\<rparr>\<rparr>"

text \<open>A child or a peer with one message waiting.\<close>

definition entry_of :: "string \<Rightarrow> string \<Rightarrow> conn_entry" where
  "entry_of kind fmt = \<lparr>ce_type = kind, ce_format = Some fmt, ce_icd_version = None, ce_forward_all = PBool True\<rparr>"

definition start_shared :: "(nat, element) shared" where
  "start_shared = projr (new_shared demo_config [] ''apex'' (new_generator [] False 1) 0)"

lemma start_shared_eq: "new_shared demo_config [] ''apex'' (new_generator [] False 1) 0 = Inr start_shared"
  "start_shared = \<lparr>config = demo_config, middleware_node_id = ''apex'', registered_sensors = [],
    dmm_msg_format = PROTO, dmm_writers = [], parent_high_level_writers = [], parent_all_writers = [],
    parent_message_format = PROTO, generator = new_generator [] False 1, store = (\<lambda>_. None), sent = [], utcnow = 0\<rparr>"
  by (simp_all add: start_shared_def new_shared_def bindE_def last_format_def demo_config_def converts_def dget_or_def)

definition waiting_server :: "string \<Rightarrow> string \<Rightarrow> bytes \<Rightarrow> (nat, element) server" where
  "waiting_server kind fmt data = receive_data 1 data (open_connection demo_versions (entry_of kind fmt) (new_server start_shared))"

lemma waiting_normal:
  "normalize_connection_config (Some ''XML'') None True = Inr (XML, VERSION6)"
  "normalize_connection_config (Some ''PROTO'') None True = Inr (PROTO, LATEST)"
  by code_simp+

lemma open_peer:
  "open_connection demo_versions (entry_of ''Peer'' ''XML'') (new_server start_shared) =
     (new_server start_shared)\<lparr>shared := start_shared\<lparr>dmm_writers := [\<lparr>w_id = 1, w_encoding = XML, w_version = VERSION6\<rparr>]\<rparr>,
       previous_connection_id := 1, connect_log := [1], conns := (\<lambda>_. None)(1 \<mapsto>
         \<lparr>oc_connection = Peer \<lparr>pe_writer = \<lparr>w_id = 1, w_encoding = XML, w_version = VERSION6\<rparr>, dmm_id = None, pe_format = XML\<rparr>,
          oc_parser = ParseXml True, oc_queue = [], oc_detection = None\<rparr>)\<rparr>"
  by (simp add: open_connection_def new_server_def Let_def entry_of_def start_shared_eq(2) demo_config_def has_key_def waiting_normal
      create_connection_def peer_new_def replay_def bindE_def dget_or_def sensor_id_auto_def get_parser_def converts_def
      del: One_nat_def)

lemma open_child:
  "\<exists>c. open_connection demo_versions (entry_of ''Child'' ''PROTO'') (new_server start_shared) =
     (new_server start_shared)\<lparr>previous_connection_id := 1, connect_log := [1], conns := (\<lambda>_. None)(1 \<mapsto>
         \<lparr>oc_connection = Child c, oc_parser = ParseProto True LATEST, oc_queue = [], oc_detection = None\<rparr>)\<rparr>"
proof -
  have "\<exists>c. child_new demo_config w PROTO = Inr c" for w
    by (simp add: child_new_def demo_config_def dget_or_def dget_def)
  then obtain c where "child_new demo_config \<lparr>w_id = 1, w_encoding = PROTO, w_version = LATEST\<rparr> PROTO = Inr c" by blast
  then show ?thesis
    by (intro exI [of _ c]) (simp add: open_connection_def new_server_def Let_def entry_of_def start_shared_eq(2) demo_config_def has_key_def
      waiting_normal create_connection_def bindE_def dget_or_def sensor_id_auto_def get_parser_def converts_def del: One_nat_def)
qed

lemma waiting_reachable:
  assumes "\<not> crashed (open_connection demo_versions (entry_of kind fmt) (new_server start_shared))"
    and "conns (open_connection demo_versions (entry_of kind fmt) (new_server start_shared)) 1 = Some oc" "oc_queue oc = []"
  shows "reachable demo_versions fl (apex_parse env) (waiting_server kind fmt data) \<and> \<not> crashed (waiting_server kind fmt data)
    \<and> (\<exists>raw. conns (waiting_server kind fmt data) 1 = Some (oc\<lparr>oc_queue := [raw]\<rparr>) \<and> data_bytes raw = data)
    \<and> sent (shared (waiting_server kind fmt data)) = sent (shared (open_connection demo_versions (entry_of kind fmt) (new_server start_shared)))"
proof -
  have "\<not> crashed (new_server start_shared)" by (simp add: new_server_def)
  note r1 = reachable.more [OF reachable.start [OF start_shared_eq(1)] server_step.connect [OF this], of demo_versions fl "apex_parse env" "entry_of kind fmt"]
  note r2 = reachable.more [OF r1 server_step.arrive [OF assms(1), of 1], of data]
  let ?o = "open_connection demo_versions (entry_of kind fmt) (new_server start_shared)"
  let ?raw = "\<lparr>rd_connection = 1, rd_message = previous_message_id ?o + 1, rd_timestamp = utcnow (shared ?o), data_bytes = data\<rparr>"
  have "conns (waiting_server kind fmt data) 1 = Some (oc\<lparr>oc_queue := [?raw]\<rparr>)"
    "crashed (waiting_server kind fmt data) = crashed ?o" "shared (waiting_server kind fmt data) = shared ?o"
    using assms by (simp_all add: waiting_server_def receive_data_def Let_def)
  with r2 assms show ?thesis by (auto simp: waiting_server_def)
qed

lemma undecodable_xml_message_witness:
  "conns (handle_next demo_versions (\<lambda>_. []) (apex_parse (demo_env [])) 1 (waiting_server ''Peer'' ''XML'' [255, 0])) 1 = None
   \<and> \<not> crashed (handle_next demo_versions (\<lambda>_. []) (apex_parse (demo_env [])) 1 (waiting_server ''Peer'' ''XML'' [255, 0]))
   \<and> sent (shared (handle_next demo_versions (\<lambda>_. []) (apex_parse (demo_env [])) 1 (waiting_server ''Peer'' ''XML'' [255, 0]))) = []"
proof -
  let ?w = "waiting_server ''Peer'' ''XML'' [255, 0]"
  let ?pe = "\<lparr>pe_writer = \<lparr>w_id = 1, w_encoding = XML, w_version = VERSION6\<rparr>, dmm_id = None, pe_format = XML\<rparr>"
  have o: "conns (open_connection demo_versions (entry_of ''Peer'' ''XML'') (new_server start_shared)) 1 =
      Some \<lparr>oc_connection = Peer ?pe, oc_parser = ParseXml True, oc_queue = [], oc_detection = None\<rparr>"
    "\<not> crashed (open_connection demo_versions (entry_of ''Peer'' ''XML'') (new_server start_shared))"
    "sent (shared (open_connection demo_versions (entry_of ''Peer'' ''XML'') (new_server start_shared))) = []"
    unfolding open_peer by (simp_all add: new_server_def start_shared_eq(2) del: One_nat_def)
  from waiting_reachable [OF o(2,1), of "\<lambda>_. []" "demo_env []" "[255, 0]"] o(3)
  obtain raw where w: "reachable demo_versions (\<lambda>_. []) (apex_parse (demo_env [])) ?w" "\<not> crashed ?w" "sent (shared ?w) = []"
    "conns ?w 1 = Some \<lparr>oc_connection = Peer ?pe, oc_parser = ParseXml True, oc_queue = [raw], oc_detection = None\<rparr>" "data_bytes raw = [255, 0]"
    by (auto simp del: One_nat_def)
  have "decode_utf8 (demo_env []) (butlast (data_bytes raw)) = Inl (value_error ''invalid start byte'')" by (simp add: demo_env_def)
  with undecodable_xml_message [OF w(1,2,4), of raw "[]" True] w(3,5) show ?thesis by (simp del: One_nat_def)
qed

lemma missing_version_disconnects_witness:
  "conns (handle_next demo_versions (\<lambda>_. []) (apex_parse (demo_env [SUPPORTED_ICD_VERSION])) 1 (waiting_server ''Child'' ''PROTO'' [9])) 1 = None
   \<and> saved (handle_next demo_versions (\<lambda>_. []) (apex_parse (demo_env [SUPPORTED_ICD_VERSION])) 1 (waiting_server ''Child'' ''PROTO'' [9])) = saved (waiting_server ''Child'' ''PROTO'' [9])"
proof -
  let ?w = "waiting_server ''Child'' ''PROTO'' [9]" and ?env = "demo_env [SUPPORTED_ICD_VERSION]"
  obtain c where o: "conns (open_connection demo_versions (entry_of ''Child'' ''PROTO'') (new_server start_shared)) 1 =
      Some \<lparr>oc_connection = Child c, oc_parser = ParseProto True LATEST, oc_queue = [], oc_detection = None\<rparr>"
    "\<not> crashed (open_connection demo_versions (entry_of ''Child'' ''PROTO'') (new_server start_shared))"
    using open_child by (auto simp: new_server_def simp del: One_nat_def)
  from waiting_reachable [OF o(2,1), of "\<lambda>_. []" ?env "[9]"]
  obtain raw where w: "reachable demo_versions (\<lambda>_. []) (apex_parse ?env) ?w" "\<not> crashed ?w"
    "conns ?w 1 = Some \<lparr>oc_connection = Child c, oc_parser = ParseProto True LATEST, oc_queue = [raw], oc_detection = None\<rparr>"
    by (auto simp del: One_nat_def)
  have d: "decode_message ?env LATEST (data_bytes raw) = Inr 7"
    by (simp add: decode_message_def empty_sapient_message_def demo_env_def LATEST_def)
  have v: "cm_time (view ?env 7) = Inr 0" "enabled (options ?env) SUPPORTED_ICD_VERSION"
    "cm_tree (view ?env 7) = Pb [] [] [Field registration_field (Message (Pb [] [] [Field version_field Absent]))]"
    by (simp_all add: demo_env_def enabled_def)
  have f: "nested registration_field" "fd_type version_field = TString" "fd_name version_field = ''icd_version''"
    by (simp_all add: nested_def registration_field_def version_field_def)
  have q: "oc_queue \<lparr>oc_connection = Child c, oc_parser = ParseProto True LATEST, oc_queue = [raw], oc_detection = None\<rparr> = [raw]"
    "oc_parser \<lparr>oc_connection = Child c, oc_parser = ParseProto True LATEST, oc_queue = [raw], oc_detection = None\<rparr> = ParseProto True LATEST"
    by simp_all
  from missing_version_disconnects [OF w q d v _ f(1) _ f(2,3)] show ?thesis by force
qed

lemma accepted_proto_message_witness:
  "\<exists>r p. fst (parse_proto (demo_env []) True LATEST \<lparr>rd_connection = 1, rd_message = 1, rd_timestamp = 0, data_bytes = [9]\<rparr>
       (None, new_generator [(''n'', 3)] False 1)) = Inr r \<and> parsed r = Some p \<and> parsed_proto p = Some 7
     \<and> pr_node_id p = Some ''n'' \<and> registered r = Some ''s''"
proof -
  let ?raw = "\<lparr>rd_connection = 1, rd_message = 1, rd_timestamp = 0, data_bytes = [9]\<rparr>" and ?g = "new_generator [(''n'', 3)] False 1"
  have d: "decode_message (demo_env []) LATEST [9] = Inr 7"
    by (simp add: decode_message_def empty_sapient_message_def demo_env_def LATEST_def)
  have v: "validation_part (demo_env []) 7 ?raw None = (Inr [], None)"
    by (simp add: validation_part_def demo_env_def is_validation_required_def default_options_def)
  have "\<exists>m. to_version (apex_lib (demo_env [])) 7 LATEST BSI_FLEX_335_V1_0 = Some (Inr m)"
    by (simp add: to_version_cases apex_lib_def with_translators_def proto_version_def LATEST_def v2_to_v1_def translated_def
        empty_sapient_message_def demo_env_def demo_format_def bindE_def split: sum.splits)
  then have i: "identify (demo_env []) True LATEST 7 ?raw ?g = (Sender ''n'' (Some 3) [], ?g)"
    by (auto simp: identify_def demo_env_def new_generator_def new_mapping_def)
  let ?r = "(fresh_record ?raw (Some [9]) LATEST)\<lparr>data_decoded_xml := [], registered := Some ''s''\<rparr>"
  have c: "content_part (demo_env []) 7 ''n'' ((fresh_record ?raw (Some [9]) LATEST)\<lparr>data_decoded_xml := []\<rparr>) = Inr (False, ?r)"
    by (simp add: content_part_def demo_env_def)
  have "\<exists>r. parsed_part (demo_env []) 7 ''n'' (Some 3) [] ?r = Inr r \<and> error r = None"
    by (simp add: parsed_part_def demo_env_def fresh_record_def del: One_nat_def)
  then obtain r where p: "parsed_part (demo_env []) 7 ''n'' (Some 3) [] ?r = Inr r" "error r = None" by blast
  have r: "parse_proto (demo_env []) True LATEST ?raw (None, ?g) = (Inr r, None, ?g)" "error r = None"
    using p(2) by (simp_all add: parse_proto_def d v i c p(1) del: One_nat_def)
  from accepted_proto_message [OF r] obtain m p where "decode_message (demo_env []) LATEST (data_bytes ?raw) = Inr m"
    "parsed r = Some p" "parsed_proto p = Some m" "node_id_of (demo_env []) m \<noteq> [] \<longrightarrow> pr_node_id p = Some (node_id_of (demo_env []) m)"
    "registered r = (if content_of (demo_env []) m = Some ''registration'' then Some (short_name_of (demo_env []) m) else None)" by blast
  with d r(1) show ?thesis by (auto simp: demo_env_def)
qed

end
