(* ===== verification/ApexStorage.thy ===== *)
theory ApexStorage
  imports ApexIo PyTime
begin

text \<open>
  The SQLite storage of the Apex middleware: what is written to the tables (\<open>sqlite_saver.py\<close>,
  \<open>sqlite_schema.py\<close>), and the thread that writes it (\<open>sqlite_thread.py\<close>), which takes over the list of
  pending items from the threads that add to it.

  A table is a map from primary keys to rows. SQLite enforces primary keys; it does not enforce foreign keys
  unless it is told to, and it is not. A transaction that fails leaves its tables as they were. A session
  writes at its commit what was added to it and has not been expunged.
\<close>

section \<open>Records and tables\<close>

record connection_record =
  cn_id :: nat
  cn_type :: string
  cn_format :: string
  cn_peer :: string
  cn_time :: int

record disconnection_record =
  dn_connection :: nat
  dn_time :: int
  dn_reason :: string

text \<open>A message record with the two fields of it that only the storage uses.\<close>

record ('p, 'x) stored_message =
  sm_record :: "('p, 'x) message_record"
  sm_json :: "string option"
  sm_decoded :: int

definition sm_id :: "('p, 'x) stored_message \<Rightarrow> nat" where
  "sm_id m = rd_message (received (sm_record m))"

record message_row =
  mr_id :: nat
  mr_connection :: nat
  mr_received :: "int option"
  mr_decoded :: "int option"
  mr_saved :: "int option"
  mr_version :: sapient_version
  mr_xml :: string
  mr_proto :: "bytes option"
  mr_json :: "string option"
  mr_forwarded :: nat
  mr_type :: "string option"
  mr_node :: "string option"
  mr_timestamp :: "int option"
  mr_registration :: "string option"
  mr_system :: "string option"
  mr_unchanged :: "bool option"
  mr_severity :: "string option"
  mr_description :: "string option"

record connection_row =
  cr_id :: nat
  cr_type :: string
  cr_peer :: string
  cr_connect :: "int option"
  cr_disconnect :: "int option"
  cr_reason :: "string option"
  cr_registration :: "nat option"
  cr_status_new :: "nat option"
  cr_status_unchanged :: "nat option"
  cr_detection :: "nat option"

text \<open>The table \<open>Version\<close> has one row for each time a saver opened the file.\<close>

record database =
  message_table :: "(nat, message_row) odict"
  connection_table :: "(nat, connection_row) odict"
  rollover_files :: "(string \<times> string) list"
  openings :: "bool list"

definition no_tables :: database where
  "no_tables = \<lparr>message_table = [], connection_table = [], rollover_files = [], openings = []\<rparr>"

section \<open>\<open>SqliteSaver\<close>\<close>

definition open_saver :: "bool \<Rightarrow> database \<Rightarrow> database" where
  "open_saver conversion db = db\<lparr>openings := openings db @ [conversion]\<rparr>"

definition integrity_error :: exn where
  "integrity_error = PyExc ''IntegrityError'' ''UNIQUE constraint failed''"

definition connection_row_of :: "connection_record \<Rightarrow> connection_row" where
  "connection_row_of c = \<lparr>cr_id = cn_id c, cr_type = cn_type c, cr_peer = cn_peer c, cr_connect = datetime_to_int (Some (cn_time c)) False,
     cr_disconnect = None, cr_reason = None, cr_registration = None, cr_status_new = None, cr_status_unchanged = None,
     cr_detection = None\<rparr>"

definition insert_connection :: "connection_record \<Rightarrow> database \<Rightarrow> database res" where
  "insert_connection c db =
     (if map_of (connection_table db) (cn_id c) \<noteq> None then Inl integrity_error
      else Inr (db\<lparr>connection_table := connection_table db @ [(cn_id c, connection_row_of c)]\<rparr>))"

definition severity_name :: "error_severity \<Rightarrow> string" where
  "severity_name s = (case s of UNSTORED \<Rightarrow> ''UNSTORED'' | SILENT \<Rightarrow> ''SILENT'' | NOISY \<Rightarrow> ''NOISY'' | FATAL \<Rightarrow> ''FATAL'')"

definition record_to_message :: "int \<Rightarrow> ('p, 'x) stored_message \<Rightarrow> message_row" where
  "record_to_message now sm = (let m = sm_record sm in
     \<lparr>mr_id = rd_message (received m), mr_connection = rd_connection (received m),
      mr_received = datetime_to_int (Some (rd_timestamp (received m))) False,
      mr_decoded = datetime_to_int (Some (sm_decoded sm)) False, mr_saved = datetime_to_int (Some now) False,
      mr_version = version m, mr_xml = data_decoded_xml m, mr_proto = data_binary_proto m,
      mr_json = (if parsed m = None then None else sm_json sm), mr_forwarded = forwarded_count m,
      mr_type = Option.bind (parsed m) message_type, mr_node = Option.bind (parsed m) pr_node_id,
      mr_timestamp = Option.bind (parsed m) (\<lambda>p. datetime_to_int (Some (message_timestamp p)) False),
      mr_registration = registered m, mr_system = Option.bind (status_report m) system,
      mr_unchanged = map_option is_unchanged (status_report m),
      mr_severity = map_option (severity_name \<circ> err_severity) (error m), mr_description = map_option description (error m)\<rparr>)"

text \<open>\<open>_update_connection_multi\<close>: which columns of its connection a message sets.\<close>

definition recent_update :: "('p, 'x) stored_message \<Rightarrow> (connection_row \<Rightarrow> connection_row) option" where
  "recent_update sm = (let m = sm_record sm; i = Some (rd_message (received m)) in
     if error m \<noteq> None then None
     else if registered m \<noteq> None
     then Some (\<lambda>r. r\<lparr>cr_registration := i, cr_status_new := None, cr_status_unchanged := None, cr_detection := None\<rparr>)
     else case status_report m of
       Some s \<Rightarrow> Some (if is_unchanged s then (\<lambda>r. r\<lparr>cr_status_unchanged := i\<rparr>)
                       else (\<lambda>r. r\<lparr>cr_status_new := i, cr_status_unchanged := None\<rparr>))
     | None \<Rightarrow> (case parsed m of
         Some p \<Rightarrow> (if message_type p = Some ''detection_report'' then Some (\<lambda>r. r\<lparr>cr_detection := i\<rparr>) else None)
       | None \<Rightarrow> None))"

definition update_row :: "nat \<Rightarrow> (connection_row \<Rightarrow> connection_row) \<Rightarrow> database \<Rightarrow> database" where
  "update_row i f db = db\<lparr>connection_table := map (\<lambda>(k, r). (k, if k = i then f r else r)) (connection_table db)\<rparr>"

definition update_connection :: "('p, 'x) stored_message \<Rightarrow> database \<Rightarrow> database" where
  "update_connection sm db = (case recent_update sm of
      None \<Rightarrow> db | Some f \<Rightarrow> update_row (rd_connection (received (sm_record sm))) f db)"

definition update_connection_multi :: "('p, 'x) stored_message list \<Rightarrow> database \<Rightarrow> database" where
  "update_connection_multi ms db = fold update_connection ms db"

definition insert_message_multi :: "int \<Rightarrow> ('p, 'x) stored_message list \<Rightarrow> database \<Rightarrow> database res" where
  "insert_message_multi now ms db =
     (if distinct (map sm_id ms) \<and> list_all (\<lambda>m. map_of (message_table db) (sm_id m) = None) ms
      then Inr (update_connection_multi ms (db\<lparr>message_table := message_table db @ map (\<lambda>m. (sm_id m, record_to_message now m)) ms\<rparr>))
      else Inl integrity_error)"

definition update_disconnection :: "disconnection_record \<Rightarrow> database \<Rightarrow> database" where
  "update_disconnection d db =
     update_row (dn_connection d) (\<lambda>r. r\<lparr>cr_reason := Some (dn_reason d), cr_disconnect := datetime_to_int (Some (dn_time d)) False\<rparr>) db"

section \<open>Rollover\<close>

definition recent_ids :: "connection_row \<Rightarrow> nat list" where
  "recent_ids r = concat (map (\<lambda>c. case c r of None \<Rightarrow> [] | Some i \<Rightarrow> [i])
     [cr_registration, cr_status_new, cr_status_unchanged, cr_detection])"

definition active_rows :: "database \<Rightarrow> (nat, connection_row) odict" where
  "active_rows db = filter (\<lambda>(k, r). cr_disconnect r = None) (connection_table db)"

definition recent_rows :: "database \<Rightarrow> (nat, message_row) odict" where
  "recent_rows db = filter (\<lambda>(k, r). k \<in> set (concat (map (recent_ids \<circ> snd) (active_rows db)))) (message_table db)"

text \<open>Where a statement of the database may fail; the failure is logged.\<close>

datatype export_failure = NoFailure | FailConnections | FailMessages | FailCommit

text \<open>The session holds the new \<open>RolloverFilename\<close> as pending until \<open>expunge_all\<close>, which removes every
  object from a session, before the commit writes what is pending.\<close>

definition expunge_all :: "'a list \<Rightarrow> 'a list" where
  "expunge_all added = []"

definition rollover_export ::
  "export_failure \<Rightarrow> string \<times> string \<Rightarrow> database \<Rightarrow> (nat, connection_row) odict \<times> (nat, message_row) odict \<times> database" where
  "rollover_export fail names db =
     (if fail = FailConnections then ([], [], db)
      else let conns = active_rows db in
        if fail = FailMessages then (conns, [], db)
        else let msgs = recent_rows db; added = expunge_all [names]
             in (conns, msgs, if fail = FailCommit then db else db\<lparr>rollover_files := rollover_files db @ added\<rparr>))"

definition rollover_import ::
  "bool \<Rightarrow> (nat, message_row) odict \<Rightarrow> (nat, connection_row) odict \<Rightarrow> database \<Rightarrow> database" where
  "rollover_import fails msgs conns db =
     (if fails then db
      else db\<lparr>message_table := dict_update (message_table db) msgs, connection_table := dict_update (connection_table db) conns\<rparr>)"

text \<open>\<open>rollover\<close>: the old database and the new one, whose file is \<open>file\<close>.\<close>

definition rollover :: "export_failure \<Rightarrow> bool \<Rightarrow> string \<times> string \<Rightarrow> bool \<Rightarrow> database \<Rightarrow> database \<Rightarrow> database \<times> database" where
  "rollover export_fails import_fails names conversion file old =
     (case rollover_export export_fails names old of (conns, msgs, old') \<Rightarrow>
        (old', rollover_import import_fails msgs conns (open_saver conversion file)))"

text \<open>The start of \<open>SqliteThread\<close>: the interval of the rollover, in microseconds, and when it is due. The
  message of the third exit asks for more than 1, which the test does not.\<close>

definition system_exit :: exn where
  "system_exit = PyExc ''SystemExit'' ''1''"

definition unit_seconds :: "(string \<times> int) list" where
  "unit_seconds = [(''days'', 86400), (''seconds'', 1), (''minutes'', 60), (''hours'', 3600), (''weeks'', 604800)]"

definition rollover_interval :: "pyval \<Rightarrow> int res" where
  "rollover_interval config = (case config of
      PDict cfg \<Rightarrow>
        if truthy (dget cfg ''enable'')
        then (case (case dget cfg ''value'' of PInt i \<Rightarrow> Some i | PBool b \<Rightarrow> Some (if b then 1 else 0) | _ \<Rightarrow> None) of
                None \<Rightarrow> Inl system_exit
              | Some n \<Rightarrow>
                  if n < 1 then Inl system_exit
                  else (case dget cfg ''unit'' of
                          PStr u \<Rightarrow> (case map_of unit_seconds u of
                              None \<Rightarrow> Inl system_exit
                            | Some k \<Rightarrow> if in_delta_range (n * k * 1000000) then Inr (n * k * 1000000)
                                else Inl (PyExc ''OverflowError'' ''days out of range''))
                        | _ \<Rightarrow> Inl system_exit))
        else Inr (52 * 604800 * 1000000)
    | _ \<Rightarrow> Inl (PyExc ''AttributeError'' ''object has no attribute get''))"

definition rollover_due :: "pydict \<Rightarrow> int \<Rightarrow> int \<Rightarrow> bool" where
  "rollover_due cfg now next_rollover \<longleftrightarrow> dget cfg ''enable'' = PBool True \<and> next_rollover \<le> now"

section \<open>The batches of the thread (\<open>run\<close>)\<close>

datatype ('p, 'x) queued = Connected connection_record | Disconnected disconnection_record
  | Handled "('p, 'x) stored_message" | Finish

text \<open>\<open>itertools.groupby\<close>: the runs of equal keys.\<close>

fun group_runs :: "('a \<Rightarrow> 'k) \<Rightarrow> 'a list \<Rightarrow> ('k \<times> 'a list) list" where
  "group_runs key [] = []"
| "group_runs key (x # xs) = (case group_runs key xs of
      [] \<Rightarrow> [(key x, [x])]
    | (k, g) # gs \<Rightarrow> if k = key x then (k, x # g) # gs else (key x, [x]) # (k, g) # gs)"

datatype queued_type = ConnectionType | DisconnectionType | MessageType | NoneType

fun type_of :: "('p, 'x) queued \<Rightarrow> queued_type" where
  "type_of (Connected c) = ConnectionType"
| "type_of (Disconnected d) = DisconnectionType"
| "type_of (Handled m) = MessageType"
| "type_of Finish = NoneType"

text \<open>The slices \<open>items[k : k + 50]\<close>.\<close>

function slices :: "nat \<Rightarrow> 'a list \<Rightarrow> 'a list list" where
  "slices n xs = (if xs = [] \<or> n = 0 then [] else take n xs # slices n (drop n xs))"
  by pat_completeness auto
termination by (relation "measure (\<lambda>(n, xs). length xs)") auto

declare slices.simps [simp del]

fun run_all :: "('a \<Rightarrow> 'b \<Rightarrow> 'b res) \<Rightarrow> 'a list \<Rightarrow> 'b \<Rightarrow> 'b res" where
  "run_all f [] db = Inr db"
| "run_all f (x # xs) db = bindE (f x db) (run_all f xs)"

definition connected :: "('p, 'x) queued \<Rightarrow> connection_record list" where
  "connected q = (case q of Connected c \<Rightarrow> [c] | _ \<Rightarrow> [])"

definition disconnected :: "('p, 'x) queued \<Rightarrow> disconnection_record list" where
  "disconnected q = (case q of Disconnected d \<Rightarrow> [d] | _ \<Rightarrow> [])"

definition handled :: "('p, 'x) queued \<Rightarrow> ('p, 'x) stored_message list" where
  "handled q = (case q of Handled m \<Rightarrow> [m] | _ \<Rightarrow> [])"

text \<open>\<open>now\<close> gives the time at which a batch is written.\<close>

definition write_group :: "(('p, 'x) stored_message list \<Rightarrow> int) \<Rightarrow> queued_type \<Rightarrow> ('p, 'x) queued list \<Rightarrow> database \<Rightarrow> database res" where
  "write_group now t items db = (case t of
      ConnectionType \<Rightarrow> run_all insert_connection (concat (map connected items)) db
    | DisconnectionType \<Rightarrow> run_all (\<lambda>d db. Inr (update_disconnection d db)) (concat (map disconnected items)) db
    | MessageType \<Rightarrow> run_all (\<lambda>ms. insert_message_multi (now ms) ms) (slices 50 (concat (map handled items))) db
    | NoneType \<Rightarrow> Inr db)"

text \<open>One pass over a list of pending items: whether the thread goes on, and the database. An exception ends
  the thread; what its tables hold then is not followed.\<close>

datatype pass = Continue database | Finished database | Died exn

fun write_groups :: "(('p, 'x) stored_message list \<Rightarrow> int) \<Rightarrow> (queued_type \<times> ('p, 'x) queued list) list \<Rightarrow> database \<Rightarrow> pass" where
  "write_groups now [] db = Continue db"
| "write_groups now ((t, items) # gs) db =
     (if t = NoneType then Finished db
      else case write_group now t items db of Inl e \<Rightarrow> Died e | Inr db1 \<Rightarrow> write_groups now gs db1)"

definition write_pending :: "(('p, 'x) stored_message list \<Rightarrow> int) \<Rightarrow> ('p, 'x) queued list \<Rightarrow> database \<Rightarrow> pass" where
  "write_pending now items db = write_groups now (group_runs type_of items) db"

section \<open>Batches and single items\<close>

text \<open>The reference: every item on its own. The time of saving is left out of the comparison.\<close>

fun write_one :: "('p, 'x) queued \<Rightarrow> database \<Rightarrow> database res" where
  "write_one (Connected c) db = insert_connection c db"
| "write_one (Disconnected d) db = Inr (update_disconnection d db)"
| "write_one (Handled m) db = insert_message_multi 0 [m] db"
| "write_one Finish db = Inr db"

definition forget_saved :: "database \<Rightarrow> database" where
  "forget_saved db = db\<lparr>message_table := map (\<lambda>(k, r). (k, r\<lparr>mr_saved := None\<rparr>)) (message_table db)\<rparr>"

definition forget_res :: "database res \<Rightarrow> database res" where
  "forget_res r = bindE r (\<lambda>db. Inr (forget_saved db))"

definition agree :: "(database \<Rightarrow> database res) \<Rightarrow> (database \<Rightarrow> database res) \<Rightarrow> bool" where
  "agree f g \<longleftrightarrow> (\<forall>db db'. forget_saved db = forget_saved db' \<longrightarrow> forget_res (f db) = forget_res (g db'))"

lemma forget_res_simps [simp]: "forget_res (Inl e) = Inl e" "forget_res (Inr db) = Inr (forget_saved db)"
  by (simp_all add: forget_res_def)

lemma agree_bind: "agree f g \<Longrightarrow> agree f' g' \<Longrightarrow> agree (\<lambda>db. bindE (f db) f') (\<lambda>db. bindE (g db) g')"
  unfolding agree_def
proof (intro allI impI)
  fix db db' assume f: "\<forall>db db'. forget_saved db = forget_saved db' \<longrightarrow> forget_res (f db) = forget_res (g db')"
    and f': "\<forall>db db'. forget_saved db = forget_saved db' \<longrightarrow> forget_res (f' db) = forget_res (g' db')"
    and "forget_saved db = forget_saved db'"
  then have "forget_res (f db) = forget_res (g db')" by blast
  with f' show "forget_res (bindE (f db) f') = forget_res (bindE (g db') g')"
    by (cases "f db"; cases "g db'") simp_all
qed

lemma run_all_append: "run_all f (xs @ ys) db = bindE (run_all f xs db) (run_all f ys)"
  by (induction xs arbitrary: db) (simp_all add: bindE_def split: sum.splits)

lemma agree_run_all: "(\<And>x. x \<in> set xs \<Longrightarrow> agree (f x) (g x)) \<Longrightarrow> agree (run_all f xs) (run_all g xs)"
proof (induction xs)
  case (Cons x xs)
  then have "agree (\<lambda>db. bindE (f x db) (run_all f xs)) (\<lambda>db. bindE (g x db) (run_all g xs))"
    by (intro agree_bind) simp_all
  then show ?case by (simp add: agree_def)
qed (simp add: agree_def)

lemma forget_saved_eq:
  "forget_saved db = forget_saved db' \<longleftrightarrow>
     map (\<lambda>(k, r). (k, r\<lparr>mr_saved := None\<rparr>)) (message_table db) = map (\<lambda>(k, r). (k, r\<lparr>mr_saved := None\<rparr>)) (message_table db')
     \<and> connection_table db = connection_table db' \<and> rollover_files db = rollover_files db' \<and> openings db = openings db'"
  by (cases db; cases db') (auto simp: forget_saved_def)

lemma forget_keys: "map (\<lambda>(k, r). (k, r\<lparr>mr_saved := None\<rparr>)) t = map (\<lambda>(k, r). (k, r\<lparr>mr_saved := None\<rparr>)) t' \<Longrightarrow>
    map_of t k = None \<longleftrightarrow> map_of t' k = None"
proof -
  assume "map (\<lambda>(k, r). (k, r\<lparr>mr_saved := None\<rparr>)) t = map (\<lambda>(k, r). (k, r\<lparr>mr_saved := None\<rparr>)) t'"
  then have "map fst (map (\<lambda>(k, r). (k, r\<lparr>mr_saved := None\<rparr>)) t) = map fst (map (\<lambda>(k, r). (k, r\<lparr>mr_saved := None\<rparr>)) t')" by simp
  then have "map fst t = map fst t'" by (simp add: comp_def case_prod_unfold)
  then have "fst ` set t = fst ` set t'" by (metis list.set_map)
  then show ?thesis by (simp add: map_of_eq_None_iff)
qed

lemma update_row_fields [simp]:
  "message_table (update_row i f db) = message_table db" "rollover_files (update_row i f db) = rollover_files db"
  "openings (update_row i f db) = openings db"
  by (simp_all add: update_row_def)

lemma update_connection_fields [simp]:
  "message_table (update_connection m db) = message_table db" "rollover_files (update_connection m db) = rollover_files db"
  "openings (update_connection m db) = openings db"
  by (simp_all add: update_connection_def split: option.split)

lemma update_connection_table:
  "connection_table db = connection_table db' \<Longrightarrow> connection_table (update_connection m db) = connection_table (update_connection m db')"
  by (simp add: update_connection_def update_row_def split: option.split)

lemma update_multi_fields [simp]:
  "message_table (update_connection_multi ms db) = message_table db" "rollover_files (update_connection_multi ms db) = rollover_files db"
  "openings (update_connection_multi ms db) = openings db"
  unfolding update_connection_multi_def by (induction ms arbitrary: db) simp_all

lemma update_multi_table:
  "connection_table db = connection_table db' \<Longrightarrow>
     connection_table (update_connection_multi ms db) = connection_table (update_connection_multi ms db')"
  unfolding update_connection_multi_def
proof (induction ms arbitrary: db db')
  case (Cons m ms)
  from Cons.IH [OF update_connection_table [OF Cons.prems, of m]] show ?case by simp
qed simp

lemma update_multi_messages:
  "update_connection_multi ms (db\<lparr>message_table := t\<rparr>) = (update_connection_multi ms db)\<lparr>message_table := t\<rparr>"
  unfolding update_connection_multi_def
proof (induction ms arbitrary: db)
  case (Cons m ms)
  have "update_connection m (db\<lparr>message_table := t\<rparr>) = (update_connection m db)\<lparr>message_table := t\<rparr>"
    by (simp add: update_connection_def update_row_def split: option.split)
  with Cons.IH show ?case by simp
qed simp

lemma insert_split:
  "insert_message_multi t (xs @ ys) db = bindE (insert_message_multi t xs db) (insert_message_multi t ys)"
proof -
  have keys: "map_of (message_table db @ map (\<lambda>m. (sm_id m, record_to_message t m)) xs) k = None
      \<longleftrightarrow> map_of (message_table db) k = None \<and> k \<notin> sm_id ` set xs" for k
    by (auto simp: map_add_None map_of_eq_None_iff image_image)
  have d: "distinct (map sm_id (xs @ ys)) \<longleftrightarrow>
      distinct (map sm_id xs) \<and> distinct (map sm_id ys) \<and> (\<forall>m\<in>set ys. sm_id m \<notin> sm_id ` set xs)" by (auto simp: disjoint_iff) (metis imageI)+
  have u: "update_connection_multi (xs @ ys) db' = update_connection_multi ys (update_connection_multi xs db')" for db'
    by (simp add: update_connection_multi_def)
  let ?ok = "\<lambda>t ms. distinct (map sm_id ms) \<and> list_all (\<lambda>m. map_of t (sm_id m) = None) ms"
  show ?thesis
  proof (cases "?ok (message_table db) xs")
    case False
    then have "\<not> ?ok (message_table db) (xs @ ys)" by auto
    with False show ?thesis by (auto simp: insert_message_multi_def)
  next
    case True
    then have "?ok (message_table db) (xs @ ys)
        = ?ok (message_table db @ map (\<lambda>m. (sm_id m, record_to_message t m)) xs) ys"
      unfolding d keys list_all_iff by auto
    with True show ?thesis by (simp add: insert_message_multi_def update_multi_messages u)
  qed
qed

lemma insert_each: "insert_message_multi t ms db = run_all (\<lambda>m. insert_message_multi t [m]) ms db"
proof (induction ms arbitrary: db)
  case Nil
  then show ?case by (simp add: insert_message_multi_def update_connection_multi_def)
next
  case (Cons m ms)
  then show ?case using insert_split [of t "[m]" ms db] by (simp add: fun_eq_iff bindE_def split: sum.split)
qed

text \<open>The parts of a pass, each as its reference.\<close>

lemma agree_connection: "agree (insert_connection c) (insert_connection c)"
  by (auto simp: agree_def insert_connection_def forget_saved_eq)

lemma agree_disconnection: "agree (\<lambda>db. Inr (update_disconnection d db)) (\<lambda>db. Inr (update_disconnection d db))"
  by (auto simp: agree_def update_disconnection_def update_row_def forget_saved_eq)

lemma agree_message: "agree (insert_message_multi t [m]) (insert_message_multi 0 [m])"
proof -
  have "(record_to_message t m)\<lparr>mr_saved := None\<rparr> = (record_to_message 0 m)\<lparr>mr_saved := None\<rparr>"
    by (simp add: record_to_message_def Let_def)
  then show ?thesis
    unfolding agree_def
  proof (intro allI impI)
    fix db db' assume same: "forget_saved db = forget_saved db'"
    then have "map_of (message_table db) (sm_id m) = None \<longleftrightarrow> map_of (message_table db') (sm_id m) = None"
      by (intro forget_keys) (simp add: forget_saved_eq)
    moreover have "connection_table (update_connection_multi [m] (db\<lparr>message_table := t1\<rparr>))
        = connection_table (update_connection_multi [m] (db'\<lparr>message_table := t2\<rparr>))" for t1 t2
      using same by (intro update_multi_table) (simp add: forget_saved_eq)
    ultimately show "forget_res (insert_message_multi t [m] db) = forget_res (insert_message_multi 0 [m] db')"
      using same \<open>(record_to_message t m)\<lparr>mr_saved := None\<rparr> = _\<close> by (simp add: insert_message_multi_def forget_saved_eq)
  qed
qed

lemma slices_concat: "0 < n \<Longrightarrow> concat (slices n xs) = xs"
  by (induction n xs rule: slices.induct) (simp add: slices.simps)

lemma slices_bounds: "ys \<in> set (slices n xs) \<Longrightarrow> ys \<noteq> [] \<and> length ys \<le> n"
proof (induction n xs rule: slices.induct)
  case (1 n xs)
  from "1.prems" have ne: "\<not> (xs = [] \<or> n = 0)" by (subst (asm) slices.simps) (auto split: if_splits)
  with "1.prems" have "ys = take n xs \<or> ys \<in> set (slices n (drop n xs))" by (subst (asm) slices.simps) auto
  with "1.IH" ne show ?case by auto
qed

lemma agree_messages:
  "agree (run_all (\<lambda>ms. insert_message_multi (now ms) ms) xss) (run_all (\<lambda>m. insert_message_multi 0 [m]) (concat xss))"
proof (induction xss)
  case (Cons xs xss)
  have "agree (run_all (\<lambda>m. insert_message_multi (now xs) [m]) xs) (run_all (\<lambda>m. insert_message_multi 0 [m]) xs)"
    by (rule agree_run_all) (rule agree_message)
  then have "agree (insert_message_multi (now xs) xs) (run_all (\<lambda>m. insert_message_multi 0 [m]) xs)"
    unfolding agree_def by (simp add: insert_each [of "now xs" xs])
  from agree_bind [OF this Cons] show ?case by (simp add: agree_def run_all_append)
qed (simp add: agree_def)

lemma one_kind:
  assumes "\<And>q. q \<in> set items \<Longrightarrow> type_of q = t"
  shows "run_all write_one items = (case t of
      ConnectionType \<Rightarrow> run_all insert_connection (concat (map connected items))
    | DisconnectionType \<Rightarrow> run_all (\<lambda>d db. Inr (update_disconnection d db)) (concat (map disconnected items))
    | MessageType \<Rightarrow> run_all (\<lambda>m. insert_message_multi 0 [m]) (concat (map handled items))
    | NoneType \<Rightarrow> Inr)"
  using assms
proof (induction items)
  case (Cons q items)
  then have q: "type_of q = t" by simp
  have "run_all write_one items = (case t of
      ConnectionType \<Rightarrow> run_all insert_connection (concat (map connected items))
    | DisconnectionType \<Rightarrow> run_all (\<lambda>d db. Inr (update_disconnection d db)) (concat (map disconnected items))
    | MessageType \<Rightarrow> run_all (\<lambda>m. insert_message_multi 0 [m]) (concat (map handled items))
    | NoneType \<Rightarrow> Inr)" using Cons by simp
  with q show ?case
    by (cases q) (auto intro!: ext simp: connected_def disconnected_def handled_def)
qed (auto intro!: ext split: queued_type.split)

lemma agree_group:
  assumes "\<And>q. q \<in> set items \<Longrightarrow> type_of q = t"
  shows "agree (write_group now t items) (run_all write_one items)"
proof -
  have one: "run_all write_one items = (case t of
      ConnectionType \<Rightarrow> run_all insert_connection (concat (map connected items))
    | DisconnectionType \<Rightarrow> run_all (\<lambda>d db. Inr (update_disconnection d db)) (concat (map disconnected items))
    | MessageType \<Rightarrow> run_all (\<lambda>m. insert_message_multi 0 [m]) (concat (map handled items))
    | NoneType \<Rightarrow> Inr)"
    by (rule one_kind) (rule assms)
  have w: "write_group now t items = (case t of
      ConnectionType \<Rightarrow> run_all insert_connection (concat (map connected items))
    | DisconnectionType \<Rightarrow> run_all (\<lambda>d db. Inr (update_disconnection d db)) (concat (map disconnected items))
    | MessageType \<Rightarrow> run_all (\<lambda>ms. insert_message_multi (now ms) ms) (slices 50 (concat (map handled items)))
    | NoneType \<Rightarrow> Inr)"
    by (rule ext) (simp add: write_group_def split: queued_type.split)
  have m: "agree (run_all (\<lambda>ms. insert_message_multi (now ms) ms) (slices 50 (concat (map handled items))))
      (run_all (\<lambda>m. insert_message_multi 0 [m]) (concat (map handled items)))"
    using agree_messages [of now "slices 50 (concat (map handled items))"] by (simp only: slices_concat zero_less_numeral)
  show ?thesis
  proof (cases t)
    case ConnectionType
    show ?thesis unfolding w one unfolding ConnectionType queued_type.case by (rule agree_run_all) (rule agree_connection)
  next
    case DisconnectionType
    show ?thesis unfolding w one unfolding DisconnectionType queued_type.case by (rule agree_run_all) (rule agree_disconnection)
  next
    case MessageType
    show ?thesis unfolding w one unfolding MessageType queued_type.case by (rule m)
  next
    case NoneType
    show ?thesis unfolding w one unfolding NoneType queued_type.case by (simp add: agree_def)
  qed
qed

lemma group_runs_facts:
  "concat (map snd (group_runs key xs)) = xs"
  "(k, g) \<in> set (group_runs key xs) \<Longrightarrow> g \<noteq> [] \<and> (\<forall>x\<in>set g. key x = k)"
proof -
  show "concat (map snd (group_runs key xs)) = xs"
    by (induction xs) (auto split: list.splits prod.splits)
  show "(k, g) \<in> set (group_runs key xs) \<Longrightarrow> g \<noteq> [] \<and> (\<forall>x\<in>set g. key x = k)"
  proof (induction xs arbitrary: k g)
    case (Cons a xs)
    note outer = Cons
    show ?case
    proof (cases "group_runs key xs")
      case Nil
      with Cons.prems show ?thesis by simp
    next
      case (Cons kg gs)
      obtain k' g' where kg: "kg = (k', g')" by (cases kg)
      have "g \<noteq> [] \<and> (\<forall>x\<in>set g. key x = k)" if "(k, g) \<in> set ((k', g') # gs)" for k g
        using outer(1) [of k g] that Cons kg by simp
      note runs = this
      from outer(2) Cons kg
      consider "(k, g) \<in> set ((k', g') # gs)" | "k = k'" "g = a # g'" "k' = key a" | "k = key a" "g = [a]"
        by (auto split: if_splits)
      then show ?thesis
      proof cases
        case 1
        then show ?thesis by (rule runs)
      next
        case 2
        with runs [of k' g'] show ?thesis by simp
      qed simp
    qed
  qed simp
qed

definition pass_result :: "pass \<Rightarrow> (bool \<times> database) res" where
  "pass_result p = (case p of Continue db \<Rightarrow> Inr (False, db) | Finished db \<Rightarrow> Inr (True, db) | Died e \<Rightarrow> Inl e)"

definition forget_pass :: "(bool \<times> database) res \<Rightarrow> (bool \<times> database) res" where
  "forget_pass r = bindE r (\<lambda>(b, db). Inr (b, forget_saved db))"

lemma type_of_finish: "type_of q = NoneType \<longleftrightarrow> q = Finish"
  by (cases q) simp_all

lemma write_groups_reference:
  assumes "\<And>k g. (k, g) \<in> set gs \<Longrightarrow> g \<noteq> [] \<and> (\<forall>q\<in>set g. type_of q = k)" "forget_saved db = forget_saved db'"
  shows "forget_pass (pass_result (write_groups now gs db)) =
    forget_pass (bindE (run_all write_one (takeWhile (\<lambda>q. q \<noteq> Finish) (concat (map snd gs))) db')
      (\<lambda>db. Inr (Finish \<in> set (concat (map snd gs)), db)))"
  using assms
proof (induction gs arbitrary: db db')
  case (Cons kg gs)
  obtain t items where kg: "kg = (t, items)" by (cases kg) blast
  with Cons.prems(1) [of t items] have g: "items \<noteq> []" "\<forall>q\<in>set items. type_of q = t" by auto
  show ?case
  proof (cases "t = NoneType")
    case True
    then obtain rest where "items = Finish # rest" using g by (cases items) (auto simp: type_of_finish)
    with True kg Cons.prems(2) show ?thesis by (simp add: forget_pass_def pass_result_def)
  next
    case False
    then have nf: "Finish \<notin> set items" using g(2) by auto
    from agree_group [of items t now] g(2) Cons.prems(2)
    have a: "forget_res (write_group now t items db) = forget_res (run_all write_one items db')" unfolding agree_def by blast
    have tw: "takeWhile (\<lambda>q. q \<noteq> Finish) (items @ concat (map snd gs)) = items @ takeWhile (\<lambda>q. q \<noteq> Finish) (concat (map snd gs))"
      using nf by (intro takeWhile_append2) auto
    show ?thesis
    proof (cases "write_group now t items db")
      case (Inl e)
      with a have "run_all write_one items db' = Inl e" by (cases "run_all write_one items db'") simp_all
      with Inl False kg show ?thesis by (simp add: tw run_all_append forget_pass_def pass_result_def)
    next
      case (Inr db1)
      with a obtain db1' where r: "run_all write_one items db' = Inr db1'" "forget_saved db1 = forget_saved db1'"
        by (cases "run_all write_one items db'") simp_all
      have "forget_pass (pass_result (write_groups now gs db1)) =
        forget_pass (bindE (run_all write_one (takeWhile (\<lambda>q. q \<noteq> Finish) (concat (map snd gs))) db1')
          (\<lambda>db. Inr (Finish \<in> set (concat (map snd gs)), db)))"
        by (rule Cons.IH [OF _ r(2)]) (use Cons.prems(1) in auto)
      with Inr False kg r(1) nf show ?thesis by (simp add: tw run_all_append)
    qed
  qed
qed (simp add: forget_pass_def pass_result_def)

text \<open>C32. A pass over the pending items. Grouping by kind and writing messages in batches of at most 50
  gives exactly what writing the items one after the other gives, up to the time of saving: the same tables, or
  the same exception. The pass ends the thread exactly if the stop mark is among the items, and then what comes
  behind it is not written. No batch is empty or longer than 50.\<close>

theorem batches_write_in_order:
  "forget_pass (pass_result (write_pending now items db)) =
     forget_pass (bindE (run_all write_one (takeWhile (\<lambda>q. q \<noteq> Finish) items) db) (\<lambda>db'. Inr (Finish \<in> set items, db')))
   \<and> list_all (\<lambda>ms. ms \<noteq> [] \<and> length ms \<le> 50) (slices 50 (concat (map handled items)))"
proof -
  have "forget_pass (pass_result (write_groups now (group_runs type_of items) db)) =
    forget_pass (bindE (run_all write_one (takeWhile (\<lambda>q. q \<noteq> Finish) (concat (map snd (group_runs type_of items)))) db)
      (\<lambda>db. Inr (Finish \<in> set (concat (map snd (group_runs type_of items))), db)))"
    by (rule write_groups_reference [OF _ refl]) (rule group_runs_facts(2))
  then show ?thesis
    using slices_bounds [of _ 50 "concat (map handled items)"] by (auto simp: write_pending_def group_runs_facts(1) list_all_iff)
qed

section \<open>The tables stay consistent\<close>

text \<open>Keys are unique, and what a connection names as its recent messages is stored and its own.\<close>

definition tables_ok :: "database \<Rightarrow> bool" where
  "tables_ok db \<longleftrightarrow> distinct (map fst (connection_table db)) \<and> distinct (map fst (message_table db))
     \<and> (\<forall>(k, r)\<in>set (connection_table db). cr_id r = k
          \<and> (\<forall>i\<in>set (recent_ids r). \<exists>row. (i, row) \<in> set (message_table db) \<and> mr_connection row = k))"

lemma keys_map [simp]: "map (fst \<circ> (\<lambda>(k, r). (k, g k r))) t = map fst t"
  by (induction t) auto

lemma tables_ok_no_tables [simp]: "tables_ok no_tables"
  by (simp add: tables_ok_def no_tables_def)

lemma tables_ok_openings [simp]: "tables_ok (db\<lparr>openings := l\<rparr>) = tables_ok db"
  by (simp add: tables_ok_def)

lemma tables_ok_forget: "tables_ok (forget_saved db) = tables_ok db"
proof -
  have "(\<exists>row. (i, row) \<in> set (message_table (forget_saved db)) \<and> mr_connection row = k)
      \<longleftrightarrow> (\<exists>row. (i, row) \<in> set (message_table db) \<and> mr_connection row = k)" for i k
    by (force simp: forget_saved_def)
  then show ?thesis unfolding tables_ok_def by (simp add: forget_saved_def)
qed

lemma tables_ok_update:
  assumes "tables_ok db" "\<And>r. cr_id (f r) = cr_id r"
    and "\<And>r x. x \<in> set (recent_ids (f r)) \<Longrightarrow> x \<in> set (recent_ids r) \<or> (\<exists>row. (x, row) \<in> set (message_table db) \<and> mr_connection row = i)"
  shows "tables_ok (update_row i f db)"
proof -
  have "cr_id r' = k \<and> (\<forall>x\<in>set (recent_ids r'). \<exists>row. (x, row) \<in> set (message_table db) \<and> mr_connection row = k)"
    if kr: "(k, r') \<in> set (connection_table (update_row i f db))" for k r'
  proof -
    obtain r where r: "(k, r) \<in> set (connection_table db)" "r' = (if k = i then f r else r)"
      using kr by (auto simp: update_row_def)
    with assms(1) have old: "cr_id r = k" "\<forall>x\<in>set (recent_ids r). \<exists>row. (x, row) \<in> set (message_table db) \<and> mr_connection row = k"
      by (auto simp: tables_ok_def)
    show ?thesis
    proof (cases "k = i")
      case True
      with r(2) old assms(2) [of r] assms(3) [of _ r] show ?thesis by auto
    qed (use r(2) old in simp)
  qed
  moreover have "distinct (map fst (connection_table (update_row i f db)))" "distinct (map fst (message_table db))"
    using assms(1) by (simp_all add: tables_ok_def update_row_def)
  ultimately show ?thesis unfolding tables_ok_def by (simp only: update_row_fields) blast
qed

lemma recent_update_ids:
  assumes "recent_update m = Some f"
  shows "cr_id (f r) = cr_id r" "x \<in> set (recent_ids (f r)) \<Longrightarrow> x \<in> set (recent_ids r) \<or> x = sm_id m"
  using assms
  by (auto simp: recent_update_def Let_def recent_ids_def sm_id_def split: if_splits option.splits)

lemma tables_ok_message:
  assumes "tables_ok db" "insert_message_multi t [m] db = Inr db'"
  shows "tables_ok db'"
proof -
  let ?db = "db\<lparr>message_table := message_table db @ [(sm_id m, record_to_message t m)]\<rparr>"
  have new: "map_of (message_table db) (sm_id m) = None" and db': "db' = update_connection m ?db"
    using assms(2) by (auto simp: insert_message_multi_def update_connection_multi_def split: if_splits)
  have "sm_id m \<notin> fst ` set (message_table db)" using new by (simp add: map_of_eq_None_iff)
  then have ok: "tables_ok ?db" using assms(1) by (fastforce simp: tables_ok_def)
  show ?thesis
  proof (cases "recent_update m")
    case None
    with ok db' show ?thesis by (simp add: update_connection_def)
  next
    case (Some f)
    have "mr_connection (record_to_message t m) = rd_connection (received (sm_record m))"
      by (simp add: record_to_message_def Let_def)
    then have "tables_ok (update_row (rd_connection (received (sm_record m))) f ?db)"
      using recent_update_ids [OF Some] by (intro tables_ok_update [OF ok]) auto
    with Some db' show ?thesis by (simp add: update_connection_def)
  qed
qed

lemma tables_ok_one:
  assumes "tables_ok db" "write_one q db = Inr db'"
  shows "tables_ok db'"
proof (cases q)
  case (Connected c)
  with assms have "cn_id c \<notin> fst ` set (connection_table db)" and
    "db' = db\<lparr>connection_table := connection_table db @ [(cn_id c, connection_row_of c)]\<rparr>"
    by (auto simp: insert_connection_def map_of_eq_None_iff split: if_splits)
  with assms(1) show ?thesis by (simp add: tables_ok_def connection_row_of_def recent_ids_def)
next
  case (Disconnected d)
  with assms show ?thesis
    by (auto simp: update_disconnection_def recent_ids_def intro!: tables_ok_update)
next
  case (Handled m)
  with assms tables_ok_message show ?thesis by auto
qed (use assms in simp)

lemma tables_ok_run: "run_all write_one items db = Inr db' \<Longrightarrow> tables_ok db \<Longrightarrow> tables_ok db'"
  by (induction items arbitrary: db) (auto simp: bindE_Inr_iff dest: tables_ok_one)

lemma dict_update_fresh: "distinct (map fst (d @ e)) \<Longrightarrow> dict_update d e = d @ e"
proof (induction e arbitrary: d)
  case (Cons kv e)
  obtain k v where kv: "kv = (k, v)" by (cases kv)
  with Cons.prems have "AList.update k v d = d @ [(k, v)]"
  proof (induction d)
    case (Cons a d)
    then show ?case by (cases a) auto
  qed simp
  with Cons kv show ?case by (simp add: dict_update_def)
qed (simp add: dict_update_def)

lemma distinct_filter_keys: "distinct (map fst xs) \<Longrightarrow> distinct (map fst (filter P xs))"
  by (induction xs) auto


section \<open>The recent messages of a connection\<close>

definition is_registration :: "('p, 'x) stored_message \<Rightarrow> bool" where
  "is_registration m \<longleftrightarrow> registered (sm_record m) \<noteq> None"

definition is_status :: "bool \<Rightarrow> ('p, 'x) stored_message \<Rightarrow> bool" where
  "is_status unchanged m \<longleftrightarrow> \<not> is_registration m \<and> map_option is_unchanged (status_report (sm_record m)) = Some unchanged"

definition is_detection :: "('p, 'x) stored_message \<Rightarrow> bool" where
  "is_detection m \<longleftrightarrow> \<not> is_registration m \<and> status_report (sm_record m) = None
     \<and> Option.bind (parsed (sm_record m)) message_type = Some ''detection_report''"

definition accepted_of :: "nat \<Rightarrow> ('p, 'x) stored_message list \<Rightarrow> ('p, 'x) stored_message list" where
  "accepted_of c ms = filter (\<lambda>m. rd_connection (received (sm_record m)) = c \<and> error (sm_record m) = None) ms"

definition latest :: "(('p, 'x) stored_message \<Rightarrow> bool) \<Rightarrow> ('p, 'x) stored_message list \<Rightarrow> nat option" where
  "latest P ms = map_option sm_id (List.find P (rev ms))"

definition after_last :: "('a \<Rightarrow> bool) \<Rightarrow> 'a list \<Rightarrow> 'a list" where
  "after_last P ms = rev (takeWhile (\<lambda>m. \<not> P m) (rev ms))"

lemma latest_snoc [simp]: "latest P [] = None" "latest P (ms @ [m]) = (if P m then Some (sm_id m) else latest P ms)"
  by (simp_all add: latest_def)

lemma after_last_snoc [simp]: "after_last P [] = []" "after_last P (ms @ [m]) = (if P m then [] else after_last P ms @ [m])"
  by (simp_all add: after_last_def)

lemma map_of_update_row:
  "map_of (connection_table (update_row i f db)) c = map_option (\<lambda>r. if c = i then f r else r) (map_of (connection_table db) c)"
proof -
  have "map_of (map (\<lambda>(k, r). (k, if k = i then f r else r)) t) c = map_option (\<lambda>r. if c = i then f r else r) (map_of t c)"
    for t :: "(nat \<times> connection_row) list" by (induction t) auto
  then show ?thesis by (simp add: update_row_def)
qed

lemma recent_update_kinds:
  assumes "error (sm_record m) = None"
  obtains (registration) "is_registration m" "\<not> is_status False m" "\<not> is_status True m" "\<not> is_detection m" "recent_update m = Some (\<lambda>r. r\<lparr>cr_registration := Some (sm_id m),
        cr_status_new := None, cr_status_unchanged := None, cr_detection := None\<rparr>)"
    | (new) "\<not> is_registration m" "is_status False m" "\<not> is_status True m" "\<not> is_detection m"
        "recent_update m = Some (\<lambda>r. r\<lparr>cr_status_new := Some (sm_id m), cr_status_unchanged := None\<rparr>)"
    | (unchanged) "\<not> is_registration m" "\<not> is_status False m" "is_status True m" "\<not> is_detection m"
        "recent_update m = Some (\<lambda>r. r\<lparr>cr_status_unchanged := Some (sm_id m)\<rparr>)"
    | (detection) "\<not> is_registration m" "\<not> is_status False m" "\<not> is_status True m" "is_detection m"
        "recent_update m = Some (\<lambda>r. r\<lparr>cr_detection := Some (sm_id m)\<rparr>)"
    | (none) "\<not> is_registration m" "\<not> is_status False m" "\<not> is_status True m" "\<not> is_detection m" "recent_update m = None"
proof (cases "registered (sm_record m)")
  case (Some n)
  with assms registration show ?thesis
    by (simp add: recent_update_def is_registration_def is_status_def is_detection_def sm_id_def)
next
  case reg: None
  show ?thesis
  proof (cases "status_report (sm_record m)")
    case (Some st)
    with assms reg new unchanged show ?thesis
      by (cases "is_unchanged st") (simp_all add: recent_update_def is_registration_def is_status_def is_detection_def sm_id_def)
  next
    case None
    with assms reg detection none show ?thesis
      by (cases "Option.bind (parsed (sm_record m)) message_type = Some ''detection_report''")
        (auto simp: recent_update_def is_registration_def is_status_def is_detection_def sm_id_def Let_def bind_eq_Some_conv split: option.splits)
  qed
qed

text \<open>C33. What the row of a connection names as recent, for any batch of messages written from its start: of
  the messages of that connection without an error, the last registration; the last new status report after it;
  the last unchanged status report after it and after the last new one; and the last detection after the
  registration. The rest of the row stays.\<close>

theorem recent_columns:
  assumes "insert_message_multi t ms db = Inr db'" "map_of (connection_table db) c = Some r"
    and "recent_ids r = []"
  shows "map_of (connection_table db') c = Some (r\<lparr>
      cr_registration := latest is_registration (accepted_of c ms),
      cr_status_new := latest (is_status False) (after_last is_registration (accepted_of c ms)),
      cr_status_unchanged := latest (is_status True) (after_last (\<lambda>m. is_registration m \<or> is_status False m) (accepted_of c ms)),
      cr_detection := latest is_detection (after_last is_registration (accepted_of c ms))\<rparr>)"
proof -
  define db1 where "db1 = db\<lparr>message_table := message_table db @ map (\<lambda>m. (sm_id m, record_to_message t m)) ms\<rparr>"
  have db': "db' = update_connection_multi ms db1"
    using assms(1) by (auto simp: insert_message_multi_def db1_def split: if_splits)
  have start: "map_of (connection_table db1) c = Some (r\<lparr>cr_registration := None, cr_status_new := None, cr_status_unchanged := None, cr_detection := None\<rparr>)"
    using assms(2,3) by (cases r) (auto simp: db1_def recent_ids_def split: option.splits)
  have "map_of (connection_table (update_connection_multi ms db1)) c = Some (r\<lparr>
      cr_registration := latest is_registration (accepted_of c ms),
      cr_status_new := latest (is_status False) (after_last is_registration (accepted_of c ms)),
      cr_status_unchanged := latest (is_status True) (after_last (\<lambda>m. is_registration m \<or> is_status False m) (accepted_of c ms)),
      cr_detection := latest is_detection (after_last is_registration (accepted_of c ms))\<rparr>)"
  proof (induction ms rule: rev_induct)
    case Nil
    with start show ?case by (simp add: update_connection_multi_def accepted_of_def)
  next
    case (snoc m ms)
    have step: "update_connection_multi (ms @ [m]) db1 = update_connection m (update_connection_multi ms db1)"
      by (simp add: update_connection_multi_def)
    show ?case
    proof (cases "rd_connection (received (sm_record m)) = c \<and> error (sm_record m) = None")
      case True
      then have a: "accepted_of c (ms @ [m]) = accepted_of c ms @ [m]" by (simp add: accepted_of_def)
      from True have "error (sm_record m) = None" by simp
      then show ?thesis
        by (cases rule: recent_update_kinds)
          (use True snoc in \<open>simp_all add: step a update_connection_def map_of_update_row\<close>)
    next
      case False
      then have a: "accepted_of c (ms @ [m]) = accepted_of c ms" by (simp add: accepted_of_def)
      from False snoc show ?thesis unfolding step a
        by (auto simp: update_connection_def recent_update_def map_of_update_row split: option.splits)
    qed
  qed
  then show ?thesis by (simp add: db')
qed

section \<open>The thread and the threads that add\<close>

text \<open>The list of pending items is an object of the heap, \<open>pending\<close> the attribute that refers to it. \<open>add\<close> reads
  the attribute and then appends to the list it has read, both while it holds the condition; the thread
  acquires the condition only in \<open>wait\<close>, so that it may exchange the lists in between. With \<open>atomic\<close> it cannot,
  which is how CPython runs \<open>self.pending.append(item)\<close>; the language does not promise it.

  \<open>Iterating a n\<close>: the thread has read \<open>n\<close> elements of the list \<open>a\<close>; a list may grow while it is iterated.\<close>

datatype thread_phase = Waiting | Awake | Holding nat | Iterating nat nat | Ended

record 'q queue_state =
  lists :: "nat \<Rightarrow> 'q list"
  allocated :: nat
  pending :: nat
  adding :: "('q \<times> nat) option"
  phase :: thread_phase
  taken :: "'q list"
  added :: "'q list"

definition new_queue :: "'q queue_state" where
  "new_queue = \<lparr>lists = (\<lambda>_. []), allocated = 1, pending = 0, adding = None, phase = Waiting, taken = [], added = []\<rparr>"

definition append_at :: "nat \<Rightarrow> 'q \<Rightarrow> 'q queue_state \<Rightarrow> 'q queue_state" where
  "append_at a q s = s\<lparr>lists := (lists s)(a := lists s a @ [q]), adding := None, added := added s @ [q]\<rparr>"

inductive adder_step :: "bool \<Rightarrow> 'q queue_state \<Rightarrow> 'q queue_state \<Rightarrow> bool" for atomic where
  add_at_once: "atomic \<Longrightarrow> adding s = None \<Longrightarrow> adder_step atomic s (append_at (pending s) q s)"
| read_attribute: "\<not> atomic \<Longrightarrow> adding s = None \<Longrightarrow> adder_step atomic s (s\<lparr>adding := Some (q, pending s)\<rparr>)"
| append_item: "adding s = Some (q, a) \<Longrightarrow> adder_step atomic s (append_at a q s)"

inductive writer_step :: "('q \<Rightarrow> bool) \<Rightarrow> 'q queue_state \<Rightarrow> 'q queue_state \<Rightarrow> bool" for stops where
  wake: "phase s = Waiting \<Longrightarrow> adding s = None \<Longrightarrow> writer_step stops s (s\<lparr>phase := Awake\<rparr>)"
| nothing: "phase s = Awake \<Longrightarrow> lists s (pending s) = [] \<Longrightarrow> writer_step stops s (s\<lparr>phase := Waiting\<rparr>)"
| hold: "phase s = Awake \<Longrightarrow> lists s (pending s) \<noteq> [] \<Longrightarrow> writer_step stops s (s\<lparr>phase := Holding (pending s)\<rparr>)"
| exchange: "phase s = Holding a \<Longrightarrow> writer_step stops s
     (s\<lparr>lists := (lists s)(allocated s := []), pending := allocated s, allocated := allocated s + 1, phase := Iterating a 0\<rparr>)"
| take_next: "phase s = Iterating a n \<Longrightarrow> n < length (lists s a) \<Longrightarrow> writer_step stops s
     (s\<lparr>taken := taken s @ [lists s a ! n], phase := (if stops (lists s a ! n) then Ended else Iterating a (n + 1))\<rparr>)"
| exhausted: "phase s = Iterating a n \<Longrightarrow> n \<ge> length (lists s a) \<Longrightarrow> writer_step stops s (s\<lparr>phase := Waiting\<rparr>)"

inductive_cases adder_stepE: "adder_step atomic s s'"
inductive_cases writer_stepE: "writer_step stops s s'"

inductive queue_reachable :: "bool \<Rightarrow> ('q \<Rightarrow> bool) \<Rightarrow> 'q queue_state \<Rightarrow> bool" for atomic stops where
  initially: "queue_reachable atomic stops new_queue"
| adder: "queue_reachable atomic stops s \<Longrightarrow> adder_step atomic s s' \<Longrightarrow> queue_reachable atomic stops s'"
| writer: "queue_reachable atomic stops s \<Longrightarrow> writer_step stops s s' \<Longrightarrow> queue_reachable atomic stops s'"

text \<open>What the thread has still to read.\<close>

definition waiting_items :: "'q queue_state \<Rightarrow> 'q list" where
  "waiting_items s = (case phase s of Iterating a n \<Rightarrow> drop n (lists s a) | _ \<Rightarrow> []) @ lists s (pending s)"

definition queue_ok :: "('q \<Rightarrow> bool) \<Rightarrow> 'q queue_state \<Rightarrow> bool" where
  "queue_ok stops s \<longleftrightarrow> pending s < allocated s \<and> adding s = None
     \<and> (case phase s of
          Ended \<Rightarrow> (\<exists>rest. added s = taken s @ rest) \<and> (\<exists>ts q. taken s = ts @ [q] \<and> stops q \<and> list_all (\<lambda>t. \<not> stops t) ts)
        | Holding a \<Rightarrow> a = pending s \<and> added s = taken s @ waiting_items s \<and> list_all (\<lambda>t. \<not> stops t) (taken s)
        | Iterating a n \<Rightarrow> a \<noteq> pending s \<and> a < allocated s \<and> n \<le> length (lists s a)
            \<and> added s = taken s @ waiting_items s \<and> list_all (\<lambda>t. \<not> stops t) (taken s)
        | _ \<Rightarrow> added s = taken s @ waiting_items s \<and> list_all (\<lambda>t. \<not> stops t) (taken s))"

lemma queue_ok_adder:
  assumes "queue_ok stops s" "adder_step True s s'"
  shows "queue_ok stops s'"
  using assms(2,1)
  by (cases rule: adder_step.cases)
    (auto simp: queue_ok_def append_at_def waiting_items_def split: thread_phase.splits)

lemma queue_ok_writer:
  assumes "queue_ok stops s" "writer_step stops s s'"
  shows "queue_ok stops s'"
  using assms(2,1)
proof (cases rule: writer_step.cases)
  case (take_next a n)
  then have "drop n (lists s a) = lists s a ! n # drop (n + 1) (lists s a)" by (simp add: Cons_nth_drop_Suc)
  with take_next assms(1) show ?thesis by (auto simp: queue_ok_def waiting_items_def)
qed (auto simp: queue_ok_def waiting_items_def)

lemma queue_reachable_ok: "queue_reachable True stops s \<Longrightarrow> queue_ok stops s"
proof (induction rule: queue_reachable.induct)
  case initially
  show ?case by (simp add: queue_ok_def new_queue_def waiting_items_def)
qed (auto intro: queue_ok_adder queue_ok_writer)

lemma iterate_rest:
  assumes "phase s = Iterating a n" "n \<le> length (lists s a)" "\<forall>q\<in>set (drop n (lists s a)). \<not> stops q"
  shows "(writer_step stops)\<^sup>*\<^sup>* s (s\<lparr>taken := taken s @ drop n (lists s a), phase := Waiting\<rparr>)"
  using assms
proof (induction "length (lists s a) - n" arbitrary: s n)
  case 0
  then have "writer_step stops s (s\<lparr>phase := Waiting\<rparr>)" by (intro writer_step.exhausted) auto
  with 0 show ?case by simp
next
  case (Suc k)
  let ?q = "lists s a ! n" and ?s = "s\<lparr>taken := taken s @ [lists s a ! n], phase := Iterating a (n + 1)\<rparr>"
  have n: "n < length (lists s a)" using Suc.hyps(2) by simp
  then have d: "drop n (lists s a) = ?q # drop (n + 1) (lists s a)" by (simp add: Cons_nth_drop_Suc)
  then have "\<not> stops ?q" using Suc.prems(3) by simp
  with writer_step.take_next [OF Suc.prems(1) n, of stops] have one: "writer_step stops s ?s" by simp
  have "(writer_step stops)\<^sup>*\<^sup>* ?s (?s\<lparr>taken := taken ?s @ drop (n + 1) (lists ?s a), phase := Waiting\<rparr>)"
    by (rule Suc.hyps(1)) (use Suc.hyps(2) Suc.prems(3) n d in auto)
  with converse_rtranclp_into_rtranclp [of "writer_step stops", OF one] d show ?case by simp
qed

lemma exchange_all:
  assumes "phase s = Holding (pending s)" "pending s < allocated s" "\<forall>q\<in>set (lists s (pending s)). \<not> stops q"
    and "all = taken s @ lists s (pending s)" "added s = whole"
  shows "\<exists>s'. (writer_step stops)\<^sup>*\<^sup>* s s' \<and> taken s' = all \<and> added s' = whole"
proof -
  let ?a = "pending s"
  let ?s3 = "s\<lparr>lists := (lists s)(allocated s := []), pending := allocated s, allocated := allocated s + 1, phase := Iterating ?a 0\<rparr>"
  have "writer_step stops s ?s3" by (rule writer_step.exchange [OF assms(1)])
  moreover have l: "lists ?s3 ?a = lists s ?a" using assms(2) by simp
  moreover have "(writer_step stops)\<^sup>*\<^sup>* ?s3 (?s3\<lparr>taken := taken ?s3 @ drop 0 (lists ?s3 ?a), phase := Waiting\<rparr>)"
    by (rule iterate_rest) (use assms(2,3) in auto)
  ultimately have "(writer_step stops)\<^sup>*\<^sup>* s (?s3\<lparr>taken := taken ?s3 @ drop 0 (lists ?s3 ?a), phase := Waiting\<rparr>)"
    by (meson converse_rtranclp_into_rtranclp)
  with l assms(4,5) show ?thesis
    by (intro exI [of _ "?s3\<lparr>taken := taken ?s3 @ drop 0 (lists ?s3 ?a), phase := Waiting\<rparr>"] conjI) simp_all
qed

lemma drain_waiting:
  assumes "phase s = Waiting" "adding s = None" "pending s < allocated s" "\<forall>q\<in>set (lists s (pending s)). \<not> stops q"
  shows "\<exists>s'. (writer_step stops)\<^sup>*\<^sup>* s s' \<and> taken s' = taken s @ lists s (pending s) \<and> added s' = added s"
proof (cases "lists s (pending s) = []")
  case False
  let ?s1 = "s\<lparr>phase := Awake\<rparr>"
  let ?s2 = "?s1\<lparr>phase := Holding (pending s)\<rparr>"
  have "writer_step stops s ?s1" by (rule writer_step.wake [OF assms(1,2)])
  moreover have "writer_step stops ?s1 ?s2" using writer_step.hold [of ?s1 stops] False by simp
  moreover have "\<exists>s'. (writer_step stops)\<^sup>*\<^sup>* ?s2 s' \<and> taken s' = taken s @ lists s (pending s) \<and> added s' = added s"
    by (rule exchange_all) (use assms(3,4) in auto)
  ultimately show ?thesis by (meson converse_rtranclp_into_rtranclp)
qed auto



text \<open>What the code relies on. If reading the attribute and appending to the list can be separated by an
  exchange, a record can be appended to a list that the thread has already read to its end: it is added after
  another one, neither taken nor waiting, and nothing is left to take.\<close>

theorem interrupted_add_loses_record:
  "\<exists>s. queue_reachable False (\<lambda>_. False) s \<and> added s = [q1, q2] \<and> taken s = [q1] \<and> waiting_items s = []
     \<and> adding s = None \<and> phase s = Waiting"
proof -
  let ?r = "queue_reachable False (\<lambda>_. False)"
  note defs = new_queue_def append_at_def
  define s1 where "s1 = new_queue\<lparr>adding := Some (q1, 0 :: nat)\<rparr>"
  define s2 where "s2 = append_at 0 q1 s1"
  define s3 where "s3 = s2\<lparr>phase := Awake\<rparr>"
  define s4 where "s4 = s3\<lparr>adding := Some (q2, 0 :: nat)\<rparr>"
  define s5 where "s5 = s4\<lparr>phase := Holding 0\<rparr>"
  define s6 where "s6 = s5\<lparr>lists := (lists s5)(allocated s5 := []), pending := allocated s5, allocated := allocated s5 + 1, phase := Iterating 0 0\<rparr>"
  define s7 where "s7 = s6\<lparr>taken := taken s6 @ [lists s6 0 ! 0], phase := Iterating 0 (0 + 1)\<rparr>"
  define s8 where "s8 = s7\<lparr>phase := Waiting\<rparr>"
  define s9 where "s9 = append_at 0 q2 s8"
  note eqs = s9_def s8_def s7_def s6_def s5_def s4_def s3_def s2_def s1_def defs
  have "adder_step False new_queue s1" unfolding s1_def using adder_step.read_attribute [of False new_queue q1] by (simp add: defs)
  then have "?r s1" by (rule queue_reachable.adder [OF queue_reachable.initially])
  moreover have "adder_step False s1 s2" unfolding s2_def by (rule adder_step.append_item) (simp add: s1_def)
  ultimately have "?r s2" by (rule queue_reachable.adder)
  moreover have "writer_step (\<lambda>_. False) s2 s3" unfolding s3_def by (rule writer_step.wake) (simp_all add: eqs)
  ultimately have "?r s3" by (rule queue_reachable.writer)
  moreover have "adder_step False s3 s4"
    using adder_step.read_attribute [of False s3 q2] by (simp add: eqs)
  ultimately have "?r s4" by (rule queue_reachable.adder)
  moreover have "writer_step (\<lambda>_. False) s4 s5" using writer_step.hold [of s4 "\<lambda>_. False"] by (simp add: eqs)
  ultimately have "?r s5" by (rule queue_reachable.writer)
  moreover have "writer_step (\<lambda>_. False) s5 s6" unfolding s6_def by (rule writer_step.exchange) (simp add: s5_def)
  ultimately have "?r s6" by (rule queue_reachable.writer)
  moreover have "writer_step (\<lambda>_. False) s6 s7" using writer_step.take_next [of s6 0 0 "\<lambda>_. False"] by (simp add: eqs)
  ultimately have "?r s7" by (rule queue_reachable.writer)
  moreover have "writer_step (\<lambda>_. False) s7 s8" unfolding s8_def by (rule writer_step.exhausted [of s7 0 1]) (auto simp: eqs)
  ultimately have "?r s8" by (rule queue_reachable.writer)
  moreover have "adder_step False s8 s9" unfolding s9_def by (rule adder_step.append_item) (simp add: eqs)
  ultimately have "?r s9" by (rule queue_reachable.adder)
  then show ?thesis by (intro exI [of _ s9]) (simp add: eqs waiting_items_def)
qed

section \<open>Small tables\<close>

definition demo_stored :: "nat \<Rightarrow> string option \<Rightarrow> (nat, nat) stored_message" where
  "demo_stored i name = \<lparr>sm_record = \<lparr>received = \<lparr>rd_connection = 1, rd_message = i, rd_timestamp = 5, data_bytes = []\<rparr>,
     data_decoded_xml = [], data_binary_proto = None, forwarded_count = 0, parsed = None, registered = name,
     status_report = (if name = None then Some \<lparr>system = Some ''OK'', is_unchanged = False\<rparr> else None), error = None,
     updated_data_bytes = None, version = LATEST\<rparr>, sm_json = None, sm_decoded = 6\<rparr>"

definition demo_row :: connection_row where
  "demo_row = connection_row_of \<lparr>cn_id = 1, cn_type = ''Child'', cn_format = ''PROTO'', cn_peer = ''p'', cn_time = 0\<rparr>"

definition demo_tables :: database where
  "demo_tables = no_tables\<lparr>connection_table := [(1, demo_row)]\<rparr>"

lemma demo_tables_ok: "tables_ok demo_tables"
  by (simp add: tables_ok_def demo_tables_def no_tables_def demo_row_def connection_row_of_def recent_ids_def)

lemma recent_columns_witness:
  "\<exists>db' r. insert_message_multi 9 [demo_stored 3 (Some ''radar''), demo_stored 4 None] demo_tables = Inr db'
     \<and> map_of (connection_table db') 1 = Some r \<and> cr_registration r = Some 3 \<and> cr_status_new r = Some 4 \<and> cr_status_unchanged r = None"
proof -
  let ?ms = "[demo_stored 3 (Some ''radar''), demo_stored 4 None]"
  obtain db' where db': "insert_message_multi 9 ?ms demo_tables = Inr db'"
    by (simp add: insert_message_multi_def sm_id_def demo_stored_def demo_tables_def no_tables_def)
  have r: "map_of (connection_table demo_tables) 1 = Some demo_row" "recent_ids demo_row = []"
    by (simp_all add: demo_tables_def no_tables_def demo_row_def connection_row_of_def recent_ids_def)
  have a: "accepted_of 1 ?ms = ?ms" by (simp add: accepted_of_def demo_stored_def)
  have k: "is_registration (demo_stored 3 (Some ''radar''))" "\<not> is_registration (demo_stored 4 None)"
    "is_status False (demo_stored 4 None)" "\<not> is_status True (demo_stored 4 None)" "sm_id (demo_stored i n) = i" for i n
    by (simp_all add: is_registration_def is_status_def demo_stored_def sm_id_def)
  from recent_columns [OF db' r] db' show ?thesis
    unfolding a by (simp add: latest_def after_last_def k)
qed


text \<open>A failure between the two statements of the export leaves the new file with connections that name
  messages it does not have.\<close>

lemma failed_export_dangles:
  "\<exists>db. tables_ok db \<and> \<not> tables_ok (snd (rollover FailMessages False names conversion no_tables db))"
proof -
  let ?row = "demo_row\<lparr>cr_registration := Some 3\<rparr>"
  let ?db = "no_tables\<lparr>connection_table := [(1, ?row)], message_table := [(3, record_to_message 0 (demo_stored 3 None))]\<rparr>"
  have "mr_connection (record_to_message 0 (demo_stored 3 None)) = 1" by (simp add: record_to_message_def demo_stored_def)
  then have "tables_ok ?db" by (simp add: tables_ok_def no_tables_def demo_row_def connection_row_of_def recent_ids_def)
  moreover have "\<not> tables_ok (snd (rollover FailMessages False names conversion no_tables ?db))"
    by (simp add: rollover_def rollover_export_def rollover_import_def tables_ok_def no_tables_def active_rows_def open_saver_def
        dict_update_def demo_row_def connection_row_of_def recent_ids_def)
  ultimately show ?thesis by blast
qed

end
