(* ===== verification/ApexSchema.thy ===== *)
theory ApexSchema
  imports PyNum
begin

text \<open>
  Message descriptors as protobuf's reflection shows them, their names in XML
  (\<open>sapient_apex_server/xml_conversion/naming.py\<close>) and the cache from XML names to fields and enum
  numbers (\<open>from_xml_descriptor_cache.py\<close>).

  A descriptor is found by its full name in a pool, so that message types may refer to each other in
  cycles. An option that is not set has the default value of its type.
\<close>

section \<open>Descriptors\<close>

datatype field_type =
  TYPE_DOUBLE | TYPE_FLOAT | TYPE_INT64 | TYPE_UINT64 | TYPE_INT32 | TYPE_FIXED64 | TYPE_FIXED32 | TYPE_BOOL | TYPE_STRING
| TYPE_GROUP | TYPE_MESSAGE | TYPE_BYTES | TYPE_UINT32 | TYPE_ENUM | TYPE_SFIXED32 | TYPE_SFIXED64 | TYPE_SINT32 | TYPE_SINT64

text \<open>An enum value, with the option \<open>enum_options.enum_name\<close> if it has these options.\<close>

record enum_value =
  ev_name :: string
  ev_number :: int
  ev_option :: "string option"

record enum_descriptor =
  en_full_name :: string
  en_name :: string
  en_values :: "enum_value list"

record field_options =
  xml_name :: string
  xml_is_attribute :: bool
  xml_ignore :: bool
  xml_singly_nested :: string
  xml_is_parent_value :: bool
  xml_tentative :: bool
  is_ulid :: bool
  is_proto_time :: bool
  is_time :: bool

text \<open>\<open>fd_presence\<close>: whether \<open>HasField\<close> may be asked. \<open>fd_message\<close> is the type of a message field.\<close>

record field_descriptor =
  fd_number :: nat
  fd_field :: string
  fd_camelcase :: string
  fd_kind :: field_type
  fd_repeated :: bool
  fd_presence :: bool
  fd_oneof :: "string option"
  fd_message :: string
  fd_enum :: "enum_descriptor option"
  fd_options :: field_options

record descriptor =
  de_name :: string
  de_fields :: "field_descriptor list"
  de_xml_name :: string
  de_is_sapient :: bool

type_synonym pool = "(string, descriptor) odict"

definition desc_of :: "pool \<Rightarrow> string \<Rightarrow> descriptor" where
  "desc_of p n = (case map_of p n of Some d \<Rightarrow> d
     | None \<Rightarrow> \<lparr>de_name = n, de_fields = [], de_xml_name = [], de_is_sapient = False\<rparr>)"

section \<open>Names (\<open>naming.py\<close>)\<close>

definition get_message_xml_name :: "descriptor \<Rightarrow> string" where
  "get_message_xml_name d = (if de_xml_name d \<noteq> [] then de_xml_name d else de_name d)"

definition get_field_xml_name :: "field_descriptor \<Rightarrow> string" where
  "get_field_xml_name f = (if xml_name (fd_options f) \<noteq> [] then xml_name (fd_options f) else fd_camelcase f)"

definition is_upper :: "char \<Rightarrow> bool" where
  "is_upper c \<longleftrightarrow> lower_char c \<noteq> c"

definition is_cased :: "char \<Rightarrow> bool" where
  "is_cased c \<longleftrightarrow> lower_char c \<noteq> c \<or> upper_char c \<noteq> c"

text \<open>\<open>s.title()\<close> of an ASCII text; the flag says whether the character before is a letter.\<close>

fun title_from :: "bool \<Rightarrow> string \<Rightarrow> string" where
  "title_from prev [] = []"
| "title_from prev (c # cs) = (if prev then lower_char c else upper_char c) # title_from (is_cased c) cs"

definition title :: "string \<Rightarrow> string" where
  "title s = title_from False s"

text \<open>Names are not empty.\<close>

definition upper_snake_case_from_camel_case :: "string \<Rightarrow> string" where
  "upper_snake_case_from_camel_case s = (case s of
      [] \<Rightarrow> []
    | c # cs \<Rightarrow> upper_char c # concat (map (\<lambda>c. if is_upper c then [CHR ''_'', c] else [upper_char c]) cs))"

definition get_enum_value_xml_name :: "enum_descriptor \<Rightarrow> enum_value \<Rightarrow> string" where
  "get_enum_value_xml_name en v = (case ev_option v of
      Some s \<Rightarrow> s
    | None \<Rightarrow>
        let prefix = upper_snake_case_from_camel_case (en_name en) @ ''_'';
            rest = (if starts_with prefix (ev_name v) then drop (length prefix) (ev_name v) else ev_name v)
        in title (map (\<lambda>c. if c = CHR ''_'' then CHR '' '' else c) rest))"

text \<open>\<open>name.replace(" ", "").upper()\<close>\<close>

definition normalise :: "string \<Rightarrow> string" where
  "normalise s = map upper_char (filter (\<lambda>c. c \<noteq> CHR '' '') s)"

section \<open>The cache (\<open>from_xml_descriptor_cache.py\<close>)\<close>

definition runtime_error :: "string \<Rightarrow> exn" where
  "runtime_error m = PyExc ''RuntimeError'' m"

definition quoted :: "string \<Rightarrow> string" where
  "quoted s = [CHR 0x27] @ s @ [CHR 0x27]"

record message_fields_map =
  text_field :: "field_descriptor option"
  attribute_fields :: "(string, field_descriptor) odict"
  element_fields :: "(string, field_descriptor) odict"

record descriptor_cache =
  message_fields_map_cache :: "(string, message_fields_map) odict"
  enum_values_cache :: "(string, (string, int) odict) odict"

definition empty_cache :: descriptor_cache where
  "empty_cache = \<lparr>message_fields_map_cache = [], enum_values_cache = []\<rparr>"

definition add_field :: "string \<Rightarrow> field_descriptor \<Rightarrow> message_fields_map \<Rightarrow> message_fields_map res" where
  "add_field dn f m =
     (let name = get_field_xml_name f; opts = fd_options f
      in if xml_is_parent_value opts
         then (if text_field m \<noteq> None then Inl (runtime_error (''Multiple parent text fields in '' @ dn))
               else if fd_kind f = TYPE_MESSAGE
                    then Inl (runtime_error (''Invalid option '' @ quoted ''parent value'' @ '' for message field: '' @ fd_field f))
               else Inr (m\<lparr>text_field := Some f\<rparr>))
         else if xml_is_attribute opts
         then (if fd_kind f = TYPE_MESSAGE \<and> \<not> is_proto_time opts
               then Inl (runtime_error (''Invalid option '' @ quoted ''is attribute'' @ '' for message field: '' @ fd_field f))
               else if map_of (attribute_fields m) name \<noteq> None
                    then Inl (runtime_error (''Attribute name '' @ quoted name @ '' used for multiple fields''))
               else Inr (m\<lparr>attribute_fields := AList.update name f (attribute_fields m)\<rparr>))
         else (if map_of (element_fields m) name \<noteq> None
               then Inl (runtime_error (''Element name '' @ quoted name @ '' used for multiple fields''))
               else Inr (m\<lparr>element_fields := AList.update name f (element_fields m)\<rparr>)))"

fun add_fields :: "string \<Rightarrow> field_descriptor list \<Rightarrow> message_fields_map \<Rightarrow> message_fields_map res" where
  "add_fields dn [] m = Inr m"
| "add_fields dn (f # fs) m = bindE (add_field dn f m) (add_fields dn fs)"

definition get_message_fields_map :: "descriptor \<Rightarrow> message_fields_map res" where
  "get_message_fields_map d =
     add_fields (de_name d) (de_fields d) \<lparr>text_field = None, attribute_fields = [], element_fields = []\<rparr>"

fun enum_values_map :: "enum_descriptor \<Rightarrow> enum_value list \<Rightarrow> (string, int) odict \<Rightarrow> (string, int) odict res" where
  "enum_values_map en [] m = Inr m"
| "enum_values_map en (v # vs) m =
     (let k = normalise (get_enum_value_xml_name en v)
      in if map_of m k \<noteq> None then Inl (runtime_error (''In enum '' @ en_name en @ '', ambiguous value '' @ k))
         else enum_values_map en vs (AList.update k (ev_number v) m))"

definition get_enum_values_map :: "enum_descriptor \<Rightarrow> (string, int) odict res" where
  "get_enum_values_map en = enum_values_map en (en_values en) []"

fun add_enums :: "field_descriptor list \<Rightarrow> descriptor_cache \<Rightarrow> descriptor_cache res" where
  "add_enums [] c = Inr c"
| "add_enums (f # fs) c =
     (case fd_enum f of
        None \<Rightarrow> add_enums fs c
      | Some en \<Rightarrow>
          if map_of (enum_values_cache c) (en_full_name en) \<noteq> None then add_enums fs c
          else bindE (get_enum_values_map en) (\<lambda>m.
            add_enums fs (c\<lparr>enum_values_cache := AList.update (en_full_name en) m (enum_values_cache c)\<rparr>)))"

definition message_types :: "descriptor \<Rightarrow> string list" where
  "message_types d = map fd_message (filter (\<lambda>f. fd_kind f = TYPE_MESSAGE) (de_fields d))"

text \<open>\<open>populate\<close>; the second argument bounds the depth of the recursion, \<open>None\<close> is exceeding it.\<close>

fun populate :: "pool \<Rightarrow> nat \<Rightarrow> string \<Rightarrow> descriptor_cache \<Rightarrow> descriptor_cache res option"
and populate_types :: "pool \<Rightarrow> nat \<Rightarrow> string list \<Rightarrow> descriptor_cache \<Rightarrow> descriptor_cache res option" where
  "populate p 0 n c = None"
| "populate p (Suc k) n c =
     (if map_of (message_fields_map_cache c) n \<noteq> None then Some (Inr c)
      else case get_message_fields_map (desc_of p n) of
        Inl e \<Rightarrow> Some (Inl e)
      | Inr m \<Rightarrow>
          (case add_enums (de_fields (desc_of p n))
                  (c\<lparr>message_fields_map_cache := AList.update n m (message_fields_map_cache c)\<rparr>) of
             Inl e \<Rightarrow> Some (Inl e)
           | Inr c1 \<Rightarrow> populate_types p k (message_types (desc_of p n)) c1))"
| "populate_types p k [] c = Some (Inr c)"
| "populate_types p k (n # ns) c =
     (case populate p k n c of
        None \<Rightarrow> None
      | Some (Inl e) \<Rightarrow> Some (Inl e)
      | Some (Inr c1) \<Rightarrow> populate_types p k ns c1)"

section \<open>The recursion ends\<close>

definition cached :: "descriptor_cache \<Rightarrow> string set" where
  "cached c = dom (map_of (message_fields_map_cache c))"

definition uncached :: "pool \<Rightarrow> descriptor_cache \<Rightarrow> nat" where
  "uncached p c = card (dom (map_of p) - cached c)"

lemma add_enums_keeps: "add_enums fs c = Inr c1 \<Longrightarrow> message_fields_map_cache c1 = message_fields_map_cache c"
  by (induction fs c rule: add_enums.induct) (auto simp: res_simps split: option.splits if_splits)

lemma uncached_mono: "cached c \<subseteq> cached c1 \<Longrightarrow> uncached p c1 \<le> uncached p c"
  unfolding uncached_def by (rule card_mono) (auto simp: finite_dom_map_of)

lemma uncached_less:
  assumes "map_of p n \<noteq> None" "n \<notin> cached c" "cached c1 = insert n (cached c)"
  shows "uncached p c1 < uncached p c"
  unfolding uncached_def by (rule psubset_card_mono) (use assms in \<open>auto simp: finite_dom_map_of\<close>)

lemma cached_add:
  assumes "add_enums fs (c\<lparr>message_fields_map_cache := AList.update n m (message_fields_map_cache c)\<rparr>) = Inr c1"
  shows "cached c1 = insert n (cached c)"
  using add_enums_keeps [OF assms] by (simp add: cached_def update_conv' dom_def) auto

text \<open>One unit of fuel for each type that is not cached yet, and one more.\<close>

lemma populate_ends:
  "uncached p c < k \<Longrightarrow> \<exists>r. populate p k n c = Some r \<and> (\<forall>c1. r = Inr c1 \<longrightarrow> cached c \<subseteq> cached c1)"
  "uncached p c < k \<or> ns = [] \<Longrightarrow> \<exists>r. populate_types p k ns c = Some r \<and> (\<forall>c1. r = Inr c1 \<longrightarrow> cached c \<subseteq> cached c1)"
proof (induction p k n c and p k ns c rule: populate_populate_types.induct)
  case (2 p k n c)
  show ?case
  proof (cases "n \<in> cached c")
    case True
    then show ?thesis by (auto simp: cached_def)
  next
    case False
    then have none: "map_of (message_fields_map_cache c) n = None" by (auto simp: cached_def)
    show ?thesis
    proof (cases "get_message_fields_map (desc_of p n)")
      case (Inl e)
      then show ?thesis using none by simp
    next
      case (Inr m)
      let ?c = "c\<lparr>message_fields_map_cache := AList.update n m (message_fields_map_cache c)\<rparr>"
      show ?thesis
      proof (cases "add_enums (de_fields (desc_of p n)) ?c")
        case (Inl e)
        then show ?thesis using none Inr by simp
      next
        case inr: (Inr c1)
        have c1: "cached c1 = insert n (cached c)" by (rule cached_add [OF inr])
        have "uncached p c1 < k \<or> message_types (desc_of p n) = []"
        proof (cases "map_of p n")
          case None
          then show ?thesis by (simp add: desc_of_def message_types_def)
        next
          case Some
          then have "uncached p c1 < uncached p c" using uncached_less [OF _ False c1] by simp
          with "2.prems" show ?thesis by simp
        qed
        with "2.IH" [OF _ Inr inr] none obtain r where
          "populate_types p k (message_types (desc_of p n)) c1 = Some r" "\<forall>c2. r = Inr c2 \<longrightarrow> cached c1 \<subseteq> cached c2"
          by blast
        then show ?thesis using none Inr inr c1 by auto
      qed
    qed
  qed
next
  case (4 p k n ns c)
  then have "uncached p c < k" by simp
  with "4.IH"(1) obtain r where r: "populate p k n c = Some r" "\<forall>c1. r = Inr c1 \<longrightarrow> cached c \<subseteq> cached c1" by blast
  show ?case
  proof (cases r)
    case (Inl e)
    with r show ?thesis by simp
  next
    case (Inr c1)
    with r have sub: "cached c \<subseteq> cached c1" by simp
    with \<open>uncached p c < k\<close> have "uncached p c1 < k" using uncached_mono [of c c1 p] by simp
    with "4.IH"(2) r Inr obtain r1 where
      "populate_types p k ns c1 = Some r1" "\<forall>c2. r1 = Inr c2 \<longrightarrow> cached c1 \<subseteq> cached c2" by blast
    then show ?thesis using r Inr sub by auto
  qed
qed simp_all

section \<open>What is cached\<close>

definition cached_enums :: "descriptor_cache \<Rightarrow> string set" where
  "cached_enums c = dom (map_of (enum_values_cache c))"

text \<open>An entry holds what the descriptor gives; the enums of its fields have entries as well.\<close>

definition entry_ok :: "pool \<Rightarrow> descriptor_cache \<Rightarrow> string \<Rightarrow> bool" where
  "entry_ok p c n \<longleftrightarrow>
     (\<exists>m. map_of (message_fields_map_cache c) n = Some m \<and> get_message_fields_map (desc_of p n) = Inr m)
     \<and> (\<forall>f \<in> set (de_fields (desc_of p n)). \<forall>en. fd_enum f = Some en \<longrightarrow> en_full_name en \<in> cached_enums c)"

text \<open>The enums of a pool, and the one that an entry was made from.\<close>

definition pool_enums :: "pool \<Rightarrow> enum_descriptor set" where
  "pool_enums p = (\<Union>(n, d) \<in> set p. \<Union>f \<in> set (de_fields d). set_option (fd_enum f))"

definition enums_ok :: "pool \<Rightarrow> descriptor_cache \<Rightarrow> bool" where
  "enums_ok p c \<longleftrightarrow> (\<forall>u m. map_of (enum_values_cache c) u = Some m
     \<longrightarrow> (\<exists>en \<in> pool_enums p. en_full_name en = u \<and> get_enum_values_map en = Inr m))"

lemma pool_enums_field:
  assumes "f \<in> set (de_fields (desc_of p n))" "fd_enum f = Some en"
  shows "en \<in> pool_enums p"
proof (cases "map_of p n")
  case None
  with assms(1) show ?thesis by (simp add: desc_of_def)
next
  case (Some d)
  with assms show ?thesis using map_of_SomeD [OF Some] unfolding pool_enums_def
    by (intro UN_I [of "(n, d)"]) (auto simp: desc_of_def)
qed

text \<open>What \<open>c1\<close> has more than \<open>c\<close> is right and closed under the types of fields.\<close>

definition grows :: "pool \<Rightarrow> descriptor_cache \<Rightarrow> descriptor_cache \<Rightarrow> bool" where
  "grows p c c1 \<longleftrightarrow> cached c \<subseteq> cached c1
     \<and> (\<forall>n. n \<in> cached c \<longrightarrow> map_of (message_fields_map_cache c1) n = map_of (message_fields_map_cache c) n)
     \<and> cached_enums c \<subseteq> cached_enums c1
     \<and> (enums_ok p c \<longrightarrow> enums_ok p c1)
     \<and> (\<forall>n \<in> cached c1 - cached c. entry_ok p c1 n \<and> set (message_types (desc_of p n)) \<subseteq> cached c1)"

lemma add_enums_spec:
  assumes "add_enums fs c = Inr c1" "\<forall>f \<in> set fs. set_option (fd_enum f) \<subseteq> pool_enums p"
  shows "cached_enums c \<subseteq> cached_enums c1 \<and> (enums_ok p c \<longrightarrow> enums_ok p c1)
    \<and> (\<forall>f \<in> set fs. \<forall>en. fd_enum f = Some en \<longrightarrow> en_full_name en \<in> cached_enums c1)"
  using assms
proof (induction fs c rule: add_enums.induct)
  case (2 f fs c)
  consider "fd_enum f = None" | en where "fd_enum f = Some en" "map_of (enum_values_cache c) (en_full_name en) \<noteq> None"
    | en where "fd_enum f = Some en" "map_of (enum_values_cache c) (en_full_name en) = None" by blast
  then show ?case
  proof cases
    case 1
    with 2 show ?thesis by simp
  next
    case (2 en)
    with "2.prems" have "add_enums fs c = Inr c1" "\<forall>f \<in> set fs. set_option (fd_enum f) \<subseteq> pool_enums p" by simp_all
    from "2.IH"(2) [OF 2 this] 2 have "cached_enums c \<subseteq> cached_enums c1" "enums_ok p c \<longrightarrow> enums_ok p c1"
      "\<forall>f \<in> set fs. \<forall>en. fd_enum f = Some en \<longrightarrow> en_full_name en \<in> cached_enums c1" by simp_all
    moreover have "en_full_name en \<in> cached_enums c" using 2(2) by (auto simp: cached_enums_def)
    ultimately show ?thesis using 2(1) by auto
  next
    case (3 en)
    with "2.prems"(1) obtain m where m: "get_enum_values_map en = Inr m"
      "add_enums fs (c\<lparr>enum_values_cache := AList.update (en_full_name en) m (enum_values_cache c)\<rparr>) = Inr c1"
      by (cases "get_enum_values_map en") simp_all
    let ?c = "c\<lparr>enum_values_cache := AList.update (en_full_name en) m (enum_values_cache c)\<rparr>"
    have ih: "cached_enums ?c \<subseteq> cached_enums c1" "enums_ok p ?c \<longrightarrow> enums_ok p c1"
      "\<forall>f \<in> set fs. \<forall>en. fd_enum f = Some en \<longrightarrow> en_full_name en \<in> cached_enums c1"
      using "2.IH"(3) [OF 3(1) _ m(2)] 3(2) "2.prems"(2) by simp_all
    have "cached_enums ?c = insert (en_full_name en) (cached_enums c)" by (auto simp: cached_enums_def update_conv')
    moreover have "enums_ok p c \<longrightarrow> enums_ok p ?c"
    proof -
      have "en \<in> pool_enums p" using "2.prems"(2) 3(1) by simp
      then show ?thesis using m(1) by (auto simp: enums_ok_def update_conv')
    qed
    ultimately show ?thesis using ih 3(1) by auto
  qed
qed simp

lemma grows_refl [simp]: "grows p c c"
  by (simp add: grows_def)

lemma entry_ok_mono: "entry_ok p c n \<Longrightarrow> n \<in> cached c \<Longrightarrow> grows p c c1 \<Longrightarrow> entry_ok p c1 n"
  unfolding entry_ok_def grows_def by (metis subsetD)

lemma grows_trans:
  assumes 1: "grows p c c1" and 2: "grows p c1 c2"
  shows "grows p c c2"
proof -
  have "entry_ok p c2 n \<and> set (message_types (desc_of p n)) \<subseteq> cached c2" if n: "n \<in> cached c2 - cached c" for n
  proof (cases "n \<in> cached c1")
    case True
    with n 1 have "entry_ok p c1 n" "set (message_types (desc_of p n)) \<subseteq> cached c1" by (auto simp: grows_def)
    with entry_ok_mono [OF _ True 2] 2 show ?thesis by (auto simp: grows_def)
  next
    case False
    with n 2 show ?thesis by (auto simp: grows_def)
  qed
  moreover have "cached c \<subseteq> cached c2" "cached_enums c \<subseteq> cached_enums c2"
    "enums_ok p c \<longrightarrow> enums_ok p c2" using 1 2 unfolding grows_def by blast+
  moreover have "n \<in> cached c \<longrightarrow> map_of (message_fields_map_cache c2) n = map_of (message_fields_map_cache c) n" for n
    using 1 2 by (auto simp: grows_def)
  ultimately show ?thesis by (simp add: grows_def)
qed

text \<open>While the types of a message are visited, its own entry is not closed yet.\<close>

lemma grows_entry:
  assumes m: "get_message_fields_map (desc_of p n) = Inr m" and new: "n \<notin> cached c"
    and e: "add_enums (de_fields (desc_of p n)) (c\<lparr>message_fields_map_cache := AList.update n m (message_fields_map_cache c)\<rparr>) = Inr c1"
    and g: "grows p c1 c2" and t: "set (message_types (desc_of p n)) \<subseteq> cached c2"
  shows "grows p c c2"
proof -
  let ?c = "c\<lparr>message_fields_map_cache := AList.update n m (message_fields_map_cache c)\<rparr>"
  have c1: "cached c1 = insert n (cached c)" "message_fields_map_cache c1 = AList.update n m (message_fields_map_cache c)"
    using cached_add [OF e] add_enums_keeps [OF e] by simp_all
  have spec: "cached_enums c \<subseteq> cached_enums c1" "enums_ok p c \<longrightarrow> enums_ok p c1"
    "\<forall>f \<in> set (de_fields (desc_of p n)). \<forall>en. fd_enum f = Some en \<longrightarrow> en_full_name en \<in> cached_enums c1"
  proof -
    have "\<forall>f \<in> set (de_fields (desc_of p n)). set_option (fd_enum f) \<subseteq> pool_enums p"
      using pool_enums_field by fastforce
    from add_enums_spec [OF e this]
    show "cached_enums c \<subseteq> cached_enums c1" "enums_ok p c \<longrightarrow> enums_ok p c1"
      "\<forall>f \<in> set (de_fields (desc_of p n)). \<forall>en. fd_enum f = Some en \<longrightarrow> en_full_name en \<in> cached_enums c1"
      by (simp_all add: enums_ok_def cached_enums_def)
  qed
  have "entry_ok p c1 n" using m spec(3) c1(2) by (auto simp: entry_ok_def update_conv')
  with g c1(1) have n2: "entry_ok p c2 n" using entry_ok_mono by blast
  have "entry_ok p c2 k \<and> set (message_types (desc_of p k)) \<subseteq> cached c2" if "k \<in> cached c2 - cached c" for k
  proof (cases "k = n")
    case True
    with n2 t show ?thesis by simp
  next
    case False
    with that c1(1) g show ?thesis by (auto simp: grows_def)
  qed
  moreover have "map_of (message_fields_map_cache c2) k = map_of (message_fields_map_cache c) k" if "k \<in> cached c" for k
    using that g c1 new by (auto simp: grows_def update_conv')
  moreover have "cached c \<subseteq> cached c2" using g c1(1) by (auto simp: grows_def)
  moreover have "cached_enums c \<subseteq> cached_enums c2" "enums_ok p c \<longrightarrow> enums_ok p c2"
    using spec(1,2) g by (auto simp: grows_def)
  ultimately show ?thesis by (simp add: grows_def)
qed

lemma populate_grows:
  "populate p k n c = Some (Inr c1) \<Longrightarrow> grows p c c1 \<and> n \<in> cached c1"
  "populate_types p k ns c = Some (Inr c1) \<Longrightarrow> grows p c c1 \<and> set ns \<subseteq> cached c1"
proof (induction p k n c and p k ns c arbitrary: c1 and c1 rule: populate_populate_types.induct)
  case (2 p k n c)
  show ?case
  proof (cases "n \<in> cached c")
    case True
    with "2.prems" show ?thesis by (auto simp: cached_def)
  next
    case False
    then have none: "map_of (message_fields_map_cache c) n = None" by (auto simp: cached_def)
    with "2.prems" obtain m c' where m: "get_message_fields_map (desc_of p n) = Inr m"
      "add_enums (de_fields (desc_of p n)) (c\<lparr>message_fields_map_cache := AList.update n m (message_fields_map_cache c)\<rparr>) = Inr c'"
      "populate_types p k (message_types (desc_of p n)) c' = Some (Inr c1)"
      by (auto split: sum.splits)
    with "2.IH" [OF _ m(1,2,3)] none have ih: "grows p c' c1" "set (message_types (desc_of p n)) \<subseteq> cached c1" by simp_all
    have "n \<in> cached c'" using cached_add [OF m(2)] by simp
    with ih(1) have "n \<in> cached c1" by (auto simp: grows_def)
    with grows_entry [OF m(1) False m(2) ih] show ?thesis by simp
  qed
next
  case (4 p k n ns c)
  then obtain c' where c': "populate p k n c = Some (Inr c')" "populate_types p k ns c' = Some (Inr c1)"
    by (auto split: option.splits sum.splits)
  from "4.IH"(1) [OF c'(1)] "4.IH"(2) [OF c'(1) _ c'(2)] have "grows p c c'" "n \<in> cached c'" "grows p c' c1" "set ns \<subseteq> cached c1" by simp_all
  moreover from this have "n \<in> cached c1" by (auto simp: grows_def)
  ultimately show ?case using grows_trans by auto
qed simp_all

text \<open>A complete cache knows every type that can occur below the types it knows.\<close>

definition complete :: "pool \<Rightarrow> descriptor_cache \<Rightarrow> bool" where
  "complete p c \<longleftrightarrow> (\<forall>n \<in> cached c. entry_ok p c n \<and> set (message_types (desc_of p n)) \<subseteq> cached c) \<and> enums_ok p c"

text \<open>The constructor of \<open>Converter\<close> fills the cache from its message class.\<close>

definition converter_cache :: "pool \<Rightarrow> string \<Rightarrow> descriptor_cache res option" where
  "converter_cache p n = populate p (Suc (length p)) n empty_cache"

lemma cached_empty [simp]: "cached empty_cache = {}" "enums_ok p empty_cache"
  by (simp_all add: cached_def empty_cache_def enums_ok_def)

lemma converter_cache_complete: "converter_cache p n = Some (Inr c) \<Longrightarrow> complete p c \<and> n \<in> cached c"
  using populate_grows(1) [of p "Suc (length p)" n empty_cache c]
  by (auto simp: converter_cache_def grows_def complete_def)

text \<open>C26. The descriptor cache. Filling the cache ends although message types may refer to each other in
  cycles: one level of recursion for each type is enough. What it fills is complete: every type that
  can occur in a message of the class has an entry, which is the map of its fields, so that reading a
  message later adds nothing to the cache and raises nothing.\<close>

theorem cache_filled:
  "(\<exists>r. converter_cache p n = Some r)
   \<and> (\<forall>c. converter_cache p n = Some (Inr c) \<longrightarrow> complete p c \<and> n \<in> cached c
        \<and> (\<forall>k \<in> cached c. populate p (Suc (length p)) k c = Some (Inr c)))"
proof -
  have "uncached p empty_cache \<le> length p"
    using card_mono [of "fst ` set p" "dom (map_of p)"] card_image_le [of "set p" fst] card_length [of p]
    by (simp add: uncached_def dom_map_of_conv_image_fst)
  then have "\<exists>r. converter_cache p n = Some r"
    using populate_ends(1) [of p empty_cache "Suc (length p)" n] by (auto simp: converter_cache_def)
  then show ?thesis using converter_cache_complete by (auto simp: cached_def)
qed

section \<open>An excerpt of \<open>status_report.proto\<close>\<close>

definition options_named :: "string \<Rightarrow> field_options" where
  "options_named x =
     \<lparr>xml_name = x, xml_is_attribute = False, xml_ignore = False, xml_singly_nested = [], xml_is_parent_value = False,
      xml_tentative = False, is_ulid = False, is_proto_time = False, is_time = False\<rparr>"

definition scalar_field :: "nat \<Rightarrow> string \<Rightarrow> field_type \<Rightarrow> field_options \<Rightarrow> field_descriptor" where
  "scalar_field n name k opts =
     \<lparr>fd_number = n, fd_field = name, fd_camelcase = name, fd_kind = k, fd_repeated = False, fd_presence = True,
      fd_oneof = None, fd_message = [], fd_enum = None, fd_options = opts\<rparr>"

definition excerpt_info :: enum_descriptor where
  "excerpt_info = \<lparr>en_full_name = ''StatusReport.Info'', en_name = ''Info'',
     en_values = [\<lparr>ev_name = ''INFO_UNSPECIFIED'', ev_number = 0, ev_option = None\<rparr>, \<lparr>ev_name = ''INFO_NEW'', ev_number = 1, ev_option = None\<rparr>,
       \<lparr>ev_name = ''INFO_UNCHANGED'', ev_number = 2, ev_option = Some ''Unchanged''\<rparr>]\<rparr>"

definition excerpt :: pool where
  "excerpt =
     [(''StatusReport'',
       \<lparr>de_name = ''StatusReport'',
        de_fields = [scalar_field 1 ''report_id'' TYPE_STRING ((options_named ''reportID'')\<lparr>is_ulid := True\<rparr>),
          (scalar_field 3 ''info'' TYPE_ENUM (options_named []))\<lparr>fd_enum := Some excerpt_info\<rparr>,
          (scalar_field 6 ''power'' TYPE_MESSAGE (options_named []))\<lparr>fd_message := ''Power''\<rparr>,
          (scalar_field 11 ''status'' TYPE_MESSAGE ((options_named ''statuses'')\<lparr>xml_singly_nested := ''status''\<rparr>))
            \<lparr>fd_repeated := True, fd_message := ''Status''\<rparr>],
        de_xml_name = [], de_is_sapient = True\<rparr>),
      (''Power'',
       \<lparr>de_name = ''Power'',
        de_fields = [scalar_field 1 ''source'' TYPE_STRING ((options_named [])\<lparr>xml_is_parent_value := True\<rparr>),
          scalar_field 3 ''level'' TYPE_INT32 ((options_named [])\<lparr>xml_is_attribute := True\<rparr>)],
        de_xml_name = [], de_is_sapient = False\<rparr>),
      (''Status'',
       \<lparr>de_name = ''Status'', de_fields = [scalar_field 2 ''status_type'' TYPE_STRING (options_named ''type'')],
        de_xml_name = [], de_is_sapient = False\<rparr>)]"

lemma excerpt_cache: "\<exists>c. converter_cache excerpt ''StatusReport'' = Some (Inr c)"
proof -
  have "(case converter_cache excerpt ''StatusReport'' of Some (Inr c) \<Rightarrow> True | _ \<Rightarrow> False)" by code_simp
  then show ?thesis by (auto split: option.splits sum.splits)
qed

lemma cache_filled_witness:
  "\<exists>c. converter_cache excerpt ''StatusReport'' = Some (Inr c) \<and> populate excerpt (Suc (length excerpt)) ''StatusReport'' c = Some (Inr c)"
proof -
  obtain c where c: "converter_cache excerpt ''StatusReport'' = Some (Inr c)" using excerpt_cache by blast
  with cache_filled [of excerpt "''StatusReport''"] have "populate excerpt (Suc (length excerpt)) ''StatusReport'' c = Some (Inr c)" by blast
  with c show ?thesis by blast
qed

end
