(* ===== verification/Base64.thy ===== *)
theory Base64
  imports Framing PyNum
begin

text \<open>
  The functions \<open>b64encode\<close> and \<open>b64decode\<close> of Python's module \<open>base64\<close>, with which the Apex middleware
  writes the bytes fields of a message into XML and reads them back. The decoder is the lenient one: it
  skips characters outside the alphabet and stops at the padding.
\<close>

definition b64_alphabet :: string where
  "b64_alphabet = ''ABCDEFGHIJKLMNOPQRSTUVWXYZabcdefghijklmnopqrstuvwxyz0123456789+/''"

definition b64_char :: "nat \<Rightarrow> char" where
  "b64_char n = b64_alphabet ! n"

fun position :: "char \<Rightarrow> string \<Rightarrow> nat option" where
  "position c [] = None"
| "position c (x # xs) = (if x = c then Some 0 else map_option Suc (position c xs))"

definition b64_val :: "char \<Rightarrow> nat option" where
  "b64_val c = position c b64_alphabet"

fun b64encode :: "bytes \<Rightarrow> string" where
  "b64encode [] = []"
| "b64encode [a] = [b64_char (unat a div 4), b64_char (unat a mod 4 * 16), CHR ''='', CHR ''='']"
| "b64encode [a, b] =
     [b64_char (unat a div 4), b64_char (unat a mod 4 * 16 + unat b div 16), b64_char (unat b mod 16 * 4), CHR ''='']"
| "b64encode (a # b # c # bs) =
     b64_char (unat a div 4) # b64_char (unat a mod 4 * 16 + unat b div 16)
     # b64_char (unat b mod 16 * 4 + unat c div 64) # b64_char (unat c mod 64) # b64encode bs"

definition binascii_error :: "string \<Rightarrow> exn" where
  "binascii_error m = PyExc ''Error'' m"

text \<open>\<open>a2b_base64\<close>: bytes written so far, position in the group of four, bits left over, padding seen.\<close>

fun a2b :: "nat \<Rightarrow> nat \<Rightarrow> nat \<Rightarrow> nat \<Rightarrow> string \<Rightarrow> bytes res" where
  "a2b n q l pads [] =
     (if q = 0 then Inr []
      else if q = 1 then Inl (binascii_error (''Invalid base64-encoded string: number of data characters (''
             @ show_nat (n div 3 * 4 + 1) @ '') cannot be 1 more than a multiple of 4''))
      else Inl (binascii_error ''Incorrect padding''))"
| "a2b n q l pads (c # s) =
     (if c = CHR ''='' then
        (if 2 \<le> q \<and> 4 \<le> q + (pads + 1) then Inr [] else a2b n q l (if 2 \<le> q then pads + 1 else pads) s)
      else case b64_val c of
        None \<Rightarrow> a2b n q l pads s
      | Some v \<Rightarrow>
          if q = 0 then a2b n 1 v 0 s
          else if q = 1 then bindE (a2b (n + 1) 2 (v mod 16) 0 s) (\<lambda>r. Inr (of_nat (l * 4 + v div 16) # r))
          else if q = 2 then bindE (a2b (n + 1) 3 (v mod 4) 0 s) (\<lambda>r. Inr (of_nat (l * 16 + v div 4) # r))
          else bindE (a2b (n + 1) 0 0 0 s) (\<lambda>r. Inr (of_nat (l * 64 + v) # r)))"

definition b64decode :: "string \<Rightarrow> bytes res" where
  "b64decode s =
     (if list_all (\<lambda>c. (of_char c :: nat) < 128) s then a2b 0 0 0 0 s
      else Inl (value_error ''string argument should contain only ASCII characters''))"

section \<open>The round trip\<close>

lemma b64_chars: "list_all (\<lambda>n. b64_val (b64_char n) = Some n \<and> b64_char n \<noteq> CHR ''='' \<and> (of_char (b64_char n) :: nat) < 128) [0..<64]"
  by code_simp

lemma b64_val_char [simp]:
  assumes "n < 64"
  shows "b64_val (b64_char n) = Some n" "b64_char n \<noteq> CHR ''=''" "(of_char (b64_char n) :: nat) < 128"
  using b64_chars assms by (simp_all add: list_all_iff)

lemma byte_parts:
  fixes a b :: "8 word"
  shows "unat a div 4 < 64" "unat a mod 4 * 16 + unat b div 16 < 64" "unat a mod 16 * 4 + unat b div 64 < 64"
    "unat a mod 64 < 64" "unat a mod 4 * 16 < 64" "unat a mod 16 * 4 < 64"
proof -
  have "unat a < 256" "unat b < 256" using unsigned_less [of a] unsigned_less [of b] by simp_all
  then show "unat a div 4 < 64" "unat a mod 4 * 16 + unat b div 16 < 64" "unat a mod 16 * 4 + unat b div 64 < 64"
    "unat a mod 64 < 64" "unat a mod 4 * 16 < 64" "unat a mod 16 * 4 < 64" by linarith+
qed

lemma word_unat_back: "(of_nat (unat w) :: 8 word) = w"
  by simp

lemma rejoin:
  fixes a b c :: "8 word"
  shows "(of_nat (unat a div 4 * 4 + (unat a mod 4 * 16 + unat b div 16) div 16) :: 8 word) = a"
    "(of_nat ((unat a mod 4 * 16 + unat b div 16) mod 16 * 16 + (unat b mod 16 * 4 + unat c div 64) div 4) :: 8 word) = b"
    "(of_nat ((unat b mod 16 * 4 + unat c div 64) mod 4 * 64 + unat c mod 64) :: 8 word) = c"
proof -
  have lt: "unat b div 16 < 16" "unat c div 64 < 4"
    using unsigned_less [of b] unsigned_less [of c] by (simp_all add: div_less_iff_less_mult)
  have q: "(x * 16 + y) div 16 = x" "(x * 16 + y) mod 16 = y" if "y < 16" for x y :: nat using that by simp_all
  have r: "(x * 4 + y) div 4 = x" "(x * 4 + y) mod 4 = y" if "y < 4" for x y :: nat using that by simp_all
  have "unat a div 4 * 4 + (unat a mod 4 * 16 + unat b div 16) div 16 = unat a"
    "(unat a mod 4 * 16 + unat b div 16) mod 16 * 16 + (unat b mod 16 * 4 + unat c div 64) div 4 = unat b"
    "(unat b mod 16 * 4 + unat c div 64) mod 4 * 64 + unat c mod 64 = unat c"
    unfolding q [OF lt(1)] r [OF lt(2)] by (simp_all only: div_mult_mod_eq)
  then show "(of_nat (unat a div 4 * 4 + (unat a mod 4 * 16 + unat b div 16) div 16) :: 8 word) = a"
    "(of_nat ((unat a mod 4 * 16 + unat b div 16) mod 16 * 16 + (unat b mod 16 * 4 + unat c div 64) div 4) :: 8 word) = b"
    "(of_nat ((unat b mod 16 * 4 + unat c div 64) mod 4 * 64 + unat c mod 64) :: 8 word) = c"
    by (simp_all only: word_unat_back)
qed

lemma a2b_encode: "a2b n 0 0 0 (b64encode bs) = Inr bs"
proof (induction bs arbitrary: n rule: b64encode.induct)
  case (2 a)
  show ?case using rejoin(1) [of a 0] by (simp add: byte_parts)
next
  case (3 a b)
  show ?case using rejoin(1) [of a b] rejoin(2) [of a b 0] by (simp add: byte_parts del: One_nat_def)
next
  case (4 a b c bs)
  then show ?case using rejoin(1) [of a b] rejoin(2) [of a b c] rejoin(3) [of b c] by (simp add: byte_parts del: One_nat_def)
qed simp

lemma b64encode_ascii: "list_all (\<lambda>c. (of_char c :: nat) < 128) (b64encode bs)"
  by (induction bs rule: b64encode.induct) (simp_all add: byte_parts)

lemma b64_round_trip: "b64decode (b64encode bs) = Inr bs"
  by (simp add: b64decode_def a2b_encode b64encode_ascii)

end
