(* ===== verification/ApexXml.thy ===== *)
theory ApexXml
  imports XmlTree ApexSchema IdGenerator Base64 PyTime
begin

text \<open>
  The conversion between protobuf messages and XML elements by reflection
  (\<open>sapient_apex_server/xml_conversion/from_xml_impl.py\<close>, \<open>from_xml.py\<close>, \<open>to_xml.py\<close>).

  A message is the list of its present fields by number. A message that is only reached through a getter
  of its parent is not present before it is first changed, so a message under construction is an option.
  Reading collects errors and goes on: its state holds the cache, the errors and the identifiers.
\<close>

section \<open>Messages\<close>

datatype field_value =
  VBool bool | VFloat flt | VInt int | VEnum int | VStr string | VBytes bytes | VTime int
| VMsg "(nat \<times> field_value) list" | VList "field_value list"

type_synonym msg = "(nat \<times> field_value) list"

text \<open>What protobuf and Python give: the text of a float, rounding to single precision, the text of a
  type error, the text of a comment's tag, and a new ULID.\<close>

record xml_env =
  xe_pool :: pool
  xe_float :: "flt \<Rightarrow> string"
  xe_single :: "flt \<Rightarrow> flt"
  xe_type_error :: "field_descriptor \<Rightarrow> string"
  xe_comment :: string
  xe_ulid :: "id_generator \<Rightarrow> string"

fun put :: "nat \<Rightarrow> field_value \<Rightarrow> msg \<Rightarrow> msg" where
  "put n v [] = [(n, v)]"
| "put n v ((k, w) # m) = (if n < k then (n, v) # (k, w) # m else if n = k then (n, v) # m else (k, w) # put n v m)"

definition present :: "msg option \<Rightarrow> msg" where
  "present m = (case m of None \<Rightarrow> [] | Some m \<Rightarrow> m)"

definition already_set :: "field_descriptor \<Rightarrow> msg option \<Rightarrow> bool" where
  "already_set f m \<longleftrightarrow> map_of (present m) (fd_number f) \<noteq> None"

fun is_default :: "field_value \<Rightarrow> bool" where
  "is_default (VBool b) = (\<not> b)"
| "is_default (VFloat x) = (x = Fin 0)"
| "is_default (VInt i) = (i = 0)"
| "is_default (VEnum i) = (i = 0)"
| "is_default (VStr s) = (s = [])"
| "is_default (VBytes b) = (b = [])"
| "is_default v = False"

text \<open>Setting a member of a oneof clears the others; a field without presence is absent when it has its
  default value.\<close>

definition clear_oneof :: "descriptor \<Rightarrow> field_descriptor \<Rightarrow> msg \<Rightarrow> msg" where
  "clear_oneof d f m = (if fd_oneof f = None then m
     else filter (\<lambda>(n, _). \<not> list_ex (\<lambda>h. fd_number h = n \<and> fd_oneof h = fd_oneof f) (de_fields d)) m)"

definition set_field :: "descriptor \<Rightarrow> field_descriptor \<Rightarrow> field_value \<Rightarrow> msg option \<Rightarrow> msg option" where
  "set_field d f v m =
     (if \<not> fd_presence f \<and> is_default v then Some (filter (\<lambda>(n, _). n \<noteq> fd_number f) (present m))
      else Some (put (fd_number f) v (clear_oneof d f (present m))))"

definition append_field :: "field_descriptor \<Rightarrow> field_value \<Rightarrow> msg option \<Rightarrow> msg option" where
  "append_field f v m =
     Some (put (fd_number f) (VList ((case map_of (present m) (fd_number f) of Some (VList vs) \<Rightarrow> vs | _ \<Rightarrow> []) @ [v])) (present m))"

section \<open>Reading values (\<open>from_xml_impl.py\<close>)\<close>

record conv =
  cv_cache :: descriptor_cache
  cv_errors :: "string list"
  cv_gen :: id_generator

definition add_error :: "string \<Rightarrow> conv \<Rightarrow> conv" where
  "add_error t st = st\<lparr>cv_errors := cv_errors st @ [t]\<rparr>"

text \<open>The lines of the error list.\<close>

definition opt_text :: "string option \<Rightarrow> string" where
  "opt_text s = (case s of None \<Rightarrow> ''None'' | Some t \<Rightarrow> t)"

definition tag_text :: "xml_env \<Rightarrow> element \<Rightarrow> string" where
  "tag_text env e = (case tag e of Some t \<Rightarrow> t | None \<Rightarrow> xe_comment env)"

fun type_number :: "field_type \<Rightarrow> nat" where
  "type_number TYPE_DOUBLE = 1" | "type_number TYPE_FLOAT = 2" | "type_number TYPE_INT64 = 3" | "type_number TYPE_UINT64 = 4"
| "type_number TYPE_INT32 = 5" | "type_number TYPE_FIXED64 = 6" | "type_number TYPE_FIXED32 = 7" | "type_number TYPE_BOOL = 8"
| "type_number TYPE_STRING = 9" | "type_number TYPE_GROUP = 10" | "type_number TYPE_MESSAGE = 11" | "type_number TYPE_BYTES = 12"
| "type_number TYPE_UINT32 = 13" | "type_number TYPE_ENUM = 14" | "type_number TYPE_SFIXED32 = 15" | "type_number TYPE_SFIXED64 = 16"
| "type_number TYPE_SINT32 = 17" | "type_number TYPE_SINT64 = 18"

definition enum_error :: "string \<Rightarrow> string list \<Rightarrow> string" where
  "enum_error s known = ''Unknown enum value '' @ s @ '', expected one of '' @ join_with '','' known"

definition type_of_field_error :: "field_type \<Rightarrow> string" where
  "type_of_field_error k = ''Unknown field type '' @ show_nat (type_number k)"

definition value_failure :: "descriptor \<Rightarrow> field_descriptor \<Rightarrow> string option \<Rightarrow> exn \<Rightarrow> string" where
  "value_failure d f value e =
     ''In message '' @ de_name d @ '' field '' @ fd_field f @ '' with value '' @ [CHR 0x22] @ opt_text value @ [CHR 0x22]
     @ '' got error: '' @ exn_str e"

definition duplicate_value :: "field_descriptor \<Rightarrow> string" where
  "duplicate_value f = ''Got duplicated element for '' @ fd_field f"

definition unexpected_text :: "descriptor \<Rightarrow> string" where
  "unexpected_text d = ''In message '' @ de_name d @ '', unexpected text in element''"

definition duplicate_element :: "xml_env \<Rightarrow> descriptor \<Rightarrow> element \<Rightarrow> string" where
  "duplicate_element env d e = ''In message '' @ de_name d @ '', got duplicated element '' @ tag_text env e"

definition unknown_element :: "xml_env \<Rightarrow> descriptor \<Rightarrow> element \<Rightarrow> string" where
  "unknown_element env d e = ''In message '' @ de_name d @ '', unknown element '' @ tag_text env e"

definition unexpected_element :: "xml_env \<Rightarrow> field_descriptor \<Rightarrow> element \<Rightarrow> string" where
  "unexpected_element env f e = ''In singly-nested field '' @ fd_field f @ '' got unexpected element '' @ tag_text env e"

definition unrecognised :: "xml_env \<Rightarrow> element \<Rightarrow> string" where
  "unrecognised env e = ''Message type '' @ tag_text env e @ '' not recognised''"

definition is_sapient_ignore_field :: "element \<Rightarrow> (string, field_descriptor) odict \<Rightarrow> bool \<Rightarrow> bool" where
  "is_sapient_ignore_field child efs sapient \<longleftrightarrow> sapient \<and>
     (tag child \<in> {Some ''sourceID'', Some ''timestamp'', Some ''sensorID''}
      \<or> map_of efs ''region'' \<noteq> None \<or> map_of efs ''regionArea'' \<noteq> None)"

definition FIELD_INT_TYPES :: "field_type list" where
  "FIELD_INT_TYPES = [TYPE_FIXED32, TYPE_FIXED64, TYPE_SFIXED32, TYPE_SFIXED64, TYPE_UINT32, TYPE_UINT64, TYPE_SINT32,
     TYPE_SINT64, TYPE_INT32, TYPE_INT64]"

definition int_of_text :: "string \<Rightarrow> int res" where
  "int_of_text s = (case parse_int s of
     Some i \<Rightarrow> Inr i | None \<Rightarrow> Inl (value_error (''invalid literal for int() with base 10: '' @ repr_str s)))"

definition float_of_text :: "string \<Rightarrow> flt res" where
  "float_of_text s = (case parse_float s of
     Some x \<Rightarrow> Inr x | None \<Rightarrow> Inl (value_error (''could not convert string to float: '' @ repr_str s)))"

definition time_of_text :: "string option \<Rightarrow> int res" where
  "time_of_text s = (case s of None \<Rightarrow> Inl (no_attr ''NoneType'' ''split'') | Some t \<Rightarrow> str_to_datetime t)"

text \<open>The ULID that an integer stands for; a new one when none is known.\<close>

definition read_ulid :: "xml_env \<Rightarrow> field_descriptor \<Rightarrow> string \<Rightarrow> string option \<Rightarrow> id_generator \<Rightarrow> string option res \<times> id_generator" where
  "read_ulid env f s node g =
     (case map_for (fd_field f) node g of
        Inl e \<Rightarrow> (Inl e, g)
      | Inr OwnMapping \<Rightarrow> (Inl (no_attr ''SensorIdMapping'' ''values''), g)
      | Inr (IdMap r) \<Rightarrow>
          let m = get_map r g; ints = (m = [] \<or> is_Id (snd (hd m)))
          in case int_of_text s of
               Inl e \<Rightarrow> (Inl e, g)
             | Inr i \<Rightarrow>
                 (case find_id ints i m of
                    Inl e \<Rightarrow> (Inl e, g)
                  | Inr (Some u) \<Rightarrow> (get_ulid_from_id m i, g)
                  | Inr None \<Rightarrow> (Inr (Some (xe_ulid env g)),
                                 insert_new_ulid_id_pair (xe_ulid env g) i r (is_node_id_map (fd_field f)) g)))"

definition read_enum :: "field_descriptor \<Rightarrow> string \<Rightarrow> conv \<Rightarrow> field_value option res \<times> conv" where
  "read_enum f s st =
     (case fd_enum f of
        None \<Rightarrow> (Inl (PyExc ''KeyError'' ''None''), st)
      | Some en \<Rightarrow>
          (case map_of (enum_values_cache (cv_cache st)) (en_full_name en) of
             None \<Rightarrow> (Inl (key_error (en_full_name en)), st)
           | Some m \<Rightarrow>
               (case map_of m (normalise s) of
                  Some i \<Rightarrow> (Inr (Some (VEnum i)), st)
                | None \<Rightarrow> (Inr None, add_error (enum_error s (map fst m)) st))))"

text \<open>\<open>value_parsed\<close>, where \<open>None\<close> is Python's. Only a time may have a missing text.\<close>

definition parse_value ::
  "xml_env \<Rightarrow> field_descriptor \<Rightarrow> string option \<Rightarrow> string option \<Rightarrow> conv \<Rightarrow> field_value option res \<times> conv" where
  "parse_value env f value node st =
     (let opts = fd_options f; k = fd_kind f; ok = (\<lambda>v. Inr (Some v))
      in if is_proto_time opts then (bindE (time_of_text value) (\<lambda>t. ok (VTime t)), st)
         else case value of None \<Rightarrow> (Inl (type_error ''expected a string''), st) | Some s \<Rightarrow>
           if k = TYPE_BOOL then (ok (VBool (map lower_char (strip s) = ''true'')), st)
           else if k = TYPE_FLOAT \<or> k = TYPE_DOUBLE then (bindE (float_of_text s) (\<lambda>x. ok (VFloat x)), st)
           else if k \<in> set FIELD_INT_TYPES then
             (if is_time opts then bindE (datetime_str_to_int s) (\<lambda>t. Inr (map_option VInt t))
              else bindE (int_of_text s) (\<lambda>i. ok (VInt i)), st)
           else if k = TYPE_ENUM then read_enum f s st
           else if k = TYPE_STRING then
             (if is_ulid opts then (case read_ulid env f s node (cv_gen st) of
                  (r, g) \<Rightarrow> (bindE r (\<lambda>u. Inr (map_option VStr u)), st\<lparr>cv_gen := g\<rparr>))
              else (ok (VStr s), st))
           else if k = TYPE_BYTES then (bindE (b64decode s) (\<lambda>b. ok (VBytes b)), st)
           else (Inr None, add_error (type_of_field_error k) st))"

text \<open>What protobuf accepts for a field. The integers have the width of their type.\<close>

fun int_range :: "field_type \<Rightarrow> int \<times> int" where
  "int_range TYPE_UINT32 = (0, 2 ^ 32)" | "int_range TYPE_FIXED32 = (0, 2 ^ 32)"
| "int_range TYPE_UINT64 = (0, 2 ^ 64)" | "int_range TYPE_FIXED64 = (0, 2 ^ 64)"
| "int_range TYPE_INT64 = (- (2 ^ 63), 2 ^ 63)" | "int_range TYPE_SINT64 = (- (2 ^ 63), 2 ^ 63)" | "int_range TYPE_SFIXED64 = (- (2 ^ 63), 2 ^ 63)"
| "int_range _ = (- (2 ^ 31), 2 ^ 31)"

definition in_int_range :: "field_type \<Rightarrow> int \<Rightarrow> bool" where
  "in_int_range k i \<longleftrightarrow> fst (int_range k) \<le> i \<and> i < snd (int_range k)"

definition check_value :: "xml_env \<Rightarrow> field_descriptor \<Rightarrow> field_value option \<Rightarrow> field_value res" where
  "check_value env f v =
     (case v of
        None \<Rightarrow> Inl (type_error (xe_type_error env f))
      | Some (VInt i) \<Rightarrow> if in_int_range (fd_kind f) i then Inr (VInt i) else Inl (value_error (''Value out of range: '' @ show_int i))
      | Some (VEnum i) \<Rightarrow> if in_int_range (fd_kind f) i then Inr (VEnum i) else Inl (value_error (''Value out of range: '' @ show_int i))
      | Some (VFloat x) \<Rightarrow> Inr (VFloat (if fd_kind f = TYPE_FLOAT then xe_single env x else x))
      | Some (VTime t) \<Rightarrow> if fd_kind f = TYPE_MESSAGE then Inr (VTime t) else Inl (type_error (xe_type_error env f))
      | Some w \<Rightarrow> Inr w)"

definition store_value :: "xml_env \<Rightarrow> descriptor \<Rightarrow> field_descriptor \<Rightarrow> field_value option \<Rightarrow> msg option \<Rightarrow> msg option res" where
  "store_value env d f v m =
     bindE (check_value env f v) (\<lambda>w. Inr (if fd_repeated f then append_field f w m else set_field d f w m))"

definition populate_basic_field ::
  "xml_env \<Rightarrow> descriptor \<Rightarrow> field_descriptor \<Rightarrow> string option \<Rightarrow> string option \<Rightarrow> msg option \<Rightarrow> conv \<Rightarrow> msg option \<times> conv" where
  "populate_basic_field env d f value node m st =
     (let failed = (\<lambda>e st. (m, add_error (value_failure d f value e) st))
      in case parse_value env f value node st of
           (Inl e, st1) \<Rightarrow> failed e st1
         | (Inr v, st1) \<Rightarrow>
             let st2 = (if \<not> fd_repeated f \<and> already_set f m then add_error (duplicate_value f) st1 else st1)
             in case store_value env d f v m of Inl e \<Rightarrow> failed e st2 | Inr m1 \<Rightarrow> (m1, st2))"

section \<open>Reading messages\<close>

definition populate_cache :: "xml_env \<Rightarrow> string \<Rightarrow> descriptor_cache \<Rightarrow> descriptor_cache res" where
  "populate_cache env n c = (case populate (xe_pool env) (Suc (length (xe_pool env))) n c of
     Some r \<Rightarrow> r | None \<Rightarrow> Inl (PyExc ''RecursionError'' []))"

definition fields_map :: "conv \<Rightarrow> string \<Rightarrow> message_fields_map" where
  "fields_map st n = (case map_of (message_fields_map_cache (cv_cache st)) n of
     Some fm \<Rightarrow> fm | None \<Rightarrow> \<lparr>text_field = None, attribute_fields = [], element_fields = []\<rparr>)"

definition stripped :: "string option \<Rightarrow> string" where
  "stripped s = (case s of None \<Rightarrow> [] | Some t \<Rightarrow> strip t)"

definition populate_text ::
  "xml_env \<Rightarrow> descriptor \<Rightarrow> message_fields_map \<Rightarrow> string option \<Rightarrow> string option \<Rightarrow> msg option \<Rightarrow> conv \<Rightarrow> msg option \<times> conv" where
  "populate_text env d fm text node m st =
     (if stripped text = [] then (m, st)
      else case text_field fm of
        None \<Rightarrow> (m, add_error (unexpected_text d) st)
      | Some f \<Rightarrow> populate_basic_field env d f (Some (stripped text)) node m st)"

fun populate_attributes ::
  "xml_env \<Rightarrow> descriptor \<Rightarrow> message_fields_map \<Rightarrow> (string \<times> string) list \<Rightarrow> string option \<Rightarrow> msg option \<Rightarrow> conv \<Rightarrow> msg option \<times> conv" where
  "populate_attributes env d fm [] node m st = (m, st)"
| "populate_attributes env d fm ((k, v) # as) node m st =
     (case map_of (attribute_fields fm) k of
        None \<Rightarrow> populate_attributes env d fm as node m st
      | Some f \<Rightarrow> (case populate_basic_field env d f (Some v) node m st of
          (m1, st1) \<Rightarrow> populate_attributes env d fm as node m1 st1))"

text \<open>The message that a child element is read into, and putting it back.\<close>

definition open_child :: "xml_env \<Rightarrow> descriptor \<Rightarrow> field_descriptor \<Rightarrow> element \<Rightarrow> msg option \<Rightarrow> conv \<Rightarrow> msg option \<times> conv" where
  "open_child env d f child m st =
     (if fd_repeated f then (Some [], st)
      else case map_of (present m) (fd_number f) of
        None \<Rightarrow> (None, st)
      | Some v \<Rightarrow> (case v of VMsg w \<Rightarrow> Some w | _ \<Rightarrow> None,
                     add_error (duplicate_element env d child) st))"

definition close_child :: "descriptor \<Rightarrow> field_descriptor \<Rightarrow> msg option \<Rightarrow> msg option \<Rightarrow> msg option" where
  "close_child d f c m = (case c of
      None \<Rightarrow> m
    | Some w \<Rightarrow> if fd_repeated f then append_field f (VMsg w) m else set_field d f (VMsg w) m)"

text \<open>How \<open>populate_message\<close> treats a child element. A basic field takes a text, which for a time may be
  missing.\<close>

datatype child_use =
  Unknown | Blank | Basic field_descriptor "string option" | Nested field_descriptor | SubMessage field_descriptor

definition child_kind :: "message_fields_map \<Rightarrow> element \<Rightarrow> child_use" where
  "child_kind fm child =
     (case Option.bind (tag child) (map_of (element_fields fm)) of
        None \<Rightarrow> Unknown
      | Some f \<Rightarrow>
          if fd_kind f = TYPE_MESSAGE then
            (if xml_singly_nested (fd_options f) \<noteq> [] then Nested f
             else if is_proto_time (fd_options f) then Basic f (etext child)
             else SubMessage f)
          else if stripped (etext child) = [] then Blank else Basic f (Some (stripped (etext child))))"

definition unknown_child :: "xml_env \<Rightarrow> bool \<Rightarrow> descriptor \<Rightarrow> message_fields_map \<Rightarrow> element \<Rightarrow> conv \<Rightarrow> conv" where
  "unknown_child env sapient d fm child st =
     (if is_sapient_ignore_field child (element_fields fm) sapient then st
      else add_error (unknown_element env d child) st)"

definition unexpected_child :: "xml_env \<Rightarrow> field_descriptor \<Rightarrow> element \<Rightarrow> conv \<Rightarrow> conv" where
  "unexpected_child env f child st =
     add_error (unexpected_element env f child) st"

definition populate_own ::
  "xml_env \<Rightarrow> string option \<Rightarrow> string \<Rightarrow> element \<Rightarrow> msg option \<Rightarrow> conv \<Rightarrow> (message_fields_map \<times> msg option \<times> conv) res" where
  "populate_own env node n elem m st =
     bindE (populate_cache env n (cv_cache st)) (\<lambda>c.
       let st0 = st\<lparr>cv_cache := c\<rparr>; d = desc_of (xe_pool env) n; fm = fields_map st0 n
       in case populate_text env d fm (etext elem) node m st0 of (m1, st1) \<Rightarrow>
            Inr (fm, populate_attributes env d fm (attrs elem) node m1 st1))"

text \<open>\<open>populate_message\<close>: text and attributes, then the children; \<open>populate_singly_nested\<close>.\<close>

lemma size_kids:
  "Suc (4 * size_list size (kids e)) < 4 * size e" "Suc (4 * size_list size (kids e)) < 4 * size e + 2"
  "4 * size_list size (kids e) < Suc (4 * size e)"
  by (cases e, simp)+

function (sequential) populate_message ::
  "xml_env \<Rightarrow> bool \<Rightarrow> string option \<Rightarrow> string \<Rightarrow> element \<Rightarrow> msg option \<Rightarrow> conv \<Rightarrow> (msg option \<times> conv) res"
and populate_children ::
  "xml_env \<Rightarrow> bool \<Rightarrow> string option \<Rightarrow> descriptor \<Rightarrow> message_fields_map \<Rightarrow> element list \<Rightarrow> msg option \<Rightarrow> conv \<Rightarrow> (msg option \<times> conv) res"
and populate_element ::
  "xml_env \<Rightarrow> bool \<Rightarrow> string option \<Rightarrow> descriptor \<Rightarrow> message_fields_map \<Rightarrow> element \<Rightarrow> msg option \<Rightarrow> conv \<Rightarrow> (msg option \<times> conv) res"
and populate_child ::
  "xml_env \<Rightarrow> bool \<Rightarrow> string option \<Rightarrow> descriptor \<Rightarrow> field_descriptor \<Rightarrow> element \<Rightarrow> msg option \<Rightarrow> conv \<Rightarrow> (msg option \<times> conv) res"
and populate_singly_nested ::
  "xml_env \<Rightarrow> bool \<Rightarrow> string option \<Rightarrow> descriptor \<Rightarrow> field_descriptor \<Rightarrow> element list \<Rightarrow> msg option \<Rightarrow> conv \<Rightarrow> (msg option \<times> conv) res"
where
  "populate_message env sapient node n elem m st =
     bindE (populate_own env node n elem m st) (\<lambda>(fm, m1, st1).
       populate_children env sapient node (desc_of (xe_pool env) n) fm (kids elem) m1 st1)"
| "populate_children env sapient node d fm [] m st = Inr (m, st)"
| "populate_children env sapient node d fm (child # es) m st =
     bindE (populate_element env sapient node d fm child m st) (\<lambda>(m1, st1). populate_children env sapient node d fm es m1 st1)"
| "populate_element env sapient node d fm child m st =
     (case child_kind fm child of
        Unknown \<Rightarrow> Inr (m, unknown_child env sapient d fm child st)
      | Blank \<Rightarrow> Inr (m, st)
      | Basic f text \<Rightarrow> Inr (populate_basic_field env d f text node m st)
      | Nested f \<Rightarrow> populate_singly_nested env sapient node d f (kids child) m st
      | SubMessage f \<Rightarrow> populate_child env sapient node d f child m st)"
| "populate_child env sapient node d f child m st =
     (case open_child env d f child m st of (c, st1) \<Rightarrow>
        bindE (populate_message env sapient node (fd_message f) child c st1) (\<lambda>(c1, st2). Inr (close_child d f c1 m, st2)))"
| "populate_singly_nested env sapient node d f [] m st = Inr (m, st)"
| "populate_singly_nested env sapient node d f (child # es) m st =
     bindE (if tag child \<noteq> Some (xml_singly_nested (fd_options f)) then Inr (m, unexpected_child env f child st)
            else populate_child env sapient node d f child m st)
       (\<lambda>(m1, st1). populate_singly_nested env sapient node d f es m1 st1)"
  by pat_completeness auto
termination
  by (relation "measure (\<lambda>x. case x of
        Inl (Inl (env, sapient, node, n, elem, m, st)) \<Rightarrow> 4 * size elem
      | Inl (Inr (env, sapient, node, d, fm, es, m, st)) \<Rightarrow> Suc (4 * size_list size es)
      | Inr (Inl (env, sapient, node, d, fm, child, m, st)) \<Rightarrow> 4 * size child + 2
      | Inr (Inr (Inl (env, sapient, node, d, f, child, m, st))) \<Rightarrow> 4 * size child + 1
      | Inr (Inr (Inr (env, sapient, node, d, f, es, m, st))) \<Rightarrow> 4 * size_list size es + 1)")
    (auto simp: size_kids)

declare populate_message.simps [simp del] populate_element.simps [simp del] populate_child.simps [simp del]

text \<open>\<open>populate_message_field\<close>: the field whose type is named by the root element.\<close>

fun populate_first ::
  "xml_env \<Rightarrow> bool \<Rightarrow> string option \<Rightarrow> descriptor \<Rightarrow> field_descriptor list \<Rightarrow> element \<Rightarrow> msg option \<Rightarrow> conv \<Rightarrow> (msg option \<times> conv) res" where
  "populate_first env sapient node d [] elem m st =
     Inr (m, add_error (unrecognised env elem) st)"
| "populate_first env sapient node d (f # fs) elem m st =
     (if fd_kind f = TYPE_MESSAGE \<and> \<not> fd_repeated f \<and> tag elem = Some (get_message_xml_name (desc_of (xe_pool env) (fd_message f)))
      then bindE (populate_message env sapient node (fd_message f) elem
                    (case map_of (present m) (fd_number f) of Some (VMsg w) \<Rightarrow> Some w | _ \<Rightarrow> None) st)
             (\<lambda>(c, st1). Inr (close_child d f c m, st1))
      else populate_first env sapient node d fs elem m st)"

definition populate_message_field ::
  "xml_env \<Rightarrow> bool \<Rightarrow> string option \<Rightarrow> string \<Rightarrow> element \<Rightarrow> msg option \<Rightarrow> conv \<Rightarrow> (msg option \<times> conv) res" where
  "populate_message_field env sapient node n elem m st =
     (let d = desc_of (xe_pool env) n in populate_first env sapient node d (de_fields d) elem m st)"

section \<open>The converter (\<open>from_xml.py\<close>)\<close>

record converter =
  message_class :: string
  descriptor_cache :: descriptor_cache
  nested_field :: bool

definition new_converter :: "xml_env \<Rightarrow> string \<Rightarrow> bool \<Rightarrow> converter res" where
  "new_converter env n nested =
     bindE (populate_cache env n empty_cache) (\<lambda>c. Inr \<lparr>message_class = n, descriptor_cache = c, nested_field = nested\<rparr>)"

text \<open>Message, errors, and what becomes of the cache and of the identifiers.\<close>

definition from_elem :: "xml_env \<Rightarrow> converter \<Rightarrow> element \<Rightarrow> id_generator \<Rightarrow> string option \<Rightarrow> (msg \<times> conv) res" where
  "from_elem env cv elem g node =
     (let st = \<lparr>cv_cache = descriptor_cache cv, cv_errors = [], cv_gen = g\<rparr>;
          sapient = de_is_sapient (desc_of (xe_pool env) (message_class cv))
      in bindE (if nested_field cv then populate_message_field env sapient node (message_class cv) elem (Some []) st
                else populate_message env sapient node (message_class cv) elem (Some []) st)
           (\<lambda>(m, st1). Inr (present m, st1)))"

definition from_string ::
  "xml_env \<Rightarrow> (string \<Rightarrow> element res) \<Rightarrow> converter \<Rightarrow> string \<Rightarrow> id_generator \<Rightarrow> string option \<Rightarrow> (msg \<times> conv) res" where
  "from_string env fromstring cv xml g node = (case fromstring xml of
      Inl e \<Rightarrow> Inr ([], \<lparr>cv_cache = descriptor_cache cv, cv_errors = [''Parsing XML failed: '' @ exn_str e], cv_gen = g\<rparr>)
    | Inr elem \<Rightarrow> from_elem env cv elem g node)"

section \<open>Writing (\<open>to_xml.py\<close>)\<close>

datatype which_fields = OFFICIAL | TENTATIVE | ALL_FIELDS

definition field_ignored :: "which_fields \<Rightarrow> field_descriptor \<Rightarrow> bool" where
  "field_ignored w f \<longleftrightarrow> (w \<noteq> ALL_FIELDS \<and> xml_ignore (fd_options f)) \<or> (w = OFFICIAL \<and> xml_tentative (fd_options f))"

definition ill_typed :: exn where
  "ill_typed = type_error ''value and field do not match''"

text \<open>The integer that a ULID stands for; an unknown one gets the next number.\<close>

definition write_ulid :: "field_descriptor \<Rightarrow> string \<Rightarrow> string option \<Rightarrow> id_generator \<Rightarrow> string res \<times> id_generator" where
  "write_ulid f u node g =
     (case map_for (fd_field f) node g of
        Inl e \<Rightarrow> (Inl e, g)
      | Inr OwnMapping \<Rightarrow> (Inl (no_attr ''SensorIdMapping'' ''keys''), g)
      | Inr (IdMap r) \<Rightarrow>
          (case map_of (get_map r g) u of
             Some (Id i) \<Rightarrow> (Inr (show_int i), g)
           | Some (SensorIdMapping i _ _ _) \<Rightarrow> (Inr (show_int i), g)
           | None \<Rightarrow> (case get_next_id g of (i, g1) \<Rightarrow> (Inr (show_int i), set_map r (AList.update u (Id i) (get_map r g1)) g1))))"

definition enum_text :: "field_descriptor \<Rightarrow> int \<Rightarrow> string res" where
  "enum_text f i = (case fd_enum f of
      None \<Rightarrow> Inl (no_attr ''NoneType'' ''values_by_number'')
    | Some en \<Rightarrow> (case List.find (\<lambda>v. ev_number v = i) (en_values en) of
        None \<Rightarrow> Inl (PyExc ''KeyError'' (show_int i)) | Some v \<Rightarrow> Inr (get_enum_value_xml_name en v)))"

definition time_text :: "int \<Rightarrow> string res" where
  "time_text t = (if in_datetime_range t then Inr (datetime_to_str (Some t) False)
     else Inl (PyExc ''OverflowError'' ''date value out of range''))"

definition plain_text :: "xml_env \<Rightarrow> field_descriptor \<Rightarrow> field_value \<Rightarrow> string res" where
  "plain_text env f v =
     (let opts = fd_options f; k = fd_kind f
      in if k = TYPE_BOOL then (case v of VBool b \<Rightarrow> Inr (if b then ''true'' else ''false'') | _ \<Rightarrow> Inl ill_typed)
         else if is_proto_time opts then (case v of VTime t \<Rightarrow> time_text t | _ \<Rightarrow> Inl ill_typed)
         else if is_time opts then (case v of VInt i \<Rightarrow> datetime_int_to_str (PInt i) False | _ \<Rightarrow> Inl ill_typed)
         else if k = TYPE_ENUM then (case v of VEnum i \<Rightarrow> enum_text f i | _ \<Rightarrow> Inl ill_typed)
         else if k = TYPE_BYTES then (case v of VBytes b \<Rightarrow> Inr (b64encode b) | _ \<Rightarrow> Inl ill_typed)
         else if k = TYPE_STRING then (case v of VStr s \<Rightarrow> Inr s | _ \<Rightarrow> Inl ill_typed)
         else (case v of VInt i \<Rightarrow> Inr (show_int i) | VFloat x \<Rightarrow> Inr (xe_float env x) | _ \<Rightarrow> Inl ill_typed))"

definition value_text :: "xml_env \<Rightarrow> field_descriptor \<Rightarrow> field_value \<Rightarrow> string \<Rightarrow> id_generator option \<Rightarrow> string res \<times> id_generator option" where
  "value_text env f v node g =
     (case g of
        Some g0 \<Rightarrow> if is_ulid (fd_options f)
          then (case v of VStr u \<Rightarrow> (case write_ulid f u (Some node) g0 of (r, g1) \<Rightarrow> (r, Some g1)) | _ \<Rightarrow> (Inl ill_typed, g))
          else (plain_text env f v, g)
      | None \<Rightarrow> (plain_text env f v, None))"

definition place :: "field_descriptor \<Rightarrow> string \<Rightarrow> string \<Rightarrow> element \<Rightarrow> element" where
  "place f name s parent =
     (if xml_is_parent_value (fd_options f) then set_text (Some s) parent
      else if xml_is_attribute (fd_options f) then set_attr name s parent
      else append_kid (text_element name (Some s)) parent)"

definition find_number :: "nat \<Rightarrow> descriptor \<Rightarrow> field_descriptor option" where
  "find_number n d = List.find (\<lambda>f. fd_number f = n) (de_fields d)"

text \<open>\<open>_populate_message\<close>, \<open>_populate_field\<close>; the fields are in the order of their numbers, as
  \<open>ListFields\<close> gives them.\<close>

function (sequential) write_message ::
  "xml_env \<Rightarrow> which_fields \<Rightarrow> string \<Rightarrow> descriptor \<Rightarrow> msg \<Rightarrow> element \<Rightarrow> id_generator option \<Rightarrow> element res \<times> id_generator option"
and write_values ::
  "xml_env \<Rightarrow> which_fields \<Rightarrow> string \<Rightarrow> field_descriptor \<Rightarrow> string \<Rightarrow> field_value list \<Rightarrow> element \<Rightarrow> id_generator option
    \<Rightarrow> element res \<times> id_generator option"
and write_field ::
  "xml_env \<Rightarrow> which_fields \<Rightarrow> string \<Rightarrow> field_descriptor \<Rightarrow> string \<Rightarrow> field_value \<Rightarrow> element \<Rightarrow> id_generator option
    \<Rightarrow> element res \<times> id_generator option"
where
  "write_message env w node d [] elem g = (Inr elem, g)"
| "write_message env w node d ((n, v) # m) elem g =
     (case find_number n d of
        None \<Rightarrow> write_message env w node d m elem g
      | Some f \<Rightarrow>
          let nested = xml_singly_nested (fd_options f);
              parent = (if nested = [] then elem else new_element (get_field_xml_name f));
              name = (if nested = [] then get_field_xml_name f else nested)
          in case (if fd_repeated f then (case v of VList vs \<Rightarrow> write_values env w node f name vs parent g | _ \<Rightarrow> (Inl ill_typed, g))
                   else write_field env w node f name v parent g) of
               (Inl e, g1) \<Rightarrow> (Inl e, g1)
             | (Inr p, g1) \<Rightarrow> write_message env w node d m (if nested = [] then p else append_kid p elem) g1)"
| "write_values env w node f name [] parent g = (Inr parent, g)"
| "write_values env w node f name (v # vs) parent g =
     (case write_field env w node f name v parent g of
        (Inl e, g1) \<Rightarrow> (Inl e, g1)
      | (Inr p, g1) \<Rightarrow> write_values env w node f name vs p g1)"
| "write_field env w node f name v parent g =
     (if field_ignored w f then (Inr parent, g)
      else if fd_kind f = TYPE_MESSAGE \<and> \<not> is_proto_time (fd_options f)
      then (case v of
              VMsg m \<Rightarrow>
                (case write_message env w node (desc_of (xe_pool env) (fd_message f)) m (new_element name) g of
                   (Inl e, g1) \<Rightarrow> (Inl e, g1) | (Inr c, g1) \<Rightarrow> (Inr (append_kid c parent), g1))
            | _ \<Rightarrow> (Inl ill_typed, g))
      else (case value_text env f v node g of
              (Inl e, g1) \<Rightarrow> (Inl e, g1) | (Inr s, g1) \<Rightarrow> (Inr (place f name s parent), g1)))"

  by pat_completeness auto
termination
  by (relation "measure (\<lambda>x. case x of
        Inl (env, w, node, d, m, elem, g) \<Rightarrow> 2 * size (VMsg m)
      | Inr (Inl (env, w, node, f, name, vs, parent, g)) \<Rightarrow> 2 * size (VList vs)
      | Inr (Inr (env, w, node, f, name, v, parent, g)) \<Rightarrow> Suc (2 * size v))") auto

definition message_to_element ::
  "xml_env \<Rightarrow> which_fields \<Rightarrow> string \<Rightarrow> string \<Rightarrow> msg \<Rightarrow> id_generator option \<Rightarrow> element res \<times> id_generator option" where
  "message_to_element env w node n m g =
     (let d = desc_of (xe_pool env) n
      in case write_message env w node d m (new_element (get_message_xml_name d)) g of
           (Inl e, g1) \<Rightarrow> (Inl e, g1) | (Inr c, g1) \<Rightarrow> (Inr (indent c), g1))"

fun field_loop :: "xml_env \<Rightarrow> which_fields \<Rightarrow> string \<Rightarrow> descriptor \<Rightarrow> msg \<Rightarrow> element option \<Rightarrow> element res" where
  "field_loop env w node d [] None = Inl (value_error ''No field populated'')"
| "field_loop env w node d [] (Some e) = Inr e"
| "field_loop env w node d ((n, v) # m) r =
     (case find_number n d of
        None \<Rightarrow> field_loop env w node d m r
      | Some f \<Rightarrow>
          if fd_kind f \<noteq> TYPE_MESSAGE then Inl (value_error ''Non-message field populated'')
          else if r \<noteq> None then Inl (value_error ''Multiple fields populated in message'')
          else (case v of
                  VMsg c \<Rightarrow> bindE (fst (message_to_element env w node (fd_message f) c None)) (\<lambda>e. field_loop env w node d m (Some e))
                | _ \<Rightarrow> Inl ill_typed))"

definition message_field_to_element :: "xml_env \<Rightarrow> which_fields \<Rightarrow> string \<Rightarrow> string \<Rightarrow> msg \<Rightarrow> element res" where
  "message_field_to_element env w node n m = field_loop env w node (desc_of (xe_pool env) n) m None"

end
