(* ===== verification/ApexXmlRead.thy ===== *)
theory ApexXmlRead
  imports ApexXml "HOL-Library.Sublist"
begin

text \<open>
  Reading an element (\<open>sapient_apex_server/xml_conversion/from_xml_impl.py\<close>): it never raises once the
  converter has been built, it only adds errors, and the message it gives fits its descriptor.
\<close>

section \<open>The fields of a message\<close>

definition map_fields :: "message_fields_map \<Rightarrow> field_descriptor set" where
  "map_fields m = set_option (text_field m) \<union> ran (map_of (attribute_fields m)) \<union> ran (map_of (element_fields m))"

lemma add_field_fields: "add_field dn f m = Inr m1 \<Longrightarrow> map_fields m1 \<subseteq> insert f (map_fields m)"
  by (auto simp: add_field_def map_fields_def Let_def ran_def update_conv' split: if_splits)

lemma add_fields_fields: "add_fields dn fs m = Inr m1 \<Longrightarrow> map_fields m1 \<subseteq> set fs \<union> map_fields m"
proof (induction fs arbitrary: m)
  case (Cons f fs)
  then obtain m0 where "add_field dn f m = Inr m0" "add_fields dn fs m0 = Inr m1" by (auto simp: res_simps)
  with Cons.IH add_field_fields show ?case by fastforce
qed simp

lemma fields_map_fields: "get_message_fields_map d = Inr m \<Longrightarrow> map_fields m \<subseteq> set (de_fields d)"
  using add_fields_fields by (fastforce simp: get_message_fields_map_def map_fields_def)

lemma element_field_known: "map_of (element_fields m) k = Some f \<Longrightarrow> f \<in> map_fields m"
  by (auto simp: map_fields_def intro: ranI)

lemma attribute_field_known: "map_of (attribute_fields m) k = Some f \<Longrightarrow> f \<in> map_fields m"
  by (auto simp: map_fields_def intro: ranI)

lemma child_kind_known:
  "child_kind fm e = Basic f t \<Longrightarrow> f \<in> map_fields fm"
  "child_kind fm e = Nested f \<Longrightarrow> f \<in> map_fields fm \<and> fd_kind f = TYPE_MESSAGE"
  "child_kind fm e = SubMessage f \<Longrightarrow> f \<in> map_fields fm \<and> fd_kind f = TYPE_MESSAGE \<and> \<not> is_proto_time (fd_options f)"
proof -
  have b: "Option.bind t (map_of (element_fields fm)) = Some h \<Longrightarrow> h \<in> map_fields fm" for t h
    by (cases t) (simp_all add: element_field_known)
  show "child_kind fm e = Basic f t \<Longrightarrow> f \<in> map_fields fm"
    "child_kind fm e = Nested f \<Longrightarrow> f \<in> map_fields fm \<and> fd_kind f = TYPE_MESSAGE"
    "child_kind fm e = SubMessage f \<Longrightarrow> f \<in> map_fields fm \<and> fd_kind f = TYPE_MESSAGE \<and> \<not> is_proto_time (fd_options f)"
    by (simp_all add: child_kind_def b split: option.split_asm if_split_asm)
qed

lemma message_type_known: "f \<in> set (de_fields d) \<Longrightarrow> fd_kind f = TYPE_MESSAGE \<Longrightarrow> fd_message f \<in> set (message_types d)"
  by (auto simp: message_types_def)

section \<open>Reading never raises\<close>

text \<open>What every step of reading keeps; the identifiers change by looking up ULIDs only.\<close>

definition read_step :: "xml_env \<Rightarrow> id_generator \<Rightarrow> id_generator \<Rightarrow> bool" where
  "read_step env g g1 \<longleftrightarrow> (\<exists>f s node. snd (read_ulid env f s node g) = g1)"

definition reads :: "xml_env \<Rightarrow> conv \<Rightarrow> conv \<Rightarrow> bool" where
  "reads env st st1 \<longleftrightarrow> cv_cache st1 = cv_cache st \<and> prefix (cv_errors st) (cv_errors st1)
     \<and> rtranclp (read_step env) (cv_gen st) (cv_gen st1)"

lemma reads_refl [simp]: "reads env st st"
  by (simp add: reads_def)

lemma reads_trans: "reads env st st1 \<Longrightarrow> reads env st1 st2 \<Longrightarrow> reads env st st2"
  by (auto simp: reads_def)

lemma reads_add_error [simp]: "reads env st (add_error t st)"
  by (simp add: reads_def add_error_def)

lemma reads_then_error: "reads env st st1 \<Longrightarrow> reads env st (add_error t st1)"
  by (rule reads_trans [OF _ reads_add_error])

lemma read_ulid_reads: "read_ulid env f s node (cv_gen st) = (r, g) \<Longrightarrow> reads env st (st\<lparr>cv_gen := g\<rparr>)"
proof -
  assume "read_ulid env f s node (cv_gen st) = (r, g)"
  then have "read_step env (cv_gen st) g" unfolding read_step_def by (metis snd_conv)
  then show ?thesis by (simp add: reads_def r_into_rtranclp)
qed

lemma parse_value_reads: "parse_value env f v node st = (r, st1) \<Longrightarrow> reads env st st1"
  by (auto simp: parse_value_def Let_def read_enum_def read_ulid_reads split: if_splits option.splits prod.splits)

lemma basic_reads: "populate_basic_field env d f v node m st = (m1, st1) \<Longrightarrow> reads env st st1"
  by (auto simp: populate_basic_field_def Let_def split: prod.splits sum.splits if_splits dest!: parse_value_reads
      intro!: reads_then_error)

lemma text_reads: "populate_text env d fm x node m st = (m1, st1) \<Longrightarrow> reads env st st1"
  by (auto simp: populate_text_def basic_reads split: if_splits option.splits)

lemma attributes_reads: "populate_attributes env d fm as node m st = (m1, st1) \<Longrightarrow> reads env st st1"
proof (induction as arbitrary: m st)
  case (Cons a as)
  obtain k v where [simp]: "a = (k, v)" by fastforce
  show ?case
  proof (cases "map_of (attribute_fields fm) k")
    case None
    with Cons show ?thesis by simp
  next
    case (Some f)
    with Cons.prems obtain m2 st2 where "populate_basic_field env d f (Some v) node m st = (m2, st2)"
      "populate_attributes env d fm as node m2 st2 = (m1, st1)" by (auto split: prod.splits)
    with Cons.IH basic_reads reads_trans show ?thesis by blast
  qed
qed simp

lemma open_child_reads: "open_child env d f e m st = (c, st1) \<Longrightarrow> reads env st st1"
  by (auto simp: open_child_def split: if_splits option.splits)

lemma unknown_child_reads [simp]: "reads env st (unknown_child env s d fm e st)"
  by (simp add: unknown_child_def)

lemma populate_cache_complete:
  assumes "complete (xe_pool env) c" "n \<in> cached c"
  shows "populate_cache env n c = Inr c"
  using assms by (auto simp: populate_cache_def cached_def)

text \<open>A message type whose fields are all known to the cache.\<close>

definition known_type :: "xml_env \<Rightarrow> descriptor_cache \<Rightarrow> string \<Rightarrow> bool" where
  "known_type env c n \<longleftrightarrow> complete (xe_pool env) c \<and> n \<in> cached c"

definition known_field :: "xml_env \<Rightarrow> descriptor_cache \<Rightarrow> field_descriptor \<Rightarrow> bool" where
  "known_field env c f \<longleftrightarrow> (fd_kind f = TYPE_MESSAGE \<longrightarrow> known_type env c (fd_message f))"

lemma known_field_of_type:
  assumes "known_type env c n" "f \<in> set (de_fields (desc_of (xe_pool env) n))"
  shows "known_field env c f"
  using assms message_type_known [of f] unfolding known_field_def known_type_def complete_def by blast

lemma fields_map_known:
  assumes "known_type env (cv_cache st) n"
  shows "map_fields (fields_map st n) \<subseteq> set (de_fields (desc_of (xe_pool env) n))"
proof -
  from assms obtain fm where "map_of (message_fields_map_cache (cv_cache st)) n = Some fm"
    "get_message_fields_map (desc_of (xe_pool env) n) = Inr fm" unfolding known_type_def complete_def entry_ok_def by blast
  then show ?thesis using fields_map_fields by (simp add: fields_map_def)
qed

lemma own_reads:
  assumes "known_type env (cv_cache st) n"
  shows "\<exists>fm m1 st1. populate_own env node n e m st = Inr (fm, m1, st1) \<and> fm = fields_map st n \<and> reads env st st1"
proof -
  have c: "populate_cache env n (cv_cache st) = Inr (cv_cache st)" "st\<lparr>cv_cache := cv_cache st\<rparr> = st"
    using assms by (simp_all add: known_type_def populate_cache_complete)
  obtain m1 st1 where t: "populate_text env (desc_of (xe_pool env) n) (fields_map st n) (etext e) node m st = (m1, st1)" by fastforce
  obtain m2 st2 where a: "populate_attributes env (desc_of (xe_pool env) n) (fields_map st n) (attrs e) node m1 st1 = (m2, st2)" by fastforce
  show ?thesis using reads_trans [OF text_reads [OF t] attributes_reads [OF a]]
    by (simp add: populate_own_def c Let_def t a)
qed

lemma populate_reads:
  "known_type env (cv_cache st) n \<Longrightarrow> \<exists>m1 st1. populate_message env s node n e m st = Inr (m1, st1) \<and> reads env st st1"
  "\<forall>f \<in> map_fields fm. known_field env (cv_cache st) f
    \<Longrightarrow> \<exists>m1 st1. populate_children env s node d fm es m st = Inr (m1, st1) \<and> reads env st st1"
  "\<forall>f \<in> map_fields fm. known_field env (cv_cache st) f
    \<Longrightarrow> \<exists>m1 st1. populate_element env s node d fm e m st = Inr (m1, st1) \<and> reads env st st1"
  "known_type env (cv_cache st) (fd_message f) \<Longrightarrow> \<exists>m1 st1. populate_child env s node d f e m st = Inr (m1, st1) \<and> reads env st st1"
  "known_type env (cv_cache st) (fd_message f) \<Longrightarrow> \<exists>m1 st1. populate_singly_nested env s node d f es m st = Inr (m1, st1) \<and> reads env st st1"
proof (induction env s node n e m st and env s node d fm es m st and env s node d fm e m st and env s node d f e m st
    and env s node d f es m st
    rule: populate_message_populate_children_populate_element_populate_child_populate_singly_nested.induct)
  case (1 env s node n e m st)
  from own_reads [OF "1.prems"] obtain m1 st1 where
    o: "populate_own env node n e m st = Inr (fields_map st n, m1, st1)" "reads env st st1" by blast
  have "\<forall>f \<in> map_fields (fields_map st n). known_field env (cv_cache st1) f"
    using fields_map_known [OF "1.prems"] known_field_of_type [OF "1.prems"] o(2) by (auto simp: reads_def)
  from "1.IH" [OF this] obtain m2 st2 where "populate_children env s node (desc_of (xe_pool env) n) (fields_map st n) (kids e) m1 st1 = Inr (m2, st2)"
    "reads env st1 st2" by blast
  with o(1) reads_trans [OF o(2)] show ?case by (simp add: populate_message.simps)
next
  case (3 env s node d fm child es m st)
  from "3.IH"(1) [OF "3.prems"] obtain m1 st1 where one: "populate_element env s node d fm child m st = Inr (m1, st1)" "reads env st st1"
    by blast
  have "\<forall>f \<in> map_fields fm. known_field env (cv_cache st1) f" using "3.prems" one(2) by (simp add: reads_def)
  from "3.IH"(2) [OF this] obtain m2 st2 where "populate_children env s node d fm es m1 st1 = Inr (m2, st2)" "reads env st1 st2" by blast
  with one(1) reads_trans [OF one(2)] show ?case by simp
next
  case (4 env s node d fm child m st)
  show ?case
  proof (cases "child_kind fm child")
    case (Basic f t)
    then show ?thesis using basic_reads by (cases "populate_basic_field env d f t node m st") (simp add: populate_element.simps)
  next
    case (Nested f)
    with child_kind_known(2) "4.prems" have "known_type env (cv_cache st) (fd_message f)" by (auto simp: known_field_def)
    with Nested "4.IH"(1) [OF Nested] show ?thesis by (simp add: populate_element.simps)
  next
    case (SubMessage f)
    with child_kind_known(3) "4.prems" have "known_type env (cv_cache st) (fd_message f)" by (auto simp: known_field_def)
    with SubMessage "4.IH"(2) [OF SubMessage] show ?thesis by (simp add: populate_element.simps)
  qed (simp_all add: populate_element.simps)
next
  case (5 env s node d f child m st)
  obtain c st1 where c: "open_child env d f child m st = (c, st1)" by fastforce
  then have r: "reads env st st1" by (rule open_child_reads)
  then have "known_type env (cv_cache st1) (fd_message f)" using "5.prems" by (simp add: reads_def)
  from "5.IH" [OF c [symmetric] this] obtain c1 st2 where "populate_message env s node (fd_message f) child c st1 = Inr (c1, st2)"
    "reads env st1 st2" by blast
  with c reads_trans [OF r] show ?case by (simp add: populate_child.simps)
next
  case (7 env s node d f child es m st)
  show ?case
  proof (cases "tag child = Some (xml_singly_nested (fd_options f))")
    case True
    with 7 obtain m1 st1 where one: "populate_child env s node d f child m st = Inr (m1, st1)" "reads env st st1" by blast
    then have "known_type env (cv_cache st1) (fd_message f)" using "7.prems" by (simp add: reads_def)
    from "7.IH"(2) [OF this] obtain m2 st2 where "populate_singly_nested env s node d f es m1 st1 = Inr (m2, st2)" "reads env st1 st2" by blast
    with one(1) reads_trans [OF one(2)] True show ?thesis by simp
  next
    case False
    let ?st = "unexpected_child env f child st"
    have r: "reads env st ?st" by (simp add: unexpected_child_def)
    then have "known_type env (cv_cache ?st) (fd_message f)" using "7.prems" by (simp add: reads_def)
    from "7.IH"(2) [OF this] obtain m2 st2 where "populate_singly_nested env s node d f es m ?st = Inr (m2, st2)" "reads env ?st st2" by blast
    with reads_trans [OF r] False show ?thesis by simp
  qed
qed simp_all

lemma first_reads:
  assumes "known_type env (cv_cache st) n" "set fs \<subseteq> set (de_fields (desc_of (xe_pool env) n))"
  shows "\<exists>m1 st1. populate_first env s node d fs e m st = Inr (m1, st1) \<and> reads env st st1"
  using assms
proof (induction fs)
  case (Cons f fs)
  show ?case
  proof (cases "fd_kind f = TYPE_MESSAGE \<and> \<not> fd_repeated f \<and> tag e = Some (get_message_xml_name (desc_of (xe_pool env) (fd_message f)))")
    case True
    with Cons.prems known_field_of_type have "known_type env (cv_cache st) (fd_message f)" by (auto simp: known_field_def)
    from populate_reads(1) [OF this, of s node e "case map_of (present m) (fd_number f) of Some (VMsg w) \<Rightarrow> Some w | _ \<Rightarrow> None"]
    obtain m1 st1 where "populate_message env s node (fd_message f) e
        (case map_of (present m) (fd_number f) of Some (VMsg w) \<Rightarrow> Some w | _ \<Rightarrow> None) st = Inr (m1, st1)" "reads env st st1" by blast
    with True show ?thesis by simp
  next
    case False
    with Cons show ?thesis by auto
  qed
qed simp

lemma new_converter_known:
  assumes "new_converter env n nested = Inr cv"
  shows "known_type env (descriptor_cache cv) n \<and> message_class cv = n \<and> nested_field cv = nested"
  using assms converter_cache_complete [of "xe_pool env" n]
  by (auto simp: new_converter_def populate_cache_def converter_cache_def known_type_def res_simps split: option.splits)

lemma from_elem_reads:
  assumes "new_converter env n nested = Inr cv"
  shows "\<exists>m st. from_elem env cv elem g node = Inr (m, st) \<and> reads env \<lparr>cv_cache = descriptor_cache cv, cv_errors = [], cv_gen = g\<rparr> st"
proof -
  let ?st = "\<lparr>cv_cache = descriptor_cache cv, cv_errors = [], cv_gen = g\<rparr>"
  from new_converter_known [OF assms] have k: "known_type env (cv_cache ?st) n" "message_class cv = n" by simp_all
  have "\<exists>m1 st1. (if nested_field cv then populate_message_field env s node n elem (Some []) ?st
      else populate_message env s node n elem (Some []) ?st) = Inr (m1, st1) \<and> reads env ?st st1" for s
    using populate_reads(1) [OF k(1)] first_reads [OF k(1) subset_refl] by (simp add: populate_message_field_def Let_def)
  from this [of "de_is_sapient (desc_of (xe_pool env) n)"] show ?thesis
    by (auto simp: from_elem_def Let_def k(2))
qed

text \<open>C4. Reading XML never raises. A converter that could be built gives a message and a list of errors
  for every element, whatever its tags, attributes and texts, and leaves its cache as it is: what goes
  wrong with one value is a line of the errors and the rest of the element is read. (The constructor
  can raise: two fields of one name, an option that does not fit, an ambiguous enum.)\<close>

theorem reading_never_raises:
  assumes "new_converter env n nested = Inr cv"
  shows "\<exists>m st. from_elem env cv elem g node = Inr (m, st) \<and> cv_cache st = descriptor_cache cv"
  using from_elem_reads [OF assms, of elem g node] by (auto simp: reads_def)

section \<open>Messages that fit their descriptor\<close>

text \<open>Fields are distinguished by their numbers; the option for times is one of message fields, which are
  then not singly nested, and so on.\<close>

definition sane_field :: "field_descriptor \<Rightarrow> bool" where
  "sane_field f \<longleftrightarrow> (is_proto_time (fd_options f) \<longrightarrow> fd_kind f = TYPE_MESSAGE \<and> xml_singly_nested (fd_options f) = [])
     \<and> (is_ulid (fd_options f) \<longrightarrow> fd_kind f = TYPE_STRING) \<and> (is_time (fd_options f) \<longrightarrow> fd_kind f \<in> set FIELD_INT_TYPES)
     \<and> (fd_kind f = TYPE_MESSAGE \<longrightarrow> fd_presence f) \<and> (fd_oneof f \<noteq> None \<longrightarrow> fd_presence f \<and> \<not> fd_repeated f)"

definition sane_desc :: "descriptor \<Rightarrow> bool" where
  "sane_desc d \<longleftrightarrow> distinct (map fd_number (de_fields d)) \<and> list_all sane_field (de_fields d)"

definition sane_pool :: "xml_env \<Rightarrow> bool" where
  "sane_pool env \<longleftrightarrow> list_all (sane_desc \<circ> snd) (xe_pool env)"

definition ascending :: "msg \<Rightarrow> bool" where
  "ascending m \<longleftrightarrow> sorted_wrt (<) (map fst m)"

text \<open>At most one member of a oneof is present.\<close>

definition exclusive :: "descriptor \<Rightarrow> msg \<Rightarrow> bool" where
  "exclusive d m \<longleftrightarrow> (\<forall>f \<in> set (de_fields d). \<forall>h \<in> set (de_fields d). fd_oneof f \<noteq> None \<and> fd_oneof h = fd_oneof f
     \<and> fd_number f \<in> fst ` set m \<and> fd_number h \<in> fst ` set m \<longrightarrow> fd_number h = fd_number f)"

function (sequential) typed_value :: "xml_env \<Rightarrow> field_descriptor \<Rightarrow> field_value \<Rightarrow> bool"
and typed_list :: "xml_env \<Rightarrow> field_descriptor \<Rightarrow> field_value list \<Rightarrow> bool"
and typed_fields :: "xml_env \<Rightarrow> descriptor \<Rightarrow> msg \<Rightarrow> bool"
where
  "typed_value env f (VBool b) = (fd_kind f = TYPE_BOOL)"
| "typed_value env f (VFloat x) = (fd_kind f = TYPE_FLOAT \<or> fd_kind f = TYPE_DOUBLE)"
| "typed_value env f (VInt i) = (fd_kind f \<in> set FIELD_INT_TYPES \<and> in_int_range (fd_kind f) i)"
| "typed_value env f (VEnum i) = (fd_kind f = TYPE_ENUM \<and> in_int_range (fd_kind f) i)"
| "typed_value env f (VStr s) = (fd_kind f = TYPE_STRING)"
| "typed_value env f (VBytes b) = (fd_kind f = TYPE_BYTES)"
| "typed_value env f (VTime t) = (fd_kind f = TYPE_MESSAGE \<and> is_proto_time (fd_options f))"
| "typed_value env f (VMsg m) = (fd_kind f = TYPE_MESSAGE \<and> \<not> is_proto_time (fd_options f) \<and> ascending m
     \<and> exclusive (desc_of (xe_pool env) (fd_message f)) m \<and> typed_fields env (desc_of (xe_pool env) (fd_message f)) m)"
| "typed_value env f (VList vs) = False"
| "typed_list env f [] = True"
| "typed_list env f (v # vs) = (typed_value env f v \<and> typed_list env f vs)"
| "typed_fields env d [] = True"
| "typed_fields env d ((n, v) # m) =
     ((case find_number n d of
         None \<Rightarrow> False
       | Some f \<Rightarrow> if fd_repeated f then (case v of VList vs \<Rightarrow> vs \<noteq> [] \<and> typed_list env f vs | _ \<Rightarrow> False)
           else typed_value env f v \<and> (fd_presence f \<or> \<not> is_default v))
      \<and> typed_fields env d m)"
  by pat_completeness auto
termination
  by (relation "measure (\<lambda>x. case x of
        Inl (env, f, v) \<Rightarrow> Suc (2 * size v)
      | Inr (Inl (env, f, vs)) \<Rightarrow> 2 * size (VList vs)
      | Inr (Inr (env, d, m)) \<Rightarrow> 2 * size (VMsg m))") auto

definition fits :: "xml_env \<Rightarrow> descriptor \<Rightarrow> msg \<Rightarrow> bool" where
  "fits env d m \<longleftrightarrow> ascending m \<and> exclusive d m \<and> typed_fields env d m"

definition typed_msg :: "xml_env \<Rightarrow> string \<Rightarrow> msg \<Rightarrow> bool" where
  "typed_msg env n m \<longleftrightarrow> fits env (desc_of (xe_pool env) n) m"

text \<open>One present field.\<close>

definition typed_entry :: "xml_env \<Rightarrow> field_descriptor \<Rightarrow> field_value \<Rightarrow> bool" where
  "typed_entry env f v \<longleftrightarrow> (if fd_repeated f then (\<exists>vs. v = VList vs \<and> vs \<noteq> [] \<and> list_all (typed_value env f) vs)
     else typed_value env f v \<and> (fd_presence f \<or> \<not> is_default v))"

lemma typed_list_all [simp]: "typed_list env f vs = list_all (typed_value env f) vs"
  by (induction vs) simp_all

lemma typed_fields_iff:
  "typed_fields env d m \<longleftrightarrow> (\<forall>(n, v) \<in> set m. \<exists>f. find_number n d = Some f \<and> typed_entry env f v)"
proof (induction m)
  case (Cons a m)
  obtain n v where a: "a = (n, v)" by fastforce
  have "(case v of VList vs \<Rightarrow> vs \<noteq> [] \<and> typed_list env f vs | _ \<Rightarrow> False)
      \<longleftrightarrow> (\<exists>vs. v = VList vs \<and> vs \<noteq> [] \<and> list_all (typed_value env f) vs)" for f
    by (cases v) simp_all
  then show ?case by (cases "find_number n d") (simp_all add: a Cons typed_entry_def)
qed simp

lemma find_number_field:
  assumes "distinct (map fd_number (de_fields d))" "f \<in> set (de_fields d)"
  shows "find_number (fd_number f) d = Some f"
proof -
  have "List.find (\<lambda>h. fd_number h = fd_number f) fs = Some f"
    if "distinct (map fd_number fs)" "f \<in> set fs" for fs :: "field_descriptor list"
    using that by (induction fs) force+
  with assms show ?thesis by (simp add: find_number_def)
qed

lemma find_number_Some: "find_number n d = Some f \<Longrightarrow> f \<in> set (de_fields d) \<and> fd_number f = n"
  by (auto simp: find_number_def find_Some_iff)

subsection \<open>Fields of a message\<close>

lemma put_fst: "fst ` set (put n v m) = insert n (fst ` set m)"
  by (induction n v m rule: put.induct) auto

lemma put_ascending: "ascending m \<Longrightarrow> ascending (put n v m)"
proof (induction n v m rule: put.induct)
  case (2 n v k w m)
  then show ?case using put_fst [of n v m] by (fastforce simp: ascending_def)
qed (simp add: ascending_def)

lemma put_set: "ascending m \<Longrightarrow> set (put n v m) = insert (n, v) {e \<in> set m. fst e \<noteq> n}"
proof (induction n v m rule: put.induct)
  case (2 n v k w m)
  then have "ascending m" "\<forall>e \<in> set m. k < fst e" by (auto simp: ascending_def)
  with 2 show ?case by (cases n k rule: linorder_cases) auto
qed simp

lemma filter_ascending: "ascending m \<Longrightarrow> ascending (filter P m)"
  by (induction m) (auto simp: ascending_def)

lemma exclusive_subset: "exclusive d m \<Longrightarrow> fst ` set m' \<subseteq> fst ` set m \<Longrightarrow> exclusive d m'"
  unfolding exclusive_def by blast

lemma exclusive_put:
  assumes "exclusive d m" "fd_oneof f = None \<or> fst ` set m \<inter> fd_number ` {h \<in> set (de_fields d). fd_oneof h = fd_oneof f} \<subseteq> {fd_number f}"
    "f \<in> set (de_fields d)" "distinct (map fd_number (de_fields d))"
  shows "exclusive d (put (fd_number f) v m)"
proof -
  have same: "h = f" if "h \<in> set (de_fields d)" "fd_number h = fd_number f" for h
    using assms(3,4) that by (auto simp: distinct_map inj_on_def)
  show ?thesis
    unfolding exclusive_def put_fst
  proof (intro ballI impI)
    fix h k assume h: "h \<in> set (de_fields d)" "k \<in> set (de_fields d)"
      "fd_oneof h \<noteq> None \<and> fd_oneof k = fd_oneof h \<and> fd_number h \<in> insert (fd_number f) (fst ` set m) \<and> fd_number k \<in> insert (fd_number f) (fst ` set m)"
    show "fd_number k = fd_number h"
    proof (cases "fd_oneof h = fd_oneof f")
      case True
      with h assms(2) have "fd_number h = fd_number f" "fd_number k = fd_number f" by auto
      then show ?thesis by simp
    next
      case False
      with h have "h \<noteq> f" "k \<noteq> f" by auto
      with same h(1,2) have "fd_number h \<noteq> fd_number f" "fd_number k \<noteq> fd_number f" by blast+
      with h assms(1) show ?thesis unfolding exclusive_def by auto
    qed
  qed
qed

lemma sane_desc_of: "sane_pool env \<Longrightarrow> sane_desc (desc_of (xe_pool env) n)"
proof (cases "map_of (xe_pool env) n")
  case (Some d)
  assume "sane_pool env"
  with map_of_SomeD [OF Some] have "sane_desc d" by (force simp: sane_pool_def list_all_iff)
  with Some show ?thesis by (simp add: desc_of_def)
qed (simp add: sane_desc_def desc_of_def)

lemma sane_desc_field: "sane_desc d \<Longrightarrow> f \<in> set (de_fields d) \<Longrightarrow> sane_field f"
  by (simp add: sane_desc_def list_all_iff)

lemma fits_put:
  assumes d: "sane_desc d" "f \<in> set (de_fields d)" and m: "fits env d m" and v: "typed_entry env f v"
    and o: "fd_oneof f = None \<or> fst ` set m \<inter> fd_number ` {h \<in> set (de_fields d). fd_oneof h = fd_oneof f} \<subseteq> {fd_number f}"
  shows "fits env d (put (fd_number f) v m)"
proof -
  have dis: "distinct (map fd_number (de_fields d))" using d(1) by (simp add: sane_desc_def)
  have m': "ascending m" "exclusive d m" "typed_fields env d m" using m by (simp_all add: fits_def)
  have "typed_fields env d (put (fd_number f) v m)"
    using m'(3) v find_number_field [OF dis d(2)] unfolding typed_fields_iff put_set [OF m'(1)] by auto
  then show ?thesis using put_ascending [OF m'(1)] exclusive_put [OF m'(2) o d(2) dis] by (simp add: fits_def)
qed

lemma fits_filter: "fits env d m \<Longrightarrow> fits env d (filter P m)"
  using filter_ascending exclusive_subset [of d m "filter P m"] by (auto simp: fits_def typed_fields_iff)

lemma clear_oneof_filter: "\<exists>P. clear_oneof d f m = filter P m"
  by (cases "fd_oneof f = None") (auto simp: clear_oneof_def intro: exI [of _ "\<lambda>x. True"])

lemma set_field_fits:
  assumes d: "sane_desc d" "f \<in> set (de_fields d)" "\<not> fd_repeated f" and m: "fits env d (present m)" and v: "typed_value env f v"
  shows "fits env d (present (set_field d f v m))"
proof (cases "\<not> fd_presence f \<and> is_default v")
  case True
  then show ?thesis using fits_filter [OF m] by (simp add: set_field_def present_def)
next
  case False
  obtain P where P: "clear_oneof d f (present m) = filter P (present m)" using clear_oneof_filter by blast
  have o: "fd_oneof f = None \<or> fst ` set (clear_oneof d f (present m)) \<inter> fd_number ` {h \<in> set (de_fields d). fd_oneof h = fd_oneof f} \<subseteq> {fd_number f}"
    by (auto simp: clear_oneof_def list_ex_iff)
  have "typed_entry env f v" using v d(3) False by (auto simp: typed_entry_def)
  from fits_put [OF d(1,2) fits_filter [OF m, of P, folded P] this o] False show ?thesis
    by (auto simp: set_field_def present_def)
qed

lemma append_field_fits:
  assumes d: "sane_desc d" "f \<in> set (de_fields d)" "fd_repeated f" and m: "fits env d (present m)" and v: "typed_value env f v"
  shows "fits env d (present (append_field f v m))"
proof -
  have "fd_oneof f = None" using sane_desc_field [OF d(1,2)] d(3) by (auto simp: sane_field_def)
  let ?vs = "case map_of (present m) (fd_number f) of Some (VList vs) \<Rightarrow> vs | _ \<Rightarrow> []"
  have "list_all (typed_value env f) ?vs"
  proof (cases "map_of (present m) (fd_number f)")
    case (Some w)
    then have "(fd_number f, w) \<in> set (present m)" by (rule map_of_SomeD)
    moreover have "find_number (fd_number f) d = Some f" using find_number_field d(1,2) by (simp add: sane_desc_def)
    ultimately have "typed_entry env f w" using m unfolding fits_def typed_fields_iff by fastforce
    with d(3) Some show ?thesis by (auto simp: typed_entry_def)
  qed simp
  then have "typed_entry env f (VList (?vs @ [v]))" using v d(3) by (simp add: typed_entry_def)
  from fits_put [OF d(1,2) m this] \<open>fd_oneof f = None\<close> show ?thesis by (simp add: append_field_def present_def)
qed

text \<open>What the text of a field is read as fits the field, or protobuf rejects it.\<close>

lemma parse_value_typed:
  assumes p: "parse_value env f v node st = (Inr r, st1)" and c: "check_value env f r = Inr w" and f: "sane_field f"
  shows "typed_value env f w"
proof (cases "is_proto_time (fd_options f)")
  case True
  with p obtain t where "r = Some (VTime t)" by (auto simp: parse_value_def Let_def res_simps)
  with c True show ?thesis by (auto simp: check_value_def split: if_splits)
next
  case False
  obtain s where v: "v = Some s" using p False by (cases v) (simp_all add: parse_value_def Let_def)
  let ?k = "fd_kind f"
  consider "?k = TYPE_BOOL" | "?k = TYPE_FLOAT \<or> ?k = TYPE_DOUBLE" | "?k \<in> set FIELD_INT_TYPES" | "?k = TYPE_ENUM"
    | "?k = TYPE_STRING" | "?k = TYPE_BYTES" | "?k = TYPE_MESSAGE \<or> ?k = TYPE_GROUP"
    by (cases ?k) (auto simp: FIELD_INT_TYPES_def)
  then show ?thesis
  proof cases
    case 1
    with p False v c show ?thesis by (auto simp: parse_value_def Let_def check_value_def)
  next
    case 2
    with p False v c show ?thesis by (auto simp: parse_value_def Let_def check_value_def res_simps)
  next
    case 3
    then have "?k \<noteq> TYPE_BOOL" "?k \<noteq> TYPE_FLOAT" "?k \<noteq> TYPE_DOUBLE" by (auto simp: FIELD_INT_TYPES_def)
    with 3 p False v have "\<exists>i. r = map_option VInt i"
      by (auto simp: parse_value_def Let_def res_simps split: if_splits intro: exI [of _ "Some _"])
    then obtain i where "r = map_option VInt i" by blast
    with 3 c show ?thesis by (cases i) (auto simp: check_value_def split: if_splits)
  next
    case 4
    with p False v have "r = None \<or> (\<exists>i. r = Some (VEnum i))"
      by (auto simp: parse_value_def Let_def read_enum_def FIELD_INT_TYPES_def split: option.splits)
    with 4 c show ?thesis by (auto simp: check_value_def split: if_splits)
  next
    case 5
    with p False v have "\<exists>u. r = map_option VStr u"
      by (auto simp: parse_value_def Let_def FIELD_INT_TYPES_def res_simps split: if_splits prod.splits intro: exI [of _ "Some _"])
    then obtain u where "r = map_option VStr u" by blast
    with 5 c show ?thesis by (cases u) (auto simp: check_value_def)
  next
    case 6
    with p False v c show ?thesis by (auto simp: parse_value_def Let_def check_value_def FIELD_INT_TYPES_def res_simps)
  next
    case 7
    with p False v have "r = None" by (auto simp: parse_value_def Let_def FIELD_INT_TYPES_def)
    with c show ?thesis by (simp add: check_value_def)
  qed
qed

lemma basic_fits:
  assumes d: "sane_desc d" "f \<in> set (de_fields d)" and m: "fits env d (present m)"
    and p: "populate_basic_field env d f v node m st = (m1, st1)"
  shows "fits env d (present m1)"
proof -
  obtain r st0 where r: "parse_value env f v node st = (r, st0)" by fastforce
  show ?thesis
  proof (cases r)
    case (Inl e)
    with p r m show ?thesis by (simp add: populate_basic_field_def)
  next
    case (Inr x)
    show ?thesis
    proof (cases "check_value env f x")
      case (Inl e)
      with p r Inr m show ?thesis by (simp add: populate_basic_field_def store_value_def Let_def)
    next
      case inr: (Inr w)
      then have "typed_value env f w" using parse_value_typed r Inr sane_desc_field [OF d] by blast
      moreover have "m1 = (if fd_repeated f then append_field f w m else set_field d f w m)"
        using p r Inr inr by (simp add: populate_basic_field_def store_value_def Let_def)
      ultimately show ?thesis using set_field_fits [OF d _ m] append_field_fits [OF d _ m] by simp
    qed
  qed
qed

lemma text_fits:
  assumes "sane_desc d" "map_fields fm \<subseteq> set (de_fields d)" "fits env d (present m)" "populate_text env d fm x node m st = (m1, st1)"
  shows "fits env d (present m1)"
  using assms basic_fits [OF assms(1) _ assms(3)]
  by (auto simp: populate_text_def map_fields_def split: if_splits option.splits)

lemma attributes_fits:
  assumes "sane_desc d" "map_fields fm \<subseteq> set (de_fields d)" "fits env d (present m)"
    "populate_attributes env d fm as node m st = (m1, st1)"
  shows "fits env d (present m1)"
  using assms(3,4)
proof (induction as arbitrary: m st)
  case (Cons a as)
  obtain k v where [simp]: "a = (k, v)" by fastforce
  show ?case
  proof (cases "map_of (attribute_fields fm) k")
    case None
    with Cons show ?thesis by simp
  next
    case (Some f)
    with Cons.prems obtain m2 st2 where b: "populate_basic_field env d f (Some v) node m st = (m2, st2)"
      "populate_attributes env d fm as node m2 st2 = (m1, st1)" by (auto split: prod.splits)
    have "f \<in> set (de_fields d)" using attribute_field_known [OF Some] assms(2) by blast
    from Cons.IH [OF basic_fits [OF assms(1) this Cons.prems(1) b(1)] b(2)] show ?thesis .
  qed
qed simp

lemma open_child_fits:
  assumes o: "open_child env d f e m st = (c, st1)" and m: "fits env d (present m)" and d: "sane_desc d" "f \<in> set (de_fields d)"
  shows "typed_msg env (fd_message f) (present c)"
proof -
  have empty: "typed_msg env (fd_message f) []" by (simp add: typed_msg_def fits_def ascending_def exclusive_def)
  show ?thesis
  proof (cases "\<exists>w. map_of (present m) (fd_number f) = Some (VMsg w) \<and> \<not> fd_repeated f")
    case True
    then obtain w where w: "map_of (present m) (fd_number f) = Some (VMsg w)" "\<not> fd_repeated f" by blast
    have "find_number (fd_number f) d = Some f" using find_number_field d by (simp add: sane_desc_def)
    with m map_of_SomeD [OF w(1)] have "typed_entry env f (VMsg w)" unfolding fits_def typed_fields_iff by fastforce
    with w(2) have "typed_msg env (fd_message f) w" by (simp add: typed_entry_def typed_msg_def fits_def)
    with o w show ?thesis by (auto simp: open_child_def present_def)
  next
    case False
    with o empty show ?thesis by (auto simp: open_child_def present_def split: if_splits option.splits field_value.splits)
  qed
qed

lemma close_child_fits:
  assumes c: "typed_msg env (fd_message f) (present c)" and m: "fits env d (present m)" and d: "sane_desc d" "f \<in> set (de_fields d)"
    and f: "fd_kind f = TYPE_MESSAGE" "\<not> is_proto_time (fd_options f)"
  shows "fits env d (present (close_child d f c m))"
proof (cases c)
  case (Some w)
  with c f have "typed_value env f (VMsg w)" by (simp add: typed_msg_def fits_def present_def)
  then show ?thesis using set_field_fits [OF d _ m] append_field_fits [OF d _ m] Some by (simp add: close_child_def)
qed (simp add: close_child_def m)

lemma own_fits:
  assumes "sane_pool env" "known_type env (cv_cache st) n" "typed_msg env n (present m)"
    "populate_own env node n e m st = Inr (fm, m1, st1)"
  shows "typed_msg env n (present m1)"
proof -
  have c: "populate_cache env n (cv_cache st) = Inr (cv_cache st)" "st\<lparr>cv_cache := cv_cache st\<rparr> = st"
    using assms(2) by (simp_all add: known_type_def populate_cache_complete)
  obtain m0 st0 where t: "populate_text env (desc_of (xe_pool env) n) (fields_map st n) (etext e) node m st = (m0, st0)" by fastforce
  with assms(4) have a: "populate_attributes env (desc_of (xe_pool env) n) (fields_map st n) (attrs e) node m0 st0 = (m1, st1)"
    by (auto simp: populate_own_def c Let_def)
  note d = sane_desc_of [OF assms(1), of n] and k = fields_map_known [OF assms(2)]
  show ?thesis using attributes_fits [OF d k text_fits [OF d k _ t] a] assms(3) by (simp add: typed_msg_def)
qed

lemma populate_fits:
  assumes "sane_pool env"
  shows
  "known_type env (cv_cache st) n \<Longrightarrow> typed_msg env n (present m)
    \<Longrightarrow> populate_message env s node n e m st = Inr (m1, st1) \<Longrightarrow> typed_msg env n (present m1)"
  "sane_desc d \<Longrightarrow> map_fields fm \<subseteq> set (de_fields d) \<Longrightarrow> \<forall>f \<in> map_fields fm. known_field env (cv_cache st) f \<Longrightarrow> fits env d (present m)
    \<Longrightarrow> populate_children env s node d fm es m st = Inr (m1, st1) \<Longrightarrow> fits env d (present m1)"
  "sane_desc d \<Longrightarrow> map_fields fm \<subseteq> set (de_fields d) \<Longrightarrow> \<forall>f \<in> map_fields fm. known_field env (cv_cache st) f \<Longrightarrow> fits env d (present m)
    \<Longrightarrow> populate_element env s node d fm e m st = Inr (m1, st1) \<Longrightarrow> fits env d (present m1)"
  "sane_desc d \<Longrightarrow> f \<in> set (de_fields d) \<Longrightarrow> known_type env (cv_cache st) (fd_message f) \<Longrightarrow> fits env d (present m)
    \<Longrightarrow> fd_kind f = TYPE_MESSAGE \<Longrightarrow> \<not> is_proto_time (fd_options f)
    \<Longrightarrow> populate_child env s node d f e m st = Inr (m1, st1) \<Longrightarrow> fits env d (present m1)"
  "sane_desc d \<Longrightarrow> f \<in> set (de_fields d) \<Longrightarrow> known_type env (cv_cache st) (fd_message f) \<Longrightarrow> fits env d (present m)
    \<Longrightarrow> fd_kind f = TYPE_MESSAGE \<Longrightarrow> \<not> is_proto_time (fd_options f)
    \<Longrightarrow> populate_singly_nested env s node d f es m st = Inr (m1, st1) \<Longrightarrow> fits env d (present m1)"
  using assms
proof (induction env s node n e m st and env s node d fm es m st and env s node d fm e m st and env s node d f e m st
    and env s node d f es m st arbitrary: m1 st1 and m1 st1 and m1 st1 and m1 st1 and m1 st1
    rule: populate_message_populate_children_populate_element_populate_child_populate_singly_nested.induct)
  case (1 env s node n e m st)
  from own_reads [OF "1.prems"(1)] obtain m2 st2 where
    o: "populate_own env node n e m st = Inr (fields_map st n, m2, st2)" "reads env st st2" by blast
  with "1.prems"(3) have p: "populate_children env s node (desc_of (xe_pool env) n) (fields_map st n) (kids e) m2 st2 = Inr (m1, st1)"
    by (simp add: populate_message.simps)
  have k: "\<forall>f \<in> map_fields (fields_map st n). known_field env (cv_cache st2) f"
    using fields_map_known [OF "1.prems"(1)] known_field_of_type [OF "1.prems"(1)] o(2) by (auto simp: reads_def)
  have "typed_msg env n (present m2)" by (rule own_fits [OF "1.prems"(4,1,2) o(1)])
  with "1.IH" [OF sane_desc_of [OF "1.prems"(4)] fields_map_known [OF "1.prems"(1)] k _ p "1.prems"(4)]
  show ?case by (simp add: typed_msg_def)
next
  case (3 env s node d fm child es m st)
  from "3.prems"(5) obtain m2 st2 where p: "populate_element env s node d fm child m st = Inr (m2, st2)"
    "populate_children env s node d fm es m2 st2 = Inr (m1, st1)" by (auto simp: res_simps)
  have "reads env st st2" using populate_reads(3) [OF "3.prems"(3), of s node d child m] p(1) by auto
  with "3.prems"(3) have k: "\<forall>f \<in> map_fields fm. known_field env (cv_cache st2) f" by (simp add: reads_def)
  from "3.IH"(2) [OF "3.prems"(1,2) k "3.IH"(1) [OF "3.prems"(1-4) p(1) "3.prems"(6)] p(2) "3.prems"(6)] show ?case .
next
  case (4 env s node d fm child m st)
  show ?case
  proof (cases "child_kind fm child")
    case (Basic f t)
    with "4.prems"(5) have "populate_basic_field env d f t node m st = (m1, st1)" by (simp add: populate_element.simps)
    from basic_fits [OF "4.prems"(1) _ "4.prems"(4) this] child_kind_known(1) [OF Basic] "4.prems"(2) show ?thesis by blast
  next
    case (Nested f)
    then have f: "f \<in> map_fields fm" "fd_kind f = TYPE_MESSAGE" "xml_singly_nested (fd_options f) \<noteq> []"
      using child_kind_known(2) [OF Nested] by (auto simp: child_kind_def split: option.splits if_splits)
    then have g: "f \<in> set (de_fields d)" "known_type env (cv_cache st) (fd_message f)" "\<not> is_proto_time (fd_options f)"
      using "4.prems"(2,3) sane_desc_field [OF "4.prems"(1)] by (auto simp: known_field_def sane_field_def)
    from "4.prems"(5) Nested have "populate_singly_nested env s node d f (kids child) m st = Inr (m1, st1)"
      by (simp add: populate_element.simps)
    from "4.IH"(1) [OF Nested "4.prems"(1) g(1,2) "4.prems"(4) f(2) g(3) this "4.prems"(6)] show ?thesis .
  next
    case (SubMessage f)
    then have f: "f \<in> set (de_fields d)" "known_type env (cv_cache st) (fd_message f)" "fd_kind f = TYPE_MESSAGE" "\<not> is_proto_time (fd_options f)"
      using child_kind_known(3) [OF SubMessage] "4.prems"(2,3) by (auto simp: known_field_def)
    from "4.prems"(5) SubMessage have "populate_child env s node d f child m st = Inr (m1, st1)" by (simp add: populate_element.simps)
    from "4.IH"(2) [OF SubMessage "4.prems"(1) f(1,2) "4.prems"(4) f(3,4) this "4.prems"(6)] show ?thesis .
  next
    case Unknown
    with "4.prems"(4,5) show ?thesis by (simp add: populate_element.simps)
  next
    case Blank
    with "4.prems"(4,5) show ?thesis by (simp add: populate_element.simps)
  qed
next
  case (5 env s node d f child m st)
  obtain c st2 where c: "open_child env d f child m st = (c, st2)" by fastforce
  with "5.prems"(7) obtain c1 st3 where p: "populate_message env s node (fd_message f) child c st2 = Inr (c1, st3)"
    "m1 = close_child d f c1 m" by (auto simp: populate_child.simps res_simps)
  have k: "known_type env (cv_cache st2) (fd_message f)" using open_child_reads [OF c] "5.prems"(3) by (simp add: reads_def)
  from "5.IH" [OF c [symmetric] k open_child_fits [OF c "5.prems"(4,1,2)] p(1) "5.prems"(8)]
  show ?case unfolding p(2) by (rule close_child_fits [OF _ "5.prems"(4,1,2,5,6)])
next
  case (7 env s node d f child es m st)
  show ?case
  proof (cases "tag child = Some (xml_singly_nested (fd_options f))")
    case True
    with "7.prems"(7) obtain m2 st2 where p: "populate_child env s node d f child m st = Inr (m2, st2)"
      "populate_singly_nested env s node d f es m2 st2 = Inr (m1, st1)" by (auto simp: res_simps)
    have "reads env st st2" using populate_reads(4) [OF "7.prems"(3), of s node d child m] p(1) by auto
    with "7.prems"(3) have k: "known_type env (cv_cache st2) (fd_message f)" by (simp add: reads_def)
    have "fits env d (present m2)" using "7.IH"(1) [OF _ "7.prems"(1-6) p(1) "7.prems"(8)] True by simp
    from "7.IH"(2) [OF "7.prems"(1,2) k this "7.prems"(5,6) p(2) "7.prems"(8)] show ?thesis .
  next
    case False
    let ?st = "unexpected_child env f child st"
    from "7.prems"(7) False have p: "populate_singly_nested env s node d f es m ?st = Inr (m1, st1)" by simp
    have "known_type env (cv_cache ?st) (fd_message f)" using "7.prems"(3) by (simp add: unexpected_child_def add_error_def)
    from "7.IH"(2) [OF "7.prems"(1,2) this "7.prems"(4-6) p "7.prems"(8)] show ?thesis .
  qed
qed simp_all

lemma first_fits:
  assumes "sane_pool env" "known_type env (cv_cache st) n"
  shows "populate_first env s node (desc_of (xe_pool env) n) fs e (Some []) st = Inr (m1, st1)
    \<Longrightarrow> set fs \<subseteq> set (de_fields (desc_of (xe_pool env) n)) \<Longrightarrow> list_all (\<lambda>f. fd_kind f = TYPE_MESSAGE \<longrightarrow> \<not> is_proto_time (fd_options f)) fs
    \<Longrightarrow> typed_msg env n (present m1)"
proof (induction fs)
  case Nil
  then show ?case by (auto simp: typed_msg_def fits_def ascending_def exclusive_def present_def)
next
  case (Cons f fs)
  let ?d = "desc_of (xe_pool env) n"
  show ?case
  proof (cases "fd_kind f = TYPE_MESSAGE \<and> \<not> fd_repeated f \<and> tag e = Some (get_message_xml_name (desc_of (xe_pool env) (fd_message f)))")
    case True
    with Cons.prems(1) obtain c st2 where p: "populate_message env s node (fd_message f) e None st = Inr (c, st2)" "m1 = close_child ?d f c (Some [])"
      by (auto simp: res_simps present_def)
    have f: "f \<in> set (de_fields ?d)" using Cons.prems(2) by simp
    have "known_type env (cv_cache st) (fd_message f)" using known_field_of_type [OF assms(2) f] True by (simp add: known_field_def)
    moreover have empty: "typed_msg env k (present None)" "fits env ?d (present (Some []))" for k
      by (simp_all add: typed_msg_def fits_def ascending_def exclusive_def present_def)
    ultimately have "typed_msg env (fd_message f) (present c)" using populate_fits(1) [OF assms(1) _ _ p(1)] by blast
    from close_child_fits [OF this empty(2) sane_desc_of [OF assms(1)] f] True Cons.prems(3) show ?thesis
      by (simp add: typed_msg_def p(2))
  next
    case False
    with Cons.prems(1) have "populate_first env s node ?d fs e (Some []) st = Inr (m1, st1)" by simp
    with Cons.IH Cons.prems(2,3) show ?thesis by simp
  qed
qed

text \<open>The choices of a converter with a nested field are messages, not times.\<close>

definition choices_ok :: "xml_env \<Rightarrow> converter \<Rightarrow> bool" where
  "choices_ok env cv \<longleftrightarrow> (nested_field cv \<longrightarrow> list_all (\<lambda>f. fd_kind f = TYPE_MESSAGE \<longrightarrow> \<not> is_proto_time (fd_options f))
     (de_fields (desc_of (xe_pool env) (message_class cv))))"

text \<open>C5. What is read fits its descriptor. Whatever the element holds, every field of the message that
  reading gives has a value of the field's type, integers are within the width of their type, at most one
  member of a oneof is present, a repeated field is present only with elements, and so on in every message
  below. Hence the message can be serialised, also when errors were reported.\<close>

theorem read_message_fits:
  assumes "new_converter env n nested = Inr cv" "sane_pool env" "choices_ok env cv" "from_elem env cv elem g node = Inr (m, st)"
  shows "typed_msg env n m"
proof -
  let ?st = "\<lparr>cv_cache = descriptor_cache cv, cv_errors = [], cv_gen = g\<rparr>" and ?d = "desc_of (xe_pool env) n"
  from new_converter_known [OF assms(1)] have k: "known_type env (cv_cache ?st) n" "message_class cv = n" by simp_all
  have e: "typed_msg env n (present (Some []))" by (simp add: typed_msg_def fits_def ascending_def exclusive_def present_def)
  from assms(4) obtain m1 where m1: "(if nested_field cv then populate_first env (de_is_sapient ?d) node ?d (de_fields ?d) elem (Some []) ?st
      else populate_message env (de_is_sapient ?d) node n elem (Some []) ?st) = Inr (m1, st)" "m = present m1"
    unfolding from_elem_def Let_def k(2) populate_message_field_def bindE_Inr_iff by auto
  show ?thesis
  proof (cases "nested_field cv")
    case True
    with m1 first_fits [OF assms(2) k(1), of _ node "de_fields ?d" elem m1 st] assms(3) k(2) show ?thesis
      by (simp add: choices_ok_def)
  next
    case False
    with m1 populate_fits(1) [OF assms(2) k(1) e] show ?thesis by simp
  qed
qed

section \<open>The excerpt\<close>

definition excerpt_env :: xml_env where
  "excerpt_env = \<lparr>xe_pool = excerpt, xe_float = (\<lambda>x. ''0.0''), xe_single = (\<lambda>x. x), xe_type_error = (\<lambda>f. []), xe_comment = [],
     xe_ulid = (\<lambda>g. ''01H'')\<rparr>"

lemma sane_excerpt: "sane_pool excerpt_env"
  by code_simp

lemma excerpt_converter:
  "\<exists>cv. new_converter excerpt_env ''StatusReport'' nested = Inr cv \<and> nested_field cv = nested"
  using excerpt_cache by (auto simp: new_converter_def populate_cache_def excerpt_env_def converter_cache_def)

lemma reading_never_raises_witness:
  "\<exists>cv m st. new_converter excerpt_env ''StatusReport'' False = Inr cv
    \<and> from_elem excerpt_env cv (set_attr ''level'' ''x'' (new_element ''Task'')) (new_generator [] True 1) None = Inr (m, st)
    \<and> cv_cache st = descriptor_cache cv"
  using excerpt_converter [of False] reading_never_raises by metis

lemma read_message_fits_witness:
  "\<exists>cv m st. new_converter excerpt_env ''StatusReport'' False = Inr cv
    \<and> from_elem excerpt_env cv (text_element ''StatusReport'' (Some ''x'')) (new_generator [] True 1) None = Inr (m, st)
    \<and> typed_msg excerpt_env ''StatusReport'' m"
proof -
  obtain cv where cv: "new_converter excerpt_env ''StatusReport'' False = Inr cv" "\<not> nested_field cv" using excerpt_converter [of False] by blast
  let ?st = "\<lparr>cv_cache = descriptor_cache cv, cv_errors = [], cv_gen = new_generator [] True 1\<rparr>"
    and ?e = "text_element ''StatusReport'' (Some ''x'')" and ?s = "de_is_sapient (desc_of (xe_pool excerpt_env) ''StatusReport'')"
  from new_converter_known [OF cv(1)] have k: "known_type excerpt_env (cv_cache ?st) ''StatusReport''" "message_class cv = ''StatusReport''" by simp_all
  from populate_reads(1) [OF k(1), of ?s None ?e "Some []"] obtain m1 st where
    "populate_message excerpt_env ?s None ''StatusReport'' ?e (Some []) ?st = Inr (m1, st)" by blast
  with cv(2) k(2) have "from_elem excerpt_env cv ?e (new_generator [] True 1) None = Inr (present m1, st)" by (simp add: from_elem_def Let_def)
  with read_message_fits [OF cv(1) sane_excerpt] cv show ?thesis by (auto simp: choices_ok_def)
qed

end
