(* ===== verification/ApexXmlRound.thy ===== *)
theory ApexXmlRound
  imports ApexXmlRead
begin

text \<open>
  The round trip of a message through XML: what \<open>to_xml.py\<close> writes, \<open>from_xml_impl.py\<close> reads back.

  The proof goes through a relation between messages and elements, \<open>shows\<close>: writing establishes it,
  indentation keeps it, and reading an element that shows a message gives that message.
\<close>

section \<open>Texts of values\<close>

text \<open>A way of writing values as text with the reading that belongs to it.\<close>

locale text_codec =
  fixes show_text :: "'a \<Rightarrow> string" and read_text :: "string \<Rightarrow> 'a res" and domain :: "'a \<Rightarrow> bool"
  assumes read_show: "domain x \<Longrightarrow> read_text (show_text x) = Inr x"
begin

lemma show_inj: "domain x \<Longrightarrow> domain y \<Longrightarrow> show_text x = show_text y \<Longrightarrow> x = y"
  by (metis read_show sum.inject(2))

end

interpretation int_codec: text_codec show_int int_of_text "\<lambda>_. True"
  by unfold_locales (simp add: int_of_text_def parse_show_int)

interpretation bytes_codec: text_codec b64encode b64decode "\<lambda>_. True"
  by unfold_locales (rule b64_round_trip)

interpretation time_codec: text_codec "\<lambda>t. datetime_to_str (Some t) False" str_to_datetime in_datetime_range
  by unfold_locales (use timestamp_round_trip in blast)

section \<open>Looking fields up\<close>

text \<open>How a field is found again under its XML name.\<close>

definition found_in :: "message_fields_map \<Rightarrow> field_descriptor \<Rightarrow> bool" where
  "found_in m f \<longleftrightarrow>
     (if xml_is_parent_value (fd_options f) then text_field m = Some f \<and> fd_kind f \<noteq> TYPE_MESSAGE
      else if xml_is_attribute (fd_options f)
      then map_of (attribute_fields m) (get_field_xml_name f) = Some f \<and> (fd_kind f = TYPE_MESSAGE \<longrightarrow> is_proto_time (fd_options f))
      else map_of (element_fields m) (get_field_xml_name f) = Some f)"

lemma add_field_found: "add_field dn f m = Inr m1 \<Longrightarrow> found_in m1 f"
  by (auto simp: add_field_def found_in_def Let_def update_conv' split: if_splits)

lemma add_field_keeps: "add_field dn f m = Inr m1 \<Longrightarrow> found_in m h \<Longrightarrow> found_in m1 h"
  by (auto simp: add_field_def found_in_def Let_def update_conv' split: if_splits)

lemma add_fields_found: "add_fields dn fs m = Inr m1 \<Longrightarrow> (f \<in> set fs \<longrightarrow> found_in m1 f) \<and> (found_in m f \<longrightarrow> found_in m1 f)"
proof (induction fs arbitrary: m)
  case (Cons h fs)
  then obtain m0 where m0: "add_field dn h m = Inr m0" "add_fields dn fs m0 = Inr m1" by (auto simp: res_simps)
  from Cons.IH [OF m0(2)] add_field_found [OF m0(1)] add_field_keeps [OF m0(1)] show ?case by auto
qed simp

lemma field_found:
  assumes "known_type env c n" "f \<in> set (de_fields (desc_of (xe_pool env) n))"
  shows "found_in (fields_map \<lparr>cv_cache = c, cv_errors = es, cv_gen = g\<rparr> n) f"
proof -
  from assms(1) obtain fm where "map_of (message_fields_map_cache c) n = Some fm"
    "get_message_fields_map (desc_of (xe_pool env) n) = Inr fm" unfolding known_type_def complete_def entry_ok_def by blast
  then show ?thesis using add_fields_found assms(2) by (simp add: fields_map_def get_message_fields_map_def)
qed

section \<open>Parts of a message\<close>

definition restrict :: "msg \<Rightarrow> nat set \<Rightarrow> msg" where
  "restrict m S = filter (\<lambda>e. fst e \<in> S) m"

text \<open>A message under construction, which is absent as long as it is empty if it began so.\<close>

definition as_opt :: "bool \<Rightarrow> msg \<Rightarrow> msg option" where
  "as_opt b m = (if b \<and> m = [] then None else Some m)"

lemma present_as_opt [simp]: "present (as_opt b m) = m"
  by (simp add: as_opt_def present_def)

lemma restrict_empty [simp]: "restrict m {} = []"
  by (simp add: restrict_def)

lemma restrict_all: "fst ` set m \<subseteq> S \<Longrightarrow> restrict m S = m"
  by (simp add: restrict_def filter_id_conv image_subset_iff)

lemma ascending_distinct: "ascending m \<Longrightarrow> distinct (map fst m)"
  by (simp add: ascending_def strict_sorted_iff)

lemma ascending_Cons: "ascending (e # m) \<longleftrightarrow> (\<forall>x \<in> set m. fst e < fst x) \<and> ascending m"
  by (simp add: ascending_def)

lemma put_restrict:
  "ascending m \<Longrightarrow> (n, v) \<in> set m \<Longrightarrow> put n v (restrict m S) = restrict m (insert n S)"
proof (induction m)
  case (Cons e m)
  obtain k w where e: "e = (k, w)" by fastforce
  have gt: "\<forall>x \<in> set m. k < fst x" "ascending m" using Cons.prems(1) by (auto simp: ascending_Cons e)
  show ?case
  proof (cases "n = k")
    case True
    then have "v = w" using Cons.prems gt(1) by (force simp: e)
    have "restrict m S = restrict m (insert k S)" using gt(1) by (auto simp: restrict_def intro!: filter_cong)
    moreover have "put k w (restrict m S) = (k, w) # restrict m S"
    proof -
      have "\<forall>x \<in> set (restrict m S). k < fst x" using gt(1) by (simp add: restrict_def)
      then show ?thesis by (cases "restrict m S") auto
    qed
    ultimately show ?thesis using True \<open>v = w\<close> by (simp add: e restrict_def)
  next
    case False
    then have "(n, v) \<in> set m" using Cons.prems(2) by (simp add: e)
    with gt(1) have "k < n" by force
    with Cons.IH [OF gt(2) \<open>(n, v) \<in> set m\<close>] False show ?thesis by (simp add: e restrict_def)
  qed
qed simp

lemma put_twice: "put n v (put n w m) = put n v m"
  by (induction n w m rule: put.induct) auto

lemma map_of_put [simp]: "map_of (put n v m) k = (if k = n then Some v else map_of m k)"
  by (induction n v m rule: put.induct) auto

lemma map_of_restrict: "map_of (restrict m S) n = (if n \<in> S then map_of m n else None)"
  by (induction m) (auto simp: restrict_def)

lemma clear_oneof_restrict:
  assumes "exclusive d m" "f \<in> set (de_fields d)" "fd_number f \<in> fst ` set m" "fd_number f \<notin> S"
  shows "clear_oneof d f (restrict m S) = restrict m S"
proof (cases "fd_oneof f")
  case (Some x)
  have "\<not> list_ex (\<lambda>h. fd_number h = fst e \<and> fd_oneof h = fd_oneof f) (de_fields d)" if "e \<in> set (restrict m S)" for e
  proof
    assume "list_ex (\<lambda>h. fd_number h = fst e \<and> fd_oneof h = fd_oneof f) (de_fields d)"
    then obtain h where h: "h \<in> set (de_fields d)" "fd_number h = fst e" "fd_oneof h = fd_oneof f" by (auto simp: list_ex_iff)
    from that have "fst e \<in> fst ` set m" "fst e \<in> S" by (auto simp: restrict_def)
    with h assms(1-3) Some have "fd_number h = fd_number f" unfolding exclusive_def by (metis option.distinct(1))
    with h(2) \<open>fst e \<in> S\<close> assms(4) show False by simp
  qed
  then show ?thesis by (simp add: clear_oneof_def Some split_beta filter_id_conv)
qed (simp add: clear_oneof_def)

text \<open>Storing the values of a field one after the other.\<close>

definition store_all :: "descriptor \<Rightarrow> field_descriptor \<Rightarrow> field_value list \<Rightarrow> msg option \<Rightarrow> msg option" where
  "store_all d f vs m = fold (\<lambda>v m. if fd_repeated f then append_field f v m else set_field d f v m) vs m"

definition values_of :: "field_descriptor \<Rightarrow> field_value \<Rightarrow> field_value list" where
  "values_of f v = (if fd_repeated f then (case v of VList vs \<Rightarrow> vs | _ \<Rightarrow> []) else [v])"

definition elements_at :: "nat \<Rightarrow> msg \<Rightarrow> field_value list" where
  "elements_at n m = (case map_of m n of Some (VList ws) \<Rightarrow> ws | _ \<Rightarrow> [])"

lemma elements_at_put [simp]: "elements_at n (put n (VList ws) m) = ws"
  by (simp add: elements_at_def)

lemma append_all:
  assumes "fd_repeated f"
  shows "vs \<noteq> [] \<Longrightarrow> store_all d f vs (Some m) = Some (put (fd_number f) (VList (elements_at (fd_number f) m @ vs)) m)"
proof (induction vs arbitrary: m)
  case (Cons v vs)
  have step: "store_all d f (v # vs) (Some m)
    = store_all d f vs (Some (put (fd_number f) (VList (elements_at (fd_number f) m @ [v])) m))"
    by (simp add: store_all_def assms append_field_def present_def elements_at_def)
  show ?case
  proof (cases "vs = []")
    case True
    then show ?thesis unfolding step by (simp add: store_all_def)
  next
    case False
    then show ?thesis unfolding step Cons.IH [OF False] by (simp add: put_twice)
  qed
qed simp

lemma store_all_restrict:
  assumes m: "ascending m" "exclusive d m" "(fd_number f, v) \<in> set m" and f: "f \<in> set (de_fields d)" and S: "fd_number f \<notin> S"
    and v: "if fd_repeated f then \<exists>vs. v = VList vs \<and> vs \<noteq> [] else fd_presence f \<or> \<not> is_default v"
  shows "store_all d f (values_of f v) (as_opt b (restrict m S)) = as_opt b (restrict m (insert (fd_number f) S))"
proof -
  have ne: "restrict m (insert (fd_number f) S) \<noteq> []" using m(3) by (force simp: restrict_def filter_empty_conv)
  have none: "map_of (restrict m S) (fd_number f) = None" using S by (simp add: map_of_restrict)
  note p = put_restrict [OF m(1,3), of S]
  show ?thesis
  proof (cases "fd_repeated f")
    case True
    with v obtain x xs where vs: "v = VList (x # xs)" by (auto simp: neq_Nil_conv)
    have "store_all d f (x # xs) (as_opt b (restrict m S)) = store_all d f (x # xs) (Some (restrict m S))"
      by (simp add: store_all_def True append_field_def present_def [of "Some _"])
    also have "\<dots> = Some (put (fd_number f) v (restrict m S))"
      using append_all [OF True, of "x # xs"] by (simp add: none vs elements_at_def)
    finally have "store_all d f (x # xs) (as_opt b (restrict m S)) = Some (restrict m (insert (fd_number f) S))" by (simp only: p)
    with ne True show ?thesis by (simp add: values_of_def vs) (simp add: as_opt_def)
  next
    case False
    have "fd_number f \<in> fst ` set m" using m(3) by force
    from clear_oneof_restrict [OF m(2) f this S] False v
    have "store_all d f (values_of f v) (as_opt b (restrict m S)) = Some (restrict m (insert (fd_number f) S))"
      by (auto simp: values_of_def store_all_def set_field_def p)
    with ne show ?thesis by (simp add: as_opt_def)
  qed
qed

section \<open>What can be carried\<close>

text \<open>The integer of a ULID leads back to it: in its dictionary all values are of one kind and no two have
  the same number.\<close>

definition consistent_ids :: "ids \<Rightarrow> bool" where
  "consistent_ids m \<longleftrightarrow> (list_all (\<lambda>e. is_Id (snd e)) m \<or> list_all (\<lambda>e. \<not> is_Id (snd e)) m)
     \<and> distinct (map fst m) \<and> distinct (map (id_number \<circ> snd) m)"

definition known_ulid :: "id_generator \<Rightarrow> string \<Rightarrow> field_descriptor \<Rightarrow> string \<Rightarrow> bool" where
  "known_ulid g node f u \<longleftrightarrow> (case map_for (fd_field f) (Some node) g of
      Inr (IdMap r) \<Rightarrow> consistent_ids (get_map r g) \<and> map_of (get_map r g) u \<noteq> None | _ \<Rightarrow> False)"

text \<open>The text that a value is written as, and whether it survives the stripping of element texts.\<close>

definition leaf_text :: "xml_env \<Rightarrow> id_generator \<Rightarrow> string \<Rightarrow> field_descriptor \<Rightarrow> field_value \<Rightarrow> string" where
  "leaf_text env g node f v = (case fst (value_text env f v node (Some g)) of Inr s \<Rightarrow> s | Inl e \<Rightarrow> [])"

definition clean :: "string \<Rightarrow> bool" where
  "clean s \<longleftrightarrow> s \<noteq> [] \<and> strip s = s"

definition attribute_only :: "field_descriptor \<Rightarrow> bool" where
  "attribute_only f \<longleftrightarrow> xml_is_attribute (fd_options f) \<and> \<not> xml_is_parent_value (fd_options f)"

definition own_part :: "field_descriptor \<Rightarrow> bool" where
  "own_part f \<longleftrightarrow> xml_is_attribute (fd_options f) \<or> xml_is_parent_value (fd_options f)"

text \<open>Single values: the number is in the range of its type or of times, the float has a text that reads as
  the float, the enum number has a name.\<close>

fun writable :: "xml_env \<Rightarrow> id_generator \<Rightarrow> string \<Rightarrow> field_descriptor \<Rightarrow> field_value \<Rightarrow> bool" where
  "writable env g node f (VBool b) = (fd_kind f = TYPE_BOOL)"
| "writable env g node f (VInt i) = (fd_kind f \<in> set FIELD_INT_TYPES \<and> in_int_range (fd_kind f) i \<and> (is_time (fd_options f) \<longrightarrow> in_datetime_range i))"
| "writable env g node f (VFloat x) = ((fd_kind f = TYPE_FLOAT \<and> xe_single env x = x \<or> fd_kind f = TYPE_DOUBLE) \<and> parse_float (xe_float env x) = Some x)"
| "writable env g node f (VEnum i) = (fd_kind f = TYPE_ENUM \<and> in_int_range TYPE_ENUM i
     \<and> (case fd_enum f of None \<Rightarrow> False | Some en \<Rightarrow> list_ex (\<lambda>v. ev_number v = i) (en_values en)))"
| "writable env g node f (VStr s) = (fd_kind f = TYPE_STRING \<and> (is_ulid (fd_options f) \<longrightarrow> known_ulid g node f s))"
| "writable env g node f (VBytes b) = (fd_kind f = TYPE_BYTES)"
| "writable env g node f (VTime t) = (fd_kind f = TYPE_MESSAGE \<and> is_proto_time (fd_options f) \<and> in_datetime_range t)"
| "writable env g node f _ = False"

text \<open>Messages: a nested one is not empty (an empty element is read as nothing), a repeated field is not an
  attribute (only its last value would be written), nothing is left out for the level of detail.\<close>

function (sequential) carried_value :: "xml_env \<Rightarrow> which_fields \<Rightarrow> id_generator \<Rightarrow> string \<Rightarrow> field_descriptor \<Rightarrow> field_value \<Rightarrow> bool"
and carried_list :: "xml_env \<Rightarrow> which_fields \<Rightarrow> id_generator \<Rightarrow> string \<Rightarrow> field_descriptor \<Rightarrow> field_value list \<Rightarrow> bool"
and carried_fields :: "xml_env \<Rightarrow> which_fields \<Rightarrow> id_generator \<Rightarrow> string \<Rightarrow> descriptor \<Rightarrow> msg \<Rightarrow> bool"
where
  "carried_value env w g node f (VMsg m) = (fd_kind f = TYPE_MESSAGE \<and> \<not> is_proto_time (fd_options f) \<and> \<not> own_part f
     \<and> (fd_repeated f \<or> m \<noteq> []) \<and> ascending m \<and> exclusive (desc_of (xe_pool env) (fd_message f)) m
     \<and> carried_fields env w g node (desc_of (xe_pool env) (fd_message f)) m)"
| "carried_value env w g node f (VList vs) = False"
| "carried_value env w g node f v = (writable env g node f v \<and> sane_field f \<and> xml_singly_nested (fd_options f) = []
     \<and> (attribute_only f \<or> clean (leaf_text env g node f v)))"
| "carried_list env w g node f [] = True"
| "carried_list env w g node f (v # vs) = (carried_value env w g node f v \<and> carried_list env w g node f vs)"
| "carried_fields env w g node d [] = True"
| "carried_fields env w g node d ((n, v) # m) =
     ((case find_number n d of
         None \<Rightarrow> False
       | Some f \<Rightarrow> \<not> field_ignored w f \<and>
           (if fd_repeated f then \<not> own_part f \<and> (case v of VList vs \<Rightarrow> vs \<noteq> [] \<and> carried_list env w g node f vs | _ \<Rightarrow> False)
            else carried_value env w g node f v \<and> (fd_presence f \<or> \<not> is_default v)))
      \<and> carried_fields env w g node d m)"
  by pat_completeness auto
termination
  by (relation "measure (\<lambda>x. case x of
        Inl (env, w, g, node, f, v) \<Rightarrow> Suc (2 * size v)
      | Inr (Inl (env, w, g, node, f, vs)) \<Rightarrow> 2 * size (VList vs)
      | Inr (Inr (env, w, g, node, d, m)) \<Rightarrow> 2 * size (VMsg m))") auto

definition carried_msg :: "xml_env \<Rightarrow> which_fields \<Rightarrow> id_generator \<Rightarrow> string \<Rightarrow> string \<Rightarrow> msg \<Rightarrow> bool" where
  "carried_msg env w g node n m \<longleftrightarrow> ascending m \<and> exclusive (desc_of (xe_pool env) n) m
     \<and> carried_fields env w g node (desc_of (xe_pool env) n) m"

definition carried_entry :: "xml_env \<Rightarrow> which_fields \<Rightarrow> id_generator \<Rightarrow> string \<Rightarrow> field_descriptor \<Rightarrow> field_value \<Rightarrow> bool" where
  "carried_entry env w g node f v \<longleftrightarrow> \<not> field_ignored w f \<and> list_all (carried_value env w g node f) (values_of f v)
     \<and> (if fd_repeated f then \<not> own_part f \<and> (\<exists>vs. v = VList vs \<and> vs \<noteq> []) else fd_presence f \<or> \<not> is_default v)"

lemma carried_list_all [simp]: "carried_list env w g node f vs = list_all (carried_value env w g node f) vs"
  by (induction vs) simp_all

lemma carried_fields_iff:
  "carried_fields env w g node d m \<longleftrightarrow> (\<forall>(n, v) \<in> set m. \<exists>f. find_number n d = Some f \<and> carried_entry env w g node f v)"
proof (induction m)
  case (Cons a m)
  obtain n v where a: "a = (n, v)" by fastforce
  have "(if fd_repeated f then \<not> own_part f \<and> (case v of VList vs \<Rightarrow> vs \<noteq> [] \<and> carried_list env w g node f vs | _ \<Rightarrow> False)
      else carried_value env w g node f v \<and> (fd_presence f \<or> \<not> is_default v))
    \<longleftrightarrow> list_all (carried_value env w g node f) (values_of f v)
     \<and> (if fd_repeated f then \<not> own_part f \<and> (\<exists>vs. v = VList vs \<and> vs \<noteq> []) else fd_presence f \<or> \<not> is_default v)" for f
    by (cases v) (auto simp: values_of_def)
  then show ?case by (cases "find_number n d") (simp_all add: a Cons carried_entry_def)
qed simp

section \<open>Single values\<close>

definition enum_names_unique :: "pool \<Rightarrow> bool" where
  "enum_names_unique p \<longleftrightarrow> (\<forall>a \<in> pool_enums p. \<forall>b \<in> pool_enums p. en_full_name a = en_full_name b \<longrightarrow> a = b)"

lemma enum_values_map_spec:
  "enum_values_map en vs m = Inr m1 \<Longrightarrow> (\<forall>v \<in> set vs. map_of m1 (normalise (get_enum_value_xml_name en v)) = Some (ev_number v))
    \<and> (\<forall>k. map_of m k \<noteq> None \<longrightarrow> map_of m1 k = map_of m k)"
proof (induction vs arbitrary: m)
  case (Cons v vs)
  let ?k = "normalise (get_enum_value_xml_name en v)"
  from Cons.prems have n: "map_of m ?k = None" "enum_values_map en vs (AList.update ?k (ev_number v) m) = Inr m1"
    by (auto simp: Let_def split: if_splits)
  from Cons.IH [OF n(2)] n(1) show ?case by (auto simp: update_conv')
qed simp

lemma enum_cached:
  assumes "known_type env c n" "enum_names_unique (xe_pool env)" "f \<in> set (de_fields (desc_of (xe_pool env) n))" "fd_enum f = Some en"
  shows "\<exists>m. map_of (enum_values_cache c) (en_full_name en) = Some m \<and> get_enum_values_map en = Inr m"
proof -
  have "en_full_name en \<in> cached_enums c" using assms(1,3,4) unfolding known_type_def complete_def entry_ok_def by blast
  then obtain m where m: "map_of (enum_values_cache c) (en_full_name en) = Some m" by (auto simp: cached_enums_def)
  moreover obtain en' where "en' \<in> pool_enums (xe_pool env)" "en_full_name en' = en_full_name en" "get_enum_values_map en' = Inr m"
    using assms(1) m unfolding known_type_def complete_def enums_ok_def by blast
  moreover have "en \<in> pool_enums (xe_pool env)" using pool_enums_field [OF assms(3,4)] .
  ultimately show ?thesis using assms(2) unfolding enum_names_unique_def by blast
qed

lemma find_id_back:
  "list_all (\<lambda>e. is_Id (snd e) = ints) m \<Longrightarrow> distinct (map fst m) \<Longrightarrow> distinct (map (id_number \<circ> snd) m) \<Longrightarrow> map_of m u = Some v
    \<Longrightarrow> find_id ints (id_number v) m = Inr (Some u)"
proof (induction m)
  case (Cons e m)
  obtain k x where e: "e = (k, x)" by fastforce
  have x: "id_field ints x = Inr (Some (id_number x))" using Cons.prems(1) by (cases x; cases ints) (simp_all add: e)
  show ?case
  proof (cases "u = k")
    case True
    with Cons.prems(4) x show ?thesis by (simp add: e)
  next
    case False
    with Cons.prems(4) have u: "map_of m u = Some v" by (simp add: e)
    then have "id_number v \<in> set (map (id_number \<circ> snd) m)" by (force dest: map_of_SomeD)
    moreover have "id_number x \<notin> set (map (id_number \<circ> snd) m)" using Cons.prems(3) by (simp add: e)
    ultimately have "id_number x \<noteq> id_number v" by metis
    with Cons.IH [OF _ _ _ u] Cons.prems x show ?thesis by (simp add: e)
  qed
qed simp

lemma ulid_back:
  assumes "known_ulid g node f u"
  shows "\<exists>s. write_ulid f u (Some node) g = (Inr s, g) \<and> read_ulid env f s (Some node) g = (Inr (Some u), g)"
proof -
  obtain r v where r: "map_for (fd_field f) (Some node) g = Inr (IdMap r)" "consistent_ids (get_map r g)" "map_of (get_map r g) u = Some v"
    using assms unfolding known_ulid_def by (auto split: sum.splits registered_map.splits)
  let ?m = "get_map r g"
  obtain k x m' where m: "?m = (k, x) # m'" using r(3) by (cases ?m) auto
  have h: "list_all (\<lambda>e. is_Id (snd e) = is_Id x) ?m" using r(2) by (auto simp: consistent_ids_def m list_all_iff)
  have f: "find_id (is_Id x) (id_number v) ?m = Inr (Some u)"
    using find_id_back [OF h _ _ r(3)] r(2) by (simp add: consistent_ids_def)
  have "write_ulid f u (Some node) g = (Inr (show_int (id_number v)), g)" by (cases v) (simp_all add: write_ulid_def r(1,3))
  moreover have "read_ulid env f (show_int (id_number v)) (Some node) g = (Inr (Some u), g)"
    using f by (simp add: read_ulid_def r(1) Let_def int_codec.read_show m get_ulid_from_id_def)
  ultimately show ?thesis by blast
qed

lemma leaf_reads:
  fixes es :: "string list"
  assumes w: "writable env g node f v" and sane: "sane_field f"
    and en: "\<And>en. fd_enum f = Some en \<Longrightarrow> \<exists>m. map_of (enum_values_cache c) (en_full_name en) = Some m \<and> get_enum_values_map en = Inr m"
  defines "st \<equiv> \<lparr>cv_cache = c, cv_errors = es, cv_gen = g\<rparr>"
  shows "value_text env f v node (Some g) = (Inr (leaf_text env g node f v), Some g)
    \<and> parse_value env f (Some (leaf_text env g node f v)) (Some node) st = (Inr (Some v), st) \<and> check_value env f (Some v) = Inr v"
proof -
  have "\<exists>s. value_text env f v node (Some g) = (Inr s, Some g) \<and> parse_value env f (Some s) (Some node) st = (Inr (Some v), st)
      \<and> check_value env f (Some v) = Inr v"
  proof (cases v)
    case (VBool b)
    have "map lower_char (strip ''true'') = ''true''" "map lower_char (strip ''false'') \<noteq> ''true''" by code_simp+
    with VBool w sane show ?thesis
      by (auto simp: value_text_def plain_text_def parse_value_def check_value_def Let_def sane_field_def)
  next
    case (VInt i)
    then have k: "fd_kind f \<in> set FIELD_INT_TYPES" "in_int_range (fd_kind f) i" using w by simp_all
    then have k': "fd_kind f \<noteq> TYPE_BOOL" "fd_kind f \<noteq> TYPE_FLOAT" "fd_kind f \<noteq> TYPE_DOUBLE" "fd_kind f \<noteq> TYPE_ENUM" "fd_kind f \<noteq> TYPE_BYTES"
      "fd_kind f \<noteq> TYPE_STRING" "fd_kind f \<noteq> TYPE_MESSAGE" by (auto simp: FIELD_INT_TYPES_def)
    then have o: "\<not> is_proto_time (fd_options f)" "\<not> is_ulid (fd_options f)" using sane by (auto simp: sane_field_def)
    show ?thesis
    proof (cases "is_time (fd_options f)")
      case True
      then have "in_datetime_range i" using w VInt by simp
      from timestamp_round_trip [OF this] True k k' o VInt show ?thesis
        by (simp add: value_text_def plain_text_def parse_value_def check_value_def Let_def datetime_int_to_str_def)
    next
      case False
      with k k' o VInt show ?thesis
        by (simp add: value_text_def plain_text_def parse_value_def check_value_def Let_def int_codec.read_show)
    qed
  next
    case (VFloat x)
    then have k: "fd_kind f = TYPE_FLOAT \<and> xe_single env x = x \<or> fd_kind f = TYPE_DOUBLE" "parse_float (xe_float env x) = Some x" using w by simp_all
    then have "\<not> is_proto_time (fd_options f)" "\<not> is_ulid (fd_options f)" "\<not> is_time (fd_options f)" using sane by (auto simp: sane_field_def FIELD_INT_TYPES_def)
    with k VFloat show ?thesis
      by (auto simp: value_text_def plain_text_def parse_value_def check_value_def Let_def float_of_text_def)
  next
    case (VEnum i)
    then obtain e where k: "fd_kind f = TYPE_ENUM" "in_int_range TYPE_ENUM i" "fd_enum f = Some e" "list_ex (\<lambda>v. ev_number v = i) (en_values e)"
      using w by (auto split: option.splits)
    then obtain ev where ev: "List.find (\<lambda>v. ev_number v = i) (en_values e) = Some ev" by (cases "List.find (\<lambda>v. ev_number v = i) (en_values e)") (auto simp: find_None_iff list_ex_iff)
    then have "ev \<in> set (en_values e)" "ev_number ev = i" by (auto simp: find_Some_iff)
    moreover from en [OF k(3)] obtain m where m: "map_of (enum_values_cache c) (en_full_name e) = Some m" "get_enum_values_map e = Inr m" by blast
    ultimately have "map_of m (normalise (get_enum_value_xml_name e ev)) = Some i"
      using enum_values_map_spec [of e "en_values e" "[]" m] by (simp add: get_enum_values_map_def)
    moreover have "\<not> is_proto_time (fd_options f)" "\<not> is_ulid (fd_options f)" "\<not> is_time (fd_options f)"
      using k(1) sane by (auto simp: sane_field_def FIELD_INT_TYPES_def)
    ultimately show ?thesis using k ev m(1) VEnum
      by (simp add: value_text_def plain_text_def parse_value_def check_value_def Let_def enum_text_def read_enum_def FIELD_INT_TYPES_def st_def)
  next
    case (VStr u)
    then have k: "fd_kind f = TYPE_STRING" "is_ulid (fd_options f) \<longrightarrow> known_ulid g node f u" using w by simp_all
    then have o: "\<not> is_proto_time (fd_options f)" "\<not> is_time (fd_options f)" using sane by (auto simp: sane_field_def FIELD_INT_TYPES_def)
    show ?thesis
    proof (cases "is_ulid (fd_options f)")
      case True
      with k(2) ulid_back [of g node f u env] obtain s where "write_ulid f u (Some node) g = (Inr s, g)" "read_ulid env f s (Some node) g = (Inr (Some u), g)" by blast
      with True k(1) o VStr show ?thesis
        by (simp add: value_text_def parse_value_def check_value_def Let_def FIELD_INT_TYPES_def st_def)
    next
      case False
      with k(1) o VStr show ?thesis
        by (simp add: value_text_def plain_text_def parse_value_def check_value_def Let_def FIELD_INT_TYPES_def)
    qed
  next
    case (VBytes b)
    then have "fd_kind f = TYPE_BYTES" using w by simp
    moreover from this have "\<not> is_proto_time (fd_options f)" "\<not> is_ulid (fd_options f)" "\<not> is_time (fd_options f)" using sane by (auto simp: sane_field_def FIELD_INT_TYPES_def)
    ultimately show ?thesis using VBytes
      by (simp add: value_text_def plain_text_def parse_value_def check_value_def Let_def FIELD_INT_TYPES_def bytes_codec.read_show)
  next
    case (VTime t)
    then have "fd_kind f = TYPE_MESSAGE" "is_proto_time (fd_options f)" "in_datetime_range t" using w by simp_all
    moreover from this have "\<not> is_ulid (fd_options f)" using sane by (auto simp: sane_field_def)
    ultimately show ?thesis using VTime time_codec.read_show [of t]
      by (simp add: value_text_def plain_text_def parse_value_def check_value_def Let_def time_text_def time_of_text_def)
  qed (use w in simp_all)
  then show ?thesis by (auto simp: leaf_text_def)
qed

section \<open>Elements that show a message\<close>

text \<open>The text of an element and its attributes come from the fields with those options, its children from
  the others.\<close>

fun text_of :: "xml_env \<Rightarrow> id_generator \<Rightarrow> string \<Rightarrow> descriptor \<Rightarrow> msg \<Rightarrow> string option \<Rightarrow> string option" where
  "text_of env g node d [] x = x"
| "text_of env g node d ((n, v) # m) x = text_of env g node d m
     (case find_number n d of None \<Rightarrow> x
      | Some f \<Rightarrow> if xml_is_parent_value (fd_options f) then Some (leaf_text env g node f v) else x)"

fun attrs_of :: "xml_env \<Rightarrow> id_generator \<Rightarrow> string \<Rightarrow> descriptor \<Rightarrow> msg \<Rightarrow> (string \<times> string) list" where
  "attrs_of env g node d [] = []"
| "attrs_of env g node d ((n, v) # m) =
     (case find_number n d of None \<Rightarrow> []
      | Some f \<Rightarrow> if attribute_only f then [(get_field_xml_name f, leaf_text env g node f v)] else []) @ attrs_of env g node d m"

definition sub_field :: "field_descriptor \<Rightarrow> bool" where
  "sub_field f \<longleftrightarrow> fd_kind f = TYPE_MESSAGE \<and> \<not> is_proto_time (fd_options f)"

inductive shows_msg :: "xml_env \<Rightarrow> id_generator \<Rightarrow> string \<Rightarrow> descriptor \<Rightarrow> msg \<Rightarrow> element \<Rightarrow> bool"
  and shows_fields :: "xml_env \<Rightarrow> id_generator \<Rightarrow> string \<Rightarrow> descriptor \<Rightarrow> msg \<Rightarrow> element list \<Rightarrow> bool"
  and shows_values :: "xml_env \<Rightarrow> id_generator \<Rightarrow> string \<Rightarrow> field_descriptor \<Rightarrow> string \<Rightarrow> field_value list \<Rightarrow> element list \<Rightarrow> bool"
  and shows_value :: "xml_env \<Rightarrow> id_generator \<Rightarrow> string \<Rightarrow> field_descriptor \<Rightarrow> string \<Rightarrow> field_value \<Rightarrow> element \<Rightarrow> bool"
  for env :: xml_env and g :: id_generator and node :: string
where
  msg: "stripped (etext e) = stripped (text_of env g node d m None) \<Longrightarrow> attrs e = attrs_of env g node d m
     \<Longrightarrow> shows_fields env g node d m (kids e) \<Longrightarrow> shows_msg env g node d m e"
| none: "shows_fields env g node d [] []"
| own: "find_number n d = Some f \<Longrightarrow> own_part f \<Longrightarrow> shows_fields env g node d m ks \<Longrightarrow> shows_fields env g node d ((n, v) # m) ks"
| plain: "find_number n d = Some f \<Longrightarrow> \<not> own_part f \<Longrightarrow> xml_singly_nested (fd_options f) = []
     \<Longrightarrow> shows_values env g node f (get_field_xml_name f) (values_of f v) ks1 \<Longrightarrow> shows_fields env g node d m ks
     \<Longrightarrow> shows_fields env g node d ((n, v) # m) (ks1 @ ks)"
| nested: "find_number n d = Some f \<Longrightarrow> \<not> own_part f \<Longrightarrow> xml_singly_nested (fd_options f) \<noteq> [] \<Longrightarrow> tag k = Some (get_field_xml_name f)
     \<Longrightarrow> shows_values env g node f (xml_singly_nested (fd_options f)) (values_of f v) (kids k) \<Longrightarrow> shows_fields env g node d m ks
     \<Longrightarrow> shows_fields env g node d ((n, v) # m) (k # ks)"
| nil: "shows_values env g node f name [] []"
| cons: "shows_value env g node f name v k \<Longrightarrow> shows_values env g node f name vs ks \<Longrightarrow> shows_values env g node f name (v # vs) (k # ks)"
| leaf: "\<not> sub_field f \<Longrightarrow> tag k = Some name \<Longrightarrow> kids k = [] \<Longrightarrow> etext k = Some (leaf_text env g node f v)
     \<Longrightarrow> shows_value env g node f name v k"
| sub: "sub_field f \<Longrightarrow> tag k = Some name \<Longrightarrow> shows_msg env g node (desc_of (xe_pool env) (fd_message f)) m k
     \<Longrightarrow> shows_value env g node f name (VMsg m) k"

section \<open>Indentation keeps what is shown\<close>

text \<open>Elements that differ in blank texts and in tails only; without children the text is the same.\<close>

inductive similar :: "element \<Rightarrow> element \<Rightarrow> bool" where
  "tag e' = tag e \<Longrightarrow> attrs e' = attrs e \<Longrightarrow> stripped (etext e') = stripped (etext e) \<Longrightarrow> (kids e = [] \<longrightarrow> etext e' = etext e)
    \<Longrightarrow> list_all2 similar (kids e) (kids e') \<Longrightarrow> similar e e'"

lemma similar_facts:
  assumes "similar e e'"
  shows "tag e' = tag e" "attrs e' = attrs e" "stripped (etext e') = stripped (etext e)" "kids e = [] \<longrightarrow> etext e' = etext e"
    "list_all2 similar (kids e) (kids e')"
  using assms by (auto elim: similar.cases)

lemma similar_refl: "similar e e"
proof (induction e)
  case (Element g a x t ks)
  then show ?case by (intro similar.intros) (auto intro: list_all2_refl list.rel_refl_strong)
qed

lemma similar_set_tail: "similar e e' \<Longrightarrow> similar e (set_tail t e')"
  by (auto elim!: similar.cases intro!: similar.intros)

lemma stripped_indentation: "blank x \<Longrightarrow> stripped (Some (indentation n)) = stripped x"
  by (auto simp: stripped_def blank_def split: option.splits)

lemma indent_similar: "ks \<noteq> [] \<Longrightarrow> similar (Element g a x t ks) (indent_children n (Element g a x t ks))"
  and indent_kids_similar: "list_all2 similar ks (indent_kids n ks)"
proof (induction n "Element g a x t ks" and n ks arbitrary: g a x t ks and rule: indent_children_indent_kids.induct)
  case (1 n g a x t ks)
  then show ?case by (intro similar.intros) (simp_all add: stripped_indentation)
next
  case (3 n c cs)
  have "similar c (if kids c = [] then c else indent_children (Suc n) c)"
    using 3(1) similar_refl by (cases c) auto
  with 3(2) show ?case by (auto simp: Let_def similar_set_tail)
qed simp

lemma indented: "similar e (indent e)"
proof (cases "kids e = []")
  case True
  then show ?thesis using similar_refl by (simp add: indent_def)
next
  case False
  then show ?thesis using indent_similar [of "kids e" "tag e" "attrs e" "etext e" "tail e" 0] by (simp add: indent_def)
qed

lemma shows_similar:
  "shows_msg env g node d m e \<Longrightarrow> similar e e' \<Longrightarrow> shows_msg env g node d m e'"
  "shows_fields env g node d m ks \<Longrightarrow> list_all2 similar ks ks' \<Longrightarrow> shows_fields env g node d m ks'"
  "shows_values env g node f name vs ks \<Longrightarrow> list_all2 similar ks ks' \<Longrightarrow> shows_values env g node f name vs ks'"
  "shows_value env g node f name v k \<Longrightarrow> similar k k' \<Longrightarrow> shows_value env g node f name v k'"
proof (induction arbitrary: e' and ks' and ks' and k' rule: shows_msg_shows_fields_shows_values_shows_value.inducts)
  case (msg e d m)
  then show ?case using similar_facts [OF msg.prems] by (intro shows_msg_shows_fields_shows_values_shows_value.msg) simp_all
next
  case (plain n d f v ks1 m ks)
  from plain.prems obtain l1 l2 where "ks' = l1 @ l2" "list_all2 similar ks1 l1" "list_all2 similar ks l2"
    by (auto simp: list_all2_append1)
  with plain show ?case by (auto intro: shows_msg_shows_fields_shows_values_shows_value.plain)
next
  case (nested n d f k v m ks)
  from nested.prems obtain k' l where "ks' = k' # l" "similar k k'" "list_all2 similar ks l" by (auto simp: list_all2_Cons1)
  with nested similar_facts [of k k'] show ?case by (auto intro!: shows_msg_shows_fields_shows_values_shows_value.nested)
next
  case (cons f name v k vs ks)
  then show ?case by (auto simp: list_all2_Cons1 intro: shows_msg_shows_fields_shows_values_shows_value.cons)
next
  case (leaf f k name v)
  then show ?case using similar_facts [OF leaf.prems] by (auto intro: shows_msg_shows_fields_shows_values_shows_value.leaf)
next
  case (sub f k name m)
  then show ?case using similar_facts [OF sub.prems] by (auto intro: shows_msg_shows_fields_shows_values_shows_value.sub)
qed (auto intro: shows_msg_shows_fields_shows_values_shows_value.intros)

end
