(* ===== verification/ApexXmlRoundTrip.thy ===== *)
theory ApexXmlRoundTrip
  imports ApexXmlRound
begin

text \<open>
  The two halves of the round trip of \<open>sapient_apex_server/xml_conversion\<close>: what \<open>to_xml.py\<close> writes
  shows the message, and what shows a message is read by \<open>from_xml_impl.py\<close> as that message.
\<close>

section \<open>Writing shows the message\<close>

definition in_known :: "xml_env \<Rightarrow> descriptor_cache \<Rightarrow> field_descriptor \<Rightarrow> bool" where
  "in_known env c f \<longleftrightarrow> (\<exists>n. known_type env c n \<and> f \<in> set (de_fields (desc_of (xe_pool env) n)))"

lemma in_known_sub: "in_known env c f \<Longrightarrow> fd_kind f = TYPE_MESSAGE \<Longrightarrow> known_type env c (fd_message f)"
  using known_field_of_type by (auto simp: in_known_def known_field_def)

lemma in_known_reads:
  assumes "in_known env c f" "enum_names_unique (xe_pool env)" "writable env g node f v" "sane_field f"
  shows "value_text env f v node (Some g) = (Inr (leaf_text env g node f v), Some g)
    \<and> parse_value env f (Some (leaf_text env g node f v)) (Some node) \<lparr>cv_cache = c, cv_errors = es, cv_gen = g\<rparr>
        = (Inr (Some v), \<lparr>cv_cache = c, cv_errors = es, cv_gen = g\<rparr>) \<and> check_value env f (Some v) = Inr v"
proof -
  obtain n where n: "known_type env c n" "f \<in> set (de_fields (desc_of (xe_pool env) n))" using assms(1) unfolding in_known_def by blast
  show ?thesis by (rule leaf_reads [OF assms(3,4)]) (rule enum_cached [OF n(1) assms(2) n(2)])
qed

lemma carried_leaf:
  assumes "carried_value env w g node f v" "\<not> sub_field f"
  shows "writable env g node f v" "sane_field f" "xml_singly_nested (fd_options f) = []" "attribute_only f \<or> clean (leaf_text env g node f v)"
  using assms by (cases v; simp add: sub_field_def)+

lemma carried_sub:
  assumes "carried_value env w g node f v" "sub_field f"
  obtains m where "v = VMsg m" "\<not> own_part f" "fd_repeated f \<or> m \<noteq> []" "carried_msg env w g node (fd_message f) m"
proof -
  have "\<exists>m. v = VMsg m" using assms by (cases v) (auto simp: sub_field_def FIELD_INT_TYPES_def)
  with assms that show ?thesis by (auto simp: carried_msg_def)
qed

lemma attrs_of_names:
  "(k, s) \<in> set (attrs_of env g node d m) \<Longrightarrow> \<exists>n f. n \<in> fst ` set m \<and> find_number n d = Some f \<and> attribute_only f \<and> k = get_field_xml_name f"
proof (induction m)
  case (Cons e m)
  obtain l v where e: "e = (l, v)" by fastforce
  show ?case
  proof (cases "(k, s) \<in> set (attrs_of env g node d m)")
    case True
    from Cons.IH [OF True] obtain n f where "n \<in> fst ` set m" "find_number n d = Some f" "attribute_only f" "k = get_field_xml_name f" by blast
    moreover from this have "n \<in> fst ` set (e # m)" by simp
    ultimately show ?thesis by blast
  next
    case False
    with Cons.prems show ?thesis by (cases "find_number l d") (auto simp: e split: if_splits intro!: exI [of _ l])
  qed
qed simp

lemma attribute_name_unique:
  assumes "known_type env c n" "find_number k (desc_of (xe_pool env) n) = Some f" "find_number l (desc_of (xe_pool env) n) = Some h"
    "attribute_only f" "attribute_only h" "get_field_xml_name f = get_field_xml_name h"
  shows "k = l"
proof -
  let ?fm = "fields_map \<lparr>cv_cache = c, cv_errors = [], cv_gen = undefined\<rparr> n"
  have "found_in ?fm f" "found_in ?fm h"
    using field_found [OF assms(1)] find_number_Some [OF assms(2)] find_number_Some [OF assms(3)] by blast+
  then have "map_of (attribute_fields ?fm) (get_field_xml_name f) = Some f" "map_of (attribute_fields ?fm) (get_field_xml_name h) = Some h"
    using assms(4,5) by (simp_all add: found_in_def attribute_only_def)
  then have "f = h" using assms(6) by (metis option.inject)
  with find_number_Some [OF assms(2)] find_number_Some [OF assms(3)] show ?thesis by simp
qed

lemma attrs_of_distinct:
  assumes "known_type env c n" "ascending m"
  shows "distinct (map fst (attrs_of env g node (desc_of (xe_pool env) n) m))"
  using assms(2)
proof (induction m)
  case (Cons e m)
  obtain k v where e: "e = (k, v)" by fastforce
  let ?d = "desc_of (xe_pool env) n"
  have ih: "distinct (map fst (attrs_of env g node ?d m))" using Cons by (simp add: ascending_Cons)
  show ?case
  proof (cases "\<exists>f. find_number k ?d = Some f \<and> attribute_only f")
    case True
    then obtain f where f: "find_number k ?d = Some f" "attribute_only f" by blast
    have "get_field_xml_name f \<notin> fst ` set (attrs_of env g node ?d m)"
    proof
      assume "get_field_xml_name f \<in> fst ` set (attrs_of env g node ?d m)"
      then obtain s where "(get_field_xml_name f, s) \<in> set (attrs_of env g node ?d m)" by force
      from attrs_of_names [OF this] obtain l h where h: "l \<in> fst ` set m" "find_number l ?d = Some h" "attribute_only h"
        "get_field_xml_name f = get_field_xml_name h" by blast
      from attribute_name_unique [OF assms(1) f(1) h(2) f(2) h(3,4)] h(1) Cons.prems show False by (auto simp: ascending_Cons e)
    qed
    with ih f show ?thesis by (simp add: e)
  next
    case False
    with ih show ?thesis by (auto simp: e split: option.split)
  qed
qed simp

text \<open>The parent after writing fields into it.\<close>

definition extended :: "element \<Rightarrow> element list \<Rightarrow> element \<Rightarrow> bool" where
  "extended e ks e1 \<longleftrightarrow> tag e1 = tag e \<and> etext e1 = etext e \<and> attrs e1 = attrs e \<and> kids e1 = kids e @ ks"

lemma update_at_end: "k \<notin> fst ` set a \<Longrightarrow> AList.update k s a = a @ [(k, s)]"
  by (induction a) auto

declare write_message.simps [simp del] write_field.simps [simp del]

lemma write_leaf:
  assumes "carried_value env w g node f v" "\<not> sub_field f" "\<not> field_ignored w f" "in_known env c f" "enum_names_unique (xe_pool env)"
  shows "write_field env w node f name v e (Some g) = (Inr (place f name (leaf_text env g node f v) e), Some g)"
proof -
  have "value_text env f v node (Some g) = (Inr (leaf_text env g node f v), Some g)"
    using in_known_reads [OF assms(4,5) carried_leaf(1,2) [OF assms(1,2)]] by blast
  with assms(2,3) show ?thesis by (auto simp: write_field.simps sub_field_def)
qed

lemma placed:
  assumes "own_part f" "attribute_only f \<longrightarrow> name \<notin> fst ` set (attrs e)"
  shows "tag (place f name s e) = tag e \<and> kids (place f name s e) = kids e
    \<and> etext (place f name s e) = (if xml_is_parent_value (fd_options f) then Some s else etext e)
    \<and> attrs (place f name s e) = attrs e @ (if attribute_only f then [(name, s)] else [])"
  using assms by (auto simp: place_def own_part_def attribute_only_def update_at_end)

definition value_shown :: "xml_env \<Rightarrow> descriptor_cache \<Rightarrow> which_fields \<Rightarrow> id_generator \<Rightarrow> string \<Rightarrow> field_value \<Rightarrow> bool" where
  "value_shown env c w g node v \<longleftrightarrow> (\<forall>f name e. in_known env c f \<longrightarrow> carried_value env w g node f v \<longrightarrow> \<not> own_part f \<longrightarrow> \<not> field_ignored w f
     \<longrightarrow> (\<exists>e1 k. write_field env w node f name v e (Some g) = (Inr e1, Some g) \<and> extended e [k] e1 \<and> shows_value env g node f name v k))"

lemma value_shownE:
  assumes "value_shown env c w g node v" "in_known env c f" "\<not> own_part f" "\<not> field_ignored w f" "carried_value env w g node f v"
  obtains e1 k where "write_field env w node f name v e (Some g) = (Inr e1, Some g)" "extended e [k] e1" "shows_value env g node f name v k"
  using assms unfolding value_shown_def by blast

lemma values_shown:
  assumes "in_known env c f" "\<not> own_part f" "\<not> field_ignored w f"
  shows "list_all (carried_value env w g node f) vs \<Longrightarrow> list_all (value_shown env c w g node) vs
    \<Longrightarrow> \<exists>e1 ks. write_values env w node f name vs e (Some g) = (Inr e1, Some g) \<and> extended e ks e1 \<and> shows_values env g node f name vs ks"
proof (induction vs arbitrary: e)
  case Nil
  then show ?case by (auto simp: extended_def intro: shows_msg_shows_fields_shows_values_shows_value.nil)
next
  case (Cons v vs)
  from Cons.prems have "value_shown env c w g node v" "carried_value env w g node f v" by simp_all
  from value_shownE [OF this(1) assms this(2)] obtain e1 k where k: "write_field env w node f name v e (Some g) = (Inr e1, Some g)" "extended e [k] e1"
    "shows_value env g node f name v k" by blast
  from Cons.IH [of e1] Cons.prems obtain e2 ks where "write_values env w node f name vs e1 (Some g) = (Inr e2, Some g)" "extended e1 ks e2"
    "shows_values env g node f name vs ks" by auto
  with k have "write_values env w node f name (v # vs) e (Some g) = (Inr e2, Some g)" "extended e (k # ks) e2"
    "shows_values env g node f name (v # vs) (k # ks)" by (simp_all add: extended_def shows_msg_shows_fields_shows_values_shows_value.cons)
  then show ?case by blast
qed

text \<open>One field: what is written for its values into the element or into a nested one.\<close>

lemma field_shown:
  assumes k: "in_known env c f" "\<not> own_part f" and v: "carried_entry env w g node f v" "list_all (value_shown env c w g node) (values_of f v)"
  shows "\<exists>e1 ks. (if fd_repeated f then (case v of VList vs \<Rightarrow> write_values env w node f name vs e (Some g) | _ \<Rightarrow> (Inl ill_typed, Some g))
      else write_field env w node f name v e (Some g)) = (Inr e1, Some g) \<and> extended e ks e1 \<and> shows_values env g node f name (values_of f v) ks"
proof (cases "fd_repeated f")
  case True
  with v(1) obtain vs where vs: "v = VList vs" by (auto simp: carried_entry_def)
  with values_shown [OF k] v True show ?thesis by (auto simp: carried_entry_def values_of_def)
next
  case False
  with v have "value_shown env c w g node v" "carried_value env w g node f v" "\<not> field_ignored w f"
    by (simp_all add: carried_entry_def values_of_def)
  from value_shownE [OF this(1) k this(3,2)] obtain e1 x where "write_field env w node f name v e (Some g) = (Inr e1, Some g)" "extended e [x] e1" "shows_value env g node f name v x"
    by blast
  with False show ?thesis
    by (auto simp: values_of_def intro!: exI [of _ "[x]"] shows_msg_shows_fields_shows_values_shows_value.cons shows_msg_shows_fields_shows_values_shows_value.nil)
qed

lemma message_shown:
  assumes un: "enum_names_unique (xe_pool env)" and kn: "known_type env c n"
  defines "d \<equiv> desc_of (xe_pool env) n"
  shows "carried_fields env w g node d m \<Longrightarrow> \<forall>(k, v) \<in> set m. \<forall>f. find_number k d = Some f \<longrightarrow> list_all (value_shown env c w g node) (values_of f v)
    \<Longrightarrow> distinct (map fst (attrs e @ attrs_of env g node d m))
    \<Longrightarrow> \<exists>e1 ks. write_message env w node d m e (Some g) = (Inr e1, Some g) \<and> tag e1 = tag e \<and> etext e1 = text_of env g node d m (etext e)
        \<and> attrs e1 = attrs e @ attrs_of env g node d m \<and> kids e1 = kids e @ ks \<and> shows_fields env g node d m ks"
proof (induction m arbitrary: e)
  case Nil
  then show ?case by (auto simp: write_message.simps intro: shows_msg_shows_fields_shows_values_shows_value.none)
next
  case (Cons kv m)
  obtain k v where kv: "kv = (k, v)" by fastforce
  from Cons.prems(1) obtain f where f: "find_number k d = Some f" "carried_entry env w g node f v" "carried_fields env w g node d m"
    by (auto simp: carried_fields_iff kv)
  have known: "in_known env c f" using find_number_Some [OF f(1)] kn by (auto simp: in_known_def d_def)
  have sh: "list_all (value_shown env c w g node) (values_of f v)" using Cons.prems(2) f(1) by (simp add: kv)
  have rest: "\<forall>(k, v) \<in> set m. \<forall>f. find_number k d = Some f \<longrightarrow> list_all (value_shown env c w g node) (values_of f v)" using Cons.prems(2) by simp
  show ?case
  proof (cases "own_part f")
    case True
    with f(2) have c: "\<not> fd_repeated f" "carried_value env w g node f v" "\<not> field_ignored w f"
      by (auto simp: carried_entry_def values_of_def split: if_splits)
    then have ns: "\<not> sub_field f" using True carried_sub by metis
    let ?s = "leaf_text env g node f v" and ?name = "get_field_xml_name f"
    let ?e = "place f ?name ?s e"
    have nest: "xml_singly_nested (fd_options f) = []" using carried_leaf(3) [OF c(2) ns] .
    have "attribute_only f \<longrightarrow> ?name \<notin> fst ` set (attrs e)" using Cons.prems(3) f(1) by (auto simp: kv)
    note p = placed [OF True this, of ?s]
    have "distinct (map fst (attrs ?e @ attrs_of env g node d m))" using Cons.prems(3) f(1) p by (simp add: kv)
    from Cons.IH [OF f(3) rest this] obtain e1 ks where e1: "write_message env w node d m ?e (Some g) = (Inr e1, Some g)" "tag e1 = tag ?e"
      "etext e1 = text_of env g node d m (etext ?e)" "attrs e1 = attrs ?e @ attrs_of env g node d m" "kids e1 = kids ?e @ ks"
      "shows_fields env g node d m ks" by blast
    have "write_message env w node d ((k, v) # m) e (Some g) = (Inr e1, Some g)"
      using write_leaf [OF c(2) ns c(3) known un] f(1) c(1) e1(1) nest by (simp add: write_message.simps Let_def)
    moreover have "shows_fields env g node d ((k, v) # m) ks"
      using f(1) True e1(6) by (rule shows_msg_shows_fields_shows_values_shows_value.own)
    ultimately show ?thesis using e1 p f(1) by (auto simp: kv)
  next
    case False
    then have no: "\<not> attribute_only f" "\<not> xml_is_parent_value (fd_options f)" by (auto simp: own_part_def attribute_only_def)
    let ?nest = "xml_singly_nested (fd_options f)"
    let ?p = "if ?nest = [] then e else new_element (get_field_xml_name f)" and ?name = "if ?nest = [] then get_field_xml_name f else ?nest"
    from field_shown [OF known False f(2) sh, of ?name ?p] obtain p1 ks1 where
      p1: "(if fd_repeated f then (case v of VList vs \<Rightarrow> write_values env w node f ?name vs ?p (Some g) | _ \<Rightarrow> (Inl ill_typed, Some g))
         else write_field env w node f ?name v ?p (Some g)) = (Inr p1, Some g)" "extended ?p ks1 p1"
        "shows_values env g node f ?name (values_of f v) ks1" by blast
    let ?e = "if ?nest = [] then p1 else append_kid p1 e" and ?ks = "if ?nest = [] then ks1 else [p1]"
    have e: "tag ?e = tag e" "etext ?e = etext e" "attrs ?e = attrs e" "kids ?e = kids e @ ?ks" using p1(2) by (auto simp: extended_def)
    have "distinct (map fst (attrs ?e @ attrs_of env g node d m))" using Cons.prems(3) f(1) no by (simp add: kv e(3))
    from Cons.IH [OF f(3) rest this] obtain e1 ks where e1: "write_message env w node d m ?e (Some g) = (Inr e1, Some g)" "tag e1 = tag ?e"
      "etext e1 = text_of env g node d m (etext ?e)" "attrs e1 = attrs ?e @ attrs_of env g node d m" "kids e1 = kids ?e @ ks"
      "shows_fields env g node d m ks" by blast
    have w: "write_message env w node d ((k, v) # m) e (Some g) = (Inr e1, Some g)"
      using e1(1) p1(1) f(1) by (simp add: write_message.simps Let_def)
    have "shows_fields env g node d ((k, v) # m) (?ks @ ks)"
    proof (cases "?nest = []")
      case True
      with p1(3) f(1) False e1(6) show ?thesis by (simp add: shows_msg_shows_fields_shows_values_shows_value.plain)
    next
      case nest: False
      with p1(2) have "tag p1 = Some (get_field_xml_name f)" "kids p1 = ks1" by (simp_all add: extended_def)
      with nest p1(3) f(1) False e1(6) show ?thesis by (simp add: shows_msg_shows_fields_shows_values_shows_value.nested)
    qed
    with w e1 e f(1) no show ?thesis by (auto simp: kv)
  qed
qed

lemma leaf_shown:
  assumes un: "enum_names_unique (xe_pool env)" and v: "\<forall>m. v \<noteq> VMsg m"
  shows "value_shown env c w g node v"
  unfolding value_shown_def
proof (intro allI impI)
  fix f name e
  assume h: "in_known env c f" "carried_value env w g node f v" "\<not> own_part f" "\<not> field_ignored w f"
  then have ns: "\<not> sub_field f" using v carried_sub by metis
  let ?k = "text_element name (Some (leaf_text env g node f v))"
  have "write_field env w node f name v e (Some g) = (Inr (append_kid ?k e), Some g)"
    using write_leaf [OF h(2) ns h(4,1) un] h(3) by (simp add: place_def own_part_def)
  moreover have "shows_value env g node f name v ?k"
    by (rule shows_msg_shows_fields_shows_values_shows_value.leaf [OF ns]) (simp_all add: text_element_def)
  ultimately show "\<exists>e1 k. write_field env w node f name v e (Some g) = (Inr e1, Some g) \<and> extended e [k] e1 \<and> shows_value env g node f name v k"
    by (auto simp: extended_def)
qed

lemma all_shown:
  assumes un: "enum_names_unique (xe_pool env)"
  shows "value_shown env c w g node v \<and> (\<forall>vs. v = VList vs \<longrightarrow> list_all (value_shown env c w g node) vs)"
proof (induction v)
  case (VMsg m)
  have "\<exists>e1 k. write_field env w node f name (VMsg m) e (Some g) = (Inr e1, Some g) \<and> extended e [k] e1 \<and> shows_value env g node f name (VMsg m) k"
    if h: "in_known env c f" "carried_value env w g node f (VMsg m)" "\<not> own_part f" "\<not> field_ignored w f" for f name e
  proof -
    have s: "sub_field f" "carried_msg env w g node (fd_message f) m" using h(2) by (simp_all add: sub_field_def carried_msg_def)
    let ?d = "desc_of (xe_pool env) (fd_message f)"
    have kn: "known_type env c (fd_message f)" using in_known_sub [OF h(1)] s(1) by (simp add: sub_field_def)
    have ih: "\<forall>(k, v) \<in> set m. \<forall>f. find_number k ?d = Some f \<longrightarrow> list_all (value_shown env c w g node) (values_of f v)"
    proof clarify
      fix k v f assume "(k, v) \<in> set m"
      with VMsg.IH [of "(k, v)" v] show "list_all (value_shown env c w g node) (values_of f v)"
        by (cases v) (simp_all add: values_of_def)
    qed
    from s(2) have c: "carried_fields env w g node ?d m" "ascending m" by (simp_all add: carried_msg_def)
    have dis: "distinct (map fst (attrs (new_element name) @ attrs_of env g node ?d m))"
      using attrs_of_distinct [OF kn c(2)] by simp
    from message_shown [OF un kn c(1) ih dis] obtain e1 ks where
      e1: "write_message env w node ?d m (new_element name) (Some g) = (Inr e1, Some g)" "tag e1 = Some name"
        "etext e1 = text_of env g node ?d m None" "attrs e1 = attrs_of env g node ?d m" "kids e1 = ks" "shows_fields env g node ?d m ks" by auto
    have "shows_msg env g node ?d m e1" using e1(3-6) by (intro shows_msg_shows_fields_shows_values_shows_value.msg) simp_all
    with s(1) e1(2) have "shows_value env g node f name (VMsg m) e1" by (intro shows_msg_shows_fields_shows_values_shows_value.sub)
    moreover have "write_field env w node f name (VMsg m) e (Some g) = (Inr (append_kid e1 e), Some g)"
      using h(4) s(1) e1(1) by (simp add: write_field.simps sub_field_def)
    moreover have "extended e [e1] (append_kid e1 e)" by (simp add: extended_def)
    ultimately show ?thesis by blast
  qed
  then show ?case by (simp add: value_shown_def)
next
  case (VList vs)
  then show ?case by (simp add: value_shown_def list_all_iff)
qed (simp_all add: leaf_shown un)

section \<open>Reading what is shown\<close>

lemma basic_stores:
  assumes "in_known env c f" "enum_names_unique (xe_pool env)" "writable env g node f v" "sane_field f"
    "fd_repeated f \<or> \<not> already_set f M"
  defines "st \<equiv> \<lparr>cv_cache = c, cv_errors = [], cv_gen = g\<rparr>"
  shows "populate_basic_field env d f (Some (leaf_text env g node f v)) (Some node) M st = (store_all d f [v] M, st)"
  using in_known_reads [OF assms(1-4), of "[]"] assms(5)
  by (auto simp: populate_basic_field_def Let_def store_value_def store_all_def st_def)

lemma not_set_restrict: "fd_number f \<notin> S \<Longrightarrow> \<not> already_set f (as_opt b (restrict m S))"
  by (simp add: already_set_def map_of_restrict)

lemma store_entry:
  assumes m: "ascending m" "exclusive d m" "carried_fields env w g node d m" "sane_desc d"
    and f: "(k, v) \<in> set m" "find_number k d = Some f" and S: "k \<notin> S"
  shows "store_all d f (values_of f v) (as_opt b (restrict m S)) = as_opt b (restrict m (insert k S))"
proof -
  have "carried_entry env w g node f v" using m(3) f by (fastforce simp: carried_fields_iff)
  with store_all_restrict [OF m(1,2), of f v S b] find_number_Some [OF f(2)] f(1) S show ?thesis by (auto simp: carried_entry_def)
qed

text \<open>The numbers of the fields that are written as text, as attributes and as children.\<close>

definition numbers :: "descriptor \<Rightarrow> msg \<Rightarrow> (field_descriptor \<Rightarrow> bool) \<Rightarrow> nat set" where
  "numbers d m P = {k \<in> fst ` set m. \<exists>f. find_number k d = Some f \<and> P f}"

lemma numbers_Cons: "find_number k d = Some f \<Longrightarrow> numbers d ((k, v) # m) P = (if P f then insert k (numbers d m P) else numbers d m P)"
  by (auto simp: numbers_def)

lemma text_of_none: "numbers d m (\<lambda>f. xml_is_parent_value (fd_options f)) = {} \<Longrightarrow> text_of env g node d m x = x"
proof (induction m arbitrary: x)
  case (Cons e m)
  obtain k v where e: "e = (k, v)" by fastforce
  from Cons show ?case by (cases "find_number k d") (auto simp: e numbers_def)
qed simp

lemma text_of_one:
  assumes "find_number k d = Some f" "xml_is_parent_value (fd_options f)"
  shows "numbers d m (\<lambda>f. xml_is_parent_value (fd_options f)) \<subseteq> {k} \<Longrightarrow> (k, v) \<in> set m \<Longrightarrow> ascending m
    \<Longrightarrow> text_of env g node d m x = Some (leaf_text env g node f v)"
proof (induction m arbitrary: x)
  case (Cons e m)
  obtain l u where e: "e = (l, u)" by fastforce
  have sub: "numbers d m (\<lambda>f. xml_is_parent_value (fd_options f)) \<subseteq> {k}" using Cons.prems(1) by (auto simp: numbers_def)
  show ?case
  proof (cases "l = k")
    case True
    then have "k \<notin> fst ` set m" "u = v" using Cons.prems(2,3) by (force simp: e ascending_Cons)+
    then have "numbers d m (\<lambda>f. xml_is_parent_value (fd_options f)) = {}" using sub by (auto simp: numbers_def)
    with assms True \<open>u = v\<close> show ?thesis by (simp add: e text_of_none)
  next
    case False
    with Cons.prems(2,3) have "(k, v) \<in> set m" "ascending m" by (simp_all add: e ascending_Cons)
    with Cons.IH sub show ?thesis by (simp add: e)
  qed
qed simp

lemma clean_stripped: "clean s \<Longrightarrow> stripped (Some s) = s \<and> s \<noteq> []"
  by (simp add: clean_def stripped_def)

lemma own_leaf:
  assumes "carried_entry env w g node f v" "own_part f"
  shows "\<not> fd_repeated f" "values_of f v = [v]" "writable env g node f v" "sane_field f" "attribute_only f \<or> clean (leaf_text env g node f v)"
proof -
  show r: "\<not> fd_repeated f" using assms by (auto simp: carried_entry_def)
  then show v: "values_of f v = [v]" by (simp add: values_of_def)
  with assms have c: "carried_value env w g node f v" by (simp add: carried_entry_def)
  then have "\<not> sub_field f" using assms(2) carried_sub by metis
  from carried_leaf [OF c this] show "writable env g node f v" "sane_field f" "attribute_only f \<or> clean (leaf_text env g node f v)" by simp_all
qed

lemma text_stores:
  assumes un: "enum_names_unique (xe_pool env)" and kn: "known_type env c n" and sd: "sane_desc (desc_of (xe_pool env) n)"
    and m: "carried_msg env w g node n m"
  defines "st \<equiv> \<lparr>cv_cache = c, cv_errors = [], cv_gen = g\<rparr>" and "d \<equiv> desc_of (xe_pool env) n"
  assumes x: "stripped x = stripped (text_of env g node d m None)"
  shows "populate_text env d (fields_map st n) x (Some node) (as_opt b []) st
    = (as_opt b (restrict m (numbers d m (\<lambda>f. xml_is_parent_value (fd_options f)))), st)"
proof (cases "numbers d m (\<lambda>f. xml_is_parent_value (fd_options f)) = {}")
  case True
  with x text_of_none [OF True] show ?thesis by (simp add: populate_text_def stripped_def)
next
  case False
  then obtain k f v where k: "(k, v) \<in> set m" "find_number k d = Some f" "xml_is_parent_value (fd_options f)"
    unfolding numbers_def by fastforce
  have fm: "text_field (fields_map st n) = Some h" if "find_number l d = Some h" "xml_is_parent_value (fd_options h)" for l h
    using field_found [OF kn, of h "[]" g] find_number_Some [OF that(1)] that(2) by (simp add: found_in_def st_def d_def)
  have "l = k" if "l \<in> numbers d m (\<lambda>f. xml_is_parent_value (fd_options f))" for l
    using that fm [of l] fm [OF k(2,3)] find_number_Some [OF k(2)] find_number_Some [of l d] unfolding numbers_def by auto
  then have N: "numbers d m (\<lambda>f. xml_is_parent_value (fd_options f)) = {k}" using False by auto
  have c: "carried_entry env w g node f v" "ascending m" "exclusive d m" "carried_fields env w g node d m"
    using m k(1,2) by (auto simp: carried_msg_def d_def carried_fields_iff)
  have own: "own_part f" using k(3) by (simp add: own_part_def)
  note l = own_leaf [OF c(1) own]
  have "text_of env g node d m None = Some (leaf_text env g node f v)"
    using text_of_one [OF k(2,3) _ k(1) c(2)] N by simp
  moreover have "clean (leaf_text env g node f v)" using l(5) k(3) by (simp add: attribute_only_def)
  ultimately have s: "stripped x = leaf_text env g node f v" "stripped x \<noteq> []" using x clean_stripped by simp_all
  have kf: "in_known env c f" using find_number_Some [OF k(2)] kn by (auto simp: in_known_def d_def)
  have "populate_basic_field env d f (Some (stripped x)) (Some node) (as_opt b (restrict m {})) st
    = (store_all d f (values_of f v) (as_opt b (restrict m {})), st)"
    unfolding s(1) l(2) st_def by (rule basic_stores [OF kf un l(3,4)]) (rule disjI2, rule not_set_restrict, simp)
  with store_entry [OF c(2-4) sd [folded d_def] k(1,2), of "{}" b] s(2) fm [OF k(2,3)] show ?thesis
    by (simp add: populate_text_def N)
qed

lemma attributes_store:
  assumes un: "enum_names_unique (xe_pool env)" and kn: "known_type env c n" and sd: "sane_desc (desc_of (xe_pool env) n)"
    and m: "carried_msg env w g node n m"
  defines "st \<equiv> \<lparr>cv_cache = c, cv_errors = [], cv_gen = g\<rparr>" and "d \<equiv> desc_of (xe_pool env) n"
  shows "set m' \<subseteq> set m \<Longrightarrow> ascending m' \<Longrightarrow> S \<inter> numbers d m' attribute_only = {}
    \<Longrightarrow> populate_attributes env d (fields_map st n) (attrs_of env g node d m') (Some node) (as_opt b (restrict m S)) st
      = (as_opt b (restrict m (S \<union> numbers d m' attribute_only)), st)"
proof (induction m' arbitrary: S)
  case Nil
  then show ?case by (simp add: numbers_def)
next
  case (Cons e m')
  obtain k v where e: "e = (k, v)" by fastforce
  have kv: "(k, v) \<in> set m" using Cons.prems(1) by (simp add: e)
  then obtain f where f: "find_number k d = Some f" "carried_entry env w g node f v"
    using m by (fastforce simp: carried_msg_def d_def carried_fields_iff)
  have c: "ascending m" "exclusive d m" "carried_fields env w g node d m" using m by (simp_all add: carried_msg_def d_def)
  have rest: "set m' \<subseteq> set m" "ascending m'" "k \<notin> numbers d m' attribute_only"
    using Cons.prems(1,2) by (auto simp: e ascending_Cons numbers_def)
  show ?case
  proof (cases "attribute_only f")
    case True
    have own: "own_part f" using True by (simp add: own_part_def attribute_only_def)
    note l = own_leaf [OF f(2) own]
    have kS: "k \<notin> S" using Cons.prems(3) True f(1) by (auto simp: e numbers_def)
    have kf: "in_known env c f" using find_number_Some [OF f(1)] kn by (auto simp: in_known_def d_def)
    have fm: "map_of (attribute_fields (fields_map st n)) (get_field_xml_name f) = Some f"
      using field_found [OF kn, of f "[]" g] find_number_Some [OF f(1)] True by (simp add: found_in_def attribute_only_def st_def d_def)
    have "populate_basic_field env d f (Some (leaf_text env g node f v)) (Some node) (as_opt b (restrict m S)) st
      = (store_all d f (values_of f v) (as_opt b (restrict m S)), st)"
      unfolding l(2) st_def by (rule basic_stores [OF kf un l(3,4)])
        (rule disjI2, rule not_set_restrict, use kS find_number_Some [OF f(1)] in simp)
    also have "\<dots> = (as_opt b (restrict m (insert k S)), st)" using store_entry [OF c sd [folded d_def] kv f(1) kS] by simp
    finally have one: "populate_basic_field env d f (Some (leaf_text env g node f v)) (Some node) (as_opt b (restrict m S)) st
      = (as_opt b (restrict m (insert k S)), st)" .
    have "insert k S \<inter> numbers d m' attribute_only = {}" using Cons.prems(3) rest(3) f(1) by (auto simp: e numbers_Cons split: if_splits)
    from Cons.IH [OF rest(1,2) this] one fm True f(1) show ?thesis by (simp add: e numbers_Cons)
  next
    case False
    with Cons.IH [OF rest(1,2)] Cons.prems(3) f(1) show ?thesis by (simp add: e numbers_Cons)
  qed
qed

section \<open>Elements are read as the message they show\<close>

lemma leaf_kind:
  assumes "map_of (element_fields fm) name = Some f" "tag k = Some name" "etext k = Some t" "clean t" "\<not> sub_field f"
    "xml_singly_nested (fd_options f) = []"
  shows "child_kind fm k = Basic f (Some t)"
  using assms clean_stripped [of t] by (auto simp: child_kind_def sub_field_def)

lemma sub_kind:
  assumes "map_of (element_fields fm) name = Some f" "tag k = Some name" "sub_field f" "xml_singly_nested (fd_options f) = []"
  shows "child_kind fm k = SubMessage f"
  using assms by (auto simp: child_kind_def sub_field_def)

lemma nested_kind:
  assumes "map_of (element_fields fm) name = Some f" "tag k = Some name" "sub_field f" "xml_singly_nested (fd_options f) \<noteq> []"
  shows "child_kind fm k = Nested f"
  using assms by (auto simp: child_kind_def sub_field_def)

lemma opened:
  "fd_repeated f \<or> \<not> already_set f M \<Longrightarrow> open_child env d f k M st = (as_opt (\<not> fd_repeated f) [], st)"
  by (auto simp: open_child_def already_set_def as_opt_def)

lemma closed:
  "fd_repeated f \<or> m \<noteq> [] \<Longrightarrow> close_child d f (as_opt (\<not> fd_repeated f) m) M = store_all d f [VMsg m] M"
  by (auto simp: close_child_def as_opt_def store_all_def)

lemma store_all_Cons: "store_all d f (v # vs) M = store_all d f vs (store_all d f [v] M)"
  by (simp add: store_all_def)

lemma store_all_Nil [simp]: "store_all d f [] M = M"
  by (simp add: store_all_def)

text \<open>A field whose values are not all carried as text or attributes.\<close>

lemma child_numbers:
  assumes "find_number k d = Some f" "ascending ((k, v) # m')" "S \<inter> numbers d ((k, v) # m') P = {}" "P f"
  shows "k \<notin> S" "insert k S \<inter> numbers d m' P = {}" "numbers d ((k, v) # m') P = insert k (numbers d m' P)"
  using assms by (auto simp: numbers_Cons) (auto simp: numbers_def ascending_Cons)

lemma own_read:
  assumes un: "enum_names_unique (xe_pool env)" and kn: "known_type env c n" and sd: "sane_desc (desc_of (xe_pool env) n)"
    and m: "carried_msg env w g node n m"
  defines "st \<equiv> \<lparr>cv_cache = c, cv_errors = [], cv_gen = g\<rparr>" and "d \<equiv> desc_of (xe_pool env) n"
  assumes e: "stripped (etext e) = stripped (text_of env g node d m None)" "attrs e = attrs_of env g node d m"
  shows "populate_own env (Some node) n e (as_opt b []) st
    = Inr (fields_map st n, as_opt b (restrict m (numbers d m own_part)), st)"
proof -
  have c: "populate_cache env n (cv_cache st) = Inr (cv_cache st)" "st\<lparr>cv_cache := cv_cache st\<rparr> = st"
    using kn by (simp_all add: known_type_def populate_cache_complete st_def)
  let ?T = "numbers d m (\<lambda>f. xml_is_parent_value (fd_options f))"
  have "?T \<inter> numbers d m attribute_only = {}" by (auto simp: numbers_def attribute_only_def)
  moreover have "?T \<union> numbers d m attribute_only = numbers d m own_part"
    by (auto simp: numbers_def attribute_only_def own_part_def)
  moreover have "ascending m" using m by (simp add: carried_msg_def)
  ultimately have "populate_attributes env d (fields_map st n) (attrs_of env g node d m) (Some node) (as_opt b (restrict m ?T)) st
      = (as_opt b (restrict m (numbers d m own_part)), st)"
    using attributes_store [OF un kn sd m, of m ?T b] by (simp add: st_def d_def)
  with text_stores [OF un kn sd m, of "etext e" b] e c show ?thesis
    by (simp add: populate_own_def Let_def st_def d_def)
qed


lemma shown_read:
  fixes c :: descriptor_cache and g :: id_generator
  assumes un: "enum_names_unique (xe_pool env)" and sp: "sane_pool env"
  defines "st \<equiv> \<lparr>cv_cache = c, cv_errors = [], cv_gen = g\<rparr>"
  shows
  "shows_msg env g node d m e \<Longrightarrow> d = desc_of (xe_pool env) n \<Longrightarrow> known_type env c n \<Longrightarrow> carried_msg env w g node n m
    \<Longrightarrow> populate_message env s (Some node) n e (as_opt b []) st = Inr (as_opt b m, st)"
  "shows_fields env g node d m' ks \<Longrightarrow> d = desc_of (xe_pool env) n \<Longrightarrow> known_type env c n \<Longrightarrow> carried_msg env w g node n m
    \<Longrightarrow> set m' \<subseteq> set m \<Longrightarrow> ascending m' \<Longrightarrow> S \<inter> numbers d m' (\<lambda>f. \<not> own_part f) = {}
    \<Longrightarrow> populate_children env s (Some node) d (fields_map st n) ks (as_opt b (restrict m S)) st
      = Inr (as_opt b (restrict m (S \<union> numbers d m' (\<lambda>f. \<not> own_part f))), st)"
  "shows_values env g node f name vs ks \<Longrightarrow> in_known env c f \<Longrightarrow> \<not> own_part f \<Longrightarrow> list_all (carried_value env w g node f) vs
    \<Longrightarrow> fd_repeated f \<or> vs = [] \<or> tl vs = [] \<and> \<not> already_set f M
    \<Longrightarrow> (xml_singly_nested (fd_options f) = [] \<longrightarrow> map_of (element_fields fm) name = Some f
          \<longrightarrow> populate_children env s (Some node) d0 fm (ks @ rest) M st = populate_children env s (Some node) d0 fm rest (store_all d0 f vs M) st)
      \<and> (xml_singly_nested (fd_options f) = name \<longrightarrow> sub_field f
          \<longrightarrow> populate_singly_nested env s (Some node) d0 f ks M st = Inr (store_all d0 f vs M, st))"
  "shows_value env g node f name v k \<Longrightarrow> in_known env c f \<Longrightarrow> \<not> own_part f \<Longrightarrow> carried_value env w g node f v
    \<Longrightarrow> fd_repeated f \<or> \<not> already_set f M
    \<Longrightarrow> tag k = Some name \<and> (sub_field f \<longrightarrow> populate_child env s (Some node) d0 f k M st = Inr (store_all d0 f [v] M, st))
      \<and> (xml_singly_nested (fd_options f) = [] \<longrightarrow> map_of (element_fields fm) name = Some f
          \<longrightarrow> populate_element env s (Some node) d0 fm k M st = Inr (store_all d0 f [v] M, st))"
proof (induction arbitrary: n b and n b m S and M fm rest d0 and M fm d0
    rule: shows_msg_shows_fields_shows_values_shows_value.inducts)
  case (msg e d m)
  have sd: "sane_desc d" using sane_desc_of [OF sp] msg.prems(1) by simp
  have o: "populate_own env (Some node) n e (as_opt b []) st = Inr (fields_map st n, as_opt b (restrict m (numbers d m own_part)), st)"
    using own_read [OF un msg.prems(2) sd [unfolded msg.prems(1)] msg.prems(3), of e b] msg.IH(1,2) msg.prems(1) by (simp add: st_def)
  have a: "ascending m" "carried_fields env w g node d m" using msg.prems by (simp_all add: carried_msg_def)
  have dis: "numbers d m own_part \<inter> numbers d m (\<lambda>f. \<not> own_part f) = {}" by (auto simp: numbers_def)
  have all: "fst ` set m \<subseteq> numbers d m own_part \<union> numbers d m (\<lambda>f. \<not> own_part f)"
  proof
    fix k assume k: "k \<in> fst ` set m"
    then obtain v where "(k, v) \<in> set m" by force
    with a(2) obtain f where f: "find_number k d = Some f" by (fastforce simp: carried_fields_iff)
    show "k \<in> numbers d m own_part \<union> numbers d m (\<lambda>f. \<not> own_part f)"
      by (cases "own_part f") (use k f in \<open>auto simp: numbers_def\<close>)
  qed
  from msg.IH(4) [OF msg.prems subset_refl a(1) dis, of b] o restrict_all [OF all] msg.prems(1) show ?case
    by (simp add: populate_message.simps)
next
  case (own k d f m' ks v)
  then have "set m' \<subseteq> set m" "ascending m'" by (auto simp: ascending_Cons)
  moreover have "numbers d ((k, v) # m') (\<lambda>f. \<not> own_part f) = numbers d m' (\<lambda>f. \<not> own_part f)"
    using own.hyps(1,2) by (simp add: numbers_Cons)
  ultimately show ?case using own.IH(2) [OF own.prems(1-3)] own.prems(6) by simp
next
  case (plain k d f v ks1 m' ks)
  have kv: "(k, v) \<in> set m" and rest: "set m' \<subseteq> set m" "ascending m'" using plain.prems(4,5) by (auto simp: ascending_Cons)
  have c: "ascending m" "exclusive d m" "carried_fields env w g node d m" using plain.prems by (simp_all add: carried_msg_def)
  have v: "carried_entry env w g node f v" using c(3) kv plain.hyps(1) by (fastforce simp: carried_fields_iff)
  have fd: "f \<in> set (de_fields d)" "fd_number f = k" using find_number_Some [OF plain.hyps(1)] by simp_all
  have sd: "sane_desc d" using sane_desc_of [OF sp] plain.prems(1) by simp
  note N = child_numbers [OF plain.hyps(1) plain.prems(5,6) plain.hyps(2)]
  have kf: "in_known env c f" using fd(1) plain.prems(1,2) by (auto simp: in_known_def)
  have cv: "list_all (carried_value env w g node f) (values_of f v)" using v by (simp add: carried_entry_def)
  have once: "fd_repeated f \<or> values_of f v = [] \<or> tl (values_of f v) = [] \<and> \<not> already_set f (as_opt b (restrict m S))"
    using N(1) fd(2) not_set_restrict [of f S b m] by (simp add: values_of_def)
  have fm: "map_of (element_fields (fields_map st n)) (get_field_xml_name f) = Some f"
    using field_found [OF plain.prems(2), of f "[]" g] fd(1) plain.prems(1) plain.hyps(2) by (simp add: found_in_def own_part_def st_def)
  have "populate_children env s (Some node) d (fields_map st n) (ks1 @ ks) (as_opt b (restrict m S)) st
      = populate_children env s (Some node) d (fields_map st n) ks (store_all d f (values_of f v) (as_opt b (restrict m S))) st"
    using plain.IH(2) [OF kf plain.hyps(2) cv once] plain.hyps(3) fm by blast
  also have "store_all d f (values_of f v) (as_opt b (restrict m S)) = as_opt b (restrict m (insert k S))"
    by (rule store_entry [OF c sd kv plain.hyps(1) N(1)])
  also have "populate_children env s (Some node) d (fields_map st n) ks (as_opt b (restrict m (insert k S))) st
      = Inr (as_opt b (restrict m (insert k S \<union> numbers d m' (\<lambda>f. \<not> own_part f))), st)"
    by (rule plain.IH(4) [OF plain.prems(1-3) rest N(2)])
  finally show ?case by (simp add: N(3))
next
  case (nested k d f e v m' ks)
  have kv: "(k, v) \<in> set m" and rest: "set m' \<subseteq> set m" "ascending m'" using nested.prems(4,5) by (auto simp: ascending_Cons)
  have c: "ascending m" "exclusive d m" "carried_fields env w g node d m" using nested.prems by (simp_all add: carried_msg_def)
  have v: "carried_entry env w g node f v" using c(3) kv nested.hyps(1) by (fastforce simp: carried_fields_iff)
  have fd: "f \<in> set (de_fields d)" "fd_number f = k" using find_number_Some [OF nested.hyps(1)] by simp_all
  have sd: "sane_desc d" using sane_desc_of [OF sp] nested.prems(1) by simp
  note N = child_numbers [OF nested.hyps(1) nested.prems(5,6) nested.hyps(2)]
  have kf: "in_known env c f" using fd(1) nested.prems(1,2) by (auto simp: in_known_def)
  have cv: "list_all (carried_value env w g node f) (values_of f v)" using v by (simp add: carried_entry_def)
  have sub: "sub_field f"
  proof -
    have "\<exists>x. x \<in> set (values_of f v)" using v by (auto simp: carried_entry_def values_of_def neq_Nil_conv split: if_splits)
    with cv carried_leaf(3) nested.hyps(3) show ?thesis unfolding list_all_iff by blast
  qed
  have once: "fd_repeated f \<or> values_of f v = [] \<or> tl (values_of f v) = [] \<and> \<not> already_set f (as_opt b (restrict m S))"
    using N(1) fd(2) not_set_restrict [of f S b m] by (simp add: values_of_def)
  have fm: "map_of (element_fields (fields_map st n)) (get_field_xml_name f) = Some f"
    using field_found [OF nested.prems(2), of f "[]" g] fd(1) nested.prems(1) nested.hyps(2) by (simp add: found_in_def own_part_def st_def)
  have "populate_singly_nested env s (Some node) d f (kids e) (as_opt b (restrict m S)) st
      = Inr (store_all d f (values_of f v) (as_opt b (restrict m S)), st)"
    using nested.IH(2) [OF kf nested.hyps(2) cv once] sub by blast
  also have "store_all d f (values_of f v) (as_opt b (restrict m S)) = as_opt b (restrict m (insert k S))"
    by (rule store_entry [OF c sd kv nested.hyps(1) N(1)])
  finally have "populate_element env s (Some node) d (fields_map st n) e (as_opt b (restrict m S)) st
      = Inr (as_opt b (restrict m (insert k S)), st)"
    using nested_kind [OF fm nested.hyps(4) sub nested.hyps(3)] by (simp add: populate_element.simps)
  with nested.IH(4) [OF nested.prems(1-3) rest N(2), of b] show ?case by (simp add: N(3))
next
  case (nil f name)
  then show ?case by simp
next
  case (cons f name v k vs ks)
  from cons.prems have one: "fd_repeated f \<or> \<not> already_set f M" and cv: "carried_value env w g node f v" "list_all (carried_value env w g node f) vs"
    and more: "fd_repeated f \<or> vs = [] \<or> tl vs = [] \<and> \<not> already_set f (store_all d0 f [v] M)" by auto
  note hd = cons.IH(2) [OF cons.prems(1,2) cv(1) one] and tl = cons.IH(4) [OF cons.prems(1,2) cv(2) more]
  show ?case
  proof (intro conjI impI)
    assume "xml_singly_nested (fd_options f) = []" "map_of (element_fields fm) name = Some f"
    with hd [of d0 fm] tl [of fm d0 rest] show "populate_children env s (Some node) d0 fm ((k # ks) @ rest) M st
        = populate_children env s (Some node) d0 fm rest (store_all d0 f (v # vs) M) st"
      by (simp add: store_all_Cons [of d0 f v vs])
  next
    assume "xml_singly_nested (fd_options f) = name" "sub_field f"
    with hd [of d0] tl [of _ d0] show "populate_singly_nested env s (Some node) d0 f (k # ks) M st = Inr (store_all d0 f (v # vs) M, st)"
      by (simp add: store_all_Cons [of d0 f v vs])
  qed
next
  case (leaf f k name v)
  from carried_leaf [OF leaf.prems(3) leaf.hyps(1)] leaf.prems(2) have l: "writable env g node f v" "sane_field f" "clean (leaf_text env g node f v)"
    "xml_singly_nested (fd_options f) = []" by (auto simp: own_part_def attribute_only_def)
  have "populate_basic_field env d0 f (Some (leaf_text env g node f v)) (Some node) M st = (store_all d0 f [v] M, st)"
    unfolding st_def by (rule basic_stores [OF leaf.prems(1) un l(1,2) leaf.prems(4)])
  with leaf_kind [OF _ leaf.hyps(2) leaf.IH(1) l(3) leaf.hyps(1) l(4), of fm] leaf.hyps(1,2) show ?case by (simp add: populate_element.simps)
next
  case (sub f k name m)
  have kn: "known_type env c (fd_message f)" using in_known_sub [OF sub.prems(1)] sub.hyps(1) by (simp add: sub_field_def)
  have m: "carried_msg env w g node (fd_message f) m" "fd_repeated f \<or> m \<noteq> []" using sub.prems(3) by (auto simp: carried_msg_def)
  have "populate_message env s (Some node) (fd_message f) k (as_opt (\<not> fd_repeated f) []) st = Inr (as_opt (\<not> fd_repeated f) m, st)"
    by (rule sub.IH(2) [OF refl kn m(1)])
  then have "populate_child env s (Some node) d0 f k M st = Inr (store_all d0 f [VMsg m] M, st)"
    using closed [OF m(2), of d0 M] opened [OF sub.prems(4), of env d0 k st] by (simp add: populate_child.simps)
  with sub_kind [OF _ sub.hyps(2,1), of fm] sub.hyps(2) show ?case by (simp add: populate_element.simps)
qed (simp add: numbers_def)

section \<open>The round trip\<close>


text \<open>C3. The round trip of a message through XML. A message that can be carried is written without error,
  whatever the nesting of messages, attributes, texts, repeated and singly nested fields of its type; the
  element, indented, is read back as exactly that message, without an error, and neither direction
  changes the identifiers.\<close>

theorem xml_round_trip:
  assumes "new_converter env n False = Inr cv" "sane_pool env" "enum_names_unique (xe_pool env)" "carried_msg env w g node n m"
  shows "\<exists>e. message_to_element env w node n m (Some g) = (Inr e, Some g)
    \<and> from_elem env cv e g (Some node) = Inr (m, \<lparr>cv_cache = descriptor_cache cv, cv_errors = [], cv_gen = g\<rparr>)"
proof -
  let ?d = "desc_of (xe_pool env) n" and ?st = "\<lparr>cv_cache = descriptor_cache cv, cv_errors = [], cv_gen = g\<rparr>"
  from new_converter_known [OF assms(1)] have k: "known_type env (descriptor_cache cv) n" "message_class cv = n" "\<not> nested_field cv" by simp_all
  from assms(4) have c: "carried_fields env w g node ?d m" "ascending m" by (simp_all add: carried_msg_def)
  let ?e0 = "new_element (get_message_xml_name ?d)"
  have sh: "\<forall>(k, v) \<in> set m. \<forall>f. find_number k ?d = Some f \<longrightarrow> list_all (value_shown env (descriptor_cache cv) w g node) (values_of f v)"
    using all_shown [OF assms(3), of "descriptor_cache cv" w g node] by (auto simp: values_of_def list_all_iff split: field_value.splits)
  have "distinct (map fst (attrs ?e0 @ attrs_of env g node ?d m))" using attrs_of_distinct [OF k(1) c(2)] by simp
  from message_shown [OF assms(3) k(1) c(1) sh this] obtain e where
    e: "write_message env w node ?d m ?e0 (Some g) = (Inr e, Some g)" "etext e = text_of env g node ?d m None"
      "attrs e = attrs_of env g node ?d m" "shows_fields env g node ?d m (kids e)" by auto
  then have "shows_msg env g node ?d m e" by (intro shows_msg_shows_fields_shows_values_shows_value.msg) simp_all
  then have "shows_msg env g node ?d m (indent e)" using indented by (rule shows_similar(1))
  from shown_read(1) [OF assms(3,2) this refl k(1) assms(4), of _ False]
  have "populate_message env s (Some node) n (indent e) (Some []) ?st = Inr (Some m, ?st)" for s by (simp add: as_opt_def)
  then have "from_elem env cv (indent e) g (Some node) = Inr (m, ?st)" using k by (simp add: from_elem_def Let_def present_def)
  moreover have "message_to_element env w node n m (Some g) = (Inr (indent e), Some g)"
    using e(1) by (simp add: message_to_element_def Let_def)
  ultimately show ?thesis by blast
qed

definition excerpt_ids :: id_generator where
  "excerpt_ids = (new_generator [] True 1)\<lparr>node_id_map := [(''sensor'', SensorIdMapping 3 [] [(''01G'', Id 7), (''01F'', Id 8)] [])]\<rparr>"

definition excerpt_report :: msg where
  "excerpt_report = [(1, VStr ''01F''), (3, VEnum 2), (6, VMsg [(1, VStr ''Mains''), (3, VInt (- 5))]),
     (11, VList [VMsg [(2, VStr ''Tamper'')], VMsg [(2, VStr ''Low light'')]])]"

lemma excerpt_enums: "enum_names_unique (xe_pool excerpt_env)"
  by (simp add: enum_names_unique_def pool_enums_def excerpt_env_def excerpt_def scalar_field_def)

lemma xml_round_trip_witness:
  "\<exists>cv e. new_converter excerpt_env ''StatusReport'' False = Inr cv
    \<and> message_to_element excerpt_env ALL_FIELDS ''sensor'' ''StatusReport'' excerpt_report (Some excerpt_ids) = (Inr e, Some excerpt_ids)
    \<and> from_elem excerpt_env cv e excerpt_ids (Some ''sensor'')
      = Inr (excerpt_report, \<lparr>cv_cache = descriptor_cache cv, cv_errors = [], cv_gen = excerpt_ids\<rparr>)"
proof -
  obtain cv where cv: "new_converter excerpt_env ''StatusReport'' False = Inr cv" using excerpt_converter by blast
  have "carried_msg excerpt_env ALL_FIELDS excerpt_ids ''sensor'' ''StatusReport'' excerpt_report" by code_simp
  from cv xml_round_trip [OF cv sane_excerpt excerpt_enums this] show ?thesis by blast
qed
end
