(* ===== verification/ApexXmlUp.thy ===== *)
theory ApexXmlUp
  imports ApexXml
begin

text \<open>
  The translation of an XML message of version 6 to a protobuf message of version 1
  (\<open>sapient_apex_server/translator/xml_to_bsi_flex_v1.py\<close>): the element is first rewritten so that it
  reads as a \<open>SapientMessage\<close>, then the converter reads it.
\<close>

section \<open>Parts of elements\<close>

text \<open>\<open>e.find(name).attribute\<close>, \<open>e.attrib[name]\<close>, \<open>int(e.text)\<close>\<close>

definition kid_for :: "string \<Rightarrow> string \<Rightarrow> element \<Rightarrow> element res" where
  "kid_for attribute t e = (case find_kid t e of None \<Rightarrow> Inl (no_attr ''NoneType'' attribute) | Some k \<Rightarrow> Inr k)"

definition attr_at :: "string \<Rightarrow> element \<Rightarrow> string res" where
  "attr_at k e = (case map_of (attrs e) k of None \<Rightarrow> Inl (key_error k) | Some v \<Rightarrow> Inr v)"

definition int_of_opt :: "string option \<Rightarrow> int res" where
  "int_of_opt s = (case s of
      None \<Rightarrow> Inl (type_error (''int() argument must be a string, a bytes-like object or a real number, not '' @ quoted ''NoneType''))
    | Some t \<Rightarrow> int_of_text t)"

definition not_an_element :: "string \<Rightarrow> exn" where
  "not_an_element method = type_error (method @ ''() argument must be xml.etree.ElementTree.Element, not None'')"

section \<open>Regions\<close>

definition wrap_region :: "string \<Rightarrow> element \<Rightarrow> element res" where
  "wrap_region proto_region_name xml_region =
     (let wrapped = (\<lambda>t l. append_kid (append_kid l (new_element proto_region_name)) (remove_kid t xml_region))
      in case find_kid ''locationList'' xml_region of
           Some loc_list \<Rightarrow> Inr (wrapped ''locationList'' loc_list)
         | None \<Rightarrow> (case find_kid ''rangeBearingCone'' xml_region of
             Some rb_cone \<Rightarrow> Inr (wrapped ''rangeBearingCone'' rb_cone)
           | None \<Rightarrow> Inl (not_an_element ''append'')))"

definition populate_region :: "string \<Rightarrow> string \<Rightarrow> element \<Rightarrow> element res" where
  "populate_region xml_region_name proto_region_name = change_kids xml_region_name (wrap_region proto_region_name)"

section \<open>The sender\<close>

text \<open>The text of the node and the errors, with the element that is left. \<open>fresh\<close> is \<open>uuid4\<close>.\<close>

definition source_of :: "element \<Rightarrow> (int \<times> element) res" where
  "source_of x = (case find_kid ''sourceID'' x of
      Some e \<Rightarrow> bindE (int_of_opt (etext e)) (\<lambda>i. Inr (i, remove_kid ''sourceID'' x))
    | None \<Rightarrow> bindE (kid_for ''text'' ''sensorID'' x) (\<lambda>e. bindE (int_of_opt (etext e)) (\<lambda>i. Inr (i, remove_kid ''sensorID'' x))))"

definition no_ulid_error :: "int \<Rightarrow> string" where
  "no_ulid_error i = ''Sensor with ID ['' @ show_int i @ ''] has no corresponding ULID.''"

definition get_message_ulid ::
  "(id_generator \<Rightarrow> string) \<Rightarrow> element \<Rightarrow> id_generator \<Rightarrow> ((string option \<times> string list) \<times> element) res \<times> id_generator" where
  "get_message_ulid fresh x g =
     (case source_of x of
        Inl e \<Rightarrow> (Inl e, g)
      | Inr (i, x1) \<Rightarrow>
          if list_ex (\<lambda>e. id_number (snd e) = i) (node_id_map g)
          then (bindE (get_ulid_from_id (node_id_map g) i) (\<lambda>u. Inr ((u, []), x1)), g)
          else if has_tag ''SensorRegistration'' x
          then (Inr ((Some (fresh g), []), x1), g\<lparr>node_id_map := AList.update (fresh g) (new_mapping i) (node_id_map g)\<rparr>)
          else (Inr ((Some [], [no_ulid_error i]), x1), g))"

section \<open>Registrations\<close>

definition get_enum_names :: "descriptor \<Rightarrow> (string, string list) odict" where
  "get_enum_names d = fold (\<lambda>f m. case fd_enum f of
      None \<Rightarrow> m | Some en \<Rightarrow> AList.update (fd_camelcase f) (map (get_enum_value_xml_name en) (en_values en)) m) (de_fields d) []"

definition add_location_type_field :: "(string, string list) odict \<Rightarrow> string \<Rightarrow> element \<Rightarrow> element res" where
  "add_location_type_field names field e =
     (if names = [] then Inr e
      else bindE (attr_at field e) (\<lambda>v.
        case fold (\<lambda>(k, ns) elem_name. if v \<in> set ns then Some k else elem_name) names None of
          None \<Rightarrow> Inr e | Some k \<Rightarrow> Inr (del_attr field (set_attr k v e))))"

definition convert_location_type :: "(string, string list) odict \<Rightarrow> element \<Rightarrow> element res" where
  "convert_location_type names e =
     bindE (add_location_type_field names ''units'' (set_attr ''datum'' ''WGS84 Ellipsoid'' e)) (\<lambda>e1.
     bindE (add_location_type_field names ''datum'' e1) (\<lambda>e2. Inr (set_text None e2)))"

definition move_units :: "element \<Rightarrow> element res" where
  "move_units e = (case find_kid ''confidence'' e of
      None \<Rightarrow> Inr e
    | Some c \<Rightarrow> bindE (attr_at ''units'' c) (\<lambda>u. Inr (remove_kid ''confidence'' (set_attr ''units'' u e))))"

text \<open>The \<open>completionTime\<close> element is a child of the command from its creation on; here it is kept apart
  and appended at the end.\<close>

definition fix_completion_time :: "string \<Rightarrow> string \<Rightarrow> element \<times> element option \<Rightarrow> element \<times> element option" where
  "fix_completion_time attrib_name name ct =
     (case ct of (command, elem) \<Rightarrow> (case map_of (attrs command) attrib_name of
        None \<Rightarrow> (command, elem)
      | Some v \<Rightarrow> (del_attr attrib_name command,
                   Some (set_attr name v (case elem of None \<Rightarrow> new_element ''completionTime'' | Some e \<Rightarrow> e)))))"

definition convert_command :: "string list \<Rightarrow> element \<Rightarrow> element res" where
  "convert_command names command =
     (case fix_completion_time ''completionTimeUnits'' ''units'' (fix_completion_time ''completionTime'' ''value'' (command, None)) of
        (c, elem) \<Rightarrow>
          let c1 = (case elem of None \<Rightarrow> c | Some e \<Rightarrow> append_kid e c)
          in bindE (attr_at ''name'' c1) (\<lambda>n. Inr (set_attr ''type'' (if title n \<in> set names then title n else ''Request'') c1)))"

definition convert_class_performance :: "element \<Rightarrow> element res" where
  "convert_class_performance e =
     bindE (attr_at ''unitValue'' e) (\<lambda>v. Inr (remove_kids ''performanceValue'' (del_attr ''unitValue'' (set_attr ''value'' v e))))"

text \<open>The attributes of the new elements for one \<open>detectionPerformance\<close>.\<close>

definition performances :: "element \<Rightarrow> (string \<times> string) list list res" where
  "performances e =
     mapE (\<lambda>p. bindE (attr_at ''type'' p) (\<lambda>t. bindE (attr_at ''value'' p) (\<lambda>v.
        Inr (AList.update ''value'' v (AList.update ''type'' t (attrs e)))))) (filter (has_tag ''performanceValue'') (kids e))"

definition convert_detection :: "element \<Rightarrow> element res" where
  "convert_detection e =
     bindE (iter_removing performances ''detectionPerformance'' (kids e)) (\<lambda>(left, new).
       Inr (set_kids (left @ map (\<lambda>a. Element (Some ''detectionPerformance'') a None None []) (concat new)) e))"

definition performance_units :: "element \<Rightarrow> element res" where
  "performance_units e = bindE (attr_at ''type'' e) (\<lambda>t. Inr (set_attr ''units'' t e))"

fun lower_attrs :: "element \<Rightarrow> element" where
  "lower_attrs (Element g a x t ks) = Element g (fold (\<lambda>(k, v). AList.update (map lower_char k) v) a []) x t ks"

definition nest_node_types :: "element \<Rightarrow> element" where
  "nest_node_types x =
     (let node_types = filter (has_tag ''nodeType'') (kids x)
      in if node_types = [] then x
         else append_kid (set_kids node_types (new_element ''nodeDefinition'')) (remove_kids ''nodeType'' x))"

text \<open>The descriptors of \<open>Registration.LocationType\<close> and \<open>Registration.Command\<close> are arguments.\<close>

definition populate_registration_fields :: "descriptor \<Rightarrow> descriptor \<Rightarrow> element \<Rightarrow> element res" where
  "populate_registration_fields location_type command x =
     bindE (for_iter ''locationType'' (convert_location_type (get_enum_names location_type)) (nest_node_types x)) (\<lambda>x.
     bindE (for_iter ''classDefinition'' move_units x) (\<lambda>x.
     bindE (for_iter ''subClassDefinition'' move_units x) (\<lambda>x.
     bindE (for_iter ''behaviourDefinition'' move_units x) (\<lambda>x.
     bindE (case map_of (get_enum_names command) ''type'' of None \<Rightarrow> Inl (key_error ''type'') | Some ns \<Rightarrow> Inr (map title ns)) (\<lambda>names.
     bindE (for_iter ''command'' (convert_command names) x) (\<lambda>x.
     bindE (for_iter ''classPerformance'' convert_class_performance x) (\<lambda>x.
     bindE (for_iter ''detectionDefinition'' convert_detection x) (\<lambda>x.
     bindE (for_iter ''performanceValue'' performance_units x) (\<lambda>x.
       for_iter ''capabilities'' (\<lambda>e. Inr (lower_attrs e)) x)))))))))"

definition complete_registration :: "element \<Rightarrow> element res" where
  "complete_registration x =
     (let x1 = (if find_kid ''icdVersion'' x = None then append_kid (text_element ''icdVersion'' (Some ''BSI Flex 335 v1.0'')) x else x)
      in if find_kid ''nodeDefinition'' x1 \<noteq> None then Inr x1
         else bindE (kid_for ''text'' ''sensorType'' x1) (\<lambda>s.
           Inr (append_kid (set_kids [text_element ''nodeType'' (Some ''Other''), text_element ''nodeSubType'' (etext s)]
                              (new_element ''nodeDefinition'')) x1)))"

section \<open>The other kinds of messages\<close>

text \<open>\<open>del sub_class.attrib["value"]\<close>, \<open>e.remove(e.find(name))\<close>\<close>

definition del_attr_at :: "string \<Rightarrow> element \<Rightarrow> element res" where
  "del_attr_at k e = (if map_of (attrs e) k = None then Inl (key_error k) else Inr (del_attr k e))"

definition remove_found :: "string \<Rightarrow> element \<Rightarrow> element res" where
  "remove_found t e = (if find_kid t e = None then Inl (not_an_element ''remove'') else Inr (remove_kid t e))"

definition convert_detection_report :: "element \<Rightarrow> element res" where
  "convert_detection_report = change_kids ''class'' (change_kids ''subClass'' (del_attr_at ''value''))"

definition convert_associated :: "element \<Rightarrow> element res" where
  "convert_associated = change_kids ''associatedDetection'' (\<lambda>a. bindE (remove_found ''location'' a) (remove_found ''description''))"

definition task_number :: "element \<Rightarrow> int res" where
  "task_number x = bindE (kid_for ''text'' ''taskID'' x) (\<lambda>e. int_of_opt (etext e))"

text \<open>The number of a task in the dictionary of a node.\<close>

definition insert_task :: "string \<Rightarrow> element \<Rightarrow> string option \<Rightarrow> id_generator \<Rightarrow> unit res \<times> id_generator" where
  "insert_task u x node g =
     (case task_number x of
        Inl e \<Rightarrow> (Inl e, g)
      | Inr i \<Rightarrow> (case node_object ''task_id_map'' node g of
          Inl e \<Rightarrow> (Inl e, g)
        | Inr n \<Rightarrow> (Inr (), insert_new_ulid_id_pair u i (TaskIds n) (is_node_id_map ''task_id'') g)))"

definition object_parameter :: "id_generator \<Rightarrow> element \<Rightarrow> element res" where
  "object_parameter g x =
     (case find_kid ''command'' x of
        None \<Rightarrow> Inr x
      | Some c \<Rightarrow> (case find_kid ''objectID'' c of
          None \<Rightarrow> Inr x
        | Some ob \<Rightarrow>
            bindE (int_of_opt (etext ob)) (\<lambda>i. bindE (get_ulid_from_id (node_id_map g) i) (\<lambda>u.
              Inr (change_kid ''command'' (\<lambda>c. remove_kid ''objectID'' (append_kid (text_element ''commandParameter'' u) c)) x)))))"

text \<open>The rewritten message with the texts of \<open>nodeId\<close> and \<open>destinationId\<close>. \<open>task\<close> is the new ULID.\<close>

definition convert_task ::
  "string \<Rightarrow> string option \<Rightarrow> element \<Rightarrow> id_generator \<Rightarrow> (element \<times> string option \<times> string option option) res \<times> id_generator" where
  "convert_task task node x g =
     (case bindE (populate_region ''region'' ''regionArea'' x) (\<lambda>x1. bindE (get_ulid_from_id (node_id_map g) 0) (\<lambda>u. Inr (x1, u))) of
        Inl e \<Rightarrow> (Inl e, g)
      | Inr (x1, sender) \<Rightarrow>
          (case insert_task task x1 node g of
             (Inl e, g1) \<Rightarrow> (Inl e, g1)
           | (Inr _, g1) \<Rightarrow>
               (case insert_task task x1 sender g1 of
                  (Inl e, g2) \<Rightarrow> (Inl e, g2)
                | (Inr _, g2) \<Rightarrow> (bindE (object_parameter g2 x1) (\<lambda>x2. Inr (x2, sender, Some node)), g2))))"

record up_env =
  up_xml :: xml_env
  up_converter :: converter
  location_type_desc :: descriptor
  command_desc :: descriptor
  up_uuid :: "id_generator \<Rightarrow> string"
  up_ulid :: "id_generator \<Rightarrow> string"

definition convert_content ::
  "up_env \<Rightarrow> string option \<Rightarrow> element \<Rightarrow> id_generator \<Rightarrow> (element \<times> string option \<times> string option option) res \<times> id_generator" where
  "convert_content env node x g =
     (let same = (\<lambda>r. (bindE r (\<lambda>x1. Inr (x1, node, None)), g))
      in if has_tag ''SensorRegistration'' x
         then same (bindE (populate_registration_fields (location_type_desc env) (command_desc env) x) complete_registration)
         else if has_tag ''StatusReport'' x
         then same (bindE (populate_region ''statusRegion'' ''region'' x) (\<lambda>x1. Inr (remove_kids ''statusRegion'' x1)))
         else if has_tag ''DetectionReport'' x then same (convert_detection_report x)
         else if has_tag ''Alert'' x
         then (bindE (get_ulid_from_id (node_id_map g) 0) (\<lambda>u. bindE (convert_associated x) (\<lambda>x1. Inr (x1, u, Some node))), g)
         else if has_tag ''SensorTask'' x then convert_task (up_ulid env g) node x g
         else same (Inr x))"

definition unspecified :: "element \<Rightarrow> element res" where
  "unspecified location =
     (let add = (\<lambda>t e. if find_kid t e = None then append_kid (text_element t (Some ''Unspecified'')) e else e)
      in Inr (add ''datum'' (add ''coordinateSystem'' location)))"

definition mark_locations :: "element \<Rightarrow> element res" where
  "mark_locations x =
     bindE (for_iter ''location'' unspecified x) (\<lambda>x. bindE (for_iter ''rangeBearing'' unspecified x) (for_iter ''rangeBearingCone'' unspecified))"

definition wrapped_message :: "string option \<Rightarrow> string option \<Rightarrow> element \<Rightarrow> string option option \<Rightarrow> element" where
  "wrapped_message time node x dest =
     indent (set_kids ([text_element ''timestamp'' time, text_element ''nodeId'' node, x]
       @ (case dest of None \<Rightarrow> [] | Some d \<Rightarrow> [text_element ''destinationId'' d])) (new_element ''SapientMessage''))"

text \<open>The rewritten element with the text of \<open>nodeId\<close>, or errors.\<close>

definition xml_message_preprocessing ::
  "up_env \<Rightarrow> element \<Rightarrow> id_generator \<Rightarrow> ((element \<times> string option) + string list) res \<times> id_generator" where
  "xml_message_preprocessing env x g =
     (case kid_for ''text'' ''timestamp'' x of
        Inl e \<Rightarrow> (Inl e, g)
      | Inr t \<Rightarrow>
          (case get_message_ulid (up_uuid env) (remove_kid ''timestamp'' x) g of
             (Inl e, g1) \<Rightarrow> (Inl e, g1)
           | (Inr ((node, errs), x1), g1) \<Rightarrow>
               if errs \<noteq> [] then (Inr (Inr errs), g1)
               else (case convert_content env node x1 g1 of
                       (r, g2) \<Rightarrow> (bindE r (\<lambda>(x2, sender, dest). bindE (mark_locations x2) (\<lambda>x3.
                          Inr (Inl (wrapped_message (etext t) sender x3 dest, sender)))), g2))))"

text \<open>\<open>translate\<close>. When the preprocessing reports errors, the message is one of the base class, without
  descriptor.\<close>

datatype translated_message = BaseMessage | SapientMessage msg

definition translate_up :: "up_env \<Rightarrow> element \<Rightarrow> id_generator \<Rightarrow> (translated_message \<times> string list) res \<times> id_generator" where
  "translate_up env x g =
     (case xml_message_preprocessing env x g of
        (Inl e, g1) \<Rightarrow> (Inl e, g1)
      | (Inr (Inr errs), g1) \<Rightarrow> (Inr (BaseMessage, errs), g1)
      | (Inr (Inl (y, node)), g1) \<Rightarrow>
          (case from_elem (up_xml env) (up_converter env) y g1 node of
             Inl e \<Rightarrow> (Inl e, g1)
           | Inr (m, st) \<Rightarrow> (Inr (SapientMessage m, cv_errors st), cv_gen st)))"

end
