(* ===== verification/ApexXmlDown.thy ===== *)
theory ApexXmlDown
  imports ApexXmlUp
begin

text \<open>
  The translation of a protobuf message of version 1 to an XML message of version 6
  (\<open>sapient_apex_server/translator/bsi_flex_v1_to_xml.py\<close>): the content is written as an element, which
  is then rewritten to what version 6 has.
\<close>

section \<open>The wrapper of a message\<close>

text \<open>The fields of a \<open>SapientMessage\<close> by name; one that is not set reads as its default.\<close>

definition field_at :: "descriptor \<Rightarrow> string \<Rightarrow> msg \<Rightarrow> field_value option" where
  "field_at d name m = (case List.find (\<lambda>f. fd_field f = name) (de_fields d) of
      None \<Rightarrow> None | Some f \<Rightarrow> map_of m (fd_number f))"

definition text_at :: "descriptor \<Rightarrow> string \<Rightarrow> msg \<Rightarrow> string" where
  "text_at d name m = (case field_at d name m of Some (VStr s) \<Rightarrow> s | _ \<Rightarrow> [])"

definition time_at :: "descriptor \<Rightarrow> string \<Rightarrow> msg \<Rightarrow> int" where
  "time_at d name m = (case field_at d name m of Some (VTime t) \<Rightarrow> t | _ \<Rightarrow> 0)"

text \<open>\<open>WhichOneof("content")\<close> and the message of that field.\<close>

definition content_entry :: "descriptor \<Rightarrow> msg \<Rightarrow> (field_descriptor \<times> field_value) option" where
  "content_entry d m =
     first_of (\<lambda>f. if fd_oneof f = Some ''content'' then map_option (Pair f) (map_of m (fd_number f)) else None) (de_fields d)"

section \<open>The identifiers\<close>

definition register_node :: "string \<Rightarrow> id_generator \<Rightarrow> id_generator" where
  "register_node n g =
     (if map_of (node_id_map g) n \<noteq> None then g
      else case get_next_id g of (i, g1) \<Rightarrow> insert_new_ulid_id_pair n i NodeIds True g1)"

definition proto_message_preprocessing :: "descriptor \<Rightarrow> msg \<Rightarrow> id_generator \<Rightarrow> id_generator" where
  "proto_message_preprocessing d m g = register_node (text_at d ''destination_id'' m) (register_node (text_at d ''node_id'' m) g)"

definition number_of_node :: "id_generator \<Rightarrow> string \<Rightarrow> string res" where
  "number_of_node g n = (case map_of (node_id_map g) n of
      None \<Rightarrow> Inl (key_error n) | Some v \<Rightarrow> bindE (xml_id v) (\<lambda>i. Inr (show_int i)))"

section \<open>Rewriting the element\<close>

definition unwrap_region :: "element \<Rightarrow> element res" where
  "unwrap_region region =
     bindE (kid_for ''find'' ''regionArea'' region) (\<lambda>area.
       let outer = remove_kid ''regionArea'' region
       in Inr (case find_kid ''locationList'' area of
            Some loc_list \<Rightarrow> append_kid loc_list outer
          | None \<Rightarrow> (case find_kid ''rangeBearingCone'' area of Some rb_cone \<Rightarrow> append_kid rb_cone outer | None \<Rightarrow> outer)))"

definition value_of_type :: "element \<Rightarrow> element res" where
  "value_of_type e = bindE (attr_at ''type'' e) (\<lambda>t. Inr (set_attr ''value'' t e))"

text \<open>The texts of the node types go to new elements at the end of the registration.\<close>

definition lift_node_types :: "element \<Rightarrow> element res" where
  "lift_node_types x =
     bindE (iter_removing (\<lambda>d. Inr (map_option etext (find_kid ''nodeType'' d))) ''nodeDefinition'' (kids x)) (\<lambda>(left, types).
       Inr (set_kids (left @ map (text_element ''nodeType'') (List.map_filter (\<lambda>t. t) types)) x))"

definition restore_location_type :: "element \<Rightarrow> element res" where
  "restore_location_type e =
     (let e1 = (case map_of (attrs e) ''locationUnits'' of None \<Rightarrow> e
                | Some u \<Rightarrow>
                    let s = (if u = ''UTM'' then ''UTM'' else ''GPS'')
                    in set_attr ''value'' s (set_text (Some s) (set_attr ''units'' u e)))
      in Inr (case map_of (attrs e1) ''locationDatum'' of None \<Rightarrow> e1 | Some v \<Rightarrow> set_attr ''datum'' v e1))"

definition rewrite_content :: "element \<Rightarrow> element res" where
  "rewrite_content x =
     (if has_tag ''SensorTask'' x then change_kids ''region'' unwrap_region x
      else if has_tag ''DetectionReport'' x then for_iter ''subClass'' value_of_type x
      else if has_tag ''SensorRegistration'' x then bindE (lift_node_types x) (for_iter ''locationType'' restore_location_type)
      else Inr x)"

text \<open>The element that names a node, and which one it names.\<close>

definition id_element :: "element \<Rightarrow> string \<times> string" where
  "id_element x =
     (if tag x \<in> {Some ''Alert'', Some ''AlertResponse'', Some ''DetectionReport'', Some ''StatusReport''} then (''sourceID'', ''node_id'')
      else if tag x \<in> {Some ''SensorTask'', Some ''SensorTaskACK''} then (''sensorID'', ''destination_id'')
      else (''sensorID'', ''node_id''))"

definition translation_postprocessing :: "descriptor \<Rightarrow> element \<Rightarrow> msg \<Rightarrow> id_generator \<Rightarrow> element res" where
  "translation_postprocessing d x m g =
     bindE (time_text (time_at d ''timestamp'' m)) (\<lambda>t.
     case id_element x of (name, source) \<Rightarrow>
     bindE (number_of_node g (text_at d source m)) (\<lambda>i.
       rewrite_content (indent (append_kid (text_element name (Some i)) (append_kid (text_element ''timestamp'' (Some t)) x)))))"

definition no_content :: exn where
  "no_content = type_error (''attribute name must be string, not '' @ quoted ''NoneType'')"

definition translate_down :: "xml_env \<Rightarrow> string \<Rightarrow> msg \<Rightarrow> id_generator \<Rightarrow> element res \<times> id_generator" where
  "translate_down env n m g =
     (let d = desc_of (xe_pool env) n; g1 = proto_message_preprocessing d m g;
          ids_after = (\<lambda>g2. case g2 of None \<Rightarrow> g1 | Some h \<Rightarrow> h)
      in case content_entry d m of
           Some (f, VMsg c) \<Rightarrow>
             (case message_to_element env OFFICIAL (text_at d ''node_id'' m) (fd_message f) c (Some g1) of
                (Inl e, g2) \<Rightarrow> (Inl e, ids_after g2)
              | (Inr x, g2) \<Rightarrow> (translation_postprocessing d x m (ids_after g2), ids_after g2))
         | _ \<Rightarrow> (Inl no_content, g1))"

end
