(* ===== verification/ApexXmlIds.thy ===== *)
theory ApexXmlIds
  imports ApexXmlRead ApexXmlDown
begin

text \<open>
  What the two translators do to the identifiers (\<open>sapient_apex_server/translator\<close>): the number of a
  sensor goes on naming the same node, and the number of a task is known to both of its ends.
\<close>

section \<open>The entries of the nodes\<close>

text \<open>An entry without the dictionaries of the node.\<close>

definition node_entry :: "string \<times> id_value \<Rightarrow> string \<times> bool \<times> int" where
  "node_entry e = (fst e, is_Id (snd e), id_number (snd e))"

definition keeps_nodes :: "id_generator \<Rightarrow> id_generator \<Rightarrow> bool" where
  "keeps_nodes g g1 \<longleftrightarrow> prefix (map node_entry (node_id_map g)) (map node_entry (node_id_map g1))"

lemma node_entry_pair [simp]: "node_entry (k, v) = (k, is_Id v, id_number v)"
  by (simp add: node_entry_def)

lemma keeps_refl [simp]: "keeps_nodes g g"
  by (simp add: keeps_nodes_def)

lemma keeps_trans: "keeps_nodes g g1 \<Longrightarrow> keeps_nodes g1 g2 \<Longrightarrow> keeps_nodes g g2"
  by (auto simp: keeps_nodes_def)

lemma keeps_all [simp]: "keeps_nodes g (h\<lparr>all_ids_map := m\<rparr>) = keeps_nodes g h" "keeps_nodes g (h\<lparr>next_id := i\<rparr>) = keeps_nodes g h"
  by (simp_all add: keeps_nodes_def)

lemma keeps_rtranclp:
  assumes "\<And>g g1. R g g1 \<Longrightarrow> keeps_nodes g g1" "rtranclp R g g1"
  shows "keeps_nodes g g1"
  using assms(2) by (induction rule: rtranclp_induct) (auto intro: keeps_trans assms(1))

text \<open>A name that is not there yet.\<close>

definition unused :: "id_generator \<Rightarrow> string \<Rightarrow> bool" where
  "unused g u \<longleftrightarrow> u \<notin> fst ` set (node_id_map g)"

lemma update_unused: "u \<notin> fst ` set m \<Longrightarrow> AList.update u v m = m @ [(u, v)]"
  by (induction m) auto

lemma keeps_new_node: "unused g u \<Longrightarrow> keeps_nodes g (g\<lparr>node_id_map := AList.update u v (node_id_map g)\<rparr>)"
  by (simp add: keeps_nodes_def unused_def update_unused)

lemma keeps_change_node:
  assumes "\<And>v. is_Id (f v) = is_Id v \<and> id_number (f v) = id_number v"
  shows "keeps_nodes g (change_node n f g)"
proof -
  have "map node_entry (node_id_map (change_node n f g)) = map node_entry (node_id_map g)"
    by (auto simp: change_node_def node_entry_def assms split: if_splits)
  then show ?thesis by (simp only: keeps_nodes_def prefix_order.refl)
qed

lemma with_facts:
  "is_Id (with_tasks m v) = is_Id v" "id_number (with_tasks m v) = id_number v" "is_Id (with_reports m v) = is_Id v"
  "id_number (with_reports m v) = id_number v" "is_Id (with_objects m v) = is_Id v" "id_number (with_objects m v) = id_number v"
  by (cases v; simp)+

lemma keeps_update:
  assumes "r = NodeIds \<Longrightarrow> unused g u"
  shows "keeps_nodes g (set_map r (AList.update u v (get_map r g)) g)"
proof (cases r)
  case NodeIds
  with assms keeps_new_node show ?thesis by simp
qed (simp_all add: keeps_change_node with_facts, simp_all add: keeps_nodes_def)

lemma keeps_insert: "(r = NodeIds \<Longrightarrow> unused g u) \<Longrightarrow> keeps_nodes g (insert_new_ulid_id_pair u i r node g)"
  by (simp add: insert_new_ulid_id_pair_def keeps_update)

section \<open>Reading and writing values\<close>

definition new_names :: "xml_env \<Rightarrow> bool" where
  "new_names env \<longleftrightarrow> (\<forall>g. unused g (xe_ulid env g))"

lemma read_ulid_ids:
  "snd (read_ulid env f s node g) = g
    \<or> (\<exists>r i. snd (read_ulid env f s node g) = insert_new_ulid_id_pair (xe_ulid env g) i r (is_node_id_map (fd_field f)) g)"
proof (cases "map_for (fd_field f) node g")
  case (Inr x)
  show ?thesis
  proof (cases x)
    case (IdMap r)
    show ?thesis
      unfolding read_ulid_def Inr IdMap sum.case registered_map.case Let_def by (auto split: sum.split option.split)
  qed (simp add: read_ulid_def Inr)
qed (simp add: read_ulid_def)

lemma read_step_keeps: "new_names env \<Longrightarrow> read_step env g g1 \<Longrightarrow> keeps_nodes g g1"
  using read_ulid_ids [of env _ _ _ g] unfolding read_step_def new_names_def by (metis keeps_insert keeps_refl)

definition write_step :: "id_generator \<Rightarrow> id_generator \<Rightarrow> bool" where
  "write_step g g1 \<longleftrightarrow> (\<exists>f u node. snd (write_ulid f u node g) = g1)"

lemma write_ulid_ids:
  "snd (write_ulid f u node g) = g
    \<or> (\<exists>r i v. map_of (get_map r g) u = None \<and> snd (write_ulid f u node g) = set_map r (AList.update u v (get_map r (g\<lparr>next_id := i\<rparr>))) (g\<lparr>next_id := i\<rparr>))"
proof (cases "map_for (fd_field f) node g")
  case (Inr x)
  show ?thesis
  proof (cases x)
    case (IdMap r)
    show ?thesis
    proof (cases "map_of (get_map r g) u")
      case None
      then have "snd (write_ulid f u node g)
          = set_map r (AList.update u (Id (next_id g + 1)) (get_map r (g\<lparr>next_id := next_id g + 1\<rparr>))) (g\<lparr>next_id := next_id g + 1\<rparr>)"
        by (simp add: write_ulid_def Inr IdMap get_next_id_def)
      with None show ?thesis by blast
    next
      case (Some v)
      then show ?thesis by (cases v) (simp_all add: write_ulid_def Inr IdMap)
    qed
  qed (simp add: write_ulid_def Inr)
qed (simp add: write_ulid_def)

lemma write_step_keeps:
  assumes "write_step g g1"
  shows "keeps_nodes g g1"
proof -
  have "keeps_nodes g (set_map r (AList.update u v (get_map r (g\<lparr>next_id := i\<rparr>))) (g\<lparr>next_id := i\<rparr>))"
    if "map_of (get_map r g) u = None" for r u v i
  proof -
    have "r = NodeIds \<Longrightarrow> unused (g\<lparr>next_id := i\<rparr>) u" using that by (simp add: unused_def map_of_eq_None_iff)
    then have "keeps_nodes (g\<lparr>next_id := i\<rparr>) (set_map r (AList.update u v (get_map r (g\<lparr>next_id := i\<rparr>))) (g\<lparr>next_id := i\<rparr>))"
      by (rule keeps_update)
    then show ?thesis by (simp add: keeps_nodes_def)
  qed
  with assms write_ulid_ids [of _ _ _ g] show ?thesis unfolding write_step_def by (metis keeps_refl)
qed

lemma value_text_writes: "value_text env f v node (Some g) = (r, g1) \<Longrightarrow> \<exists>h. g1 = Some h \<and> rtranclp write_step g h"
proof -
  assume a: "value_text env f v node (Some g) = (r, g1)"
  show ?thesis
  proof (cases "is_ulid (fd_options f) \<and> (\<exists>u. v = VStr u)")
    case True
    then obtain u where "v = VStr u" by blast
    with a True have "g1 = Some (snd (write_ulid f u (Some node) g))" by (auto simp: value_text_def split: prod.splits)
    moreover have "write_step g (snd (write_ulid f u (Some node) g))" unfolding write_step_def by blast
    ultimately show ?thesis by blast
  next
    case False
    with a have "g1 = Some g" by (auto simp: value_text_def split: if_splits field_value.splits)
    then show ?thesis by simp
  qed
qed

definition writes :: "id_generator option \<Rightarrow> id_generator option \<Rightarrow> bool" where
  "writes g g1 \<longleftrightarrow> (\<forall>h. g = Some h \<longrightarrow> (\<exists>h1. g1 = Some h1 \<and> rtranclp write_step h h1))"

lemma writes_refl [simp]: "writes g g"
  by (simp add: writes_def)

lemma writes_trans: "writes g g1 \<Longrightarrow> writes g1 g2 \<Longrightarrow> writes g g2"
  unfolding writes_def by (blast intro: rtranclp_trans)

lemma value_writes: "value_text env f v node g = (r, g1) \<Longrightarrow> writes g g1"
  using value_text_writes unfolding writes_def by blast

lemma message_writes:
  "write_message env w node d m e g = (r, g1) \<Longrightarrow> writes g g1"
  "write_values env w node f name vs e g = (r, g1) \<Longrightarrow> writes g g1"
  "write_field env w node f name v e g = (r, g1) \<Longrightarrow> writes g g1"
proof (induction env w node d m e g and env w node f name vs e g and env w node f name v e g arbitrary: r g1 and r g1 and r g1
    rule: write_message_write_values_write_field.induct)
  case (2 env w node d n v m elem g)
  show ?case
  proof (cases "find_number n d")
    case None
    with 2 show ?thesis by simp
  next
    case (Some f)
    let ?p = "if xml_singly_nested (fd_options f) = [] then elem else new_element (get_field_xml_name f)"
      and ?name = "if xml_singly_nested (fd_options f) = [] then get_field_xml_name f else xml_singly_nested (fd_options f)"
    let ?w = "if fd_repeated f then (case v of VList vs \<Rightarrow> write_values env w node f ?name vs ?p g | _ \<Rightarrow> (Inl ill_typed, g))
      else write_field env w node f ?name v ?p g"
    obtain r0 g0 where r0: "?w = (r0, g0)" by fastforce
    have one: "writes g g0"
    proof (cases "fd_repeated f")
      case True
      with r0 "2.IH"(2) [OF Some refl refl refl True] show ?thesis by (cases v) auto
    next
      case False
      with r0 "2.IH"(3) [OF Some refl refl refl False] show ?thesis by simp
    qed
    show ?thesis
    proof (cases r0)
      case (Inl x)
      with "2.prems" Some r0 have "g1 = g0" by (simp add: Let_def)
      with one show ?thesis by simp
    next
      case (Inr p)
      with "2.prems" Some r0
      have "write_message env w node d m (if xml_singly_nested (fd_options f) = [] then p else append_kid p elem) g0 = (r, g1)"
        by (simp add: Let_def)
      with "2.IH"(4) [OF Some refl refl refl r0 [symmetric] Inr] one writes_trans show ?thesis by blast
    qed
  qed
next
  case (4 env w node f name v vs parent g)
  obtain r0 g0 where r0: "write_field env w node f name v parent g = (r0, g0)" by fastforce
  with "4.IH"(1) have one: "writes g g0" by blast
  show ?case
  proof (cases r0)
    case (Inl x)
    with "4.prems" r0 one show ?thesis by simp
  next
    case (Inr p)
    with "4.prems" r0 have "write_values env w node f name vs p g0 = (r, g1)" by simp
    with "4.IH"(2) [OF r0 [symmetric] Inr] one writes_trans show ?thesis by blast
  qed
next
  case (5 env w node f name v parent g)
  consider "field_ignored w f" | "\<not> field_ignored w f" "fd_kind f = TYPE_MESSAGE \<and> \<not> is_proto_time (fd_options f)"
    | "\<not> field_ignored w f" "\<not> (fd_kind f = TYPE_MESSAGE \<and> \<not> is_proto_time (fd_options f))" by blast
  then show ?case
  proof cases
    case 1
    with "5.prems" show ?thesis by simp
  next
    case 2
    show ?thesis
    proof (cases "\<exists>m. v = VMsg m")
      case True
      then obtain m where v: "v = VMsg m" by blast
      obtain r0 g0 where r0: "write_message env w node (desc_of (xe_pool env) (fd_message f)) m (new_element name) g = (r0, g0)" by fastforce
      with "5.prems" 2 v have "g1 = g0" by (cases r0) simp_all
      with "5.IH" [OF 2 v r0] show ?thesis by simp
    next
      case False
      with "5.prems" 2 show ?thesis by (cases v) simp_all
    qed
  next
    case 3
    obtain r0 g0 where r0: "value_text env f v node g = (r0, g0)" by fastforce
    from 3(2) have "\<not> (fd_kind f = TYPE_MESSAGE \<and> \<not> is_proto_time (fd_options f))" .
    with "5.prems" 3(1) r0 have "g1 = g0" by (cases r0) (auto split: if_splits)
    with value_writes [OF r0] show ?thesis by simp
  qed
qed simp_all

lemma element_writes: "message_to_element env w node n m g = (r, g1) \<Longrightarrow> writes g g1"
  by (auto simp: message_to_element_def Let_def split: prod.splits sum.splits dest: message_writes(1))

section \<open>The translators\<close>

lemma insert_task_keeps: "insert_task u x node g = (r, g1) \<Longrightarrow> keeps_nodes g g1"
  by (auto simp: insert_task_def split: sum.splits intro!: keeps_insert)

lemma convert_task_keeps: "convert_task u node x g = (r, g1) \<Longrightarrow> keeps_nodes g g1"
  by (auto simp: convert_task_def split: sum.splits prod.splits dest!: insert_task_keeps intro: keeps_trans)

lemma convert_content_keeps: "convert_content env node x g = (r, g1) \<Longrightarrow> keeps_nodes g g1"
  by (auto simp: convert_content_def Let_def convert_task_keeps split: if_splits)

text \<open>Names for new nodes and other new ULIDs are names that are not in use; the converter is the one that
  the constructor builds.\<close>

definition good_env :: "up_env \<Rightarrow> bool" where
  "good_env env \<longleftrightarrow> new_names (up_xml env) \<and> (\<forall>g. unused g (up_uuid env g))
     \<and> (\<exists>n nested. new_converter (up_xml env) n nested = Inr (up_converter env))"

lemma message_ulid_keeps: "unused g (fresh g) \<Longrightarrow> get_message_ulid fresh x g = (r, g1) \<Longrightarrow> keeps_nodes g g1"
  by (auto simp: get_message_ulid_def keeps_new_node split: sum.splits prod.splits if_splits)

lemma up_after_ulid:
  assumes e: "good_env env" and t: "find_kid ''timestamp'' x \<noteq> None"
    and u: "get_message_ulid (up_uuid env) (remove_kid ''timestamp'' x) g = (r, g1)"
  shows "keeps_nodes g1 (snd (translate_up env x g))"
proof -
  obtain k where t': "kid_for ''text'' ''timestamp'' x = Inr k" using t by (auto simp: kid_for_def)
  obtain p g2 where p: "xml_message_preprocessing env x g = (p, g2)" by fastforce
  have k2: "keeps_nodes g1 g2"
    using p by (auto simp: xml_message_preprocessing_def t' u split: sum.splits prod.splits if_splits dest!: convert_content_keeps)
  show ?thesis
  proof (cases "\<exists>y node. p = Inr (Inl (y, node))")
    case True
    then obtain y node where y: "p = Inr (Inl (y, node))" by blast
    from e obtain n nested where c: "new_converter (up_xml env) n nested = Inr (up_converter env)" "new_names (up_xml env)"
      by (auto simp: good_env_def)
    from from_elem_reads [OF c(1), of y g2 node] obtain m st where
      m: "from_elem (up_xml env) (up_converter env) y g2 node = Inr (m, st)" "rtranclp (read_step (up_xml env)) g2 (cv_gen st)"
      by (auto simp: reads_def)
    have "keeps_nodes g2 (cv_gen st)" by (rule keeps_rtranclp [OF read_step_keeps [OF c(2)] m(2)])
    with k2 p y m(1) show ?thesis by (auto simp: translate_up_def intro: keeps_trans)
  next
    case False
    with k2 p show ?thesis by (auto simp: translate_up_def split: sum.splits prod.splits)
  qed
qed

lemma up_keeps:
  assumes "good_env env"
  shows "keeps_nodes g (snd (translate_up env x g))"
proof (cases "find_kid ''timestamp'' x")
  case None
  then show ?thesis by (simp add: translate_up_def xml_message_preprocessing_def kid_for_def)
next
  case (Some t)
  obtain r g1 where u: "get_message_ulid (up_uuid env) (remove_kid ''timestamp'' x) g = (r, g1)" by fastforce
  have "keeps_nodes g g1" using message_ulid_keeps [OF _ u] assms by (simp add: good_env_def)
  with up_after_ulid [OF assms _ u] Some show ?thesis by (auto intro: keeps_trans)
qed

lemma register_keeps: "keeps_nodes g (register_node u g)"
proof (cases "map_of (node_id_map g) u")
  case None
  have "unused (g\<lparr>next_id := next_id g + 1\<rparr>) u" using None by (simp add: unused_def map_of_eq_None_iff)
  from keeps_insert [of NodeIds, OF this] show ?thesis using None by (simp add: register_node_def get_next_id_def keeps_nodes_def)
qed (simp add: register_node_def)

lemma down_keeps: "keeps_nodes g (snd (translate_down env n m g))"
proof -
  let ?d = "desc_of (xe_pool env) n"
  let ?g = "proto_message_preprocessing ?d m g"
  have one: "keeps_nodes g ?g" unfolding proto_message_preprocessing_def by (rule keeps_trans [OF register_keeps register_keeps])
  have "keeps_nodes ?g h" if "message_to_element env w node k c (Some ?g) = (r, Some h)" for w node k c r h
    using element_writes [OF that] keeps_rtranclp [of write_step, OF write_step_keeps] by (auto simp: writes_def)
  then have opt: "keeps_nodes ?g (case g2 of None \<Rightarrow> ?g | Some h \<Rightarrow> h)"
    if "message_to_element env w node k c (Some ?g) = (r, g2)" for w node k c r g2
    using that by (cases g2) auto
  have "keeps_nodes ?g (snd (translate_down env n m g))"
  proof (cases "\<exists>f c. content_entry ?d m = Some (f, VMsg c)")
    case True
    then obtain f c where c: "content_entry ?d m = Some (f, VMsg c)" by blast
    obtain r g2 where r: "message_to_element env OFFICIAL (text_at ?d ''node_id'' m) (fd_message f) c (Some ?g) = (r, g2)" by fastforce
    have "snd (translate_down env n m g) = (case g2 of None \<Rightarrow> ?g | Some h \<Rightarrow> h)"
      by (cases r) (simp_all add: translate_down_def Let_def c r)
    with opt [OF r] show ?thesis by simp
  next
    case False
    then have "snd (translate_down env n m g) = ?g"
      by (simp add: translate_down_def Let_def split: option.split prod.split field_value.split)
    then show ?thesis by simp
  qed
  with one show ?thesis by (rule keeps_trans)
qed

section \<open>The node of a sensor\<close>

text \<open>Looking a number up depends on the entries only, and what was found stays found.\<close>

lemma find_id_kept:
  "prefix (map node_entry m) (map node_entry m1) \<Longrightarrow> find_id ints i m = Inr (Some u) \<Longrightarrow> find_id ints i m1 = Inr (Some u)"
proof (induction m arbitrary: m1)
  case (Cons e m)
  obtain k v where e: "e = (k, v)" by fastforce
  from Cons.prems(1) obtain v1 m2 where m1: "m1 = (k, v1) # m2" "is_Id v1 = is_Id v" "id_number v1 = id_number v"
      "prefix (map node_entry m) (map node_entry m2)"
    by (cases m1) (auto simp: e)
  have "id_field ints v1 = id_field ints v" using m1(2,3) Cons.prems(2)
    by (cases v; cases v1; cases ints) (auto simp: e)
  with Cons.IH [OF m1(4)] Cons.prems(2) show ?case by (auto simp: e m1(1) bindE_Inr_iff split: if_splits)
qed simp

definition named :: "id_generator \<Rightarrow> int \<Rightarrow> string \<Rightarrow> bool" where
  "named g i u \<longleftrightarrow> list_ex (\<lambda>e. id_number (snd e) = i) (node_id_map g) \<and> get_ulid_from_id (node_id_map g) i = Inr (Some u)"

lemma named_kept:
  assumes "keeps_nodes g g1" "named g i u"
  shows "named g1 i u"
proof -
  let ?m = "node_id_map g" and ?m1 = "node_id_map g1"
  have p: "prefix (map node_entry ?m) (map node_entry ?m1)" using assms(1) by (simp add: keeps_nodes_def)
  obtain k v m where m: "?m = (k, v) # m" using assms(2) by (cases ?m) (auto simp: named_def)
  with p obtain v1 m2 where m1: "?m1 = (k, v1) # m2" "is_Id v1 = is_Id v" by (cases ?m1) auto
  have "find_id (is_Id v) i ?m = Inr (Some u)" using assms(2) by (simp add: named_def get_ulid_from_id_def m)
  from find_id_kept [OF p this] have "get_ulid_from_id ?m1 i = Inr (Some u)" by (simp add: get_ulid_from_id_def m1 del: find_id.simps)
  moreover have "list_ex (\<lambda>e. id_number (snd e) = i) ?m1"
  proof -
    obtain e where "e \<in> set ?m" "id_number (snd e) = i" using assms(2) by (auto simp: named_def list_ex_iff)
    then have "i \<in> (snd \<circ> snd) ` set (map node_entry ?m)" by (force simp: node_entry_def)
    with set_mono_prefix [OF p] have "i \<in> (snd \<circ> snd) ` set (map node_entry ?m1)" by blast
    then show ?thesis by (fastforce simp: list_ex_iff node_entry_def)
  qed
  ultimately show ?thesis by (simp add: named_def)
qed

lemma find_id_new:
  "list_all (\<lambda>e. \<not> is_Id (snd e)) m \<Longrightarrow> \<not> list_ex (\<lambda>e. id_number (snd e) = i) m
    \<Longrightarrow> find_id False i (m @ [(u, new_mapping i)]) = Inr (Some u)"
proof (induction m)
  case (Cons e m)
  obtain k v where "e = (k, v)" by fastforce
  with Cons show ?case by (cases v) auto
qed (simp add: new_mapping_def)

definition objects_only :: "id_generator \<Rightarrow> bool" where
  "objects_only g \<longleftrightarrow> list_all (\<lambda>e. \<not> is_Id (snd e)) (node_id_map g)"

lemma message_ulid_names:
  assumes "unused g (fresh g)" "objects_only g" "get_message_ulid fresh x g = (Inr ((Some u, []), x1), g1)" "source_of x = Inr (i, y)"
  shows "named g1 i u"
proof (cases "list_ex (\<lambda>e. id_number (snd e) = i) (node_id_map g)")
  case True
  with assms(3,4) show ?thesis by (auto simp: get_message_ulid_def named_def bindE_Inr_iff)
next
  case False
  with assms have u: "u = fresh g" "g1 = g\<lparr>node_id_map := AList.update u (new_mapping i) (node_id_map g)\<rparr>"
    by (auto simp: get_message_ulid_def split: if_splits)
  have g1: "node_id_map g1 = node_id_map g @ [(u, new_mapping i)]" using assms(1) by (simp add: u(2)) (simp add: u(1) unused_def update_unused)
  have h: "list_all (\<lambda>e. \<not> is_Id (snd e)) (node_id_map g)" using assms(2) by (simp add: objects_only_def)
  have "find_id False i (node_id_map g1) = Inr (Some u)" using find_id_new [OF h False] by (simp add: g1)
  moreover have "get_ulid_from_id (node_id_map g1) i = find_id False i (node_id_map g1)"
    using h by (cases "node_id_map g") (auto simp: get_ulid_from_id_def g1 new_mapping_def simp del: find_id.simps)
  ultimately show ?thesis by (simp add: named_def g1 new_mapping_def)
qed

lemma named_message_ulid:
  "named g i u \<Longrightarrow> source_of x = Inr (i, y) \<Longrightarrow> get_message_ulid fresh x g = (Inr ((Some u, []), y), g)"
  by (simp add: get_message_ulid_def named_def)

text \<open>The number that a message names, and the node under which it is translated.\<close>

definition sensor_number :: "element \<Rightarrow> int option" where
  "sensor_number x = (case source_of (remove_kid ''timestamp'' x) of Inr (i, _) \<Rightarrow> Some i | Inl e \<Rightarrow> None)"

definition sensor_node :: "up_env \<Rightarrow> element \<Rightarrow> id_generator \<Rightarrow> string option" where
  "sensor_node env x g = (if find_kid ''timestamp'' x = None then None
     else case get_message_ulid (up_uuid env) (remove_kid ''timestamp'' x) g of
       (Inr ((u, errs), _), _) \<Rightarrow> if errs = [] then u else None | _ \<Rightarrow> None)"

text \<open>What the middleware does with the identifiers, in any order: translate a message up or down, draw a
  number, make a node for a sender without a name.\<close>

inductive id_changes :: "up_env \<Rightarrow> id_generator \<Rightarrow> id_generator \<Rightarrow> bool" for env :: up_env and g :: id_generator where
  none: "id_changes env g g"
| up: "id_changes env g h \<Longrightarrow> id_changes env g (snd (translate_up env x h))"
| down: "id_changes env g h \<Longrightarrow> id_changes env g (snd (translate_down (up_xml env) n m h))"
| number: "id_changes env g h \<Longrightarrow> id_changes env g (snd (get_next_id h))"
| new_node: "id_changes env g h \<Longrightarrow> unused h u \<Longrightarrow> id_changes env g (snd (get_id_ulid_pair u h))"

lemma pair_keeps: "unused g u \<Longrightarrow> keeps_nodes g (snd (get_id_ulid_pair u g))"
  using keeps_new_node [of g u] by (simp add: get_id_ulid_pair_def keeps_nodes_def)

lemma changes_keep:
  assumes "good_env env" "id_changes env g h"
  shows "keeps_nodes g h"
  using assms(2)
proof (induction rule: id_changes.induct)
  case (number h)
  then show ?case by (simp add: get_next_id_def)
next
  case (new_node h u)
  from keeps_trans [OF new_node.IH pair_keeps [OF new_node.hyps(2)]] show ?case .
qed (auto intro: keeps_trans up_keeps [OF assms(1)] down_keeps)

text \<open>C6. The number of a sensor goes on naming the same node. When a message of a sensor was translated,
  by which a registration makes a new node, every later message with that number is translated under
  the same node, whatever messages were translated in either direction and whatever identifiers were
  drawn in between. (The dictionary of the nodes holds objects only at the first message, and the new
  names are unused ones.)\<close>

theorem sensor_keeps_node:
  assumes "good_env env" "objects_only g" "sensor_node env x g = Some u" "id_changes env (snd (translate_up env x g)) h"
    "sensor_number y = sensor_number x" "find_kid ''timestamp'' y \<noteq> None"
  shows "sensor_node env y h = Some u"
proof -
  have t: "find_kid ''timestamp'' x \<noteq> None" using assms(3) by (auto simp: sensor_node_def split: if_splits)
  obtain r g1 where r: "get_message_ulid (up_uuid env) (remove_kid ''timestamp'' x) g = (r, g1)" by fastforce
  with assms(3) t obtain x1 where r': "r = Inr ((Some u, []), x1)"
    by (auto simp: sensor_node_def split: sum.splits if_splits)
  have "unused g (up_uuid env g)" using assms(1) by (simp add: good_env_def)
  obtain i x2 where i: "source_of (remove_kid ''timestamp'' x) = Inr (i, x2)"
    using r r' by (cases "source_of (remove_kid ''timestamp'' x)") (auto simp: get_message_ulid_def)
  from message_ulid_names [OF \<open>unused g (up_uuid env g)\<close> assms(2) r [unfolded r'] i] have "named g1 i u" .
  moreover have "keeps_nodes g1 h"
    by (rule keeps_trans [OF up_after_ulid [OF assms(1) t r] changes_keep [OF assms(1,4)]])
  ultimately have n: "named h i u" using named_kept by blast
  obtain y2 where "source_of (remove_kid ''timestamp'' y) = Inr (i, y2)"
    using assms(5) i by (auto simp: sensor_number_def split: sum.splits)
  from named_message_ulid [OF n this] assms(6) show ?thesis by (simp add: sensor_node_def)
qed

section \<open>Tasks\<close>

lemma find_changed:
  assumes "mapE f ks = Inr ls" "\<And>k l. k \<in> set ks \<Longrightarrow> f k = Inr l \<Longrightarrow> tag l = tag k \<and> (has_tag t k \<longrightarrow> l = k)"
  shows "List.find (has_tag t) ls = List.find (has_tag t) ks"
  using assms
proof (induction ks arbitrary: ls)
  case (Cons k ks)
  then obtain l ls' where l: "f k = Inr l" "mapE f ks = Inr ls'" "ls = l # ls'" by (auto simp: bindE_Inr_iff)
  from Cons.prems(2) [OF _ l(1)] have "tag l = tag k \<and> (has_tag t k \<longrightarrow> l = k)" by simp
  with Cons.IH [OF l(2)] Cons.prems(2) show ?case by (auto simp: l(3) has_tag_def)
qed simp

lemma wrap_region_tag: "wrap_region p c = Inr c1 \<Longrightarrow> tag c1 = tag c"
  by (auto simp: wrap_region_def Let_def remove_kid_def split: option.splits)

lemma task_number_region:
  assumes "populate_region ''region'' p x = Inr x1"
  shows "task_number x1 = task_number x"
proof -
  obtain ks where ks: "mapE (\<lambda>c. if has_tag ''region'' c then wrap_region p c else Inr c) (kids x) = Inr ks" "x1 = set_kids ks x"
    using assms by (auto simp: populate_region_def change_kids_def bindE_Inr_iff)
  have "List.find (has_tag ''taskID'') ks = List.find (has_tag ''taskID'') (kids x)"
    by (rule find_changed [OF ks(1)]) (auto simp: has_tag_def wrap_region_tag split: if_splits)
  then show ?thesis by (simp add: task_number_def kid_for_def find_kid_def ks(2))
qed

lemma tasks_other: "k \<noteq> n \<Longrightarrow> get_map (TaskIds k) (insert_new_ulid_id_pair u i (TaskIds n) b g) = get_map (TaskIds k) g"
  by (simp add: insert_new_ulid_id_pair_def node_mapping_def change_node_def map_of_change)

lemma object_insert: "object_node k (insert_new_ulid_id_pair u i (TaskIds n) b g) = object_node k g"
proof -
  have "with_tasks m v \<noteq> Id j \<longleftrightarrow> v \<noteq> Id j" for m v j by (cases v) auto
  then show ?thesis
    by (auto simp: object_node_def insert_new_ulid_id_pair_def change_node_def map_of_change)
      (metis id_value.exhaust id_value.distinct(1) with_tasks.simps)+
qed

lemma update_again: "AList.update k v (AList.update k v m) = AList.update k v m"
  by (induction m) auto

lemma insert_task_map:
  assumes "insert_task u x node g = (Inr r, g1)" "task_number x = Inr i"
  obtains n where "node = Some n" "object_node n g" "g1 = insert_new_ulid_id_pair u i (TaskIds n) True g"
  using assms node_object_Inr [of "''task_id_map''" node g] that
  by (auto simp: insert_task_def is_node_id_map_def split: sum.splits)

lemma get_map_task:
  "object_node n g \<Longrightarrow> get_map (TaskIds n) (insert_new_ulid_id_pair u i (TaskIds n) True g) = AList.update u (new_mapping i) (get_map (TaskIds n) g)"
  using get_map_insert [of "TaskIds n" g u i True] by (simp del: get_map.simps)

text \<open>The dictionary of a node at either end of a task.\<close>

lemma tasks_after:
  assumes "convert_task u node x g = (Inr (y, sender, dest), g1)" "task_number x = Inr i" "Some k \<in> {node, sender}"
  shows "object_node k g1 \<and> get_map (TaskIds k) g1 = AList.update u (new_mapping i) (get_map (TaskIds k) g)"
proof -
  from assms(1) obtain x1 r1 g2 r2 where
    x1: "populate_region ''region'' ''regionArea'' x = Inr x1" and
    i1: "insert_task u x1 node g = (Inr r1, g2)" and i2: "insert_task u x1 sender g2 = (Inr r2, g1)"
    by (auto simp: convert_task_def bindE_Inr_iff split: sum.splits prod.splits)
  have n: "task_number x1 = Inr i" using task_number_region [OF x1] assms(2) by simp
  obtain a where a: "node = Some a" "object_node a g" "g2 = insert_new_ulid_id_pair u i (TaskIds a) True g"
    using insert_task_map [OF i1 n] .
  obtain b where b: "sender = Some b" "object_node b g2" "g1 = insert_new_ulid_id_pair u i (TaskIds b) True g2"
    using insert_task_map [OF i2 n] .
  have ob: "object_node b g" using b(2) by (simp add: a(3) object_insert)
  have k: "k = a \<or> k = b" using assms(3) a(1) b(1) by auto
  have o: "object_node k g1" using k a(2) ob by (auto simp: b(3) a(3) object_insert)
  have g2: "get_map (TaskIds a) g2 = AList.update u (new_mapping i) (get_map (TaskIds a) g)"
    using get_map_task [OF a(2)] by (simp add: a(3))
  have g1: "get_map (TaskIds b) g1 = AList.update u (new_mapping i) (get_map (TaskIds b) g2)"
    using get_map_task [OF b(2)] by (simp add: b(3))
  show ?thesis
  proof (cases "a = b")
    case True
    with o k g1 g2 show ?thesis by (simp add: update_again)
  next
    case False
    then have "get_map (TaskIds a) g1 = get_map (TaskIds a) g2" "get_map (TaskIds b) g2 = get_map (TaskIds b) g"
      using tasks_other unfolding a(3) b(3) by simp_all
    with o k g1 g2 show ?thesis by auto
  qed
qed

lemma map_for_tasks:
  assumes "fd_field f \<in> {''task_id'', ''active_task_id''}" "object_node k g"
  shows "map_for (fd_field f) (Some k) g = Inr (IdMap (TaskIds k))"
  using assms by (auto simp: map_for_def id_map_registry_def is_node_id_map_def node_object_def object_node_def map_registry_def)


text \<open>Writing stores integers in the same dictionaries. Behind one of them no object is found: the number of
  the task is read as a new ULID.\<close>

lemma integer_hides_task:
  assumes "fd_field f \<in> {''task_id'', ''active_task_id''}" "object_node k g" "get_map (TaskIds k) g = (v, Id j) # m" "j \<noteq> i"
    "list_all (\<lambda>e. \<not> is_Id (snd e)) m"
  shows "read_ulid env f (show_int i) (Some k) g = (Inr (Some (xe_ulid env g)), insert_new_ulid_id_pair (xe_ulid env g) i (TaskIds k) True g)"
proof -
  have "find_id True i m = Inr None" using assms(5)
  proof (induction m)
    case (Cons e m)
    obtain w x where "e = (w, x)" by fastforce
    with Cons show ?case by (cases x) auto
  qed simp
  with assms(1,3,4) show ?thesis
    by (auto simp: read_ulid_def map_for_tasks [OF assms(1,2)] Let_def int_of_text_def parse_show_int is_node_id_map_def)
qed

section \<open>An example\<close>

text \<open>A name that is longer than all names in use.\<close>

definition longer :: "id_generator \<Rightarrow> string" where
  "longer g = concat (map fst (node_id_map g)) @ ''x''"

lemma longer_unused: "unused g (longer g)"
proof -
  have "length u \<le> length (concat us)" if "u \<in> set us" for u :: string and us
    using that by (induction us) auto
  from this [of "longer g" "map fst (node_id_map g)"] show ?thesis by (auto simp: unused_def longer_def)
qed

definition excerpt_up :: "converter \<Rightarrow> up_env" where
  "excerpt_up cv = \<lparr>up_xml = excerpt_env\<lparr>xe_ulid := longer\<rparr>, up_converter = cv, location_type_desc = desc_of [] [],
     command_desc = desc_of [] [], up_uuid = longer, up_ulid = longer\<rparr>"

definition registration_of :: "string \<Rightarrow> element" where
  "registration_of i = set_kids [text_element ''timestamp'' None, text_element ''sensorID'' (Some i)] (new_element ''SensorRegistration'')"

definition report_of :: "string \<Rightarrow> element" where
  "report_of i = set_kids [text_element ''timestamp'' None, text_element ''sourceID'' (Some i)] (new_element ''StatusReport'')"

lemma sensor_keeps_node_witness:
  "\<exists>cv. good_env (excerpt_up cv)
    \<and> sensor_node (excerpt_up cv) (registration_of ''5'') (new_generator [] True 1) = Some ''x''
    \<and> sensor_node (excerpt_up cv) (report_of ''5'')
        (snd (translate_down (up_xml (excerpt_up cv)) ''StatusReport'' []
          (snd (translate_up (excerpt_up cv) (registration_of ''5'') (new_generator [] True 1))))) = Some ''x''"
proof -
  obtain cv where "new_converter excerpt_env ''StatusReport'' False = Inr cv" using excerpt_converter [of False] by blast
  then have "new_converter (up_xml (excerpt_up cv)) ''StatusReport'' False = Inr (up_converter (excerpt_up cv))"
    by (simp add: excerpt_up_def new_converter_def populate_cache_def)
  then have e: "good_env (excerpt_up cv)"
    using longer_unused by (auto simp: good_env_def new_names_def excerpt_up_def)
  have o: "objects_only (new_generator [] True 1)" by code_simp
  have n: "sensor_node (excerpt_up cv) (registration_of ''5'') (new_generator [] True 1) = Some ''x''"
    unfolding sensor_node_def excerpt_up_def up_env.simps by code_simp
  have same: "sensor_number (report_of ''5'') = sensor_number (registration_of ''5'')" by code_simp
  have t: "find_kid ''timestamp'' (report_of ''5'') \<noteq> None" by code_simp
  from sensor_keeps_node [OF e o n id_changes.down [OF id_changes.none] same t] e n show ?thesis by blast
qed

definition excerpt_nodes :: id_generator where
  "excerpt_nodes = (new_generator [] True 1)\<lparr>node_id_map := [(''fusion'', new_mapping 0), (''sensor'', new_mapping 5)]\<rparr>"

definition excerpt_task :: element where
  "excerpt_task = set_kids [text_element ''taskID'' (Some ''7'')] (new_element ''SensorTask'')"


end
