(* ===== verification/ApexXmlLoops.thy ===== *)
theory ApexXmlLoops
  imports ApexXmlDown
begin

text \<open>
  The loops of the two translators (\<open>sapient_apex_server/translator\<close>) over the descendants of an element,
  and the regions of a task in both directions.
\<close>

section \<open>No loop runs out of its bound\<close>

lemma set_attr_kids [simp]: "kids (del_attr k e) = kids e"
  by (cases e) simp

lemma kids_subset: "c \<in> set (kids (remove_kid t e)) \<Longrightarrow> c \<in> set (kids e)" "c \<in> set (kids (remove_kids t e)) \<Longrightarrow> c \<in> set (kids e)"
proof -
  have "c \<in> set (remove_first P xs) \<Longrightarrow> c \<in> set xs" for P and xs :: "element list"
    by (induction xs) (auto split: if_splits)
  then show "c \<in> set (kids (remove_kid t e)) \<Longrightarrow> c \<in> set (kids e)" by (simp add: remove_kid_def)
  show "c \<in> set (kids (remove_kids t e)) \<Longrightarrow> c \<in> set (kids e)" by (simp add: remove_kids_def)
qed

lemma add_location_kids: "add_location_type_field names field e = Inr e1 \<Longrightarrow> kids e1 = kids e"
  by (auto simp: add_location_type_field_def bindE_Inr_iff split: if_splits option.splits)

lemma location_type_leaves: "adds_leaves t (convert_location_type names)"
  by (auto simp: adds_leaves_def convert_location_type_def bindE_Inr_iff dest!: add_location_kids)

lemma move_units_leaves: "adds_leaves t move_units"
  unfolding adds_leaves_def move_units_def
  by (auto simp: bindE_Inr_iff dest: kids_subset(1) split: option.splits)

lemma completion_kids:
  assumes "fix_completion_time a n (c, x) = (c1, x1)" "case x of None \<Rightarrow> True | Some e \<Rightarrow> kids e = [] \<and> tag e = Some ''completionTime''"
  shows "kids c1 = kids c \<and> (case x1 of None \<Rightarrow> True | Some e \<Rightarrow> kids e = [] \<and> tag e = Some ''completionTime'')"
  using assms by (auto simp: fix_completion_time_def split: option.splits)

lemma command_leaves: "adds_leaves ''command'' (convert_command names)"
  unfolding adds_leaves_def
proof (intro allI impI ballI)
  fix e e1 k assume e1: "convert_command names e = Inr e1" and k: "k \<in> set (kids e1)"
  obtain c x where c: "fix_completion_time ''completionTime'' ''value'' (e, None) = (c, x)" by fastforce
  obtain d y where d: "fix_completion_time ''completionTimeUnits'' ''units'' (c, x) = (d, y)" by fastforce
  have f: "kids c = kids e" "case x of None \<Rightarrow> True | Some e \<Rightarrow> kids e = [] \<and> tag e = Some ''completionTime''"
    using completion_kids [OF c] by simp_all
  have g: "kids d = kids c" "case y of None \<Rightarrow> True | Some e \<Rightarrow> kids e = [] \<and> tag e = Some ''completionTime''"
    using completion_kids [OF d f(2)] by simp_all
  have "kids e1 = kids (case y of None \<Rightarrow> d | Some l \<Rightarrow> append_kid l d)"
    using e1 c d by (auto simp: convert_command_def Let_def bindE_Inr_iff)
  with k f(1) g show "k \<in> set (kids e) \<or> kids k = [] \<and> \<not> has_tag ''command'' k" by (auto simp: has_tag_def split: option.splits)
qed

lemma class_performance_leaves: "adds_leaves t convert_class_performance"
  by (auto simp: adds_leaves_def convert_class_performance_def bindE_Inr_iff dest!: kids_subset)

lemma detection_leaves: "adds_leaves ''detectionDefinition'' convert_detection"
  by (auto simp: adds_leaves_def convert_detection_def bindE_Inr_iff has_tag_def dest!: removing_subset)

lemma plain_leaves:
  "adds_leaves t performance_units" "adds_leaves t value_of_type" "adds_leaves t (\<lambda>e. Inr (lower_attrs e))" "adds_leaves t restore_location_type"
proof -
  have "kids (lower_attrs e) = kids e" for e by (cases e) simp
  then show "adds_leaves t (\<lambda>e. Inr (lower_attrs e))" by (simp add: adds_leaves_def)
  show "adds_leaves t performance_units" "adds_leaves t value_of_type"
    by (auto simp: adds_leaves_def performance_units_def value_of_type_def bindE_Inr_iff)
  show "adds_leaves t restore_location_type"
    by (auto simp: adds_leaves_def restore_location_type_def Let_def split: option.splits)
qed

lemma unspecified_leaves:
  assumes "t \<noteq> ''datum''" "t \<noteq> ''coordinateSystem''"
  shows "adds_leaves t unspecified"
  using assms by (auto simp: adds_leaves_def unspecified_def has_tag_def text_element_def Let_def split: if_splits)

text \<open>The names that the translators iterate over with the bodies of their loops.\<close>

definition translator_loops :: "(string, string list) odict \<Rightarrow> string list \<Rightarrow> (string \<times> (element \<Rightarrow> element res)) list" where
  "translator_loops names commands =
     [(''locationType'', convert_location_type names), (''classDefinition'', move_units), (''subClassDefinition'', move_units),
      (''behaviourDefinition'', move_units), (''command'', convert_command commands), (''classPerformance'', convert_class_performance),
      (''detectionDefinition'', convert_detection), (''performanceValue'', performance_units),
      (''capabilities'', \<lambda>e. Inr (lower_attrs e)), (''location'', unspecified), (''rangeBearing'', unspecified),
      (''rangeBearingCone'', unspecified), (''subClass'', value_of_type), (''locationType'', restore_location_type)]"



section \<open>Every second detection performance\<close>

text \<open>Of children that are all to be replaced, every second one is passed over and left as it is.\<close>

lemma detections_passed_over:
  assumes "\<forall>k \<in> set (kids e). has_tag ''detectionPerformance'' k \<and> first_of (first_tagged ''detectionPerformance'') (kids k) = None"
    "mapE performances (every_second (kids e)) = Inr new"
  shows "convert_detection e = Inr (set_kids (every_second (tl (kids e))
    @ map (\<lambda>a. Element (Some ''detectionPerformance'') a None None []) (concat new)) e)"
  using removing_every_second [OF assms(1), of performances] assms(2) by (simp add: convert_detection_def)

section \<open>The regions of a task\<close>

lemma find_last: "list_all (\<lambda>k. \<not> P k) ks \<Longrightarrow> List.find P (ks @ [l]) = (if P l then Some l else None)"
  by (induction ks) auto

lemma remove_last: "list_all (\<lambda>k. \<not> P k) ks \<Longrightarrow> P l \<Longrightarrow> remove_first P (ks @ [l]) = ks"
  by (induction ks) auto

text \<open>A region whose last child is its place, with no other place and no \<open>regionArea\<close>.\<close>

definition plain_region :: "element \<Rightarrow> bool" where
  "plain_region c \<longleftrightarrow> kids c \<noteq> [] \<and> tag (last (kids c)) \<in> {Some ''locationList'', Some ''rangeBearingCone''}
     \<and> list_all (\<lambda>k. tag k \<notin> {Some ''locationList'', Some ''rangeBearingCone'', Some ''regionArea''}) (butlast (kids c))"

lemma region_back:
  assumes "plain_region c"
  shows "\<exists>c1. wrap_region ''regionArea'' c = Inr c1 \<and> tag c1 = tag c \<and> unwrap_region c1 = Inr c"
proof -
  obtain g a x t ks l where c: "c = Element g a x t (ks @ [l])"
    using assms by (cases c) (metis append_butlast_last_id element.sel(5) plain_region_def)
  have l: "tag l = Some ''locationList'' \<or> tag l = Some ''rangeBearingCone''" and
    ks: "list_all (\<lambda>k. \<not> has_tag ''locationList'' k) ks" "list_all (\<lambda>k. \<not> has_tag ''rangeBearingCone'' k) ks"
      "list_all (\<lambda>k. \<not> has_tag ''regionArea'' k) ks"
    using assms by (auto simp: plain_region_def c list_all_iff has_tag_def)
  let ?area = "append_kid l (new_element ''regionArea'')"
  let ?c1 = "Element g a x t (ks @ [?area])"
  have one: "has_tag ''locationList'' l \<or> \<not> has_tag ''locationList'' l \<and> has_tag ''rangeBearingCone'' l"
    using l by (auto simp: has_tag_def)
  have w: "wrap_region ''regionArea'' c = Inr ?c1"
    using one find_last [OF ks(1), of l] find_last [OF ks(2), of l] remove_last [OF ks(1), of l] remove_last [OF ks(2), of l]
    by (auto simp: wrap_region_def Let_def find_kid_def remove_kid_def c)
  have area: "has_tag ''regionArea'' ?area" by (simp add: has_tag_def)
  have "unwrap_region ?c1 = Inr c"
    using one area find_last [OF ks(3), of ?area] remove_last [OF ks(3), of ?area]
    by (auto simp: unwrap_region_def kid_for_def find_kid_def remove_kid_def Let_def c)
  with w show ?thesis by (simp add: c)
qed

lemma regions_back:
  assumes "\<forall>k \<in> set ks. has_tag t k \<longrightarrow> (\<exists>k1. f k = Inr k1 \<and> tag k1 = tag k \<and> h k1 = Inr k)"
  shows "\<exists>ls. mapE (\<lambda>c. if has_tag t c then f c else Inr c) ks = Inr ls \<and> mapE (\<lambda>c. if has_tag t c then h c else Inr c) ls = Inr ks"
  using assms
proof (induction ks)
  case (Cons k ks)
  then obtain ls where ls: "mapE (\<lambda>c. if has_tag t c then f c else Inr c) ks = Inr ls"
    "mapE (\<lambda>c. if has_tag t c then h c else Inr c) ls = Inr ks" by auto
  show ?case
  proof (cases "has_tag t k")
    case True
    with Cons.prems obtain k1 where "f k = Inr k1" "tag k1 = tag k" "h k1 = Inr k" by auto
    with True ls show ?thesis by (auto simp: has_tag_def intro!: exI [of _ "k1 # ls"])
  next
    case False
    with ls show ?thesis by (auto intro!: exI [of _ "k # ls"])
  qed
qed simp

lemma set_kids_twice [simp]: "set_kids ks (set_kids ls e) = set_kids ks e" "set_kids (kids e) e = e"
  by (cases e; simp)+



end
