(* ===== verification/Spec2Isabelle.thy ===== *)
theory Spec2Isabelle
  imports GpsReaders Ntp UiNodes UiRoutes UiControllers ApexParse ApexStorage ApexXmlRoundTrip ApexXmlIds ApexXmlLoops Cot Templates
begin

text \<open>
  A verification development for the multi-sensor fusion stack.

  \<^bold>\<open>The program.\<close> A set of small Python services around the Apex SAPIENT middleware. Sensors (edge
  nodes) connect to Apex over TCP and exchange length-prefixed SAPIENT messages; Apex forwards them
  to fusion nodes (peers) and to a parent Apex. The \<open>gps\<close> service listens for NMEA sentences, the
  \<open>ntp\<close> service votes on the clock, the \<open>nodes\<close> service keeps a registry of named resources and
  probes them, \<open>cot-bridge\<close> turns SAPIENT messages into Cursor-on-Target events, and the \<open>ui\<close> service
  proxies the others, composes test messages and runs them as flows against Apex.

  \<^bold>\<open>Foundations.\<close>
  \<^item> \<open>MSF_Prelude\<close>: Python values (\<open>pyval\<close>), exceptions as the left side of a sum (\<open>res\<close>), ordered
    dictionaries with the locale \<open>dictionary\<close> and its interpretation on association lists, and the
    string methods the services use. \<open>PyNum\<close>: \<open>float(s)\<close>, \<open>int(s)\<close> and the printing of numbers.
    A finite float is a rational number, infinities and NaN are values; rounding is not modelled.
    \<open>PyTime\<close>: times as microseconds, their texts and the reading of them (\<open>time_util.py\<close> of Apex);
    \<open>Ids\<close>: UUID and ULID texts. \<open>Base64\<close>: the standard Base64 encoding. \<open>XmlTree\<close>: elements of
    ElementTree and what is done with them.
  \<^item> \<open>Framing\<close>: \<open>libs/sapient-encode-decode-msg\<close> and Apex' \<open>trio_util.py\<close>. The length field is a
    32-bit word and wraps; a chunked stream is a list of chunks. The locale \<open>codec\<close> gives the round
    trip of a sequence from that of one frame and is interpreted on the frames of the source.

  \<^bold>\<open>Services.\<close>
  \<^item> \<open>Nmea\<close>: \<open>services/gps/app\<close>. \<open>parse_sentence\<close> and its helpers, the listener record, a datagram, the
    HTTP reads; reachable listener states are an inductive predicate. Shown: what a reported fix
    guarantees, the bookkeeping, the checksum.
  \<^item> \<open>Ntp\<close>: \<open>services/ntp/app\<close>. Query, vote, per-source history. Shown: the voted offset lies where the
    majority is, the error of an offset, the history of a round.
  \<^item> \<open>Probes\<close>, \<open>Nodes\<close>: \<open>services/nodes/app\<close>. The four probe strategies with the locale
    \<open>probe_contract\<close>, interpreted on each; the configuration file, rounds, create, delete and patch
    as operations on file and state. Shown: the configuration stays loadable, what an operation may
    change, completeness of a round.
  \<^item> \<open>Sapient\<close>, \<open>Validators\<close>, \<open>Templates\<close>, \<open>Flow\<close>, \<open>UiRoutes\<close>: \<open>services/ui/app/message\<close>. Messages as
    records, the validator (equivalent to a list of conditions), placeholders and generated
    templates, the flow runner with its clock, inbox and background reader, and the routes above
    it. Shown: what is written on the wire decodes to the sent steps, the report is complete, a
    validated run sends only valid messages.
  \<^item> \<open>Cot\<close>: \<open>libs/sapient-msg-to-cot\<close> and \<open>services/cot-bridge\<close>. Shown: an event has a position, text is
    escaped, every frame is accounted for.
  \<^item> \<open>UiNodes\<close>, \<open>EdgeRouter\<close>, \<open>UiControllers\<close>: the other routes of \<open>services/ui/app\<close>. Shown: the proxy to
    the nodes service is transparent, no expired token is sent, what is set on the router is read
    back, the command that starts a container.

  \<^bold>\<open>The middleware.\<close> \<open>dstl/Apex-SAPIENT-Middleware/sapient_apex_server\<close>.
  \<^item> \<open>IdGenerator\<close>: \<open>translator/id_generator.py\<close>, dictionaries named by references because they are
    changed in place. \<open>ApexIo\<close>: \<open>structures.py\<close>, \<open>message_io.py\<close>.
  \<^item> \<open>ApexConn\<close>: \<open>connection.py\<close> with the patch that the build applies to it. A message record is
    shared and mutable in the source: an entry of the registry holds the number of a message, and
    \<open>store\<close> maps numbers to records. What is written is kept in order in \<open>sent\<close>.
  \<^item> \<open>ApexServer\<close>: \<open>apex_server.py\<close> as a step relation whose steps are what one task does between two
    points of suspension. The invariant \<open>server_ok\<close> ties the shared lists to the open connections.
    Shown: wiring, routing, the effect of the patch, progress of a queue. The locale
    \<open>message_parser\<close> states what the server needs of a parser and what it gives for it.
  \<^item> \<open>ApexTranslate\<close>: \<open>translator/proto_to_proto_translator.py\<close>, the rewriting of a message between the
    two protobuf versions on its JSON form. Shown: acknowledgements survive both directions; what
    an exception leaves.
  \<^item> \<open>ApexValidate\<close>: \<open>validate_proto.py\<close>. A message is a tree of fields with their options. Shown: no
    report exactly when every part of the tree is in order.
  \<^item> \<open>ApexParse\<close>: \<open>parse_proto.py\<close>, \<open>parse_xml.py\<close>. Bytes to records, with the interpretation of
    \<open>message_parser\<close>; \<open>apex_lib\<close> joins it with the modelled translators. Shown: what an accepted
    message is, and what the server does with data that raises or leaves no content.
  \<^item> \<open>ApexSchema\<close>, \<open>ApexXml\<close>: \<open>xml_conversion\<close>, the conversion between messages and elements that is driven
    by descriptors: names and the cache of fields (\<open>naming.py\<close>, \<open>from_xml_descriptor_cache.py\<close>), reading
    (\<open>from_xml_impl.py\<close>, \<open>from_xml.py\<close>), writing (\<open>to_xml.py\<close>). A descriptor is data found by name in a pool,
    a message a list of its present fields. Shown in \<open>ApexXmlRead\<close>: reading never raises, and what it
    gives fits the descriptor; in \<open>ApexXmlRound\<close> and \<open>ApexXmlRoundTrip\<close>: what is written is read back, through
    a relation \<open>shows\<close> between messages and elements and the locale \<open>text_codec\<close> for single values. The
    schema of the witnesses is an excerpt of \<open>status_report.proto\<close>.
  \<^item> \<open>ApexXmlUp\<close>, \<open>ApexXmlDown\<close>: \<open>translator/xml_to_bsi_flex_v1.py\<close> and \<open>translator/bsi_flex_v1_to_xml.py\<close>,
    the rewriting of elements around the conversion. ElementTree's iterator counts positions while the
    loops remove and append children; \<open>for_iter\<close> and \<open>iter_removing\<close> of \<open>XmlTree\<close> say what it then yields.
    Shown in \<open>ApexXmlIds\<close>: the number of a sensor goes on naming the same node whatever is translated in
    either direction, a task is known to both of its ends (and is not, behind an integer); in
    \<open>ApexXmlLoops\<close>: the loops are the unbounded ones, the regions of a task survive, every second
    \<open>detectionPerformance\<close> does not. The parsers take the translators as arguments.
  \<^item> \<open>ApexStorage\<close>: \<open>sqlite_saver.py\<close>, \<open>sqlite_thread.py\<close>. The tables as maps, rollover, batches, and
    the exchange of the list of pending items as interleaved steps of the adding threads and of the
    writing thread. Shown: batches are equivalent to single writes, references stay valid, nothing
    is lost when adding is not interrupted (and a run that loses a record when it is).

  \<open>GpsReaders\<close> relates the gps service to the two services that read its document.

  \<^bold>\<open>Parameters.\<close> What the network answers, the clock, protobuf, ElementTree, \<open>repr\<close> of a float, the
  file system and docker are arguments. Hypotheses about them are named in each statement and hold
  in its witness.

  \<^bold>\<open>Bounds and fuel.\<close> Loops are structural recursions or have a measure. The receive loops of a
  flow and of \<open>receive_until\<close> consume what arrives and end with it. \<open>to_version\<close> and \<open>change_schema\<close> may
  in principle run for ever and are partial functions into \<open>option\<close>, proved total. \<open>slices\<close> has the
  length of the list as its measure. \<open>remove_all\<close> takes the length of its text as fuel, which bounds
  the number of its steps. The descriptor cache is filled with one level of recursion for each type of
  the pool, shown to be enough. Reading and writing of elements have the size of the tree as measure;
  the loops over descendants are bounded by the depth of the tree, shown to be enough for every body.

  \<^bold>\<open>Not modelled.\<close> Sockets and start-up, the endless poll loops (each repeats a modelled round),
  logging, static pages; protobuf (de)serialisation; of Apex the process entry, which is I/O; the desktop GUI, the
  query API, the replay tool; the vendored Stone Soup library and C# test harness, which the services
  do not call; deprecated code.
\<close>

end
